(* ===== verification/Prelude.thy ===== *)
theory Prelude
  imports Main "HOL-Library.Char_ord" "HOL-Library.List_Lexorder" "HOL-Library.Sublist"
    "HOL-Library.Product_Lexorder" "HOL-Library.Multiset"
begin

text \<open>
  The shared vocabulary of the development: the collections the component theories add
  their facts to, the errors a Go call can return, the SQL idioms of package \<open>store\<close>
  (a table is the list of its rows in rowid order) and the generic list facts that carry
  the component proofs.
\<close>

section \<open>Collections\<close>

named_theorems run_simps "how the monadic combinators run"
named_theorems run_elims "what a successful run was made of"

section \<open>Machine integers and time\<close>

text \<open>Go's \<open>int64\<close>: the value of an arithmetic result after two's complement wrap-around.\<close>

definition wrap64 :: "int \<Rightarrow> int" where
  "wrap64 n = (n + 2 ^ 63) mod 2 ^ 64 - 2 ^ 63"

lemma wrap64_id [simp]: "- (2 ^ 63) \<le> n \<Longrightarrow> n < 2 ^ 63 \<Longrightarrow> wrap64 n = n"
  by (simp add: wrap64_def)

lemma wrap64_range: "- (2 ^ 63) \<le> wrap64 n \<and> wrap64 n < 2 ^ 63"
proof -
  have "0 \<le> (n + 2 ^ 63) mod 2 ^ 64" and "(n + 2 ^ 63) mod 2 ^ 64 < 2 ^ 64"
    by (rule pos_mod_sign, simp) (rule pos_mod_bound, simp)
  then show ?thesis by (simp add: wrap64_def)
qed

text \<open>Go's integer division truncates towards zero.\<close>

definition go_div :: "int \<Rightarrow> int \<Rightarrow> int" where
  "go_div a b = sgn a * sgn b * (\<bar>a\<bar> div \<bar>b\<bar>)"

lemma go_div_pos [simp]: "0 \<le> a \<Longrightarrow> 0 < b \<Longrightarrow> go_div a b = a div b"
  by (cases "a = 0") (simp_all add: go_div_def)

text \<open>
  A \<open>time.Time\<close> is the number of nanoseconds since the epoch and a \<open>time.Duration\<close> a
  number of nanoseconds, as in Go; sqlite stores whole milliseconds.
\<close>

type_synonym time = int
type_synonym duration = int

definition Millisecond :: duration where "Millisecond = 1000000"
definition Second :: duration where "Second = 1000000000"
definition Minute :: duration where "Minute = 60000000000"
definition Hour :: duration where "Hour = 3600000000000"

lemmas duration_defs = Millisecond_def Second_def Minute_def Hour_def

definition UnixMilli :: "time \<Rightarrow> int" where "UnixMilli t = t div 1000000"
definition ofMilli :: "int \<Rightarrow> time" where "ofMilli ms = ms * 1000000"
definition Milliseconds :: "duration \<Rightarrow> int" where "Milliseconds d = go_div d 1000000"

lemma UnixMilli_ofMilli [simp]: "UnixMilli (ofMilli ms) = ms"
  by (simp add: UnixMilli_def ofMilli_def)

lemma UnixMilli_mono: "s \<le> t \<Longrightarrow> UnixMilli s \<le> UnixMilli t"
  by (simp add: UnixMilli_def zdiv_mono1)

section \<open>Errors\<close>

text \<open>
  What a call can return besides \<open>nil\<close>. \<open>EWrap\<close> is \<open>fmt.Errorf("...: %w", err)\<close>, which
  keeps the identity of the error it wraps; \<open>EMsg\<close> is an error with a text and no
  identity. The texts name the operation; the values interpolated into them are left out.
\<close>

datatype error =
    EDriver nat \<comment> \<open>a statement the sqlite driver refused\<close>
  | EConstraint \<comment> \<open>a UNIQUE index or a foreign key of the schema\<close>
  | ECanceled \<comment> \<open>\<open>context.Canceled\<close>\<close>
  | ENotExist \<comment> \<open>\<open>fs.ErrNotExist\<close>\<close>
  | EExist \<comment> \<open>\<open>fs.ErrExist\<close>\<close>
  | EOS nat \<comment> \<open>any other error of package \<open>os\<close>\<close>
  | ERemote nat \<comment> \<open>an error of the publisher's share\<close>
  | ESpace int int int \<comment> \<open>\<open>*SpaceError\<close>: need, free, reserve\<close>
  | ENoManifest \<comment> \<open>\<open>errNoManifest\<close>\<close>
  | ENoApproval \<comment> \<open>\<open>store.ErrNoApproval\<close>\<close>
  | ENoPair \<comment> \<open>\<open>store.ErrNoPair\<close>\<close>
  | ENoBackup \<comment> \<open>\<open>store.ErrNoBackup\<close>\<close>
  | ENoRemote \<comment> \<open>\<open>store.ErrNoRemote\<close>\<close>
  | ERemoteInUse \<comment> \<open>\<open>store.ErrRemoteInUse\<close>\<close>
  | EUnknownKey \<comment> \<open>\<open>store.ErrUnknownKey\<close>\<close>
  | EInvalid string \<comment> \<open>\<open>*store.ValidationError\<close> of a setting\<close>
  | EMsg string
  | EWrap string error

fun root_cause :: "error \<Rightarrow> error" where
  "root_cause (EWrap _ e) = root_cause e"
| "root_cause e = e"

definition errors_Is :: "error \<Rightarrow> error \<Rightarrow> bool" where
  "errors_Is e target \<longleftrightarrow> root_cause e = target"

text \<open>\<open>err.Error()\<close>, as far as the texts are modelled.\<close>

fun Error :: "error \<Rightarrow> string" where
  "Error (EMsg s) = s"
| "Error (EWrap c e) = c @ '': '' @ Error e"
| "Error ECanceled = ''context canceled''"
| "Error ENotExist = ''file does not exist''"
| "Error EExist = ''file already exists''"
| "Error EConstraint = ''constraint failed''"
| "Error (EDriver _) = ''driver error''"
| "Error (EOS _) = ''system error''"
| "Error (ERemote _) = ''remote error''"
| "Error (ESpace _ _ _) = ''not enough room''"
| "Error ENoManifest = ''no completed scan yet - run a scan first''"
| "Error ENoApproval = ''no deletion is waiting for approval''"
| "Error ENoPair = ''no such pair''"
| "Error ENoBackup = ''no backup''"

section \<open>SQL idioms\<close>

lemma find_None: "find p xs = None \<longleftrightarrow> (\<forall>x \<in> set xs. \<not> p x)"
  by (induction xs) auto


definition sql_update :: "('r \<Rightarrow> bool) \<Rightarrow> ('r \<Rightarrow> 'r) \<Rightarrow> 'r list \<Rightarrow> 'r list" where
  "sql_update p g rows = map (\<lambda>r. if p r then g r else r) rows"

definition sql_delete :: "('r \<Rightarrow> bool) \<Rightarrow> 'r list \<Rightarrow> 'r list" where
  "sql_delete p rows = filter (\<lambda>r. \<not> p r) rows"

definition sql_count :: "('r \<Rightarrow> bool) \<Rightarrow> 'r list \<Rightarrow> int" where
  "sql_count p rows = int (length (filter p rows))"

definition sql_sum :: "('r \<Rightarrow> int) \<Rightarrow> ('r \<Rightarrow> bool) \<Rightarrow> 'r list \<Rightarrow> int" where
  "sql_sum f p rows = sum_list (map f (filter p rows))"

text \<open>
  \<open>INSERT ... ON CONFLICT (key) DO UPDATE\<close>: the row with the key is replaced by
  \<open>upd\<close> of it, and the new row is appended when there is none.
\<close>

definition sql_upsert :: "('r \<Rightarrow> bool) \<Rightarrow> 'r \<Rightarrow> ('r \<Rightarrow> 'r) \<Rightarrow> 'r list \<Rightarrow> 'r list" where
  "sql_upsert p new upd rows =
     (if \<exists>r \<in> set rows. p r then sql_update p upd rows else rows @ [new])"

text \<open>\<open>ORDER BY k LIMIT 1\<close> and \<open>ORDER BY k DESC LIMIT 1\<close>.\<close>

definition sql_first :: "('r \<Rightarrow> 'k::linorder) \<Rightarrow> ('r \<Rightarrow> bool) \<Rightarrow> 'r list \<Rightarrow> 'r option" where
  "sql_first k p rows = (case sort_key k (filter p rows) of [] \<Rightarrow> None | r # _ \<Rightarrow> Some r)"

definition sql_last :: "('r \<Rightarrow> 'k::linorder) \<Rightarrow> ('r \<Rightarrow> bool) \<Rightarrow> 'r list \<Rightarrow> 'r option" where
  "sql_last k p rows = (case rev (sort_key k (filter p rows)) of [] \<Rightarrow> None | r # _ \<Rightarrow> Some r)"

text \<open>\<open>INTEGER PRIMARY KEY\<close>: a new row takes the largest id plus one.\<close>

definition next_rowid :: "int list \<Rightarrow> int" where
  "next_rowid ids = 1 + foldr max ids 0"

lemma foldr_max_ge: "x \<in> set ids \<Longrightarrow> x \<le> foldr max ids (0::int)"
  by (induction ids) auto

lemma next_rowid_gt: "x \<in> set ids \<Longrightarrow> x < next_rowid ids"
  using foldr_max_ge [of x ids] by (simp add: next_rowid_def)

lemma next_rowid_fresh [simp]: "next_rowid ids \<notin> set ids"
  using next_rowid_gt by fastforce

lemma next_rowid_map [simp]:
  "r \<in> set rows \<Longrightarrow> next_rowid (map f rows) \<noteq> f r"
  "r \<in> set rows \<Longrightarrow> f r \<noteq> next_rowid (map f rows)"
  using next_rowid_fresh [of "map f rows"] by (metis image_eqI list.set_map)+

lemma next_rowid_pos [simp]: "0 < next_rowid ids"
  by (induction ids) (auto simp: next_rowid_def)

lemma sql_update_Nil [simp]: "sql_update p g [] = []"
  by (simp add: sql_update_def)

lemma sql_update_Cons [simp]:
  "sql_update p g (r # rs) = (if p r then g r else r) # sql_update p g rs"
  by (simp add: sql_update_def)

lemma set_sql_update: "set (sql_update p g rows) = (\<lambda>r. if p r then g r else r) ` set rows"
  by (simp add: sql_update_def)

lemma set_sql_delete [simp]: "set (sql_delete p rows) = {r \<in> set rows. \<not> p r}"
  by (auto simp: sql_delete_def)

lemma length_sql_update [simp]: "length (sql_update p g rows) = length rows"
  by (simp add: sql_update_def)

lemma sql_update_none: "\<forall>r \<in> set rows. \<not> p r \<Longrightarrow> sql_update p g rows = rows"
  by (induction rows) auto

lemma map_sql_update:
  assumes "\<And>r. p r \<Longrightarrow> f (g r) = f r"
  shows "map f (sql_update p g rows) = map f rows"
  using assms by (induction rows) auto

lemma sql_count_nonneg [simp]: "0 \<le> sql_count p rows"
  by (simp add: sql_count_def)

lemma sql_count_zero: "sql_count p rows = 0 \<longleftrightarrow> (\<forall>r \<in> set rows. \<not> p r)"
  by (auto simp: sql_count_def filter_empty_conv)

lemma sql_first_None: "sql_first k p rows = None \<longleftrightarrow> (\<forall>r \<in> set rows. \<not> p r)"
proof -
  have "sql_first k p rows = None \<longleftrightarrow> sort_key k (filter p rows) = []"
    by (simp add: sql_first_def split: list.splits)
  then show ?thesis
    by (metis filter_empty_conv set_empty set_sort)
qed

lemma sql_first_Some:
  assumes "sql_first k p rows = Some r"
  shows "r \<in> set rows" and "p r" and "\<And>r'. r' \<in> set rows \<Longrightarrow> p r' \<Longrightarrow> k r \<le> k r'"
proof -
  obtain rs where rs: "sort_key k (filter p rows) = r # rs"
    using assms by (auto simp: sql_first_def split: list.splits)
  have mem: "set (r # rs) = {x \<in> set rows. p x}"
    unfolding rs [symmetric] by simp
  then show "r \<in> set rows" and "p r" by auto
  have "sorted (map k (r # rs))"
    unfolding rs [symmetric] by simp
  then show "\<And>r'. r' \<in> set rows \<Longrightarrow> p r' \<Longrightarrow> k r \<le> k r'"
    using mem by auto
qed

lemma sql_last_None: "sql_last k p rows = None \<longleftrightarrow> (\<forall>r \<in> set rows. \<not> p r)"
proof -
  have "sql_last k p rows = None \<longleftrightarrow> sort_key k (filter p rows) = []"
    by (auto simp: sql_last_def split: list.splits)
  then show ?thesis
    by (metis filter_empty_conv set_empty set_sort)
qed

lemma sql_last_Some:
  assumes "sql_last k p rows = Some r"
  shows "r \<in> set rows" and "p r" and "\<And>r'. r' \<in> set rows \<Longrightarrow> p r' \<Longrightarrow> k r' \<le> k r"
proof -
  obtain rs where rs: "rev (sort_key k (filter p rows)) = r # rs"
    using assms by (auto simp: sql_last_def split: list.splits)
  have mem: "set (r # rs) = {x \<in> set rows. p x}"
    unfolding rs [symmetric] by simp
  then show "r \<in> set rows" and "p r" by auto
  have "sorted (rev (map k (r # rs)))"
    unfolding rs [symmetric] by (simp flip: rev_map)
  then show "\<And>r'. r' \<in> set rows \<Longrightarrow> p r' \<Longrightarrow> k r' \<le> k r"
    using mem by (auto simp: sorted_append)
qed

text \<open>
  Tables with a key: what a lookup by key finds after a write by key, and that the writes keep
  the keys distinct.
\<close>

lemma find_sql_update_key:
  assumes "\<And>r. k (g r) = k r"
  shows "find (\<lambda>r. k r = x) (sql_update (\<lambda>r. k r = y) g rows) =
    (if x = y then map_option g (find (\<lambda>r. k r = x) rows) else find (\<lambda>r. k r = x) rows)"
  using assms by (induction rows) auto

lemma find_append: "find p (xs @ ys) = (case find p xs of None \<Rightarrow> find p ys | Some x \<Rightarrow> Some x)"
  by (induction xs) auto

lemma find_sql_upsert_key:
  assumes "\<And>r. k (upd r) = k r" and "k new = y"
  shows "find (\<lambda>r. k r = x) (sql_upsert (\<lambda>r. k r = y) new upd rows) =
    (if x = y then Some (case find (\<lambda>r. k r = x) rows of None \<Rightarrow> new | Some r \<Rightarrow> upd r)
     else find (\<lambda>r. k r = x) rows)"
proof (cases "\<exists>r \<in> set rows. k r = y")
  case True
  then have "find (\<lambda>r. k r = y) rows \<noteq> None"
    by (auto simp: find_None_iff)
  with True assms(1) show ?thesis
    by (auto simp: sql_upsert_def find_sql_update_key)
next
  case False
  then have "find (\<lambda>r. k r = y) rows = None"
    by (auto simp: find_None_iff)
  with False assms(2) show ?thesis
    by (auto simp: sql_upsert_def find_append split: option.splits)
qed

lemma find_sql_delete:
  "(\<And>r. k r = x \<Longrightarrow> \<not> p r) \<Longrightarrow> find (\<lambda>r. k r = x) (sql_delete p rows) = find (\<lambda>r. k r = x) rows"
  by (induction rows) (auto simp: sql_delete_def)

lemma distinct_sql_upsert:
  assumes "distinct (map k rows)" and "\<And>r. k (upd r) = k r" and "k new = y"
  shows "distinct (map k (sql_upsert (\<lambda>r. k r = y) new upd rows))"
  using assms by (auto simp: sql_upsert_def map_sql_update)

lemma distinct_sql_delete: "distinct (map k rows) \<Longrightarrow> distinct (map k (sql_delete p rows))"
  by (simp add: sql_delete_def distinct_map_filter)

lemma find_key_mem:
  "distinct (map k rows) \<Longrightarrow> r \<in> set rows \<longleftrightarrow> find (\<lambda>r'. k r' = k r) rows = Some r"
  by (induction rows) (auto simp: image_iff)

lemma sql_count_filter: "sql_count p (filter q rows) = sql_count (\<lambda>r. q r \<and> p r) rows"
  by (simp add: sql_count_def conj_commute)

section \<open>Lists\<close>

lemma find_Some_iff: "find p xs = Some x \<Longrightarrow> x \<in> set xs \<and> p x"
  by (induction xs) (auto split: if_splits)

lemma distinct_map_inj:
  "distinct (map f xs) \<Longrightarrow> x \<in> set xs \<Longrightarrow> y \<in> set xs \<Longrightarrow> f x = f y \<Longrightarrow> x = y"
  by (auto simp: distinct_map dest: inj_onD)

lemma find_distinct:
  assumes "distinct (map f xs)" and "x \<in> set xs" and "f x = k"
  shows "find (\<lambda>r. f r = k) xs = Some x"
  using assms by (induction xs) (auto simp: image_iff)

lemma subseq_set: "subseq xs ys \<Longrightarrow> set xs \<subseteq> set ys"
  by (auto elim: list_emb_set)

lemma distinct_subseq: "subseq xs ys \<Longrightarrow> distinct ys \<Longrightarrow> distinct xs"
  by (induction rule: list_emb.induct) (auto dest: subseq_set)

lemma distinct_map_filter_key: "distinct (map f xs) \<Longrightarrow> distinct (map f (filter p xs))"
  by (simp add: distinct_map_filter)

lemma distinct_singleton: "distinct xs \<Longrightarrow> set xs = {x} \<Longrightarrow> xs = [x]"
  by (cases xs; cases "tl xs") auto

lemma distinct_map_distinct: "distinct (map f xs) \<Longrightarrow> distinct xs"
  by (simp add: distinct_map)

lemma sum_list_sort_key: "sum_list (map f (sort_key k xs)) = sum_list (map (f :: 'a \<Rightarrow> int) xs)"
  by (metis mset_map mset_sort sum_mset_sum_list)

end
