(* ===== verification/World.thy ===== *)
theory World
  imports Prelude
begin

text \<open>
  The state the program works on and the monad its operations run in.

  A \<open>world\<close> holds the tables of the sqlite store (one field per table of
  \<open>store/migrations\<close>, each the list of its rows in rowid order), the local file system and
  the environment: what the program meets and does not decide. The sqlite driver, the
  operating system and the publisher's share are not part of the program, so nothing is known
  of when they fail: \<open>faults\<close> is the list of what the next calls of them meet, \<open>None\<close> for a
  call that goes through and \<open>Some e\<close> for one that is refused, and every theorem quantifies
  over it. \<open>ticks\<close> is how far the clock moves before each \<open>time.Now()\<close>, \<open>cancel\<close> after how many
  looks at it the context turns out cancelled, \<open>volumes\<close> what \<open>statfs\<close> answers.

  An operation is a function from a world to an error or a value, and the world it leaves.
\<close>

section \<open>Rows\<close>

subsection \<open>Pairs (\<open>store/pairs.go\<close>)\<close>

datatype pair_type = PairRaw | PairJCC
datatype pair_mode = ModeMirror | ModeGuarded | ModeAdditive

record pair =
  pair_ID :: int
  pair_Name :: string
  pair_Type :: pair_type
  pair_RemoteID :: int
  pair_RemotePath :: string
  pair_LocalPath :: string
  pair_Mode :: pair_mode
  pair_Includes :: "string list"
  pair_Excludes :: "string list"
  pair_DeleteGuard :: int
  pair_Priority :: int
  pair_Owner :: string
  pair_FileMode :: string
  pair_DirMode :: string
  pair_Enabled :: bool
  pair_CreatedAt :: int
  pair_UpdatedAt :: int

subsection \<open>The transfer queue (\<open>store/jobs.go\<close>)\<close>

datatype job_op = OpAdd | OpReplace | OpDelete
datatype job_state = JobPending | JobRunning | JobVerifying | JobDone | JobFailed

text \<open>Times of a row are the milliseconds the column holds.\<close>

record job =
  job_ID :: int
  job_PairID :: int
  job_Path :: string
  job_Op :: job_op
  job_BytesTotal :: int
  job_BytesDone :: int
  job_MTime :: int
  job_State :: job_state
  job_Attempts :: int
  job_NextAttemptAt :: int
  job_Error :: "error option"
  job_CreatedAt :: int
  job_UpdatedAt :: int

subsection \<open>Walks and the manifest (\<open>store/manifest.go\<close>)\<close>

datatype scan_state = ScanRunning | ScanInterrupted | ScanDone | ScanFailed

record scan =
  scan_ID :: int
  scan_PairID :: int
  scan_StartedAt :: int
  scan_FinishedAt :: "int option"
  scan_Dirs :: int
  scan_Files :: int
  scan_Bytes :: int
  scan_State :: scan_state
  scan_Error :: string

record mrow =
  m_PairID :: int
  m_Path :: string
  m_Size :: int
  m_MTime :: int
  m_IsDir :: bool
  m_Listed :: bool
  m_ScanID :: int
  m_SeenAt :: int

subsection \<open>Local truth and history (\<open>store/files.go\<close>)\<close>

datatype file_state = FileSynced | FileAdopted

record frow =
  f_PairID :: int
  f_Path :: string
  f_Size :: int
  f_MTime :: int
  f_Hash :: string
  f_State :: file_state
  f_VerifiedAt :: int

datatype change_op = ChangeAdd | ChangeReplace | ChangeDelete | ChangeFail

record change =
  c_ID :: int
  c_TS :: int
  c_PairID :: int
  c_Path :: string
  c_Op :: change_op
  c_SizeBefore :: "int option"
  c_SizeAfter :: "int option"
  c_Error :: "error option"

subsection \<open>Deletion approvals (\<open>store/deletions.go\<close>)\<close>

datatype approval_state = ApprovalPending | ApprovalApproved | ApprovalUsed | ApprovalRejected

record approval =
  a_ID :: int
  a_PairID :: int
  a_ScanID :: int
  a_Files :: int
  a_Bytes :: int
  a_Reason :: string
  a_State :: approval_state
  a_CreatedAt :: int
  a_DecidedAt :: "int option"
  a_DecidedBy :: string
  a_UsedAt :: "int option"

subsection \<open>Database copies (\<open>store/backups.go\<close>)\<close>

datatype backup_reason = BackupReplace | BackupRollback

record backup =
  b_ID :: int
  b_PairID :: int
  b_TS :: int
  b_Path :: string
  b_RelDB :: string
  b_Size :: int
  b_MTime :: int
  b_Hash :: string
  b_Reason :: backup_reason

subsection \<open>The event log (\<open>store/events.go\<close>)\<close>

text \<open>An event is kept as its level, kind and pair; the message text and the JSON data are not.\<close>

datatype level = LevelDebug | LevelInfo | LevelWarn | LevelError
datatype kind =
    KindScanStarted | KindScanFinished | KindSyncStarted | KindSyncFinished | KindTransferFail
  | KindAdopted | KindDeleted | KindDeleteBlocked | KindDeleteDecided | KindTrashPruned
  | KindTrashRestored | KindDBReplaced | KindDBSkipped | KindDBRollback | KindLockStale
  | KindWindow | KindSpaceLow

record event =
  e_ID :: int
  e_TS :: int
  e_Level :: level
  e_Kind :: kind
  e_PairID :: "int option"

subsection \<open>Remotes and settings (\<open>store/remotes.go\<close>, \<open>store/config.go\<close>)\<close>

record remote_row =
  rm_ID :: int
  rm_Name :: string
  rm_Host :: string
  rm_Share :: string
  rm_Path :: string
  rm_User :: string
  rm_Password :: string
  rm_Domain :: string
  rm_CreatedAt :: int
  rm_UpdatedAt :: int

record config_row =
  cf_Key :: string
  cf_Value :: string
  cf_UpdatedAt :: int

record audit_row =
  au_ID :: int
  au_TS :: int
  au_Key :: string
  au_Old :: "string option"
  au_New :: string
  au_Actor :: string

section \<open>The local file system\<close>

text \<open>A node is a directory or a file with its bytes and its modification time; a path that is not
listed does not exist.\<close>

datatype fnode = FDir | FFile string time

type_synonym disk = "(string \<times> fnode) list"

section \<open>The world\<close>

record env =
  faults :: "error option list"
  clock :: time
  ticks :: "int list"
  cancel :: "nat option"
  volumes :: "(error + int \<times> int) list"

record world =
  pairs :: "pair list"
  jobs :: "job list"
  scans :: "scan list"
  manifest :: "mrow list"
  files :: "frow list"
  changes :: "change list"
  approvals :: "approval list"
  backups :: "backup list"
  events :: "event list"
  remotes :: "remote_row list"
  config :: "config_row list"
  audit :: "audit_row list"
  fs :: disk
  env :: env

definition quiet_env :: env where
  "quiet_env = \<lparr>faults = [], clock = 5000000000, ticks = [], cancel = None, volumes = []\<rparr>"

definition empty_world :: world where
  "empty_world = \<lparr>pairs = [], jobs = [], scans = [], manifest = [], files = [], changes = [],
     approvals = [], backups = [], events = [], remotes = [], config = [], audit = [], fs = [], env = quiet_env\<rparr>"

section \<open>Operations\<close>

type_synonym 'a op = "world \<Rightarrow> (error + 'a) \<times> world"

definition returnE :: "'a \<Rightarrow> 'a op" where
  "returnE a w = (Inr a, w)"

definition throwE :: "error \<Rightarrow> 'a op" where
  "throwE e w = (Inl e, w)"

definition bindE :: "'a op \<Rightarrow> ('a \<Rightarrow> 'b op) \<Rightarrow> 'b op" where
  "bindE m f w = (case m w of (Inl e, w') \<Rightarrow> (Inl e, w') | (Inr a, w') \<Rightarrow> f a w')"

text \<open>\<open>if err != nil { return fmt.Errorf(ctx + ": %w", err) }\<close>\<close>

definition wrapE :: "string \<Rightarrow> 'a op \<Rightarrow> 'a op" where
  "wrapE ctx m w = (case m w of (Inl e, w') \<Rightarrow> (Inl (EWrap ctx e), w') | r \<Rightarrow> r)"

text \<open>The result handed on as a value: the caller looks at the error itself.\<close>

definition tryE :: "'a op \<Rightarrow> (error + 'a) op" where
  "tryE m w = (case m w of (r, w') \<Rightarrow> (Inr r, w'))"

text \<open>A failure that is logged and swallowed.\<close>

definition ignoreE :: "'a op \<Rightarrow> unit op" where
  "ignoreE m w = (case m w of (r, w') \<Rightarrow> (Inr (), w'))"

text \<open>
  One call of sqlite or of the operating system. \<open>f\<close> is what it does with the world; \<open>Inl\<close> is
  a call refused for a reason the world gives (a constraint of the schema, a file that is not
  there), which leaves the world as it is.
\<close>

definition used :: "world \<Rightarrow> world" where
  "used w = w\<lparr>env := (env w)\<lparr>faults := tl (faults (env w))\<rparr>\<rparr>"

definition exec :: "(world \<Rightarrow> error + ('a \<times> world)) \<Rightarrow> 'a op" where
  "exec f w =
     (case faults (env w) of
        Some e # _ \<Rightarrow> (Inl e, used w)
      | _ \<Rightarrow> (case f (used w) of Inl e \<Rightarrow> (Inl e, used w) | Inr (a, w2) \<Rightarrow> (Inr a, w2)))"

definition query :: "(world \<Rightarrow> 'a) \<Rightarrow> 'a op" where
  "query g = exec (\<lambda>w. Inr (g w, w))"

definition now :: "time op" where
  "now w = (case ticks (env w) of
      [] \<Rightarrow> (Inr (clock (env w)), w)
    | d # ds \<Rightarrow> (Inr (clock (env w) + d),
                 w\<lparr>env := (env w)\<lparr>clock := clock (env w) + d, ticks := ds\<rparr>\<rparr>))"

text \<open>\<open>ctx.Err()\<close>: once cancelled, always cancelled.\<close>

definition ctx_Err :: "error option op" where
  "ctx_Err w = (case cancel (env w) of
      None \<Rightarrow> (Inr None, w)
    | Some 0 \<Rightarrow> (Inr (Some ECanceled), w)
    | Some (Suc n) \<Rightarrow> (Inr None, w\<lparr>env := (env w)\<lparr>cancel := Some n\<rparr>\<rparr>))"

text \<open>
  \<open>Store.tx\<close>: BEGIN, the body, COMMIT; an error on the way leaves the tables as BEGIN
  found them. The bodies touch the tables and the environment, so the rolled back world is
  the one at BEGIN with the environment moved on.
\<close>

definition rollback :: "world \<Rightarrow> world \<Rightarrow> world" where
  "rollback w w' = w\<lparr>env := env w'\<rparr>"

definition tx :: "'a op \<Rightarrow> 'a op" where
  "tx body w =
     (case wrapE ''begin transaction'' (query (\<lambda>_. ())) w of
        (Inl e, w1) \<Rightarrow> (Inl e, w1)
      | (Inr _, w1) \<Rightarrow>
         (case body w1 of
            (Inl e, w2) \<Rightarrow> (Inl e, rollback w1 w2)
          | (Inr a, w2) \<Rightarrow>
             (case wrapE ''commit'' (query (\<lambda>_. ())) w2 of
                (Inl e, w3) \<Rightarrow> (Inl e, rollback w1 w3)
              | (Inr _, w3) \<Rightarrow> (Inr a, w3))))"

fun forE :: "'x list \<Rightarrow> ('x \<Rightarrow> unit op) \<Rightarrow> unit op" where
  "forE [] f = returnE ()"
| "forE (x # xs) f = bindE (f x) (\<lambda>_. forE xs f)"

text \<open>A loop that carries local variables.\<close>

fun foldE :: "('x \<Rightarrow> 's \<Rightarrow> 's op) \<Rightarrow> 'x list \<Rightarrow> 's \<Rightarrow> 's op" where
  "foldE f [] s = returnE s"
| "foldE f (x # xs) s = bindE (f x s) (foldE f xs)"

text \<open>The foreign keys of the schema all point at \<open>pairs\<close>.\<close>

definition has_pair :: "int \<Rightarrow> world \<Rightarrow> bool" where
  "has_pair pid w = (pid \<in> set (map pair_ID (pairs w)))"

lemma has_pair_frame [simp]:
  "has_pair p (w\<lparr>env := e\<rparr>) = has_pair p w" "has_pair p (w\<lparr>jobs := js\<rparr>) = has_pair p w"
  "has_pair p (w\<lparr>scans := ss\<rparr>) = has_pair p w" "has_pair p (w\<lparr>manifest := ms\<rparr>) = has_pair p w"
  "has_pair p (w\<lparr>files := fl\<rparr>) = has_pair p w" "has_pair p (w\<lparr>changes := cs\<rparr>) = has_pair p w"
  "has_pair p (w\<lparr>approvals := aps\<rparr>) = has_pair p w" "has_pair p (w\<lparr>backups := bs\<rparr>) = has_pair p w"
  "has_pair p (w\<lparr>events := es\<rparr>) = has_pair p w" "has_pair p (w\<lparr>fs := d\<rparr>) = has_pair p w"
  by (simp_all add: has_pair_def)

section \<open>How operations run\<close>

lemma returnE_run [run_simps]: "returnE a w = (Inr a, w)"
  by (simp add: returnE_def)

lemma throwE_run [run_simps]: "throwE e w = (Inl e, w)"
  by (simp add: throwE_def)

lemma bindE_Inr:
  "bindE m f w = (Inr b, w') \<longleftrightarrow> (\<exists>a w1. m w = (Inr a, w1) \<and> f a w1 = (Inr b, w'))"
  by (auto simp: bindE_def split: prod.splits sum.splits)

lemma bindE_Inl:
  "bindE m f w = (Inl e, w') \<longleftrightarrow>
     m w = (Inl e, w') \<or> (\<exists>a w1. m w = (Inr a, w1) \<and> f a w1 = (Inl e, w'))"
  by (auto simp: bindE_def split: prod.splits sum.splits)

lemma wrapE_Inr [simp]: "wrapE c m w = (Inr b, w') \<longleftrightarrow> m w = (Inr b, w')"
  by (auto simp: wrapE_def split: prod.splits sum.splits)

lemma snd_wrapE [simp]: "snd (wrapE c m w) = snd (m w)"
  by (auto simp: wrapE_def split: prod.splits sum.splits)

lemma used_eq: "\<exists>e. used w = w\<lparr>env := e\<rparr>"
  by (auto simp: used_def)

text \<open>A table written by one call: the world afterwards, with the environment updated last.\<close>

lemma used_table:
  "(used w)\<lparr>jobs := js\<rparr> = w\<lparr>jobs := js, env := env (used w)\<rparr>"
  "(used w)\<lparr>scans := ss\<rparr> = w\<lparr>scans := ss, env := env (used w)\<rparr>"
  "(used w)\<lparr>manifest := ms\<rparr> = w\<lparr>manifest := ms, env := env (used w)\<rparr>"
  "(used w)\<lparr>files := fl\<rparr> = w\<lparr>files := fl, env := env (used w)\<rparr>"
  "(used w)\<lparr>changes := cs\<rparr> = w\<lparr>changes := cs, env := env (used w)\<rparr>"
  "(used w)\<lparr>approvals := aps\<rparr> = w\<lparr>approvals := aps, env := env (used w)\<rparr>"
  "(used w)\<lparr>backups := bs\<rparr> = w\<lparr>backups := bs, env := env (used w)\<rparr>"
  "(used w)\<lparr>events := es\<rparr> = w\<lparr>events := es, env := env (used w)\<rparr>"
  "(used w)\<lparr>fs := d\<rparr> = w\<lparr>fs := d, env := env (used w)\<rparr>"
  by (simp_all add: used_def)

lemma used_frame [simp]:
  "pairs (used w) = pairs w" "jobs (used w) = jobs w" "scans (used w) = scans w"
  "manifest (used w) = manifest w" "files (used w) = files w" "changes (used w) = changes w"
  "approvals (used w) = approvals w" "backups (used w) = backups w" "events (used w) = events w"
  "fs (used w) = fs w" "has_pair p (used w) = has_pair p w"
  by (simp_all add: used_def)

lemma exec_cases:
  "exec f w = (r, w') \<Longrightarrow> w' = used w \<and> (\<exists>e. r = Inl e) \<or> (\<exists>a. r = Inr a \<and> f (used w) = Inr (a, w'))"
  by (auto simp: exec_def split: list.splits option.splits sum.splits)

lemma exec_Inr: "exec f w = (Inr a, w') \<Longrightarrow> f (used w) = Inr (a, w')"
  by (auto dest: exec_cases)

lemma query_Inr: "query g w = (Inr a, w') \<Longrightarrow> w' = used w \<and> a = g (used w)"
  by (auto simp: query_def dest: exec_Inr)

lemma now_not_Inl [simp]: "now w \<noteq> (Inl e, w')"
  by (auto simp: now_def split: list.splits)

lemma tx_Inr:
  "tx body w = (Inr a, w') \<longleftrightarrow>
     (\<exists>w1 w2. query (\<lambda>_. ()) w = (Inr (), w1) \<and> body w1 = (Inr a, w2) \<and>
              query (\<lambda>_. ()) w2 = (Inr (), w'))"
  by (auto simp: tx_def wrapE_def split: prod.splits sum.splits)

text \<open>The same as elimination rules, for runs that are taken apart call by call.\<close>

lemma returnE_InrE [run_elims]:
  "returnE a w = (Inr b, w') \<Longrightarrow> (b = a \<Longrightarrow> w' = w \<Longrightarrow> P) \<Longrightarrow> P"
  by (simp add: returnE_run)

lemma throwE_InrE [run_elims]: "throwE e w = (Inr b, w') \<Longrightarrow> P"
  by (simp add: throwE_run)

lemma bindE_InrE [run_elims]:
  "bindE m f w = (Inr b, w') \<Longrightarrow>
   (\<And>a w1. m w = (Inr a, w1) \<Longrightarrow> f a w1 = (Inr b, w') \<Longrightarrow> P) \<Longrightarrow> P"
  by (auto simp: bindE_Inr)

lemma wrapE_InrE [run_elims]: "wrapE c m w = (Inr b, w') \<Longrightarrow> (m w = (Inr b, w') \<Longrightarrow> P) \<Longrightarrow> P"
  by simp

lemma tryE_InrE [run_elims]: "tryE m w = (Inr r, w') \<Longrightarrow> (m w = (r, w') \<Longrightarrow> P) \<Longrightarrow> P"
  by (auto simp: tryE_def split: prod.splits)

lemma ignoreE_InrE [run_elims]: "ignoreE m w = (Inr u, w') \<Longrightarrow> (\<And>r. m w = (r, w') \<Longrightarrow> P) \<Longrightarrow> P"
  by (auto simp: ignoreE_def split: prod.splits)

lemma tryE_not_Inl [simp]: "tryE m w \<noteq> (Inl e, w')"
  by (auto simp: tryE_def split: prod.splits)

lemma ignoreE_not_Inl [simp]: "ignoreE m w \<noteq> (Inl e, w')"
  by (auto simp: ignoreE_def split: prod.splits)

lemma query_InrE [run_elims]:
  "query g w = (Inr a, w') \<Longrightarrow>
   (\<And>e. w' = w\<lparr>env := e\<rparr> \<Longrightarrow> a = g (w\<lparr>env := e\<rparr>) \<Longrightarrow> P) \<Longrightarrow> P"
  by (drule query_Inr) (unfold used_def, blast)

lemma query_cases: "query g w = (r, w') \<Longrightarrow> \<exists>e. w' = w\<lparr>env := e\<rparr> \<and> (r = Inr (g w') \<or> (\<exists>x. r = Inl x))"
  unfolding query_def by (drule exec_cases) (auto simp: used_def)

lemma now_cases: "now w = (r, w') \<Longrightarrow> \<exists>t e. r = Inr t \<and> w' = w\<lparr>env := e\<rparr>"
  by (auto simp: now_def split: list.splits intro: exI [of _ "env w"])

lemma now_obtain:
  obtains t e where "now w = (Inr t, w\<lparr>env := e\<rparr>)"
  using now_cases by (metis surj_pair)

lemma now_InrE [run_elims]:
  "now w = (Inr t, w') \<Longrightarrow> (\<And>e. w' = w\<lparr>env := e\<rparr> \<Longrightarrow> P) \<Longrightarrow> P"
  using now_cases by blast

lemma ctx_Err_cases: "ctx_Err w = (r, w') \<Longrightarrow> \<exists>c e. r = Inr c \<and> w' = w\<lparr>env := e\<rparr>"
  by (auto simp: ctx_Err_def split: option.splits nat.splits intro: exI [of _ "env w"])

lemma ctx_Err_InrE [run_elims]:
  "ctx_Err w = (Inr c, w') \<Longrightarrow> (\<And>e. w' = w\<lparr>env := e\<rparr> \<Longrightarrow> P) \<Longrightarrow> P"
  using ctx_Err_cases by blast

lemma ctx_Err_not_Inl [simp]: "ctx_Err w \<noteq> (Inl e, w')"
  using ctx_Err_cases by blast

lemma tx_InrE [run_elims]:
  "tx body w = (Inr a, w') \<Longrightarrow>
   (\<And>e w2 e2. body (w\<lparr>env := e\<rparr>) = (Inr a, w2) \<Longrightarrow> w' = w2\<lparr>env := e2\<rparr> \<Longrightarrow> P) \<Longrightarrow> P"
  by (auto simp: tx_Inr elim!: query_InrE)

text \<open>An error anywhere in a transaction leaves every table as it was.\<close>

lemma tx_Inl:
  assumes "tx body w = (Inl e, w')"
  shows "\<exists>e. w' = w\<lparr>env := e\<rparr>"
proof -
  have q: "wrapE c (query (\<lambda>_. ())) v = (r, v') \<Longrightarrow> \<exists>e. v' = v\<lparr>env := e\<rparr>" for c v r v'
    using query_cases by (metis snd_conv snd_wrapE surj_pair)
  from assms show ?thesis
    unfolding tx_def rollback_def
    by (auto split: prod.splits sum.splits dest!: q query_cases)
qed

text \<open>A world in which every call goes through and the clock stands still.\<close>

abbreviation calm :: "world \<Rightarrow> bool" where
  "calm w \<equiv> faults (env w) = []"

lemma used_calm [simp]: "calm w \<Longrightarrow> used w = w"
  by (simp add: used_def)

lemma exec_quiet [run_simps]:
  "calm w \<Longrightarrow> exec f w = (case f w of Inl e \<Rightarrow> (Inl e, w) | Inr (a, w2) \<Rightarrow> (Inr a, w2))"
  by (simp add: exec_def split: sum.splits)

lemma query_quiet [run_simps]: "calm w \<Longrightarrow> query g w = (Inr (g w), w)"
  by (simp add: query_def exec_quiet)

lemma now_quiet: "\<exists>t e. now w = (Inr t, w\<lparr>env := e\<rparr>) \<and> faults e = faults (env w)"
  by (auto simp: now_def split: list.splits intro: exI [of _ "env w"])

lemma tx_quiet:
  assumes "calm w" and "body w = (Inr a, w2)" and "calm w2"
  shows "tx body w = (Inr a, w2)"
  using assms by (simp add: tx_def wrapE_def query_quiet)

section \<open>Relations between the worlds before and after\<close>

text \<open>
  \<open>keeps R m\<close>: whatever the environment does and whether \<open>m\<close> succeeds or not, \<open>R\<close> holds
  between the world \<open>m\<close> starts in and the one it leaves. An invariant \<open>I\<close> is the relation
  \<open>I w \<longrightarrow> I w'\<close>, a frame property \<open>f\<close> the relation \<open>f w' = f w\<close>; the rules for the
  combinators are the same, and are proved once for every reflexive and transitive
  relation that does not look at the environment.
\<close>

definition keeps :: "(world \<Rightarrow> world \<Rightarrow> bool) \<Rightarrow> 'a op \<Rightarrow> bool" where
  "keeps R m \<longleftrightarrow> (\<forall>w. R w (snd (m w)))"

lemma keepsD: "keeps R m \<Longrightarrow> m w = (r, w') \<Longrightarrow> R w w'"
  unfolding keeps_def by (metis snd_conv)

lemma keepsI: "(\<And>w r w'. m w = (r, w') \<Longrightarrow> R w w') \<Longrightarrow> keeps R m"
  unfolding keeps_def by (metis prod.collapse)

locale step_rel =
  fixes R :: "world \<Rightarrow> world \<Rightarrow> bool"
  assumes R_env: "R w (w\<lparr>env := e\<rparr>)"
    and R_trans: "R w w1 \<Longrightarrow> R w1 w2 \<Longrightarrow> R w w2"
begin

lemma R_refl: "R w w"
  using R_env [of w "env w"] by simp

lemma keeps_return: "keeps R (returnE a)"
  by (auto intro!: keepsI R_refl simp: returnE_run)

lemma keeps_throw: "keeps R (throwE e)"
  by (auto intro!: keepsI R_refl simp: throwE_run)

lemma keeps_bind:
  assumes "keeps R m" and "\<And>a. keeps R (f a)"
  shows "keeps R (bindE m f)"
proof (rule keepsI)
  fix w r w'
  assume run: "bindE m f w = (r, w')"
  show "R w w'"
  proof (cases r)
    case (Inl e)
    with run consider "m w = (Inl e, w')"
      | a w1 where "m w = (Inr a, w1)" and "f a w1 = (Inl e, w')"
      by (auto simp: bindE_Inl)
    then show ?thesis by cases (use assms in \<open>blast dest: keepsD intro: R_trans\<close>)+
  next
    case (Inr b)
    with run obtain a w1 where "m w = (Inr a, w1)" and "f a w1 = (Inr b, w')"
      by (auto simp: bindE_Inr)
    with assms show ?thesis by (blast dest: keepsD intro: R_trans)
  qed
qed

lemma keeps_wrap: "keeps R m \<Longrightarrow> keeps R (wrapE c m)"
  by (simp add: keeps_def)

lemma keeps_try: "keeps R m \<Longrightarrow> keeps R (tryE m)"
  by (simp add: keeps_def tryE_def case_prod_beta)

lemma keeps_ignore: "keeps R m \<Longrightarrow> keeps R (ignoreE m)"
  by (simp add: keeps_def ignoreE_def case_prod_beta)

lemma keeps_now: "keeps R now"
  by (auto intro!: keepsI R_env dest!: now_cases)

lemma keeps_ctx: "keeps R ctx_Err"
  by (auto intro!: keepsI R_env dest!: ctx_Err_cases)

lemma keeps_exec:
  assumes step: "\<And>w a w'. f w = Inr (a, w') \<Longrightarrow> R w w'"
  shows "keeps R (exec f)"
proof (rule keepsI)
  fix w r w'
  assume "exec f w = (r, w')"
  then have "w' = used w \<or> (\<exists>a. f (used w) = Inr (a, w'))"
    by (auto dest: exec_cases)
  then show "R w w'" using step R_env R_trans used_eq by metis
qed

lemma keeps_query: "keeps R (query g)"
  unfolding query_def by (rule keeps_exec) (auto intro: R_refl)

lemma keeps_tx:
  assumes body: "keeps R body"
  shows "keeps R (tx body)"
proof (rule keepsI)
  fix w r w'
  assume run: "tx body w = (r, w')"
  have rb: "R a (rollback a b)" for a b
    unfolding rollback_def by (rule R_env)
  have q: "keeps R (wrapE c (query (\<lambda>_. ())))" for c
    by (rule keeps_wrap) (rule keeps_query)
  obtain r1 w1 where s1: "wrapE ''begin transaction'' (query (\<lambda>_. ())) w = (r1, w1)"
    by (metis surj_pair)
  obtain r2 w2 where s2: "body w1 = (r2, w2)"
    by (metis surj_pair)
  obtain r3 w3 where s3: "wrapE ''commit'' (query (\<lambda>_. ())) w2 = (r3, w3)"
    by (metis surj_pair)
  have "R w w1" "R w1 w2" "R w2 w3"
    using keepsD [OF q s1] keepsD [OF body s2] keepsD [OF q s3] by auto
  moreover have "w' = w1 \<or> (\<exists>b. w' = rollback w1 b) \<or> w' = w3"
    using run s1 s2 s3 unfolding tx_def by (auto split: sum.splits prod.splits)
  ultimately show "R w w'" using rb R_trans by blast
qed

lemma keeps_for: "(\<And>x. x \<in> set xs \<Longrightarrow> keeps R (f x)) \<Longrightarrow> keeps R (forE xs f)"
  by (induction xs) (auto intro: keeps_return keeps_bind)

lemma keeps_fold: "(\<And>x s. x \<in> set xs \<Longrightarrow> keeps R (f x s)) \<Longrightarrow> keeps R (foldE f xs s)"
proof (induction xs arbitrary: s)
  case Nil
  then show ?case by (simp add: keeps_return)
next
  case (Cons x xs)
  then show ?case by (auto intro!: keeps_bind)
qed

lemma keeps_if: "(b \<Longrightarrow> keeps R m) \<Longrightarrow> (\<not> b \<Longrightarrow> keeps R m') \<Longrightarrow> keeps R (if b then m else m')"
  by simp

lemma keeps_option:
  "(x = None \<Longrightarrow> keeps R m) \<Longrightarrow> (\<And>a. x = Some a \<Longrightarrow> keeps R (f a)) \<Longrightarrow>
   keeps R (case x of None \<Rightarrow> m | Some a \<Rightarrow> f a)"
  by (cases x) auto

lemma keeps_sum:
  "(\<And>e. x = Inl e \<Longrightarrow> keeps R (f e)) \<Longrightarrow> (\<And>a. x = Inr a \<Longrightarrow> keeps R (g a)) \<Longrightarrow>
   keeps R (case x of Inl e \<Rightarrow> f e | Inr a \<Rightarrow> g a)"
  by (cases x) auto

lemma keeps_prod: "(\<And>a b. keeps R (f a b)) \<Longrightarrow> keeps R (case x of (a, b) \<Rightarrow> f a b)"
  by (cases x) auto

lemma keeps_let: "(\<And>a. keeps R (f a)) \<Longrightarrow> keeps R (let a = x in f a)"
  by (simp add: Let_def)

lemmas keeps_rules = keeps_return keeps_throw keeps_bind keeps_wrap keeps_try keeps_ignore
  keeps_now keeps_ctx keeps_query keeps_tx keeps_for keeps_fold keeps_if keeps_option keeps_sum
  keeps_prod keeps_let

end

text \<open>Invariants and frames are such relations.\<close>

locale world_inv =
  fixes I :: "world \<Rightarrow> bool"
  assumes I_env: "I (w\<lparr>env := e\<rparr>) = I w"
begin

sublocale inv: step_rel "\<lambda>w w'. I w \<longrightarrow> I w'"
  by unfold_locales (auto simp: I_env)

end

locale world_frame =
  fixes f :: "world \<Rightarrow> 'f"
  assumes f_env: "f (w\<lparr>env := e\<rparr>) = f w"
begin

sublocale frame: step_rel "\<lambda>w w'. f w' = f w"
  by unfold_locales (auto simp: f_env)

end

section \<open>Before and after\<close>

text \<open>
  \<open>triple P m Q X\<close>: started where \<open>P\<close> holds, \<open>m\<close> ends where \<open>Q\<close> holds of its value, or fails
  where \<open>X\<close> holds. The rules follow the shape of the program.
\<close>

definition triple :: "(world \<Rightarrow> bool) \<Rightarrow> 'a op \<Rightarrow> ('a \<Rightarrow> world \<Rightarrow> bool) \<Rightarrow> (world \<Rightarrow> bool) \<Rightarrow> bool" where
  "triple P m Q X \<longleftrightarrow> (\<forall>w. P w \<longrightarrow> (case m w of (Inr a, w') \<Rightarrow> Q a w' | (Inl e, w') \<Rightarrow> X w'))"

lemma tripleI:
  "(\<And>w a w'. P w \<Longrightarrow> m w = (Inr a, w') \<Longrightarrow> Q a w') \<Longrightarrow> (\<And>w e w'. P w \<Longrightarrow> m w = (Inl e, w') \<Longrightarrow> X w') \<Longrightarrow>
   triple P m Q X"
  by (auto simp: triple_def split: prod.splits sum.splits)

lemma tripleD: "triple P m Q X \<Longrightarrow> P w \<Longrightarrow> m w = (Inr a, w') \<Longrightarrow> Q a w'"
  by (fastforce simp: triple_def)

lemma tripleD_Inl: "triple P m Q X \<Longrightarrow> P w \<Longrightarrow> m w = (Inl e, w') \<Longrightarrow> X w'"
  by (fastforce simp: triple_def)

lemma triple_bind:
  assumes "triple P m Q X" and "\<And>a. triple (Q a) (f a) Q' X"
  shows "triple P (bindE m f) Q' X"
  using assms by (fastforce simp: triple_def bindE_def split: prod.splits sum.splits)

lemma triple_return: "(\<And>w. P w \<Longrightarrow> Q a w) \<Longrightarrow> triple P (returnE a) Q X"
  by (simp add: triple_def returnE_def)

lemma triple_throw: "(\<And>w. P w \<Longrightarrow> X w) \<Longrightarrow> triple P (throwE e) Q X"
  by (simp add: triple_def throwE_def)

lemma triple_wrap: "triple P m Q X \<Longrightarrow> triple P (wrapE c m) Q X"
  by (fastforce simp: triple_def wrapE_def split: prod.splits sum.splits)

lemma triple_try:
  assumes "triple P m (\<lambda>a. Q (Inr a)) (\<lambda>w. \<forall>e. Q (Inl e) w)"
  shows "triple P (tryE m) Q X"
proof (rule tripleI)
  fix w a w'
  assume "P w" and "tryE m w = (Inr a, w')"
  then show "Q a w'"
    using tripleD [OF assms] tripleD_Inl [OF assms] by (cases a) (auto elim!: tryE_InrE)
qed simp

lemma triple_ignore: "triple P m (\<lambda>_. Q ()) (Q ()) \<Longrightarrow> triple P (ignoreE m) Q X"
  by (auto simp: triple_def ignoreE_def split: prod.splits sum.splits)

lemma triple_if:
  "(b \<Longrightarrow> triple P m Q X) \<Longrightarrow> (\<not> b \<Longrightarrow> triple P m' Q X) \<Longrightarrow> triple P (if b then m else m') Q X"
  by simp

lemma triple_conseq:
  "triple P m Q X \<Longrightarrow> (\<And>w. P' w \<Longrightarrow> P w) \<Longrightarrow> (\<And>a w. Q a w \<Longrightarrow> Q' a w) \<Longrightarrow> (\<And>w. X w \<Longrightarrow> X' w) \<Longrightarrow> triple P' m Q' X'"
  by (fastforce simp: triple_def split: prod.splits sum.splits)

lemma triple_fact: "(b \<Longrightarrow> triple P m Q X) \<Longrightarrow> triple (\<lambda>w. b \<and> P w) m Q X"
  by (auto simp: triple_def)

lemma triple_ex:
  assumes "\<And>x. triple (P x) m Q X"
  shows "triple (\<lambda>w. \<exists>x. P x w) m Q X"
  by (rule tripleI) (use tripleD [OF assms] tripleD_Inl [OF assms] in blast)+

text \<open>What a call keeps may be carried over it.\<close>

lemma triple_keeps:
  assumes "keeps R m" and "\<And>w w'. P w \<Longrightarrow> R w w' \<Longrightarrow> P w'" and "\<And>w. P w \<Longrightarrow> X w"
  shows "triple P m (\<lambda>_. P) X"
proof (rule tripleI)
  show "P w'" if "P w" "m w = (Inr a, w')" for w a w'
    using assms(2) [OF that(1) keepsD [OF assms(1) that(2)]] .
  show "X w'" if "P w" "m w = (Inl e, w')" for w e w'
    using assms(3) [OF assms(2) [OF that(1) keepsD [OF assms(1) that(2)]]] .
qed

lemmas triple_rules = triple_return triple_throw triple_bind triple_wrap triple_if

section \<open>A concrete world\<close>

text \<open>One configured pair and empty tables, for the witnesses of the component theories.\<close>

definition demo_pair :: pair where
  "demo_pair = \<lparr>pair_ID = 1, pair_Name = ''music'', pair_Type = PairRaw, pair_RemoteID = 0,
     pair_RemotePath = '''', pair_LocalPath = ''/music'', pair_Mode = ModeGuarded,
     pair_Includes = [], pair_Excludes = [], pair_DeleteGuard = 0, pair_Priority = 0,
     pair_Owner = '''', pair_FileMode = '''', pair_DirMode = '''', pair_Enabled = True,
     pair_CreatedAt = 0, pair_UpdatedAt = 0\<rparr>"

definition demo_world :: world where
  "demo_world = empty_world\<lparr>pairs := [demo_pair]\<rparr>"

lemma run_snd: "fst (m w) = r \<Longrightarrow> m w = (r, snd (m w))"
  by (cases "m w") simp

end
