(* ===== verification/Jobs.thy ===== *)
theory Jobs
  imports World
begin

text \<open>
  The transfer queue, \<open>store/jobs.go\<close>: one row per file and transfer, with its own retry
  budget and resume watermark. The operations are the Go methods, statement by statement;
  \<open>put_jobs\<close> is a writing statement on the table, which the unique index \<open>jobs_open\<close> (one
  open row per pair and path) and the foreign key on \<open>pairs\<close> can refuse.
\<close>

section \<open>The table and its constraints\<close>

fun open_state :: "job_state \<Rightarrow> bool" where
  "open_state JobPending = True"
| "open_state JobRunning = True"
| "open_state JobVerifying = True"
| "open_state JobDone = False"
| "open_state JobFailed = False"

abbreviation job_open :: "job \<Rightarrow> bool" where
  "job_open j \<equiv> open_state (job_State j)"

definition job_key :: "job \<Rightarrow> int \<times> string" where
  "job_key j = (job_PairID j, job_Path j)"

definition jobs_open_index :: "job list \<Rightarrow> bool" where
  "jobs_open_index rows = distinct (map job_key (filter job_open rows))"

definition put_jobs :: "(job list \<Rightarrow> 'a \<times> job list) \<Rightarrow> 'a op" where
  "put_jobs f = exec (\<lambda>w. let (a, rows) = f (jobs w) in
     if jobs_open_index rows \<and> list_all (\<lambda>j. has_pair (job_PairID j) w) rows
     then Inr (a, w\<lparr>jobs := rows\<rparr>) else Inl EConstraint)"

section \<open>Operations\<close>

definition revive_row :: "job_op \<Rightarrow> int \<Rightarrow> int \<Rightarrow> bool \<Rightarrow> int \<Rightarrow> job \<Rightarrow> job" where
  "revive_row oper bytes mt same ms j =
     j\<lparr>job_Op := oper, job_BytesTotal := bytes, job_MTime := mt,
       job_State := JobPending, job_Attempts := 0, job_NextAttemptAt := 0,
       job_BytesDone := (if same then job_BytesDone j else 0),
       job_Error := (if same then job_Error j else None), job_UpdatedAt := ms\<rparr>"

text \<open>The newest failed row of the file, back to pending; 0 when there is none.\<close>

definition reviveFailedJob :: "int \<Rightarrow> string \<Rightarrow> job_op \<Rightarrow> int \<Rightarrow> time \<Rightarrow> int \<Rightarrow> int op" where
  "reviveFailedJob pid path oper bytes mtime ms =
     bindE (wrapE ''look up failed job'' (query (\<lambda>w.
         sql_last job_ID (\<lambda>j. job_PairID j = pid \<and> job_Path j = path \<and> job_State j = JobFailed) (jobs w))))
      (\<lambda>found. case found of
         None \<Rightarrow> returnE 0
       | Some r \<Rightarrow>
           let same = (job_BytesTotal r = bytes \<and> job_MTime r = UnixMilli mtime) in
           bindE (wrapE ''requeue failed'' (put_jobs (\<lambda>rows. ((), sql_update (\<lambda>j. job_ID j = job_ID r)
             (revive_row oper bytes (UnixMilli mtime) same ms) rows))))
            (\<lambda>_. returnE (job_ID r)))"

definition new_job :: "int \<Rightarrow> int \<Rightarrow> string \<Rightarrow> job_op \<Rightarrow> int \<Rightarrow> int \<Rightarrow> int \<Rightarrow> job" where
  "new_job i pid path oper bytes mt ms =
     \<lparr>job_ID = i, job_PairID = pid, job_Path = path, job_Op = oper, job_BytesTotal = bytes,
      job_BytesDone = 0, job_MTime = mt, job_State = JobPending, job_Attempts = 0,
      job_NextAttemptAt = 0, job_Error = None, job_CreatedAt = ms, job_UpdatedAt = ms\<rparr>"

definition refresh_row :: "job_op \<Rightarrow> int \<Rightarrow> int \<Rightarrow> int \<Rightarrow> job \<Rightarrow> job" where
  "refresh_row oper bytes mt ms j =
     j\<lparr>job_Op := oper, job_BytesTotal := bytes, job_MTime := mt, job_BytesDone := 0,
       job_State := JobPending, job_NextAttemptAt := 0, job_Error := None, job_UpdatedAt := ms\<rparr>"

definition EnqueueJob :: "int \<Rightarrow> string \<Rightarrow> job_op \<Rightarrow> int \<Rightarrow> time \<Rightarrow> int op" where
  "EnqueueJob pid path oper bytes mtime =
     bindE now (\<lambda>t. let ms = UnixMilli t in
     tx (bindE (wrapE ''look up queued job'' (query (\<lambda>w.
            find (\<lambda>j. job_PairID j = pid \<and> job_Path j = path \<and> job_open j) (jobs w))))
         (\<lambda>found. case found of
            None \<Rightarrow>
              bindE (reviveFailedJob pid path oper bytes mtime ms) (\<lambda>revived.
                if revived \<noteq> 0 then returnE revived
                else wrapE ''queue'' (put_jobs (\<lambda>rows.
                       let i = next_rowid (map job_ID rows)
                       in (i, rows @ [new_job i pid path oper bytes (UnixMilli mtime) ms]))))
          | Some r \<Rightarrow>
              if job_BytesTotal r = bytes \<and> job_MTime r = UnixMilli mtime then returnE (job_ID r)
              else
                bindE (wrapE ''requeue'' (put_jobs (\<lambda>rows. ((), sql_update (\<lambda>j. job_ID j = job_ID r)
                  (refresh_row oper bytes (UnixMilli mtime) ms) rows))))
                 (\<lambda>_. returnE (job_ID r)))))"

definition DropFailedJobs :: "int \<Rightarrow> time \<Rightarrow> int op" where
  "DropFailedJobs pid since =
     wrapE ''drop stale failed jobs'' (put_jobs (\<lambda>rows.
       let p = (\<lambda>j. job_PairID j = pid \<and> job_State j = JobFailed \<and> job_UpdatedAt j < UnixMilli since)
       in (sql_count p rows, sql_delete p rows)))"

text \<open>The claim and the attempt counter move in one statement.\<close>

definition claimable :: "int \<Rightarrow> int \<Rightarrow> job \<Rightarrow> bool" where
  "claimable pid ms j \<longleftrightarrow>
     job_PairID j = pid \<and> job_State j = JobPending \<and> job_NextAttemptAt j \<le> ms"

definition claim_row :: "int \<Rightarrow> job \<Rightarrow> job" where
  "claim_row ms j = j\<lparr>job_State := JobRunning, job_Attempts := job_Attempts j + 1, job_UpdatedAt := ms\<rparr>"

definition ClaimJob :: "int \<Rightarrow> time \<Rightarrow> job option op" where
  "ClaimJob pid t = put_jobs (\<lambda>rows.
     case sql_first (\<lambda>j. (job_NextAttemptAt j, job_ID j)) (claimable pid (UnixMilli t)) rows of
       None \<Rightarrow> (None, rows)
     | Some r \<Rightarrow> (Some (claim_row (UnixMilli t) r),
                  sql_update (\<lambda>j. job_ID j = job_ID r) (claim_row (UnixMilli t)) rows))"

definition JobProgress :: "int \<Rightarrow> int \<Rightarrow> unit op" where
  "JobProgress i bytesDone = bindE now (\<lambda>t.
     wrapE ''record progress'' (put_jobs (\<lambda>rows. ((), sql_update (\<lambda>j. job_ID j = i)
       (\<lambda>j. j\<lparr>job_BytesDone := bytesDone, job_UpdatedAt := UnixMilli t\<rparr>) rows))))"

definition SetJobState :: "int \<Rightarrow> job_state \<Rightarrow> unit op" where
  "SetJobState i st = bindE now (\<lambda>t.
     wrapE ''set job state'' (put_jobs (\<lambda>rows. ((), sql_update (\<lambda>j. job_ID j = i)
       (\<lambda>j. j\<lparr>job_State := st, job_Error := None, job_UpdatedAt := UnixMilli t\<rparr>) rows))))"

definition ReleaseJob :: "int \<Rightarrow> unit op" where
  "ReleaseJob i = bindE now (\<lambda>t.
     wrapE ''release job'' (put_jobs (\<lambda>rows. ((), sql_update (\<lambda>j. job_ID j = i)
       (\<lambda>j. j\<lparr>job_State := JobPending, job_Attempts := max (job_Attempts j - 1) 0,
              job_UpdatedAt := UnixMilli t\<rparr>) rows))))"

text \<open>The doubling stops at an hour; \<open>n\<close> is how often the loop may still double.\<close>

fun backoff_loop :: "nat \<Rightarrow> duration \<Rightarrow> duration" where
  "backoff_loop 0 d = d"
| "backoff_loop (Suc n) d = (if d < Hour then backoff_loop n (d * 2) else d)"

definition backoffFor :: "int \<Rightarrow> duration \<Rightarrow> duration" where
  "backoffFor attempts base =
     (let base = (if base \<le> 0 then 30 * Second else base);
          d = backoff_loop (nat (attempts - 1)) base
      in if d > Hour then Hour else d)"

definition FailJob :: "int \<Rightarrow> error \<Rightarrow> int \<Rightarrow> duration \<Rightarrow> bool op" where
  "FailJob i cause maxAttempts backoff =
     bindE now (\<lambda>t.
     tx (bindE (wrapE ''fail job'' (query (\<lambda>w. find (\<lambda>j. job_ID j = i) (jobs w))))
         (\<lambda>found. case found of
            None \<Rightarrow> throwE (EWrap ''fail job'' (EMsg ''sql: no rows in result set''))
          | Some r \<Rightarrow>
              let retrying = (job_Attempts r < maxAttempts);
                  st = (if retrying then JobPending else JobFailed);
                  nxt = (if retrying then UnixMilli (t + backoffFor (job_Attempts r) backoff) else 0)
              in bindE (wrapE ''fail job'' (put_jobs (\<lambda>rows. ((), sql_update (\<lambda>j. job_ID j = i)
                    (\<lambda>j. j\<lparr>job_State := st, job_NextAttemptAt := nxt, job_Error := Some cause,
                           job_UpdatedAt := UnixMilli t\<rparr>) rows))))
                  (\<lambda>_. returnE retrying))))"

definition in_flight :: "int \<Rightarrow> job \<Rightarrow> bool" where
  "in_flight pid j \<longleftrightarrow> job_PairID j = pid \<and> (job_State j = JobRunning \<or> job_State j = JobVerifying)"

definition RequeueRunning :: "int \<Rightarrow> int op" where
  "RequeueRunning pid = bindE now (\<lambda>t.
     wrapE ''requeue running jobs'' (put_jobs (\<lambda>rows.
       (sql_count (in_flight pid) rows,
        sql_update (in_flight pid)
          (\<lambda>j. j\<lparr>job_State := JobPending, job_UpdatedAt := UnixMilli t\<rparr>) rows))))"

record job_queue =
  q_Counts :: "job_state \<Rightarrow> int"
  q_PendingBytes :: int
  q_DoneBytes :: int
  q_NextAttempt :: "time option"

definition queue_next :: "int \<Rightarrow> job list \<Rightarrow> int option" where
  "queue_next pid rows =
     map_option job_NextAttemptAt (sql_first job_NextAttemptAt
       (\<lambda>j. job_PairID j = pid \<and> job_State j = JobPending \<and> job_NextAttemptAt j > 0) rows)"

text \<open>
  A group with no rows is missing from the map, and a missing key of a Go map reads as
  zero, so the counts are a function of the state.
\<close>

definition Queue :: "int \<Rightarrow> job_queue op" where
  "Queue pid =
     bindE (wrapE ''read job queue'' (query (\<lambda>w. filter (\<lambda>j. job_PairID j = pid) (jobs w))))
      (\<lambda>rows. bindE (wrapE ''read next attempt'' (query (\<lambda>w. queue_next pid (jobs w))))
      (\<lambda>nxt. returnE
         \<lparr>q_Counts = (\<lambda>st. sql_count (\<lambda>j. job_State j = st) rows),
          q_PendingBytes = sql_sum (\<lambda>j. job_BytesTotal j - job_BytesDone j) job_open rows,
          q_DoneBytes = sql_sum job_BytesTotal (\<lambda>j. job_State j = JobDone) rows,
          q_NextAttempt = map_option ofMilli nxt\<rparr>))"

record job_filter =
  jf_PairID :: "int option"
  jf_States :: "job_state list"
  jf_Limit :: int

definition ListJobs :: "job_filter \<Rightarrow> job list op" where
  "ListJobs f = wrapE ''read jobs'' (query (\<lambda>w.
     take (nat (if jf_Limit f \<le> 0 then 100 else jf_Limit f))
       (sort_key job_ID (filter
          (\<lambda>j. (case jf_PairID f of None \<Rightarrow> True | Some p \<Rightarrow> job_PairID j = p) \<and>
               (jf_States f = [] \<or> job_State j \<in> set (jf_States f))) (jobs w)))))"

definition PruneJobs :: "time \<Rightarrow> int op" where
  "PruneJobs olderThan =
     wrapE ''prune jobs'' (put_jobs (\<lambda>rows.
       let p = (\<lambda>j. job_State j = JobDone \<and> job_UpdatedAt j < UnixMilli olderThan)
       in (sql_count p rows, sql_delete p rows)))"

section \<open>The table is well formed after every operation\<close>

definition job_rows_ok :: "job list \<Rightarrow> bool" where
  "job_rows_ok rows \<longleftrightarrow>
     distinct (map job_ID rows) \<and> list_all (\<lambda>j. 0 < job_ID j \<and> 0 \<le> job_Attempts j) rows"

definition jobs_wf :: "world \<Rightarrow> bool" where
  "jobs_wf w \<longleftrightarrow> job_rows_ok (jobs w) \<and> jobs_open_index (jobs w) \<and>
     list_all (\<lambda>j. has_pair (job_PairID j) w) (jobs w)"

interpretation jobs_wf: world_inv jobs_wf
  by unfold_locales (simp_all add: jobs_wf_def)

lemma job_rows_ok_update:
  assumes "job_rows_ok rows" and "\<And>j. p j \<Longrightarrow> job_ID (g j) = job_ID j"
    and "\<And>j. p j \<Longrightarrow> 0 \<le> job_Attempts j \<Longrightarrow> 0 \<le> job_Attempts (g j)"
  shows "job_rows_ok (sql_update p g rows)"
  using assms by (auto simp: job_rows_ok_def map_sql_update list_all_iff set_sql_update)

lemma job_rows_ok_delete: "job_rows_ok rows \<Longrightarrow> job_rows_ok (sql_delete p rows)"
  by (auto simp: job_rows_ok_def list_all_iff sql_delete_def distinct_map_filter)

lemma job_rows_ok_insert:
  "job_rows_ok rows \<Longrightarrow>
   job_rows_ok (rows @ [new_job (next_rowid (map job_ID rows)) pid path oper n mt ms])"
  by (auto simp: job_rows_ok_def list_all_iff new_job_def)

lemma keeps_put_jobs:
  assumes "\<And>rows a rows'. f rows = (a, rows') \<Longrightarrow> job_rows_ok rows \<Longrightarrow> job_rows_ok rows'"
  shows "keeps (\<lambda>w w'. jobs_wf w \<longrightarrow> jobs_wf w') (put_jobs f)"
  unfolding put_jobs_def
  by (rule jobs_wf.inv.keeps_exec)
     (use assms in \<open>fastforce simp: jobs_wf_def Let_def split: prod.splits if_splits\<close>)

lemma keeps_reviveFailedJob:
  "keeps (\<lambda>w w'. jobs_wf w \<longrightarrow> jobs_wf w') (reviveFailedJob pid path oper n mt ms)"
  unfolding reviveFailedJob_def
  by (intro jobs_wf.inv.keeps_rules keeps_put_jobs)
     (auto intro!: job_rows_ok_update simp: revive_row_def)

lemma keeps_EnqueueJob:
  "keeps (\<lambda>w w'. jobs_wf w \<longrightarrow> jobs_wf w') (EnqueueJob pid path oper n mt)"
  unfolding EnqueueJob_def
  by (intro jobs_wf.inv.keeps_rules keeps_put_jobs keeps_reviveFailedJob)
     (auto intro!: job_rows_ok_update job_rows_ok_insert simp: Let_def refresh_row_def)

lemma keeps_DropFailedJobs: "keeps (\<lambda>w w'. jobs_wf w \<longrightarrow> jobs_wf w') (DropFailedJobs pid since)"
  unfolding DropFailedJobs_def
  by (intro jobs_wf.inv.keeps_rules keeps_put_jobs) (auto intro: job_rows_ok_delete simp: Let_def)

lemma keeps_ClaimJob: "keeps (\<lambda>w w'. jobs_wf w \<longrightarrow> jobs_wf w') (ClaimJob pid t)"
  unfolding ClaimJob_def
  by (intro keeps_put_jobs)
     (auto intro!: job_rows_ok_update simp: claim_row_def split: option.splits)

lemma keeps_JobProgress: "keeps (\<lambda>w w'. jobs_wf w \<longrightarrow> jobs_wf w') (JobProgress i b)"
  unfolding JobProgress_def
  by (intro jobs_wf.inv.keeps_rules keeps_put_jobs) (auto intro!: job_rows_ok_update)

lemma keeps_SetJobState: "keeps (\<lambda>w w'. jobs_wf w \<longrightarrow> jobs_wf w') (SetJobState i st)"
  unfolding SetJobState_def
  by (intro jobs_wf.inv.keeps_rules keeps_put_jobs) (auto intro!: job_rows_ok_update)

lemma keeps_ReleaseJob: "keeps (\<lambda>w w'. jobs_wf w \<longrightarrow> jobs_wf w') (ReleaseJob i)"
  unfolding ReleaseJob_def
  by (intro jobs_wf.inv.keeps_rules keeps_put_jobs) (auto intro!: job_rows_ok_update)

lemma keeps_FailJob: "keeps (\<lambda>w w'. jobs_wf w \<longrightarrow> jobs_wf w') (FailJob i e m b)"
  unfolding FailJob_def
  by (intro jobs_wf.inv.keeps_rules keeps_put_jobs) (auto intro!: job_rows_ok_update)

lemma keeps_RequeueRunning: "keeps (\<lambda>w w'. jobs_wf w \<longrightarrow> jobs_wf w') (RequeueRunning pid)"
  unfolding RequeueRunning_def
  by (intro jobs_wf.inv.keeps_rules keeps_put_jobs) (auto intro!: job_rows_ok_update)

lemma keeps_PruneJobs: "keeps (\<lambda>w w'. jobs_wf w \<longrightarrow> jobs_wf w') (PruneJobs t)"
  unfolding PruneJobs_def
  by (intro jobs_wf.inv.keeps_rules keeps_put_jobs) (auto intro: job_rows_ok_delete simp: Let_def)

lemmas jobs_keeps = keeps_EnqueueJob keeps_DropFailedJobs keeps_ClaimJob keeps_JobProgress
  keeps_SetJobState keeps_ReleaseJob keeps_FailJob keeps_RequeueRunning keeps_PruneJobs

section \<open>The open index\<close>

lemma job_rows_inj:
  "job_rows_ok rows \<Longrightarrow> j \<in> set rows \<Longrightarrow> j' \<in> set rows \<Longrightarrow> job_ID j = job_ID j' \<Longrightarrow> j = j'"
  unfolding job_rows_ok_def by (blast dest: distinct_map_inj)

lemma jobs_open_index_iff:
  assumes "job_rows_ok rows"
  shows "jobs_open_index rows \<longleftrightarrow>
    (\<forall>j \<in> set rows. \<forall>j' \<in> set rows. job_open j \<and> job_open j' \<and> job_key j = job_key j' \<longrightarrow> j = j')"
proof -
  have "distinct rows"
    using assms by (simp add: job_rows_ok_def distinct_map)
  then show ?thesis
    by (auto simp: jobs_open_index_def distinct_map inj_on_def)
qed

text \<open>Closing rows, or leaving them open, cannot violate the index.\<close>

lemma jobs_open_index_update:
  assumes "jobs_open_index rows" and "\<And>j. p j \<Longrightarrow> job_key (g j) = job_key j"
    and "\<And>j. j \<in> set rows \<Longrightarrow> p j \<Longrightarrow> job_open (g j) \<Longrightarrow> job_open j"
  shows "jobs_open_index (sql_update p g rows)"
proof -
  have "subseq (map job_key (filter job_open (sql_update p g rows)))
               (map job_key (filter job_open rows))"
    using assms(2,3) by (induction rows) auto
  then show ?thesis
    using assms(1) unfolding jobs_open_index_def by (rule distinct_subseq)
qed

lemma jobs_open_index_delete: "jobs_open_index rows \<Longrightarrow> jobs_open_index (sql_delete p rows)"
  unfolding jobs_open_index_def sql_delete_def
  by (erule distinct_subseq [rotated]) (intro subseq_map subseq_filter subseq_filter_left)

text \<open>Opening one row cannot either, when its file has no open row.\<close>

lemma jobs_open_index_open:
  assumes ok: "job_rows_ok rows" and idx: "jobs_open_index rows" and r: "r \<in> set rows"
    and none: "\<And>j. j \<in> set rows \<Longrightarrow> job_open j \<Longrightarrow> job_key j \<noteq> job_key r"
    and key: "\<And>j. job_key (g j) = job_key j" and same: "\<And>j. job_ID (g j) = job_ID j"
  shows "jobs_open_index (sql_update (\<lambda>j. job_ID j = job_ID r) g rows)"
proof -
  let ?rows = "sql_update (\<lambda>j. job_ID j = job_ID r) g rows"
  have ids: "distinct (map job_ID ?rows)"
    using ok same by (simp add: job_rows_ok_def map_sql_update)
  have uniq: "j = j'"
    if "j \<in> set rows" "j' \<in> set rows" "job_open j" "job_open j'" "job_key j = job_key j'" for j j'
    using that idx jobs_open_index_iff [OF ok] by blast
  have only: "j = r" if "j \<in> set rows" "job_ID j = job_ID r" for j
    using that r job_rows_inj [OF ok] by blast
  have "x = y" if x: "x \<in> set ?rows" "job_open x" and y: "y \<in> set ?rows" "job_open y"
      and k: "job_key x = job_key y" for x y
    using x y k uniq only none key unfolding set_sql_update
    by (auto split: if_splits) (metis key)+
  moreover have "distinct ?rows"
    using ids by (simp add: distinct_map)
  ultimately show ?thesis
    by (auto simp: jobs_open_index_def distinct_map inj_on_def)
qed

section \<open>What the operations do\<close>

lemma put_jobs_InrE [run_elims]:
  "put_jobs f w = (Inr a, w') \<Longrightarrow>
   (\<And>rows e. f (jobs w) = (a, rows) \<Longrightarrow> jobs_open_index rows \<Longrightarrow>
      w' = w\<lparr>jobs := rows, env := e\<rparr> \<Longrightarrow> P) \<Longrightarrow> P"
  by (auto simp: put_jobs_def Let_def used_table dest!: exec_Inr split: prod.splits if_splits)

lemma put_jobs_quiet:
  "calm w \<Longrightarrow> f (jobs w) = (a, rows) \<Longrightarrow> jobs_open_index rows \<Longrightarrow>
   list_all (\<lambda>j. has_pair (job_PairID j) w) rows \<Longrightarrow> put_jobs f w = (Inr a, w\<lparr>jobs := rows\<rparr>)"
  by (simp add: put_jobs_def exec_quiet Let_def)

subsection \<open>Queueing\<close>

text \<open>
  The whole of \<open>EnqueueJob\<close> as one function on the table: what the transaction amounts to
  when every statement of it runs.
\<close>

definition enqueue_rows ::
  "int \<Rightarrow> string \<Rightarrow> job_op \<Rightarrow> int \<Rightarrow> int \<Rightarrow> int \<Rightarrow> job list \<Rightarrow> int \<times> job list" where
  "enqueue_rows pid path oper bytes mt ms rows =
     (case find (\<lambda>j. job_PairID j = pid \<and> job_Path j = path \<and> job_open j) rows of
        Some r \<Rightarrow>
          if job_BytesTotal r = bytes \<and> job_MTime r = mt then (job_ID r, rows)
          else (job_ID r, sql_update (\<lambda>j. job_ID j = job_ID r) (refresh_row oper bytes mt ms) rows)
      | None \<Rightarrow>
         (case sql_last job_ID
                 (\<lambda>j. job_PairID j = pid \<and> job_Path j = path \<and> job_State j = JobFailed) rows of
            Some r \<Rightarrow> (job_ID r, sql_update (\<lambda>j. job_ID j = job_ID r)
              (revive_row oper bytes mt (job_BytesTotal r = bytes \<and> job_MTime r = mt) ms) rows)
          | None \<Rightarrow> (next_rowid (map job_ID rows),
              rows @ [new_job (next_rowid (map job_ID rows)) pid path oper bytes mt ms])))"

lemma reviveFailedJob_Inr:
  assumes "reviveFailedJob pid path oper bytes mtime ms w = (Inr i, w')"
  shows "(case sql_last job_ID
            (\<lambda>j. job_PairID j = pid \<and> job_Path j = path \<and> job_State j = JobFailed) (jobs w) of
            None \<Rightarrow> i = 0 \<and> jobs w' = jobs w
          | Some r \<Rightarrow> i = job_ID r \<and> jobs w' = sql_update (\<lambda>j. job_ID j = job_ID r)
              (revive_row oper bytes (UnixMilli mtime)
                 (job_BytesTotal r = bytes \<and> job_MTime r = UnixMilli mtime) ms) (jobs w))"
  using assms unfolding reviveFailedJob_def Let_def
  by (auto elim!: run_elims split: option.splits)

lemma EnqueueJob_Inr:
  assumes wf: "jobs_wf w" and run: "EnqueueJob pid path oper bytes mtime w = (Inr i, w')"
  shows "\<exists>ms. enqueue_rows pid path oper bytes (UnixMilli mtime) ms (jobs w) = (i, jobs w')"
proof -
  have pos: "job_ID r \<noteq> 0" if "r \<in> set (jobs w)" for r
    using wf that by (auto simp: jobs_wf_def job_rows_ok_def list_all_iff)
  show ?thesis
  proof (cases "find (\<lambda>j. job_PairID j = pid \<and> job_Path j = path \<and> job_open j) (jobs w)")
    case (Some r)
    with run show ?thesis
      unfolding EnqueueJob_def Let_def enqueue_rows_def
      by (auto elim!: run_elims split: if_splits; blast)
  next
    case None
    with run obtain t e rv w1 w2 e2
      where rev: "reviveFailedJob pid path oper bytes mtime (UnixMilli t)
          (w\<lparr>env := e\<rparr>) = (Inr rv, w1)"
        and rest: "(if rv \<noteq> 0 then returnE rv
          else wrapE ''queue'' (put_jobs (\<lambda>rows. let i = next_rowid (map job_ID rows)
            in (i, rows @ [new_job i pid path oper bytes (UnixMilli mtime) (UnixMilli t)])))) w1 = (Inr i, w2)"
        and w': "w' = w2\<lparr>env := e2\<rparr>"
      unfolding EnqueueJob_def Let_def by (auto elim!: run_elims)
    have "enqueue_rows pid path oper bytes (UnixMilli mtime) (UnixMilli t) (jobs w) = (i, jobs w')"
    proof (cases "sql_last job_ID
        (\<lambda>j. job_PairID j = pid \<and> job_Path j = path \<and> job_State j = JobFailed) (jobs w)")
      case (Some r)
      with pos have "job_ID r \<noteq> 0" by (blast dest: sql_last_Some(1))
      with Some None rest w' reviveFailedJob_Inr [OF rev] show ?thesis
        by (auto simp: enqueue_rows_def elim!: run_elims)
    next
      case none: None
      with None rest w' reviveFailedJob_Inr [OF rev] show ?thesis
        by (auto simp: enqueue_rows_def Let_def elim!: run_elims)
    qed
    then show ?thesis by blast
  qed
qed

lemma find_open_key:
  "find (\<lambda>j. job_PairID j = pid \<and> job_Path j = path \<and> job_open j) rows = None \<Longrightarrow>
   j \<in> set rows \<Longrightarrow> job_open j \<Longrightarrow> job_key j \<noteq> (pid, path)"
  by (auto simp: find_None job_key_def)

lemma enqueue_rows_index:
  assumes ok: "job_rows_ok rows" and idx: "jobs_open_index rows"
    and enq: "enqueue_rows pid path oper bytes mt ms rows = (i, rows')"
  shows "jobs_open_index rows'"
proof (cases "find (\<lambda>j. job_PairID j = pid \<and> job_Path j = path \<and> job_open j) rows")
  case (Some r)
  then have "r \<in> set rows" and "job_open r" by (auto dest: find_Some_iff)
  then have "jobs_open_index (sql_update (\<lambda>j. job_ID j = job_ID r) (refresh_row oper bytes mt ms) rows)"
    using idx job_rows_inj [OF ok]
    by (intro jobs_open_index_update) (auto simp: refresh_row_def job_key_def)
  with Some enq idx show ?thesis
    by (auto simp: enqueue_rows_def split: if_splits)
next
  case None
  note free = find_open_key [OF None]
  show ?thesis
  proof (cases "sql_last job_ID
      (\<lambda>j. job_PairID j = pid \<and> job_Path j = path \<and> job_State j = JobFailed) rows")
    case (Some r)
    then have r: "r \<in> set rows" "job_key r = (pid, path)"
      using sql_last_Some [OF Some] by (auto simp: job_key_def)
    with enq None Some show ?thesis
      by (auto simp: enqueue_rows_def intro!: jobs_open_index_open [OF ok idx] dest: free)
         (auto simp: revive_row_def job_key_def)
  next
    case none: None
    with None enq have "rows' = rows @ [new_job i pid path oper bytes mt ms]"
      by (auto simp: enqueue_rows_def)
    with idx free show ?thesis
      by (auto simp: jobs_open_index_def new_job_def job_key_def)
  qed
qed

lemma enqueue_rows_job:
  assumes ok: "job_rows_ok rows" and enq: "enqueue_rows pid path oper bytes mt ms rows = (i, rows')"
  shows "\<exists>j \<in> set rows'. job_ID j = i \<and> job_key j = (pid, path) \<and> job_open j \<and>
     job_BytesTotal j = bytes \<and> job_MTime j = mt \<and>
     (job_BytesDone j \<noteq> 0 \<longrightarrow> (\<exists>r \<in> set rows. job_ID r = i \<and> job_key r = (pid, path) \<and>
        job_BytesTotal r = bytes \<and> job_MTime r = mt \<and> job_BytesDone r = job_BytesDone j))"
proof (cases "find (\<lambda>j. job_PairID j = pid \<and> job_Path j = path \<and> job_open j) rows")
  case (Some r)
  let ?same = "job_BytesTotal r = bytes \<and> job_MTime r = mt"
  let ?j = "if ?same then r else refresh_row oper bytes mt ms r"
  have "i = job_ID r" and "?j \<in> set rows'" and "r \<in> set rows" "job_key r = (pid, path)" "job_open r"
    using enq Some find_Some_iff [OF Some]
    by (auto simp: enqueue_rows_def set_sql_update job_key_def intro: rev_image_eqI split: if_splits)
  then show ?thesis
    by (intro bexI [of _ ?j]) (auto simp: refresh_row_def job_key_def)
next
  case None
  show ?thesis
  proof (cases "sql_last job_ID
      (\<lambda>j. job_PairID j = pid \<and> job_Path j = path \<and> job_State j = JobFailed) rows")
    case (Some r)
    let ?j = "revive_row oper bytes mt (job_BytesTotal r = bytes \<and> job_MTime r = mt) ms r"
    have "i = job_ID r" and "?j \<in> set rows'" and "r \<in> set rows" "job_key r = (pid, path)"
      using enq None Some sql_last_Some [OF Some]
      by (auto simp: enqueue_rows_def set_sql_update job_key_def intro: rev_image_eqI)
    then show ?thesis
      by (intro bexI [of _ ?j]) (auto simp: revive_row_def job_key_def)
  next
    case none: None
    with None enq show ?thesis
      by (auto simp: enqueue_rows_def new_job_def job_key_def)
  qed
qed

lemma enqueue_rows_key:
  assumes ok: "job_rows_ok rows" and enq: "enqueue_rows pid path oper bytes mt ms rows = (i, rows')"
    and j: "j \<in> set rows" "job_ID j = i"
  shows "job_key j = (pid, path)"
proof (cases "find (\<lambda>j. job_PairID j = pid \<and> job_Path j = path \<and> job_open j) rows")
  case (Some r)
  with enq have "i = job_ID r" by (auto simp: enqueue_rows_def split: if_splits)
  with j Some job_rows_inj [OF ok] find_Some_iff [OF Some] show ?thesis by (auto simp: job_key_def)
next
  case None
  show ?thesis
  proof (cases "sql_last job_ID (\<lambda>j. job_PairID j = pid \<and> job_Path j = path \<and> job_State j = JobFailed) rows")
    case (Some r)
    with enq None have "i = job_ID r" by (auto simp: enqueue_rows_def)
    with j sql_last_Some [OF Some] job_rows_inj [OF ok] show ?thesis by (auto simp: job_key_def)
  next
    case none: None
    with enq None j show ?thesis by (auto simp: enqueue_rows_def)
  qed
qed

lemma enqueue_rows_others:
  assumes "enqueue_rows pid path oper bytes mt ms rows = (i, rows')"
  shows "{j \<in> set rows'. job_ID j \<noteq> i} = {j \<in> set rows. job_ID j \<noteq> i}"
  using assms
  by (auto simp: enqueue_rows_def set_sql_update refresh_row_def revive_row_def new_job_def
      split: option.splits if_splits)

lemma jobs_wf_D: "jobs_wf w \<Longrightarrow> job_rows_ok (jobs w)" "jobs_wf w \<Longrightarrow> jobs_open_index (jobs w)"
  by (simp_all add: jobs_wf_def)

lemma EnqueueJob_quiet:
  assumes wf: "jobs_wf w" and pair: "has_pair pid w" and quiet: "calm w"
  shows "\<exists>i w'. EnqueueJob pid path oper bytes mtime w = (Inr i, w') \<and> calm w'"
proof -
  obtain t e where t: "now w = (Inr t, w\<lparr>env := e\<rparr>)" (is "_ = (_, ?w0)") and "faults e = []"
    using quiet now_quiet by metis
  define w0 where "w0 = ?w0"
  have w0: "jobs w0 = jobs w" "pairs w0 = pairs w" "calm w0"
    using \<open>faults e = []\<close> by (simp_all add: w0_def)
  note t = t [folded w0_def]
  obtain i rows where enq: "enqueue_rows pid path oper bytes (UnixMilli mtime) (UnixMilli t) (jobs w) = (i, rows)"
    by (metis surj_pair)
  have idx: "jobs_open_index rows"
    using enqueue_rows_index [OF jobs_wf_D [OF wf] enq] .
  have upd: "list_all (\<lambda>j. has_pair (job_PairID j) w0) (sql_update p g (jobs w))"
    if "\<And>j. job_PairID (g j) = job_PairID j" for p g
    using wf w0 that by (auto simp: jobs_wf_def list_all_iff set_sql_update has_pair_def)
  have fk: "list_all (\<lambda>j. has_pair (job_PairID j) w0) rows"
    using enq wf w0 pair upd
    by (auto simp: enqueue_rows_def refresh_row_def revive_row_def new_job_def jobs_wf_def has_pair_def
        split: option.splits if_splits)
  have put: "put_jobs f w0 = (Inr (fst (f (jobs w))), w0\<lparr>jobs := rows\<rparr>)"
    if "snd (f (jobs w)) = rows" for f :: "job list \<Rightarrow> 'b \<times> job list"
    using that idx fk w0 by (intro put_jobs_quiet) auto
  note run = EnqueueJob_def Let_def bindE_def t tx_def wrapE_def query_quiet w0 returnE_run
  show ?thesis
  proof (cases "find (\<lambda>j. job_PairID j = pid \<and> job_Path j = path \<and> job_open j) (jobs w)")
    case (Some r)
    show ?thesis
    proof (cases "job_BytesTotal r = bytes \<and> job_MTime r = UnixMilli mtime")
      case True
      with Some show ?thesis by (simp add: run)
    next
      case False
      with Some enq have "rows = sql_update (\<lambda>j. job_ID j = job_ID r)
          (refresh_row oper bytes (UnixMilli mtime) (UnixMilli t)) (jobs w)"
        by (auto simp: enqueue_rows_def)
      with Some False show ?thesis by (auto simp: run put)
    qed
  next
    case None
    show ?thesis
    proof (cases "sql_last job_ID
        (\<lambda>j. job_PairID j = pid \<and> job_Path j = path \<and> job_State j = JobFailed) (jobs w)")
      case (Some r)
      have "job_ID r \<noteq> 0"
        using wf sql_last_Some(1) [OF Some] by (auto simp: jobs_wf_def job_rows_ok_def list_all_iff)
      moreover have "rows = sql_update (\<lambda>j. job_ID j = job_ID r) (revive_row oper bytes
          (UnixMilli mtime) (job_BytesTotal r = bytes \<and> job_MTime r = UnixMilli mtime)
          (UnixMilli t)) (jobs w)"
        using None Some enq by (auto simp: enqueue_rows_def)
      ultimately show ?thesis
        using None Some by (auto simp: run reviveFailedJob_def put)
    next
      case none: None
      with enq None have "rows = jobs w @ [new_job (next_rowid (map job_ID (jobs w))) pid path
          oper bytes (UnixMilli mtime) (UnixMilli t)]"
        by (auto simp: enqueue_rows_def)
      with None none show ?thesis by (auto simp: run reviveFailedJob_def put)
    qed
  qed
qed

subsection \<open>Claiming, failing, handing back\<close>


lemma ClaimJob_Some:
  assumes "ClaimJob pid t w = (Inr (Some j), w')"
  obtains r where "r \<in> set (jobs w)" and "claimable pid (UnixMilli t) r"
    and "\<And>r'. r' \<in> set (jobs w) \<Longrightarrow> claimable pid (UnixMilli t) r' \<Longrightarrow>
           (job_NextAttemptAt r, job_ID r) \<le> (job_NextAttemptAt r', job_ID r')"
    and "j = claim_row (UnixMilli t) r"
    and "jobs w' = sql_update (\<lambda>x. job_ID x = job_ID r) (claim_row (UnixMilli t)) (jobs w)"
proof -
  from assms obtain r where r: "sql_first (\<lambda>j. (job_NextAttemptAt j, job_ID j))
      (claimable pid (UnixMilli t)) (jobs w) = Some r"
    and "j = claim_row (UnixMilli t) r"
    and "jobs w' = sql_update (\<lambda>x. job_ID x = job_ID r) (claim_row (UnixMilli t)) (jobs w)"
    unfolding ClaimJob_def by (auto elim!: run_elims split: option.splits)
  with that [of r] sql_first_Some [OF r] show thesis by blast
qed

lemma ReleaseJob_Inr:
  "ReleaseJob i w = (Inr (), w') \<Longrightarrow> \<exists>ms. jobs w' = sql_update (\<lambda>j. job_ID j = i)
     (\<lambda>j. j\<lparr>job_State := JobPending, job_Attempts := max (job_Attempts j - 1) 0,
            job_UpdatedAt := ms\<rparr>) (jobs w)"
  unfolding ReleaseJob_def by (auto elim!: run_elims; blast)

lemma FailJob_Inr:
  assumes "FailJob i cause m b w = (Inr retrying, w')"
  obtains r t w1 where "now w = (Inr t, w1)" and "find (\<lambda>j. job_ID j = i) (jobs w) = Some r"
    and "retrying \<longleftrightarrow> job_Attempts r < m"
    and "jobs w' = sql_update (\<lambda>j. job_ID j = i)
       (\<lambda>j. j\<lparr>job_State := (if retrying then JobPending else JobFailed),
         job_NextAttemptAt := (if retrying then UnixMilli (t + backoffFor (job_Attempts r) b) else 0),
         job_Error := Some cause, job_UpdatedAt := UnixMilli t\<rparr>) (jobs w)"
proof -
  from assms obtain t w1 where n: "now w = (Inr t, w1)"
    and run: "tx (bindE (wrapE ''fail job'' (query (\<lambda>w. find (\<lambda>j. job_ID j = i) (jobs w))))
         (\<lambda>found. case found of
            None \<Rightarrow> throwE (EWrap ''fail job'' (EMsg ''sql: no rows in result set''))
          | Some r \<Rightarrow>
              let retrying = (job_Attempts r < m);
                  st = (if retrying then JobPending else JobFailed);
                  nxt = (if retrying then UnixMilli (t + backoffFor (job_Attempts r) b) else 0)
              in bindE (wrapE ''fail job'' (put_jobs (\<lambda>rows. ((), sql_update (\<lambda>j. job_ID j = i)
                    (\<lambda>j. j\<lparr>job_State := st, job_NextAttemptAt := nxt, job_Error := Some cause,
                           job_UpdatedAt := UnixMilli t\<rparr>) rows))))
                  (\<lambda>_. returnE retrying))) w1 = (Inr retrying, w')"
    unfolding FailJob_def by (blast elim: bindE_InrE)
  moreover from n have "jobs w1 = jobs w" by (auto dest: now_cases)
  ultimately show thesis using that [OF n] unfolding Let_def by (auto elim!: run_elims split: option.splits)
qed

lemma RequeueRunning_Inr:
  "RequeueRunning pid w = (Inr n, w') \<Longrightarrow> \<exists>ms. n = sql_count (in_flight pid) (jobs w) \<and>
     jobs w' = sql_update (in_flight pid) (\<lambda>j. j\<lparr>job_State := JobPending, job_UpdatedAt := ms\<rparr>) (jobs w)"
  unfolding RequeueRunning_def by (auto elim!: run_elims; blast)

lemma DropFailedJobs_Inr:
  "DropFailedJobs pid since w = (Inr n, w') \<Longrightarrow>
     jobs w' = sql_delete (\<lambda>j. job_PairID j = pid \<and> job_State j = JobFailed \<and>
       job_UpdatedAt j < UnixMilli since) (jobs w)"
  unfolding DropFailedJobs_def by (auto simp: Let_def elim!: run_elims)

lemma Queue_Inr:
  assumes "Queue pid w = (Inr q, w')"
  shows "q_Counts q st = sql_count (\<lambda>j. job_State j = st) (filter (\<lambda>j. job_PairID j = pid) (jobs w))"
    and "q_PendingBytes q = sql_sum (\<lambda>j. job_BytesTotal j - job_BytesDone j) job_open
          (filter (\<lambda>j. job_PairID j = pid) (jobs w))"
    and "q_NextAttempt q = map_option ofMilli (queue_next pid (jobs w))"
    and "jobs w' = jobs w"
  using assms unfolding Queue_def by (auto elim!: run_elims)

lemma backoff_loop_eq:
  assumes "0 < d"
  shows "(if backoff_loop n d > Hour then Hour else backoff_loop n d) = min Hour (d * 2 ^ n)"
  using assms
proof (induction n arbitrary: d)
  case 0
  then show ?case by auto
next
  case (Suc n)
  show ?case
  proof (cases "d < Hour")
    case True
    with Suc.IH [of "d * 2"] Suc.prems show ?thesis
      by (simp add: mult.assoc split: if_splits)
  next
    case False
    have "(1::int) \<le> 2 ^ Suc n"
      by (rule one_le_power) simp
    then have "d * 1 \<le> d * 2 ^ Suc n"
      using Suc.prems by (intro mult_left_mono) auto
    with False show ?thesis by auto
  qed
qed

section \<open>A queue with one file\<close>

definition demo_queued :: world where
  "demo_queued = snd (EnqueueJob 1 ''a.mp3'' OpAdd 10 1000000 demo_world)"

definition demo_job :: job where
  "demo_job = claim_row 6000 (new_job 1 1 ''a.mp3'' OpAdd 10 1 5000)"

definition demo_claimed :: world where
  "demo_claimed = snd (ClaimJob 1 6000000000 demo_queued)"

lemma demo_wf: "jobs_wf demo_world" "jobs_wf demo_queued" "jobs_wf demo_claimed"
  by code_simp+

lemma demo_enqueue: "EnqueueJob 1 ''a.mp3'' OpAdd 10 1000000 demo_world = (Inr 1, demo_queued)"
  unfolding demo_queued_def by (rule run_snd) code_simp

lemma demo_claim: "ClaimJob 1 6000000000 demo_queued = (Inr (Some demo_job), demo_claimed)"
  unfolding demo_claimed_def by (rule run_snd) code_simp

section \<open>Properties\<close>

text \<open>
  (C5) Queueing a file leaves exactly one open row for it, the row whose id is returned, and
  that row describes the publisher's copy the plan saw: two scans in a row never queue the
  same transfer twice.
\<close>

theorem enqueue_one_open:
  assumes "jobs_wf w" and "EnqueueJob pid path oper bytes mtime w = (Inr i, w')"
  shows "\<exists>j \<in> set (jobs w'). job_ID j = i \<and> job_key j = (pid, path) \<and> job_open j \<and>
     job_BytesTotal j = bytes \<and> job_MTime j = UnixMilli mtime \<and>
     (\<forall>j' \<in> set (jobs w'). job_open j' \<and> job_key j' = (pid, path) \<longrightarrow> j' = j)"
proof -
  obtain ms where enq: "enqueue_rows pid path oper bytes (UnixMilli mtime) ms (jobs w) = (i, jobs w')"
    using EnqueueJob_Inr [OF assms] by blast
  have wf': "jobs_wf w'"
    using assms keepsD [OF keeps_EnqueueJob] by blast
  then have uniq: "\<forall>j \<in> set (jobs w'). \<forall>j' \<in> set (jobs w').
      job_open j \<and> job_open j' \<and> job_key j = job_key j' \<longrightarrow> j = j'"
    using jobs_open_index_iff jobs_wf_D by blast
  obtain j where "j \<in> set (jobs w')" "job_ID j = i" "job_key j = (pid, path)" "job_open j"
      "job_BytesTotal j = bytes" "job_MTime j = UnixMilli mtime"
    using enqueue_rows_job [OF jobs_wf_D(1) [OF assms(1)] enq] by blast
  with uniq show ?thesis by (intro bexI [of _ j]) auto
qed

theorem enqueue_one_open_witness:
  "\<exists>j \<in> set (jobs demo_queued). job_ID j = 1 \<and> job_key j = (1, ''a.mp3'') \<and> job_open j \<and>
     job_BytesTotal j = 10 \<and> job_MTime j = UnixMilli 1000000 \<and>
     (\<forall>j' \<in> set (jobs demo_queued). job_open j' \<and> job_key j' = (1, ''a.mp3'') \<longrightarrow> j' = j)"
  using enqueue_one_open [OF demo_wf(1) demo_enqueue] .

text \<open>
  (C28) The resume watermark survives queueing only for the version it belongs to: a queued row
  with bytes already done had the same size and the same timestamp before, so a part file of
  a version that no longer exists is never resumed. Every other row of the queue is untouched.
\<close>

theorem enqueue_watermark:
  assumes "jobs_wf w" and "EnqueueJob pid path oper bytes mtime w = (Inr i, w')"
  shows "(\<forall>j \<in> set (jobs w'). job_ID j = i \<and> job_BytesDone j \<noteq> 0 \<longrightarrow>
            (\<exists>r \<in> set (jobs w). job_ID r = i \<and> job_key r = (pid, path) \<and>
               job_BytesTotal r = bytes \<and> job_MTime r = UnixMilli mtime \<and>
               job_BytesDone r = job_BytesDone j)) \<and>
         {j \<in> set (jobs w'). job_ID j \<noteq> i} = {j \<in> set (jobs w). job_ID j \<noteq> i}"
proof -
  obtain ms where enq: "enqueue_rows pid path oper bytes (UnixMilli mtime) ms (jobs w) = (i, jobs w')"
    using EnqueueJob_Inr [OF assms] by blast
  have wf': "jobs_wf w'"
    using assms keepsD [OF keeps_EnqueueJob] by blast
  obtain j where "j \<in> set (jobs w')" "job_ID j = i"
      "job_BytesDone j \<noteq> 0 \<longrightarrow> (\<exists>r \<in> set (jobs w). job_ID r = i \<and> job_key r = (pid, path) \<and>
        job_BytesTotal r = bytes \<and> job_MTime r = UnixMilli mtime \<and> job_BytesDone r = job_BytesDone j)"
    using enqueue_rows_job [OF jobs_wf_D(1) [OF assms(1)] enq] by blast
  moreover have "j' = j" if "j' \<in> set (jobs w')" "job_ID j' = i" for j'
    using that calculation job_rows_inj [OF jobs_wf_D(1) [OF wf']] by blast
  ultimately show ?thesis
    using enqueue_rows_others [OF enq] by blast
qed

definition demo_partly :: world where
  "demo_partly = snd (JobProgress 1 4 demo_queued)"

theorem enqueue_watermark_witness:
  "\<exists>w' j. EnqueueJob 1 ''a.mp3'' OpAdd 10 1000000 demo_partly = (Inr 1, w') \<and> j \<in> set (jobs w') \<and> job_BytesDone j = 4 \<and>
     (\<exists>r \<in> set (jobs demo_partly). job_BytesTotal r = 10 \<and> job_MTime r = UnixMilli 1000000 \<and> job_BytesDone r = job_BytesDone j)"
proof -
  have wf: "jobs_wf demo_partly" unfolding demo_partly_def by code_simp
  define w' where "w' = snd (EnqueueJob 1 ''a.mp3'' OpAdd 10 1000000 demo_partly)"
  have run: "EnqueueJob 1 ''a.mp3'' OpAdd 10 1000000 demo_partly = (Inr 1, w')"
    unfolding w'_def by (rule run_snd) (unfold demo_partly_def, code_simp)
  have "map (\<lambda>j. (job_ID j, job_BytesDone j)) (jobs w') = [(1, 4)]" unfolding w'_def demo_partly_def by code_simp
  then obtain j where j: "j \<in> set (jobs w')" "job_ID j = 1" "job_BytesDone j = 4" by auto
  from enqueue_watermark [OF wf run] j obtain r where "r \<in> set (jobs demo_partly)" "job_BytesTotal r = 10"
    "job_MTime r = UnixMilli 1000000" "job_BytesDone r = job_BytesDone j" by force
  with run j show ?thesis by blast
qed

text \<open>
  Queueing a file of a configured pair always succeeds when the driver lets it: no statement
  of it can run into the unique index on open rows or the foreign key, whichever of the three
  branches (refresh, revive, insert) is taken.
\<close>

theorem enqueue_total:
  assumes "jobs_wf w" and "has_pair pid w" and "calm w"
  shows "\<exists>i w'. EnqueueJob pid path oper bytes mtime w = (Inr i, w')"
  using EnqueueJob_quiet [OF assms] by blast

theorem enqueue_total_witness:
  "\<exists>i w'. EnqueueJob 1 ''b.mp3'' OpAdd 7 0 demo_world = (Inr i, w')"
proof (rule enqueue_total)
  show "jobs_wf demo_world" by (rule demo_wf)
  show "has_pair 1 demo_world" and "calm demo_world" by code_simp+
qed




text \<open>
  The wait before attempt n is the configured backoff doubled n - 1 times, and never more
  than an hour; a backoff that is not positive counts as thirty seconds.
\<close>

theorem backoff_closed_form:
  "backoffFor attempts base =
     min Hour ((if base \<le> 0 then 30 * Second else base) * 2 ^ nat (attempts - 1))"
  using backoff_loop_eq [of "if base \<le> 0 then 30 * Second else base" "nat (attempts - 1)"]
  by (simp add: backoffFor_def Let_def Second_def)

text \<open>
  A failed attempt reschedules the row while it has attempts left and gives up for good
  once it has not; the row keeps its attempts and its watermark, the next attempt lies the
  backoff ahead of what the clock showed when the failure was reported, and no other row changes.
\<close>

theorem fail_budget:
  assumes "jobs_wf w" and "FailJob i cause m b w = (Inr retrying, w')" and "j \<in> set (jobs w')"
  shows "(job_ID j \<noteq> i \<longrightarrow> j \<in> set (jobs w)) \<and>
         (job_ID j = i \<longrightarrow> (\<exists>r \<in> set (jobs w). \<exists>t w1. now w = (Inr t, w1) \<and> job_ID r = i \<and>
            (retrying \<longleftrightarrow> job_Attempts r < m) \<and> job_Attempts j = job_Attempts r \<and>
            job_BytesDone j = job_BytesDone r \<and> job_Error j = Some cause \<and>
            (if retrying then job_State j = JobPending \<and>
               job_NextAttemptAt j = UnixMilli (t + backoffFor (job_Attempts r) b)
             else job_State j = JobFailed \<and> job_NextAttemptAt j = 0)))"
proof -
  from assms(2) obtain r t w1 where n: "now w = (Inr t, w1)" and r: "find (\<lambda>j. job_ID j = i) (jobs w) = Some r"
    and ret: "retrying \<longleftrightarrow> job_Attempts r < m"
    and w': "jobs w' = sql_update (\<lambda>j. job_ID j = i)
       (\<lambda>j. j\<lparr>job_State := (if retrying then JobPending else JobFailed),
         job_NextAttemptAt := (if retrying then UnixMilli (t + backoffFor (job_Attempts r) b) else 0),
         job_Error := Some cause, job_UpdatedAt := UnixMilli t\<rparr>) (jobs w)"
    by (rule FailJob_Inr)
  have mem: "r \<in> set (jobs w)" "job_ID r = i"
    using find_Some_iff [OF r] by auto
  obtain r0 where r0: "r0 \<in> set (jobs w)" and j: "j = (if job_ID r0 = i then
       r0\<lparr>job_State := (if retrying then JobPending else JobFailed),
         job_NextAttemptAt := (if retrying then UnixMilli (t + backoffFor (job_Attempts r) b) else 0),
         job_Error := Some cause, job_UpdatedAt := UnixMilli t\<rparr> else r0)"
    using assms(3) unfolding w' set_sql_update by blast
  show ?thesis
  proof (cases "job_ID r0 = i")
    case True
    with r0 mem have "r0 = r"
      using job_rows_inj [OF jobs_wf_D(1) [OF assms(1)]] by blast
    with True j mem ret n show ?thesis
      by (intro conjI impI bexI [of _ r] exI [of _ t] exI [of _ w1]) simp_all
  next
    case False
    with r0 j show ?thesis by simp
  qed
qed

theorem fail_budget_witness:
  "\<exists>w'. FailJob 1 (ERemote 0) 5 0 demo_claimed = (Inr True, w') \<and>
     (\<forall>j \<in> set (jobs w'). job_ID j = 1 \<longrightarrow> job_State j = JobPending \<and> job_BytesDone j = 0)"
proof (intro exI conjI ballI impI)
  show run: "FailJob 1 (ERemote 0) 5 0 demo_claimed =
      (Inr True, snd (FailJob 1 (ERemote 0) 5 0 demo_claimed))"
    by (rule run_snd) code_simp
  fix j assume j: "j \<in> set (jobs (snd (FailJob 1 (ERemote 0) 5 0 demo_claimed)))" "job_ID j = 1"
  have "\<forall>r \<in> set (jobs demo_claimed). job_BytesDone r = 0" by code_simp
  moreover obtain r where "r \<in> set (jobs demo_claimed)" "job_BytesDone j = job_BytesDone r"
      "job_State j = JobPending"
    using fail_budget [OF demo_wf(3) run j(1)] j(2) by (meson conjunct1)
  ultimately show "job_State j = JobPending" and "job_BytesDone j = 0" by simp_all
qed

text \<open>
  An interrupted transfer is not a failed one: a row that is claimed and handed back is
  pending again with the attempts and the watermark it had before the claim.
\<close>

theorem release_restores:
  assumes "jobs_wf w" and "ClaimJob pid t w = (Inr (Some j), w1)"
    and "ReleaseJob (job_ID j) w1 = (Inr (), w2)"
  shows "\<exists>r \<in> set (jobs w). \<exists>r2 \<in> set (jobs w2). job_ID r = job_ID j \<and> job_ID r2 = job_ID j \<and>
     job_State r2 = JobPending \<and> job_Attempts r2 = job_Attempts r \<and> job_BytesDone r2 = job_BytesDone r"
proof -
  from assms(2) obtain r where r: "r \<in> set (jobs w)" "j = claim_row (UnixMilli t) r"
    "jobs w1 = sql_update (\<lambda>x. job_ID x = job_ID r) (claim_row (UnixMilli t)) (jobs w)"
    by (rule ClaimJob_Some)
  from ReleaseJob_Inr [OF assms(3)] obtain ms where
    w2: "jobs w2 = sql_update (\<lambda>x. job_ID x = job_ID j)
      (\<lambda>x. x\<lparr>job_State := JobPending, job_Attempts := max (job_Attempts x - 1) 0,
             job_UpdatedAt := ms\<rparr>) (jobs w1)" by blast
  have att: "0 \<le> job_Attempts r"
    using r(1) jobs_wf_D(1) [OF assms(1)] by (auto simp: job_rows_ok_def list_all_iff)
  have "j \<in> set (jobs w1)"
    using r by (auto simp: set_sql_update intro: rev_image_eqI)
  then have "j\<lparr>job_State := JobPending, job_Attempts := max (job_Attempts j - 1) 0,
               job_UpdatedAt := ms\<rparr> \<in> set (jobs w2)"
    unfolding w2 set_sql_update by (auto intro: rev_image_eqI)
  with r(1,2) att show ?thesis
    by (intro bexI [of _ r] bexI) (auto simp: claim_row_def)
qed

theorem release_restores_witness:
  "\<exists>w2. ReleaseJob 1 demo_claimed = (Inr (), w2) \<and> (\<exists>r2 \<in> set (jobs w2).
     job_ID r2 = 1 \<and> job_State r2 = JobPending)"
proof (intro exI conjI)
  have id: "job_ID demo_job = 1" by code_simp
  show run: "ReleaseJob 1 demo_claimed = (Inr (), snd (ReleaseJob 1 demo_claimed))"
    by (rule run_snd) code_simp
  show "\<exists>r2 \<in> set (jobs (snd (ReleaseJob 1 demo_claimed))). job_ID r2 = 1 \<and> job_State r2 = JobPending"
    using release_restores [OF demo_wf(2) demo_claim, unfolded id, OF run] by blast
qed

text \<open>
  The first thing a run does puts back every row a crash left in flight: afterwards no row
  of the pair is running or verifying, the answer is how many there were, and each row keeps
  its file, its attempts and its watermark.
\<close>

theorem requeue_running_all:
  assumes "RequeueRunning pid w = (Inr n, w')"
  shows "(\<forall>j \<in> set (jobs w'). \<not> in_flight pid j) \<and> n = sql_count (in_flight pid) (jobs w) \<and>
     map (\<lambda>j. (job_ID j, job_key j, job_Attempts j, job_BytesDone j)) (jobs w') =
     map (\<lambda>j. (job_ID j, job_key j, job_Attempts j, job_BytesDone j)) (jobs w)"
proof -
  from RequeueRunning_Inr [OF assms] obtain ms where n: "n = sql_count (in_flight pid) (jobs w)"
    and w': "jobs w' = sql_update (in_flight pid)
      (\<lambda>j. j\<lparr>job_State := JobPending, job_UpdatedAt := ms\<rparr>) (jobs w)" by blast
  have "\<not> in_flight pid (j\<lparr>job_State := JobPending, job_UpdatedAt := ms\<rparr>)" for j
    by (simp add: in_flight_def)
  then have "\<forall>j \<in> set (jobs w'). \<not> in_flight pid j"
    unfolding w' set_sql_update by auto
  moreover have "map (\<lambda>j. (job_ID j, job_key j, job_Attempts j, job_BytesDone j)) (jobs w') =
     map (\<lambda>j. (job_ID j, job_key j, job_Attempts j, job_BytesDone j)) (jobs w)"
    unfolding w' by (rule map_sql_update) (simp add: job_key_def)
  ultimately show ?thesis using n by blast
qed

theorem requeue_running_all_witness:
  "\<exists>w'. RequeueRunning 1 demo_claimed = (Inr 1, w') \<and> (\<forall>j \<in> set (jobs w'). \<not> in_flight 1 j)"
proof (intro exI conjI)
  show run: "RequeueRunning 1 demo_claimed = (Inr 1, snd (RequeueRunning 1 demo_claimed))"
    by (rule run_snd) code_simp
  show "\<forall>j \<in> set (jobs (snd (RequeueRunning 1 demo_claimed))). \<not> in_flight 1 j"
    using requeue_running_all [OF run] by blast
qed

end
