(* ===== verification/Manifest.thy ===== *)
theory Manifest
  imports World
begin

text \<open>
  Walks and the manifest, \<open>store/manifest.go\<close>: a scan is one walk of a pair's remote root, the
  manifest the rows the walks found. The frontier of a running walk is in the manifest itself,
  the directories of the scan that are not listed yet. Operations first, then the manifest as
  a map from paths to rows, then what each operation does to it.
\<close>

section \<open>Data\<close>

record manifest_entry =
  me_Path :: string
  me_Size :: int
  me_MTime :: time
  me_IsDir :: bool

definition m_key :: "mrow \<Rightarrow> int \<times> string" where
  "m_key m = (m_PairID m, m_Path m)"

definition put_manifest :: "(mrow list \<Rightarrow> 'a \<times> mrow list) \<Rightarrow> 'a op" where
  "put_manifest f = exec (\<lambda>w. let (a, rows) = f (manifest w) in
     if list_all (\<lambda>m. has_pair (m_PairID m) w) rows
     then Inr (a, w\<lparr>manifest := rows\<rparr>) else Inl EConstraint)"

definition put_scans :: "(scan list \<Rightarrow> 'a \<times> scan list) \<Rightarrow> 'a op" where
  "put_scans f = exec (\<lambda>w. let (a, rows) = f (scans w) in
     if list_all (\<lambda>s. has_pair (scan_PairID s) w) rows
     then Inr (a, w\<lparr>scans := rows\<rparr>) else Inl EConstraint)"

section \<open>Operations\<close>

definition scan_open :: "scan \<Rightarrow> bool" where
  "scan_open s \<longleftrightarrow> scan_State s = ScanRunning \<or> scan_State s = ScanInterrupted"

definition RunningScan :: "int \<Rightarrow> scan option op" where
  "RunningScan pid = query (\<lambda>w. sql_last scan_ID (\<lambda>s. scan_PairID s = pid \<and> scan_open s) (scans w))"

definition new_scan :: "int \<Rightarrow> int \<Rightarrow> int \<Rightarrow> scan" where
  "new_scan i pid ms = \<lparr>scan_ID = i, scan_PairID = pid, scan_StartedAt = ms, scan_FinishedAt = None,
     scan_Dirs = 0, scan_Files = 0, scan_Bytes = 0, scan_State = ScanRunning, scan_Error = ''''\<rparr>"

definition supersede_row :: "int \<Rightarrow> scan \<Rightarrow> scan" where
  "supersede_row ms s = s\<lparr>scan_State := ScanFailed, scan_FinishedAt := Some ms,
     scan_Error := ''superseded by a new scan''\<rparr>"

definition seed_row :: "int \<Rightarrow> int \<Rightarrow> int \<Rightarrow> mrow" where
  "seed_row pid sid ms = \<lparr>m_PairID = pid, m_Path = '''', m_Size = 0, m_MTime = 0, m_IsDir = True,
     m_Listed = False, m_ScanID = sid, m_SeenAt = ms\<rparr>"

definition seed_rows :: "int \<Rightarrow> int \<Rightarrow> int \<Rightarrow> mrow list \<Rightarrow> mrow list" where
  "seed_rows pid sid ms = sql_upsert (\<lambda>m. m_key m = (pid, '''')) (seed_row pid sid ms)
     (\<lambda>m. m\<lparr>m_Listed := False, m_ScanID := sid, m_SeenAt := ms\<rparr>)"

definition start_scan :: "int \<Rightarrow> scan op" where
  "start_scan pid = bindE now (\<lambda>t. let ms = UnixMilli t in
     tx (bindE (wrapE ''close previous scan'' (put_scans (\<lambda>rows. ((),
            sql_update (\<lambda>s. scan_PairID s = pid \<and> scan_open s) (supersede_row ms) rows)))) (\<lambda>_.
         bindE (wrapE ''start scan'' (put_scans (\<lambda>rows. let i = next_rowid (map scan_ID rows)
            in (i, rows @ [new_scan i pid ms])))) (\<lambda>i.
         bindE (wrapE ''seed scan frontier'' (put_manifest (\<lambda>rows. ((), seed_rows pid i ms rows)))) (\<lambda>_.
         returnE (new_scan i pid ms))))))"

definition BeginScan :: "int \<Rightarrow> bool \<Rightarrow> (scan \<times> bool) op" where
  "BeginScan pid resume =
     bindE (if resume then RunningScan pid else returnE None) (\<lambda>found. case found of
       Some sc \<Rightarrow> returnE (sc, True)
     | None \<Rightarrow> bindE (start_scan pid) (\<lambda>sc. returnE (sc, False)))"

definition pending_dir :: "int \<Rightarrow> int \<Rightarrow> mrow \<Rightarrow> bool" where
  "pending_dir pid sid m \<longleftrightarrow> m_PairID m = pid \<and> m_ScanID m = sid \<and> m_IsDir m \<and> \<not> m_Listed m"

definition PendingDirs :: "int \<Rightarrow> int \<Rightarrow> int \<Rightarrow> string list op" where
  "PendingDirs pid sid limit =
     wrapE ''read scan frontier'' (query (\<lambda>w.
       take (nat (if limit \<le> 0 then 256 else limit))
         (sort (map m_Path (filter (pending_dir pid sid) (manifest w))))))"

definition entry_row :: "int \<Rightarrow> int \<Rightarrow> int \<Rightarrow> manifest_entry \<Rightarrow> mrow" where
  "entry_row pid sid ms e = \<lparr>m_PairID = pid, m_Path = me_Path e, m_Size = me_Size e,
     m_MTime = UnixMilli (me_MTime e), m_IsDir = me_IsDir e, m_Listed = False, m_ScanID = sid,
     m_SeenAt = ms\<rparr>"

definition entry_update :: "int \<Rightarrow> int \<Rightarrow> manifest_entry \<Rightarrow> mrow \<Rightarrow> mrow" where
  "entry_update sid ms e m = m\<lparr>m_Size := me_Size e, m_MTime := UnixMilli (me_MTime e),
     m_IsDir := me_IsDir e, m_Listed := False, m_ScanID := sid, m_SeenAt := ms\<rparr>"

definition put_entry :: "int \<Rightarrow> int \<Rightarrow> int \<Rightarrow> manifest_entry \<Rightarrow> mrow list \<Rightarrow> mrow list" where
  "put_entry pid sid ms e =
     sql_upsert (\<lambda>m. m_key m = (pid, me_Path e)) (entry_row pid sid ms e) (entry_update sid ms e)"

definition mark_listed :: "int \<Rightarrow> int \<Rightarrow> int \<Rightarrow> string \<Rightarrow> mrow list \<Rightarrow> mrow list" where
  "mark_listed pid sid ms dir = sql_update (\<lambda>m. m_key m = (pid, dir))
     (\<lambda>m. m\<lparr>m_Listed := True, m_ScanID := sid, m_SeenAt := ms\<rparr>)"

definition count_row :: "int \<Rightarrow> manifest_entry list \<Rightarrow> scan list \<Rightarrow> scan list" where
  "count_row sid entries = sql_update (\<lambda>s. scan_ID s = sid)
     (\<lambda>s. s\<lparr>scan_Dirs := scan_Dirs s + 1,
            scan_Files := scan_Files s + sql_count (\<lambda>e. \<not> me_IsDir e) entries,
            scan_Bytes := scan_Bytes s + sql_sum me_Size (\<lambda>e. \<not> me_IsDir e) entries\<rparr>)"

definition PutListing :: "int \<Rightarrow> int \<Rightarrow> string \<Rightarrow> manifest_entry list \<Rightarrow> unit op" where
  "PutListing pid sid dir entries = bindE now (\<lambda>t. let ms = UnixMilli t in
     tx (bindE (wrapE ''prepare manifest insert'' (query (\<lambda>_. ()))) (\<lambda>_.
         bindE (forE entries (\<lambda>e. wrapE ''write manifest entry''
           (put_manifest (\<lambda>rows. ((), put_entry pid sid ms e rows))))) (\<lambda>_.
         bindE (wrapE ''mark listed''
           (put_manifest (\<lambda>rows. ((), mark_listed pid sid ms dir rows)))) (\<lambda>_.
         wrapE ''update scan counters'' (put_scans (\<lambda>rows. ((), count_row sid entries rows))))))))"

definition sweep_row :: "int \<Rightarrow> int \<Rightarrow> mrow \<Rightarrow> bool" where
  "sweep_row pid sid m \<longleftrightarrow> m_PairID m = pid \<and> m_ScanID m \<noteq> sid"

definition finish_row :: "scan_state \<Rightarrow> string \<Rightarrow> int \<Rightarrow> scan \<Rightarrow> scan" where
  "finish_row st msg ms s = s\<lparr>scan_State := st,
     scan_FinishedAt := (if st = ScanInterrupted then None else Some ms), scan_Error := msg\<rparr>"

definition FinishScan :: "int \<Rightarrow> scan_state \<Rightarrow> string \<Rightarrow> int op" where
  "FinishScan sid st msg = bindE now (\<lambda>t. let ms = UnixMilli t in
     tx (bindE (wrapE ''finish scan'' (query (\<lambda>w. find (\<lambda>s. scan_ID s = sid) (scans w)))) (\<lambda>found.
         case found of
           None \<Rightarrow> throwE (EWrap ''finish scan'' (EMsg ''sql: no rows in result set''))
         | Some s \<Rightarrow>
            bindE (if st = ScanDone
                   then wrapE ''sweep manifest'' (put_manifest (\<lambda>rows.
                          (sql_count (sweep_row (scan_PairID s) sid) rows,
                           sql_delete (sweep_row (scan_PairID s) sid) rows)))
                   else returnE 0) (\<lambda>swept.
            bindE (wrapE ''finish scan'' (put_scans (\<lambda>rows. ((), sql_update (\<lambda>s. scan_ID s = sid)
                (finish_row st msg ms) rows)))) (\<lambda>_.
            returnE swept)))))"

definition Scans :: "int \<Rightarrow> int \<Rightarrow> scan list op" where
  "Scans pid limit = wrapE ''read scans'' (query (\<lambda>w.
     take (nat (if limit \<le> 0 then 20 else limit))
       (rev (sort_key scan_ID (filter (\<lambda>s. scan_PairID s = pid) (scans w))))))"

definition ScanByID :: "int \<Rightarrow> scan op" where
  "ScanByID sid = bindE (query (\<lambda>w. find (\<lambda>s. scan_ID s = sid) (scans w))) (\<lambda>found.
     case found of None \<Rightarrow> throwE (EMsg ''no scan with id'') | Some s \<Rightarrow> returnE s)"

definition LastCompletedScan :: "int \<Rightarrow> scan option op" where
  "LastCompletedScan pid = query (\<lambda>w.
     sql_last scan_ID (\<lambda>s. scan_PairID s = pid \<and> scan_State s = ScanDone) (scans w))"

definition ManifestStats :: "int \<Rightarrow> (int \<times> int) op" where
  "ManifestStats pid = wrapE ''read manifest stats'' (query (\<lambda>w.
     (sql_count (\<lambda>m. m_PairID m = pid \<and> \<not> m_IsDir m) (manifest w),
      sql_sum m_Size (\<lambda>m. m_PairID m = pid \<and> \<not> m_IsDir m) (manifest w))))"

definition ManifestEntryAt :: "int \<Rightarrow> string \<Rightarrow> manifest_entry option op" where
  "ManifestEntryAt pid path = wrapE ''read manifest entry'' (query (\<lambda>w.
     map_option (\<lambda>m. \<lparr>me_Path = m_Path m, me_Size = m_Size m, me_MTime = ofMilli (m_MTime m),
                      me_IsDir = m_IsDir m\<rparr>)
       (find (\<lambda>m. m_key m = (pid, path)) (manifest w))))"

section \<open>The tables are well formed after every operation\<close>

definition manifest_wf :: "world \<Rightarrow> bool" where
  "manifest_wf w \<longleftrightarrow> distinct (map m_key (manifest w)) \<and> distinct (map scan_ID (scans w)) \<and>
     list_all (\<lambda>m. has_pair (m_PairID m) w) (manifest w) \<and>
     list_all (\<lambda>s. has_pair (scan_PairID s) w) (scans w)"

interpretation manifest_wf: world_inv manifest_wf
  by unfold_locales (simp add: manifest_wf_def)

lemma keeps_put_manifest:
  assumes "\<And>rows a rows'. f rows = (a, rows') \<Longrightarrow> distinct (map m_key rows) \<Longrightarrow> distinct (map m_key rows')"
  shows "keeps (\<lambda>w w'. manifest_wf w \<longrightarrow> manifest_wf w') (put_manifest f)"
  unfolding put_manifest_def
  by (rule manifest_wf.inv.keeps_exec)
     (use assms in \<open>fastforce simp: manifest_wf_def Let_def split: prod.splits if_splits\<close>)

lemma keeps_put_scans:
  assumes "\<And>rows a rows'. f rows = (a, rows') \<Longrightarrow> distinct (map scan_ID rows) \<Longrightarrow> distinct (map scan_ID rows')"
  shows "keeps (\<lambda>w w'. manifest_wf w \<longrightarrow> manifest_wf w') (put_scans f)"
  unfolding put_scans_def
  by (rule manifest_wf.inv.keeps_exec)
     (use assms in \<open>fastforce simp: manifest_wf_def Let_def split: prod.splits if_splits\<close>)

lemma distinct_seed_rows: "distinct (map m_key rows) \<Longrightarrow> distinct (map m_key (seed_rows pid sid ms rows))"
  unfolding seed_rows_def by (rule distinct_sql_upsert) (simp_all add: m_key_def seed_row_def)

lemma distinct_put_entry: "distinct (map m_key rows) \<Longrightarrow> distinct (map m_key (put_entry pid sid ms e rows))"
  unfolding put_entry_def
  by (rule distinct_sql_upsert) (simp_all add: m_key_def entry_row_def entry_update_def)

lemma distinct_mark_listed: "distinct (map m_key rows) \<Longrightarrow> distinct (map m_key (mark_listed pid sid ms d rows))"
  unfolding mark_listed_def by (subst map_sql_update) (simp_all add: m_key_def)

lemma distinct_count_row: "distinct (map scan_ID rows) \<Longrightarrow> distinct (map scan_ID (count_row sid es rows))"
  unfolding count_row_def by (subst map_sql_update) simp_all

lemma keeps_BeginScan: "keeps (\<lambda>w w'. manifest_wf w \<longrightarrow> manifest_wf w') (BeginScan pid resume)"
  unfolding BeginScan_def RunningScan_def start_scan_def
  by (intro manifest_wf.inv.keeps_rules keeps_put_manifest keeps_put_scans)
     (auto simp: Let_def map_sql_update supersede_row_def new_scan_def dest: distinct_seed_rows)

lemma keeps_PutListing: "keeps (\<lambda>w w'. manifest_wf w \<longrightarrow> manifest_wf w') (PutListing pid sid d es)"
  unfolding PutListing_def
  by (intro manifest_wf.inv.keeps_rules keeps_put_manifest keeps_put_scans)
     (auto simp: distinct_put_entry distinct_mark_listed distinct_count_row)

lemma keeps_FinishScan: "keeps (\<lambda>w w'. manifest_wf w \<longrightarrow> manifest_wf w') (FinishScan sid st msg)"
  unfolding FinishScan_def
  by (intro manifest_wf.inv.keeps_rules keeps_put_manifest keeps_put_scans)
     (auto simp: map_sql_update distinct_sql_delete finish_row_def)

lemmas manifest_keeps = keeps_BeginScan keeps_PutListing keeps_FinishScan

section \<open>What the operations do\<close>

lemma put_manifest_InrE [run_elims]:
  "put_manifest f w = (Inr a, w') \<Longrightarrow>
   (\<And>rows e. f (manifest w) = (a, rows) \<Longrightarrow> w' = w\<lparr>manifest := rows, env := e\<rparr> \<Longrightarrow> P) \<Longrightarrow> P"
  by (auto simp: put_manifest_def Let_def used_table dest!: exec_Inr split: prod.splits if_splits)

lemma put_scans_InrE [run_elims]:
  "put_scans f w = (Inr a, w') \<Longrightarrow>
   (\<And>rows e. f (scans w) = (a, rows) \<Longrightarrow> w' = w\<lparr>scans := rows, env := e\<rparr> \<Longrightarrow> P) \<Longrightarrow> P"
  by (auto simp: put_scans_def Let_def used_table dest!: exec_Inr split: prod.splits if_splits)

lemma forE_put_manifest:
  "forE xs (\<lambda>x. wrapE c (put_manifest (\<lambda>rows. ((), g x rows)))) w = (Inr u, w') \<Longrightarrow>
   \<exists>e. w' = w\<lparr>manifest := fold g xs (manifest w), env := e\<rparr>"
proof (induction xs arbitrary: w)
  case Nil
  then show ?case by (auto simp: returnE_run intro: exI [of _ "env w'"])
next
  case (Cons x xs)
  from Cons.prems obtain e where run: "forE xs (\<lambda>x. wrapE c (put_manifest (\<lambda>rows. ((), g x rows))))
      (w\<lparr>manifest := g x (manifest w), env := e\<rparr>) = (Inr u, w')"
    by (auto elim!: run_elims)
  from Cons.IH [OF run] show ?case by auto
qed

definition listing_rows :: "int \<Rightarrow> int \<Rightarrow> int \<Rightarrow> string \<Rightarrow> manifest_entry list \<Rightarrow> mrow list \<Rightarrow> mrow list" where
  "listing_rows pid sid ms dir entries rows =
     mark_listed pid sid ms dir (fold (put_entry pid sid ms) entries rows)"

lemma PutListing_Inr:
  "PutListing pid sid dir entries w = (Inr (), w') \<Longrightarrow>
   \<exists>ms e. w' = w\<lparr>manifest := listing_rows pid sid ms dir entries (manifest w),
                scans := count_row sid entries (scans w), env := e\<rparr>"
  unfolding PutListing_def Let_def listing_rows_def
  by (elim run_elims) (drule forE_put_manifest, clarsimp, intro exI, rule refl)

lemma now_tx_Inl:
  assumes "bindE now (\<lambda>t. tx (b t)) w = (Inl x, w')"
  shows "\<exists>e. w' = w\<lparr>env := e\<rparr>"
proof -
  obtain t e where "now w = (Inr t, w\<lparr>env := e\<rparr>)"
    by (rule now_obtain)
  with assms show ?thesis
    by (auto simp: bindE_Inl dest!: tx_Inl)
qed

lemma PutListing_Inl: "PutListing pid sid dir entries w = (Inl x, w') \<Longrightarrow> \<exists>e. w' = w\<lparr>env := e\<rparr>"
  unfolding PutListing_def Let_def by (rule now_tx_Inl)

lemma FinishScan_Inl: "FinishScan sid st msg w = (Inl x, w') \<Longrightarrow> \<exists>e. w' = w\<lparr>env := e\<rparr>"
  unfolding FinishScan_def Let_def by (rule now_tx_Inl)

lemma FinishScan_Inr:
  assumes "FinishScan sid st msg w = (Inr n, w')"
  shows "\<exists>s ms e. find (\<lambda>s. scan_ID s = sid) (scans w) = Some s \<and>
    n = (if st = ScanDone then sql_count (sweep_row (scan_PairID s) sid) (manifest w) else 0) \<and>
    w' = w\<lparr>manifest := (if st = ScanDone then sql_delete (sweep_row (scan_PairID s) sid) (manifest w)
                       else manifest w),
       scans := sql_update (\<lambda>s. scan_ID s = sid) (finish_row st msg ms) (scans w), env := e\<rparr>"
  using assms unfolding FinishScan_def Let_def
  by (elim run_elims) (cases "st = ScanDone"; cases "find (\<lambda>s. scan_ID s = sid) (scans w)";
      auto elim!: run_elims; intro exI; rule refl)

lemma start_scan_Inl: "start_scan pid w = (Inl x, w') \<Longrightarrow> \<exists>e. w' = w\<lparr>env := e\<rparr>"
  unfolding start_scan_def Let_def by (rule now_tx_Inl)

lemma start_scan_Inr:
  assumes "start_scan pid w = (Inr sc, w')"
  shows "sc = new_scan (next_rowid (map scan_ID (scans w))) pid (scan_StartedAt sc) \<and>
   (\<exists>e. w' = w\<lparr>
     scans := sql_update (\<lambda>s. scan_PairID s = pid \<and> scan_open s) (supersede_row (scan_StartedAt sc)) (scans w) @ [sc],
     manifest := seed_rows pid (scan_ID sc) (scan_StartedAt sc) (manifest w), env := e\<rparr>)"
proof -
  have ids: "map scan_ID (sql_update p (supersede_row ms) rows) = map scan_ID rows" for p ms rows
    by (rule map_sql_update) (simp add: supersede_row_def)
  have row: "scan_StartedAt (new_scan i p ms) = ms" "scan_ID (new_scan i p ms) = i" for i p ms
    by (simp_all add: new_scan_def)
  show ?thesis
    using assms unfolding start_scan_def Let_def
    by (elim run_elims) (clarsimp simp: ids row, intro exI, rule refl)
qed

lemma RunningScan_Inr:
  "RunningScan pid w = (Inr r, w') \<Longrightarrow> (\<exists>e. w' = w\<lparr>env := e\<rparr>) \<and>
     r = sql_last scan_ID (\<lambda>s. scan_PairID s = pid \<and> scan_open s) (scans w)"
  unfolding RunningScan_def by (auto elim!: run_elims)

lemma BeginScan_Inl: "BeginScan pid resume w = (Inl x, w') \<Longrightarrow> \<exists>e. w' = w\<lparr>env := e\<rparr>"
  unfolding BeginScan_def
  by (auto simp: bindE_Inl returnE_run RunningScan_def split: if_splits option.splits
      dest!: start_scan_Inl query_cases)

lemma BeginScan_cases:
  assumes "BeginScan pid resume w = (Inr (sc, resumed), w')"
  obtains (resumed) e where "resume" "resumed" "w' = w\<lparr>env := e\<rparr>"
      "sql_last scan_ID (\<lambda>s. scan_PairID s = pid \<and> scan_open s) (scans w) = Some sc"
    | (fresh) e where "\<not> resumed"
      "sc = new_scan (next_rowid (map scan_ID (scans w))) pid (scan_StartedAt sc)"
      "resume \<Longrightarrow> \<forall>s \<in> set (scans w). \<not> (scan_PairID s = pid \<and> scan_open s)"
      "w' = w\<lparr>
         scans := sql_update (\<lambda>s. scan_PairID s = pid \<and> scan_open s) (supersede_row (scan_StartedAt sc)) (scans w) @ [sc],
         manifest := seed_rows pid (scan_ID sc) (scan_StartedAt sc) (manifest w), env := e\<rparr>"
proof -
  from assms obtain r w1 where r: "(if resume then RunningScan pid else returnE None) w = (Inr r, w1)"
    and rest: "(case r of Some sc \<Rightarrow> returnE (sc, True)
       | None \<Rightarrow> bindE (start_scan pid) (\<lambda>sc. returnE (sc, False))) w1 = (Inr (sc, resumed), w')"
    unfolding BeginScan_def by (auto elim: bindE_InrE)
  obtain e1 where w1: "w1 = w\<lparr>env := e1\<rparr>"
    using r by (auto elim!: run_elims dest!: RunningScan_Inr split: if_splits intro: that [of "env w"])
  show thesis
  proof (cases r)
    case (Some s)
    with r have run: "resume" "RunningScan pid w = (Inr (Some s), w1)" by (cases resume; simp add: returnE_run)+
    moreover from rest Some have "sc = s" "resumed" "w' = w1" by (simp_all add: returnE_run)
    ultimately show ?thesis using w1 RunningScan_Inr [OF run(2)] by (intro that(1)) simp_all
  next
    case None
    with rest have "start_scan pid w1 = (Inr sc, w')" "\<not> resumed"
      by (auto elim!: run_elims)
    moreover have "resume \<Longrightarrow> \<forall>s \<in> set (scans w). \<not> (scan_PairID s = pid \<and> scan_open s)"
      using r None RunningScan_Inr [of pid w r w1] sql_last_None [of scan_ID
        "\<lambda>s. scan_PairID s = pid \<and> scan_open s" "scans w"] by auto
    ultimately show ?thesis
      using start_scan_Inr [of pid w1 sc w'] w1 that(2) by auto
  qed
qed

section \<open>The manifest as a map\<close>

abbreviation mfind :: "int \<Rightarrow> string \<Rightarrow> mrow list \<Rightarrow> mrow option" where
  "mfind pid path rows \<equiv> find (\<lambda>m. m_key m = (pid, path)) rows"

lemma entry_update_row: "m_key m = (pid, me_Path e) \<Longrightarrow> entry_update sid ms e m = entry_row pid sid ms e"
  by (simp add: entry_update_def entry_row_def m_key_def)

lemma mfind_put_entry:
  "find (\<lambda>m. m_key m = k) (put_entry pid sid ms e rows) =
     (if k = (pid, me_Path e) then Some (entry_row pid sid ms e) else find (\<lambda>m. m_key m = k) rows)"
proof -
  have key: "m_key (entry_update sid ms e m) = m_key m" "m_key (entry_row pid sid ms e) = (pid, me_Path e)" for m
    by (simp_all add: m_key_def entry_update_def entry_row_def)
  have "entry_update sid ms e m = entry_row pid sid ms e"
    if "find (\<lambda>m. m_key m = (pid, me_Path e)) rows = Some m" for m
    using find_Some_iff [OF that] by (simp add: entry_update_row)
  then show ?thesis
    unfolding put_entry_def find_sql_upsert_key [where k = m_key, OF key]
    by (cases "k = (pid, me_Path e)") (simp_all split: option.splits)
qed

lemma mfind_put_entries:
  "find (\<lambda>m. m_key m = k) (fold (put_entry pid sid ms) es rows) =
     (case find (\<lambda>e. (pid, me_Path e) = k) (rev es) of
        Some e \<Rightarrow> Some (entry_row pid sid ms e) | None \<Rightarrow> find (\<lambda>m. m_key m = k) rows)"
  by (induction es arbitrary: rows) (auto simp: mfind_put_entry find_append split: option.splits)

definition listed_row :: "int \<Rightarrow> int \<Rightarrow> mrow \<Rightarrow> mrow" where
  "listed_row sid ms m = m\<lparr>m_Listed := True, m_ScanID := sid, m_SeenAt := ms\<rparr>"

lemma mfind_mark_listed:
  "find (\<lambda>m. m_key m = k) (mark_listed pid sid ms d rows) =
     (if k = (pid, d) then map_option (listed_row sid ms) (find (\<lambda>m. m_key m = k) rows)
      else find (\<lambda>m. m_key m = k) rows)"
  unfolding mark_listed_def listed_row_def by (subst find_sql_update_key) (simp_all add: m_key_def)

lemma mfind_listing:
  "find (\<lambda>m. m_key m = k) (listing_rows pid sid ms dir es rows) =
     (if k = (pid, dir) then map_option (listed_row sid ms) else id)
       (case find (\<lambda>e. (pid, me_Path e) = k) (rev es) of
          Some e \<Rightarrow> Some (entry_row pid sid ms e) | None \<Rightarrow> find (\<lambda>m. m_key m = k) rows)"
  by (simp only: listing_rows_def mfind_mark_listed mfind_put_entries id_apply if_distribR cong: if_cong)

lemma mfind_seed:
  "find (\<lambda>m. m_key m = k) (seed_rows pid sid ms rows) =
     (if k = (pid, '''') then Some (case find (\<lambda>m. m_key m = k) rows of None \<Rightarrow> seed_row pid sid ms
        | Some m \<Rightarrow> m\<lparr>m_Listed := False, m_ScanID := sid, m_SeenAt := ms\<rparr>)
      else find (\<lambda>m. m_key m = k) rows)"
  unfolding seed_rows_def by (subst find_sql_upsert_key) (simp_all add: m_key_def seed_row_def)

lemma mfind_iff:
  "distinct (map m_key rows) \<Longrightarrow> m \<in> set rows \<longleftrightarrow> mfind (m_PairID m) (m_Path m) rows = Some m"
  using find_key_mem [of m_key rows m] by (simp add: m_key_def)

section \<open>References between the tables\<close>

text \<open>Every row of the manifest was written by a walk that has a row of its own.\<close>

definition manifest_refs :: "world \<Rightarrow> bool" where
  "manifest_refs w \<longleftrightarrow> (\<forall>m \<in> set (manifest w). m_ScanID m \<in> scan_ID ` set (scans w))"

lemma set_put_entries:
  "m \<in> set (fold (put_entry pid sid ms) es rows) \<Longrightarrow> m \<in> set rows \<or> m_ScanID m = sid"
proof (induction es arbitrary: rows)
  case (Cons e es)
  have "m' \<in> set rows \<or> m_ScanID m' = sid" if "m' \<in> set (put_entry pid sid ms e rows)" for m'
    using that by (auto simp: put_entry_def sql_upsert_def set_sql_update entry_row_def entry_update_def
        split: if_splits)
  with Cons show ?case by fastforce
qed simp

lemma listing_refs:
  assumes "manifest_refs w" and "sid \<in> scan_ID ` set (scans w)"
    and "PutListing pid sid dir es w = (r, w')"
  shows "manifest_refs w'" and "scan_ID ` set (scans w') = scan_ID ` set (scans w)"
proof -
  have ids: "scan_ID ` set (count_row sid es rows) = scan_ID ` set rows" for rows
    unfolding count_row_def set_sql_update image_image by (rule image_cong) auto
  show "manifest_refs w'" and "scan_ID ` set (scans w') = scan_ID ` set (scans w)"
  proof (atomize(full), cases r)
    case (Inl x)
    then show "manifest_refs w' \<and> scan_ID ` set (scans w') = scan_ID ` set (scans w)"
      using assms PutListing_Inl by (fastforce simp: manifest_refs_def)
  next
    case (Inr u)
    then obtain ms e where w': "w' = w\<lparr>manifest := listing_rows pid sid ms dir es (manifest w),
        scans := count_row sid es (scans w), env := e\<rparr>"
      using assms(3) PutListing_Inr by (metis old.unit.exhaust)
    have "m_ScanID m \<in> scan_ID ` set (scans w)" if "m \<in> set (manifest w')" for m
      using that assms(1,2) set_put_entries unfolding w'
      by (fastforce simp: listing_rows_def mark_listed_def set_sql_update manifest_refs_def split: if_splits)
    then show "manifest_refs w' \<and> scan_ID ` set (scans w') = scan_ID ` set (scans w)"
      unfolding w' manifest_refs_def by (simp add: ids)
  qed
qed

text \<open>The root of a pair is a directory in the manifest.\<close>

definition roots_are_dirs :: "world \<Rightarrow> bool" where
  "roots_are_dirs w \<longleftrightarrow> (\<forall>m \<in> set (manifest w). m_Path m = '''' \<longrightarrow> m_IsDir m)"

lemma seed_others:
  assumes "distinct (map m_key rows)" and "m_key m \<noteq> (pid, '''')"
  shows "m \<in> set (seed_rows pid sid ms rows) \<longleftrightarrow> m \<in> set rows"
  using assms find_key_mem [of m_key _ m] distinct_seed_rows by (simp add: mfind_seed)

lemma seed_root:
  assumes "distinct (map m_key rows)" and "\<And>m. m \<in> set rows \<Longrightarrow> m_Path m = '''' \<Longrightarrow> m_IsDir m"
    and "m \<in> set (seed_rows pid sid ms rows)" and "m_key m = (pid, '''')"
  shows "pending_dir pid sid m"
proof -
  have "find (\<lambda>m'. m_key m' = m_key m) (seed_rows pid sid ms rows) = Some m"
    using assms(3) by (rule iffD1 [OF find_key_mem [OF distinct_seed_rows [OF assms(1)]]])
  then have m: "m = (case find (\<lambda>m. m_key m = (pid, '''')) rows of None \<Rightarrow> seed_row pid sid ms
        | Some m \<Rightarrow> m\<lparr>m_Listed := False, m_ScanID := sid, m_SeenAt := ms\<rparr>)"
    by (simp add: assms(4) mfind_seed)
  show ?thesis
  proof (cases "find (\<lambda>m. m_key m = (pid, '''')) rows")
    case None
    with m show ?thesis by (simp add: pending_dir_def seed_row_def)
  next
    case (Some m0)
    then have "m0 \<in> set rows" "m_PairID m0 = pid" "m_Path m0 = ''''"
      by (auto dest!: find_Some_iff simp: m_key_def)
    with m Some assms(2) show ?thesis by (simp add: pending_dir_def)
  qed
qed

lemma seed_frontier:
  assumes dist: "distinct (map m_key rows)" and old: "\<And>m. m \<in> set rows \<Longrightarrow> m_ScanID m \<noteq> sid"
    and dir: "\<And>m. m \<in> set rows \<Longrightarrow> m_Path m = '''' \<Longrightarrow> m_IsDir m"
  shows "map m_Path (filter (pending_dir pid sid) (seed_rows pid sid ms rows)) = ['''']"
proof -
  let ?rows = "seed_rows pid sid ms rows"
  have "find (\<lambda>m. m_key m = (pid, '''')) ?rows \<noteq> None"
    by (simp add: mfind_seed)
  then obtain r where r: "r \<in> set ?rows" "m_key r = (pid, '''')"
    by (auto dest!: find_Some_iff)
  have "m = r" if "m \<in> set ?rows" "pending_dir pid sid m" for m
  proof -
    have "m \<notin> set rows" using that(2) old [of m] by (auto simp: pending_dir_def)
    then have "m_key m = (pid, '''')" using that(1) seed_others [OF dist, of m pid sid ms] by blast
    with that(1) r show ?thesis
      using distinct_map_inj [OF distinct_seed_rows [OF dist]] by simp
  qed
  moreover have "pending_dir pid sid r"
    using seed_root [OF dist dir r] .
  ultimately have "set (filter (pending_dir pid sid) ?rows) = {r}"
    using r(1) unfolding set_filter by blast
  then have "filter (pending_dir pid sid) ?rows = [r]"
    using dist distinct_seed_rows distinct_map_distinct by (intro distinct_singleton distinct_filter) blast+
  with r show ?thesis by (simp add: m_key_def)
qed

lemma superseded_closed:
  assumes "s \<in> set (sql_update (\<lambda>s. scan_PairID s = pid \<and> scan_open s) (supersede_row ms) rows)"
  shows "\<not> (scan_PairID s = pid \<and> scan_open s)"
proof -
  obtain s0 where "s = (if scan_PairID s0 = pid \<and> scan_open s0 then supersede_row ms s0 else s0)"
    using assms unfolding set_sql_update by blast
  moreover have "\<not> scan_open (supersede_row ms s0)"
    by (simp add: supersede_row_def scan_open_def)
  ultimately show ?thesis by (cases "scan_PairID s0 = pid \<and> scan_open s0") auto
qed

section \<open>Properties\<close>

definition demo_scanned :: world where
  "demo_scanned = snd (BeginScan 1 False demo_world)"

definition demo_entry :: manifest_entry where
  "demo_entry = \<lparr>me_Path = ''a.mp3'', me_Size = 10, me_MTime = 1000000, me_IsDir = False\<rparr>"

definition demo_listed :: world where
  "demo_listed = snd (PutListing 1 1 '''' [demo_entry] demo_scanned)"

lemma demo_listing: "PutListing 1 1 '''' [demo_entry] demo_scanned = (Inr (), demo_listed)"
  unfolding demo_listed_def by (rule run_snd) code_simp

text \<open>
  (C10) A directory's children and the mark that it has been listed are written together or not at
  all: when the listing is recorded, every path of the pair reads as the entry the remote
  reported for it (of this walk and not listed yet), as the listed directory, or as before; when
  any statement fails, neither the manifest nor the counters have changed.
\<close>

theorem put_listing_atomic:
  assumes "PutListing pid sid dir entries w = (r, w')"
  shows "case r of
      Inl _ \<Rightarrow> manifest w' = manifest w \<and> scans w' = scans w
    | Inr _ \<Rightarrow> scans w' = count_row sid entries (scans w) \<and> (\<exists>ms. \<forall>k.
        find (\<lambda>m. m_key m = k) (manifest w') =
          (if k = (pid, dir) then map_option (listed_row sid ms) else id)
            (case find (\<lambda>e. (pid, me_Path e) = k) (rev entries) of
               Some e \<Rightarrow> Some (entry_row pid sid ms e)
             | None \<Rightarrow> find (\<lambda>m. m_key m = k) (manifest w)))"
proof (cases r)
  case (Inl x)
  with assms show ?thesis by (auto dest!: PutListing_Inl)
next
  case (Inr u)
  then obtain ms e where "w' = w\<lparr>manifest := listing_rows pid sid ms dir entries (manifest w),
      scans := count_row sid entries (scans w), env := e\<rparr>"
    using assms PutListing_Inr by (metis old.unit.exhaust)
  then show ?thesis
    using Inr by (simp add: mfind_listing) blast
qed

theorem put_listing_atomic_witness:
  "scans demo_listed = count_row 1 [demo_entry] (scans demo_scanned) \<and>
   mfind 1 ''a.mp3'' (manifest demo_listed) \<noteq> None"
proof -
  from put_listing_atomic [OF demo_listing] obtain ms
    where s: "scans demo_listed = count_row 1 [demo_entry] (scans demo_scanned)"
      and f: "\<forall>k. find (\<lambda>m. m_key m = k) (manifest demo_listed) =
          (if k = (1, '''') then map_option (listed_row 1 ms) else id)
            (case find (\<lambda>e. (1, me_Path e) = k) (rev [demo_entry]) of
               Some e \<Rightarrow> Some (entry_row 1 1 ms e)
             | None \<Rightarrow> find (\<lambda>m. m_key m = k) (manifest demo_scanned))"
    by auto
  show ?thesis using s f [rule_format, of "(1, ''a.mp3'')"] by (simp add: demo_entry_def)
qed

text \<open>
  Only a completed walk sweeps, and it sweeps exactly the rows of its pair it did not see: a
  walk that is closed as failed or interrupted leaves every row of the manifest in place, and
  the number reported is the number of rows that went.
\<close>

theorem finish_scan_sweep:
  assumes "FinishScan sid st msg w = (r, w')"
  shows "case r of
      Inl _ \<Rightarrow> manifest w' = manifest w \<and> scans w' = scans w
    | Inr n \<Rightarrow> (\<exists>s \<in> set (scans w). scan_ID s = sid \<and>
        manifest w' = (if st = ScanDone
          then filter (\<lambda>m. m_PairID m = scan_PairID s \<longrightarrow> m_ScanID m = sid) (manifest w) else manifest w) \<and>
        n = int (length (manifest w)) - int (length (manifest w')))"
proof (cases r)
  case (Inl x)
  with assms show ?thesis by (auto dest!: FinishScan_Inl)
next
  case (Inr n)
  with assms obtain s ms e where s: "find (\<lambda>s. scan_ID s = sid) (scans w) = Some s"
    and n: "n = (if st = ScanDone then sql_count (sweep_row (scan_PairID s) sid) (manifest w) else 0)"
    and w': "w' = w\<lparr>manifest := (if st = ScanDone then sql_delete (sweep_row (scan_PairID s) sid) (manifest w)
                       else manifest w),
       scans := sql_update (\<lambda>s. scan_ID s = sid) (finish_row st msg ms) (scans w), env := e\<rparr>"
    using FinishScan_Inr by blast
  have "n = int (length (manifest w)) - int (length (manifest w'))"
    using sum_length_filter_compl [of "sweep_row (scan_PairID s) sid" "manifest w"]
    unfolding n w' by (simp add: sql_count_def sql_delete_def)
  moreover have "filter (\<lambda>m. \<not> sweep_row p i m) = filter (\<lambda>m. m_PairID m = p \<longrightarrow> m_ScanID m = i)" for p i
    by (simp add: sweep_row_def)
  ultimately show ?thesis
    using Inr find_Some_iff [OF s] w' by (auto simp: sql_delete_def intro!: bexI [of _ s])
qed

theorem finish_scan_sweep_witness:
  "\<exists>w'. FinishScan 1 ScanInterrupted ''tunnel down'' demo_listed = (Inr 0, w') \<and>
     manifest w' = manifest demo_listed"
proof (intro exI conjI)
  show run: "FinishScan 1 ScanInterrupted ''tunnel down'' demo_listed =
      (Inr 0, snd (FinishScan 1 ScanInterrupted ''tunnel down'' demo_listed))"
    by (rule run_snd) code_simp
  show "manifest (snd (FinishScan 1 ScanInterrupted ''tunnel down'' demo_listed)) = manifest demo_listed"
    using finish_scan_sweep [OF run] by auto
qed

text \<open>
  A walk that is started afresh has an id no row of the manifest carries, the pair's root as
  its whole frontier and no rival: every other unfinished walk of the pair is closed as failed.
  The rows the previous walks left stay as they are.
\<close>

theorem begin_scan_fresh:
  assumes wf: "manifest_wf w" and refs: "manifest_refs w" and root: "roots_are_dirs w"
    and run: "BeginScan pid False w = (Inr (sc, resumed), w')"
  shows "\<not> resumed \<and> map m_Path (filter (pending_dir pid (scan_ID sc)) (manifest w')) = [''''] \<and>
    {s \<in> set (scans w'). scan_PairID s = pid \<and> scan_open s} = {sc} \<and>
    {m \<in> set (manifest w'). m_key m \<noteq> (pid, '''')} = {m \<in> set (manifest w). m_key m \<noteq> (pid, '''')}"
proof -
  from run obtain e where nr: "\<not> resumed"
    and sc: "sc = new_scan (next_rowid (map scan_ID (scans w))) pid (scan_StartedAt sc)"
    and w': "w' = w\<lparr>
         scans := sql_update (\<lambda>s. scan_PairID s = pid \<and> scan_open s) (supersede_row (scan_StartedAt sc)) (scans w) @ [sc],
         manifest := seed_rows pid (scan_ID sc) (scan_StartedAt sc) (manifest w), env := e\<rparr>"
    by (rule BeginScan_cases) blast+
  have id: "scan_ID sc = next_rowid (map scan_ID (scans w))" "scan_PairID sc = pid" "scan_open sc"
    by (subst sc, simp add: new_scan_def scan_open_def)+
  have dist: "distinct (map m_key (manifest w))"
    using wf by (simp add: manifest_wf_def)
  have old: "m_ScanID m \<noteq> scan_ID sc" if "m \<in> set (manifest w)" for m
    using that refs id(1) by (auto simp: manifest_refs_def)
  have front: "map m_Path (filter (pending_dir pid (scan_ID sc)) (manifest w')) = ['''']"
    using seed_frontier [OF dist old] root unfolding w' roots_are_dirs_def by simp
  have "s = sc" if "s \<in> set (scans w')" "scan_PairID s = pid" "scan_open s" for s
    using that superseded_closed [of s pid "scan_StartedAt sc" "scans w"] unfolding w' by simp blast
  moreover have "sc \<in> set (scans w')"
    unfolding w' by simp
  ultimately have "{s \<in> set (scans w'). scan_PairID s = pid \<and> scan_open s} = {sc}"
    using id by blast
  moreover have "{m \<in> set (manifest w'). m_key m \<noteq> (pid, '''')} = {m \<in> set (manifest w). m_key m \<noteq> (pid, '''')}"
    using seed_others [OF dist] unfolding w' by simp blast
  ultimately show ?thesis using nr front by blast
qed

theorem begin_scan_fresh_witness:
  "\<exists>sc. {s \<in> set (scans (snd (BeginScan 1 False demo_listed))). scan_PairID s = 1 \<and> scan_open s} = {sc}"
proof -
  have run: "BeginScan 1 False demo_listed = (Inr (new_scan 2 1 5000, False), snd (BeginScan 1 False demo_listed))"
    by (rule run_snd) code_simp
  have "manifest_wf demo_listed" "manifest_refs demo_listed" "roots_are_dirs demo_listed"
    by code_simp+
  from begin_scan_fresh [OF this run] show ?thesis by blast
qed

end
