(* ===== verification/Files.thy ===== *)
theory Files
  imports Manifest
begin

text \<open>
  Local truth and the per-file history (\<open>store/files.go\<close>), and the comparison of local truth
  with the manifest (\<open>store/diff.go\<close>): what changed, what vanished, how far behind the mirror is.
\<close>

section \<open>Local truth\<close>

text \<open>
  The \<open>File\<close> a caller hands in. \<open>None\<close> is Go's zero value, a timestamp or a state the caller
  left to \<open>putFileTx\<close>.
\<close>

record file_in =
  fi_PairID :: int
  fi_Path :: string
  fi_Size :: int
  fi_MTime :: time
  fi_Hash :: string
  fi_State :: "file_state option"
  fi_VerifiedAt :: "time option"

definition f_key :: "frow \<Rightarrow> int \<times> string" where
  "f_key f = (f_PairID f, f_Path f)"

definition put_files :: "(frow list \<Rightarrow> 'a \<times> frow list) \<Rightarrow> 'a op" where
  "put_files g = exec (\<lambda>w. let (a, rows) = g (files w) in
     if list_all (\<lambda>f. has_pair (f_PairID f) w) rows
     then Inr (a, w\<lparr>files := rows\<rparr>) else Inl EConstraint)"

definition file_row :: "file_in \<Rightarrow> time \<Rightarrow> frow" where
  "file_row f v = \<lparr>f_PairID = fi_PairID f, f_Path = fi_Path f, f_Size = fi_Size f,
     f_MTime = UnixMilli (fi_MTime f), f_Hash = fi_Hash f,
     f_State = (case fi_State f of None \<Rightarrow> FileSynced | Some st \<Rightarrow> st), f_VerifiedAt = UnixMilli v\<rparr>"

definition put_file_row :: "file_in \<Rightarrow> time \<Rightarrow> frow list \<Rightarrow> frow list" where
  "put_file_row f v = sql_upsert (\<lambda>r. f_key r = (fi_PairID f, fi_Path f)) (file_row f v)
     (\<lambda>r. r\<lparr>f_Size := f_Size (file_row f v), f_MTime := f_MTime (file_row f v),
            f_Hash := f_Hash (file_row f v), f_State := f_State (file_row f v),
            f_VerifiedAt := f_VerifiedAt (file_row f v)\<rparr>)"

definition putFileTx :: "file_in \<Rightarrow> unit op" where
  "putFileTx f =
     bindE (case fi_VerifiedAt f of None \<Rightarrow> now | Some t \<Rightarrow> returnE t) (\<lambda>v.
     wrapE ''write file'' (put_files (\<lambda>rows. ((), put_file_row f v rows))))"

definition PutFile :: "file_in \<Rightarrow> unit op" where
  "PutFile f = tx (putFileTx f)"

definition PutFiles :: "file_in list \<Rightarrow> unit op" where
  "PutFiles fl = (if fl = [] then returnE () else tx (forE fl putFileTx))"

definition FileAt :: "int \<Rightarrow> string \<Rightarrow> frow option op" where
  "FileAt pid path = wrapE ''read file'' (query (\<lambda>w. find (\<lambda>f. f_key f = (pid, path)) (files w)))"

definition ForgetFile :: "int \<Rightarrow> string \<Rightarrow> unit op" where
  "ForgetFile pid path = wrapE ''forget file''
     (put_files (\<lambda>rows. ((), sql_delete (\<lambda>f. f_key f = (pid, path)) rows)))"

definition FileStats :: "int \<Rightarrow> (int \<times> int) op" where
  "FileStats pid = wrapE ''read file stats'' (query (\<lambda>w.
     (sql_count (\<lambda>f. f_PairID f = pid) (files w), sql_sum f_Size (\<lambda>f. f_PairID f = pid) (files w))))"

section \<open>History\<close>

definition put_changes :: "(change list \<Rightarrow> 'a \<times> change list) \<Rightarrow> 'a op" where
  "put_changes g = exec (\<lambda>w. let (a, rows) = g (changes w) in
     if list_all (\<lambda>c. c \<in> set (changes w) \<or> has_pair (c_PairID c) w) rows
     then Inr (a, w\<lparr>changes := rows\<rparr>) else Inl EConstraint)"

text \<open>The change comes with its id 0, and with \<open>ts = None\<close> for Go's zero time.\<close>

definition AppendChange :: "time option \<Rightarrow> change \<Rightarrow> int op" where
  "AppendChange ts c =
     bindE (case ts of None \<Rightarrow> now | Some t \<Rightarrow> returnE t) (\<lambda>t.
     wrapE ''append change'' (put_changes (\<lambda>rows. let i = next_rowid (map c_ID rows)
       in (i, rows @ [c\<lparr>c_ID := i, c_TS := UnixMilli t\<rparr>]))))"

record change_filter =
  cf_PairID :: "int option"
  cf_Ops :: "change_op list"
  cf_Since :: "time option"
  cf_Limit :: int
  cf_Forward :: bool
  cf_AfterID :: int

definition Changes :: "change_filter \<Rightarrow> change list op" where
  "Changes f = wrapE ''read changes'' (query (\<lambda>w.
     take (nat (if cf_Limit f \<le> 0 then 100 else cf_Limit f))
       ((if cf_Forward f then id else rev) (sort_key c_ID (filter
          (\<lambda>c. (case cf_PairID f of None \<Rightarrow> True | Some p \<Rightarrow> c_PairID c = p) \<and>
               (cf_Ops f = [] \<or> c_Op c \<in> set (cf_Ops f)) \<and>
               (case cf_Since f of None \<Rightarrow> True | Some t \<Rightarrow> UnixMilli t \<le> c_TS c) \<and>
               (cf_AfterID f > 0 \<longrightarrow> cf_AfterID f < c_ID c)) (changes w))))))"

definition PruneChanges :: "time \<Rightarrow> int op" where
  "PruneChanges olderThan = wrapE ''prune changes'' (put_changes (\<lambda>rows.
     let p = (\<lambda>c. c_TS c < UnixMilli olderThan) in (sql_count p rows, sql_delete p rows)))"

section \<open>The difference of the manifest and local truth\<close>

record diff_row =
  d_Path :: string
  d_Size :: int
  d_MTime :: time
  d_Have :: bool
  d_LocalSize :: int

text \<open>
  Rows handed to a callback one by one while the cursor is open. Every step of the cursor can
  fail, and so can the callback; either ends the stream.
\<close>

definition streamE :: "('x \<Rightarrow> 's \<Rightarrow> 's op) \<Rightarrow> 'x list \<Rightarrow> 's \<Rightarrow> 's op" where
  "streamE fn = foldE (\<lambda>x s. bindE (wrapE ''scan row'' (query (\<lambda>_. ()))) (\<lambda>_. fn x s))"

text \<open>\<open>changedFrom\<close>: the manifest row against the row of local truth it is joined with.\<close>

definition changedFrom :: "int \<Rightarrow> int \<Rightarrow> frow list \<Rightarrow> mrow \<Rightarrow> bool" where
  "changedFrom pid tol fl m \<longleftrightarrow> m_PairID m = pid \<and> \<not> m_IsDir m \<and>
     (case find (\<lambda>f. f_key f = m_key m) fl of
        None \<Rightarrow> True
      | Some f \<Rightarrow> f_Size f \<noteq> m_Size m \<or> \<bar>f_MTime f - m_MTime m\<bar> > tol)"

definition diff_of :: "frow list \<Rightarrow> mrow \<Rightarrow> diff_row" where
  "diff_of fl m = (let f = find (\<lambda>f. f_key f = m_key m) fl in
     \<lparr>d_Path = m_Path m, d_Size = m_Size m, d_MTime = ofMilli (m_MTime m), d_Have = (f \<noteq> None),
      d_LocalSize = (case f of None \<Rightarrow> 0 | Some r \<Rightarrow> f_Size r)\<rparr>)"

definition changed_rows :: "int \<Rightarrow> duration \<Rightarrow> world \<Rightarrow> diff_row list" where
  "changed_rows pid tolerance w =
     map (diff_of (files w)) (sort_key m_Path
       (filter (changedFrom pid (Milliseconds tolerance) (files w)) (manifest w)))"

definition ChangedFiles :: "int \<Rightarrow> duration \<Rightarrow> (diff_row \<Rightarrow> 's \<Rightarrow> 's op) \<Rightarrow> 's \<Rightarrow> 's op" where
  "ChangedFiles pid tolerance fn s =
     bindE (wrapE ''diff pair'' (query (changed_rows pid tolerance))) (\<lambda>rows.
     bindE (streamE fn rows s) (\<lambda>s. bindE (query (\<lambda>_. ())) (\<lambda>_. returnE s)))"

definition BehindStats :: "int \<Rightarrow> duration \<Rightarrow> (int \<times> int) op" where
  "BehindStats pid tolerance = wrapE ''read behind stats'' (query (\<lambda>w.
     (sql_count (changedFrom pid (Milliseconds tolerance) (files w)) (manifest w),
      sql_sum m_Size (changedFrom pid (Milliseconds tolerance) (files w)) (manifest w))))"

definition vanishedFrom :: "int \<Rightarrow> mrow list \<Rightarrow> frow \<Rightarrow> bool" where
  "vanishedFrom pid ms f \<longleftrightarrow> f_PairID f = pid \<and> list_all (\<lambda>m. m_key m = f_key f \<longrightarrow> m_IsDir m) ms"

definition vanished_rows :: "int \<Rightarrow> world \<Rightarrow> (string \<times> int) list" where
  "vanished_rows pid w = map (\<lambda>f. (f_Path f, f_Size f))
     (sort_key f_Path (filter (vanishedFrom pid (manifest w)) (files w)))"

definition VanishedFiles :: "int \<Rightarrow> (string \<times> int \<Rightarrow> 's \<Rightarrow> 's op) \<Rightarrow> 's \<Rightarrow> 's op" where
  "VanishedFiles pid fn s =
     bindE (wrapE ''read vanished files'' (query (vanished_rows pid))) (\<lambda>rows.
     bindE (streamE fn rows s) (\<lambda>s. bindE (query (\<lambda>_. ())) (\<lambda>_. returnE s)))"

definition VanishedPage :: "int \<Rightarrow> string \<Rightarrow> int \<Rightarrow> (string \<times> int) list op" where
  "VanishedPage pid after limit =
     wrapE ''read vanished files'' (query (\<lambda>w.
       take (nat (if limit \<le> 0 then 1000 else limit))
         (filter (\<lambda>v. after < fst v) (vanished_rows pid w))))"

definition remote_rows :: "int \<Rightarrow> world \<Rightarrow> manifest_entry list" where
  "remote_rows pid w = map (\<lambda>m. \<lparr>me_Path = m_Path m, me_Size = m_Size m,
       me_MTime = ofMilli (m_MTime m), me_IsDir = False\<rparr>)
     (sort_key m_Path (filter (\<lambda>m. m_PairID m = pid \<and> \<not> m_IsDir m) (manifest w)))"

definition RemoteFiles :: "int \<Rightarrow> (manifest_entry \<Rightarrow> 's \<Rightarrow> 's op) \<Rightarrow> 's \<Rightarrow> 's op" where
  "RemoteFiles pid fn s =
     bindE (wrapE ''read manifest'' (query (remote_rows pid))) (\<lambda>rows.
     bindE (streamE fn rows s) (\<lambda>s. bindE (query (\<lambda>_. ())) (\<lambda>_. returnE s)))"

section \<open>The tables are well formed after every operation\<close>

definition files_wf :: "world \<Rightarrow> bool" where
  "files_wf w \<longleftrightarrow> distinct (map f_key (files w)) \<and> list_all (\<lambda>f. has_pair (f_PairID f) w) (files w)"

interpretation files_wf: world_inv files_wf
  by unfold_locales (simp add: files_wf_def)

lemma keeps_put_files:
  assumes "\<And>rows a rows'. g rows = (a, rows') \<Longrightarrow> distinct (map f_key rows) \<Longrightarrow> distinct (map f_key rows')"
  shows "keeps (\<lambda>w w'. files_wf w \<longrightarrow> files_wf w') (put_files g)"
  unfolding put_files_def
  by (rule files_wf.inv.keeps_exec)
     (use assms in \<open>fastforce simp: files_wf_def Let_def split: prod.splits if_splits\<close>)

lemma distinct_put_file_row:
  "distinct (map f_key rows) \<Longrightarrow> distinct (map f_key (put_file_row f v rows))"
  unfolding put_file_row_def by (rule distinct_sql_upsert) (simp_all add: f_key_def file_row_def)

lemma keeps_putFileTx: "keeps (\<lambda>w w'. files_wf w \<longrightarrow> files_wf w') (putFileTx f)"
  unfolding putFileTx_def
  by (intro files_wf.inv.keeps_rules keeps_put_files) (auto simp: distinct_put_file_row)

lemma keeps_PutFile: "keeps (\<lambda>w w'. files_wf w \<longrightarrow> files_wf w') (PutFile f)"
  unfolding PutFile_def by (intro files_wf.inv.keeps_rules keeps_putFileTx)

lemma keeps_PutFiles: "keeps (\<lambda>w w'. files_wf w \<longrightarrow> files_wf w') (PutFiles fl)"
  unfolding PutFiles_def by (intro files_wf.inv.keeps_rules keeps_putFileTx)

lemma keeps_ForgetFile: "keeps (\<lambda>w w'. files_wf w \<longrightarrow> files_wf w') (ForgetFile pid path)"
  unfolding ForgetFile_def
  by (intro files_wf.inv.keeps_rules keeps_put_files) (auto simp: distinct_sql_delete)

lemmas files_keeps = keeps_PutFile keeps_PutFiles keeps_ForgetFile

section \<open>What the operations do\<close>

lemma put_files_InrE [run_elims]:
  "put_files g w = (Inr a, w') \<Longrightarrow>
   (\<And>rows e. g (files w) = (a, rows) \<Longrightarrow> w' = w\<lparr>files := rows, env := e\<rparr> \<Longrightarrow> P) \<Longrightarrow> P"
  by (auto simp: put_files_def Let_def used_table dest!: exec_Inr split: prod.splits if_splits)

lemma put_changes_InrE [run_elims]:
  "put_changes g w = (Inr a, w') \<Longrightarrow>
   (\<And>rows e. g (changes w) = (a, rows) \<Longrightarrow> w' = w\<lparr>changes := rows, env := e\<rparr> \<Longrightarrow> P) \<Longrightarrow> P"
  by (auto simp: put_changes_def Let_def used_table dest!: exec_Inr split: prod.splits if_splits)

lemma put_file_row_key:
  "find (\<lambda>r. f_key r = k) (put_file_row f v rows) =
     (if k = (fi_PairID f, fi_Path f) then Some (file_row f v) else find (\<lambda>r. f_key r = k) rows)"
proof -
  let ?u = "\<lambda>r. r\<lparr>f_Size := f_Size (file_row f v), f_MTime := f_MTime (file_row f v),
            f_Hash := f_Hash (file_row f v), f_State := f_State (file_row f v),
            f_VerifiedAt := f_VerifiedAt (file_row f v)\<rparr>"
  have key: "f_key (?u r) = f_key r" "f_key (file_row f v) = (fi_PairID f, fi_Path f)" for r :: frow
    by (simp_all add: f_key_def file_row_def)
  have "?u r = file_row f v" if "find (\<lambda>r. f_key r = (fi_PairID f, fi_Path f)) rows = Some r" for r
    using find_Some_iff [OF that] by (simp add: f_key_def file_row_def)
  then show ?thesis
    unfolding put_file_row_def find_sql_upsert_key [where k = f_key, OF key]
    by (cases "k = (fi_PairID f, fi_Path f)") (simp_all split: option.splits)
qed

lemma PutFile_Inr:
  assumes "PutFile f w = (Inr (), w')"
  shows "\<exists>v e. w' = w\<lparr>files := put_file_row f v (files w), env := e\<rparr> \<and> (\<forall>t. fi_VerifiedAt f = Some t \<longrightarrow> v = t)"
proof (cases "fi_VerifiedAt f")
  case None
  with assms show ?thesis
    unfolding PutFile_def putFileTx_def by (auto elim!: run_elims; blast)
next
  case (Some t)
  with assms show ?thesis
    unfolding PutFile_def putFileTx_def by (auto elim!: run_elims; intro exI; rule refl)
qed

lemma PutFile_Inl: "PutFile f w = (Inl x, w') \<Longrightarrow> \<exists>e. w' = w\<lparr>env := e\<rparr>"
  unfolding PutFile_def by (rule tx_Inl)

lemma ForgetFile_Inr:
  "ForgetFile pid path w = (Inr (), w') \<Longrightarrow>
   \<exists>e. w' = w\<lparr>files := sql_delete (\<lambda>f. f_key f = (pid, path)) (files w), env := e\<rparr>"
  unfolding ForgetFile_def by (elim run_elims) (clarsimp, intro exI, rule refl)

section \<open>The difference\<close>

abbreviation remote_paths :: "int \<Rightarrow> world \<Rightarrow> string set" where
  "remote_paths pid w \<equiv> m_Path ` {m \<in> set (manifest w). m_PairID m = pid \<and> \<not> m_IsDir m}"

abbreviation local_paths :: "int \<Rightarrow> world \<Rightarrow> string set" where
  "local_paths pid w \<equiv> f_Path ` {f \<in> set (files w). f_PairID f = pid}"

lemma diff_of_path [simp]: "d_Path (diff_of fl m) = m_Path m" "d_Size (diff_of fl m) = m_Size m"
  by (simp_all add: diff_of_def Let_def)

lemma changed_paths:
  "d_Path ` set (changed_rows pid tol w) =
     m_Path ` {m \<in> set (manifest w). changedFrom pid (Milliseconds tol) (files w) m}"
  by (simp add: changed_rows_def image_image)

lemma vanished_paths:
  "fst ` set (vanished_rows pid w) = f_Path ` {f \<in> set (files w). vanishedFrom pid (manifest w) f}"
  by (simp add: vanished_rows_def image_image)

lemma distinct_keys_paths:
  assumes "distinct (map k xs)" and "\<And>x. x \<in> set xs \<Longrightarrow> P x \<Longrightarrow> k x = (c, p x)"
  shows "distinct (map p (filter P xs))"
proof -
  have "distinct (map k (filter P xs))"
    using assms(1) by (rule distinct_map_filter_key)
  moreover have "map k (filter P xs) = map (Pair c) (map p (filter P xs))"
    using assms(2) by (induction xs) auto
  ultimately show ?thesis by (metis distinct_map)
qed

lemma sorted_distinct_sort_key:
  "distinct (map k xs) \<Longrightarrow> sorted_wrt (<) (map k (sort_key k xs))"
  by (simp add: strict_sorted_iff distinct_map)

lemma changed_rows_sorted:
  assumes "manifest_wf w"
  shows "sorted_wrt (<) (map d_Path (changed_rows pid tol w))"
proof -
  have "distinct (map m_Path (filter (changedFrom pid (Milliseconds tol) (files w)) (manifest w)))"
    using assms by (intro distinct_keys_paths [where k = m_key and c = pid])
      (auto simp: manifest_wf_def changedFrom_def m_key_def)
  from sorted_distinct_sort_key [OF this] show ?thesis
    by (simp add: changed_rows_def comp_def)
qed

lemma vanished_rows_sorted:
  assumes "files_wf w"
  shows "sorted_wrt (<) (map fst (vanished_rows pid w))"
proof -
  have "distinct (map f_Path (filter (vanishedFrom pid (manifest w)) (files w)))"
    using assms by (intro distinct_keys_paths [where k = f_key and c = pid])
      (auto simp: files_wf_def vanishedFrom_def f_key_def)
  from sorted_distinct_sort_key [OF this] show ?thesis
    by (simp add: vanished_rows_def comp_def)
qed

lemma vanished_iff:
  "fst ` set (vanished_rows pid w) = local_paths pid w - remote_paths pid w"
proof -
  have van: "vanishedFrom pid (manifest w) f \<longleftrightarrow> f_PairID f = pid \<and> f_Path f \<notin> remote_paths pid w" for f
    by (force simp: vanishedFrom_def list_all_iff m_key_def f_key_def)
  have "f_Path ` {f \<in> set (files w). f_PairID f = pid \<and> f_Path f \<notin> R} = local_paths pid w - R" for R
    by auto
  then show ?thesis unfolding vanished_paths van .
qed

lemma find_f_key:
  "(find (\<lambda>f. f_key f = (pid, p)) (files w) \<noteq> None) = (p \<in> local_paths pid w)"
  by (auto simp: find_None_iff f_key_def)

lemma changed_have:
  assumes "d \<in> set (changed_rows pid tol w)"
  shows "d_Have d \<longleftrightarrow> d_Path d \<in> local_paths pid w"
proof -
  from assms obtain m where m: "changedFrom pid (Milliseconds tol) (files w) m" "d = diff_of (files w) m"
    by (auto simp: changed_rows_def)
  then have "d_Have d \<longleftrightarrow> find (\<lambda>f. f_key f = (pid, m_Path m)) (files w) \<noteq> None"
    by (auto simp: diff_of_def Let_def changedFrom_def m_key_def)
  with m find_f_key show ?thesis by simp
qed

text \<open>A path both sides have, with one size and with times that agree up to the tolerance.\<close>

definition in_step :: "int \<Rightarrow> duration \<Rightarrow> world \<Rightarrow> string \<Rightarrow> bool" where
  "in_step pid tol w p \<longleftrightarrow> (\<exists>m \<in> set (manifest w). \<exists>f \<in> set (files w). m_key m = (pid, p) \<and> \<not> m_IsDir m \<and> f_key f = (pid, p) \<and>
     f_Size f = m_Size m \<and> \<bar>f_MTime f - m_MTime m\<bar> \<le> Milliseconds tol)"

lemma changed_iff:
  assumes "manifest_wf w" and "files_wf w"
  shows "d_Path ` set (changed_rows pid tol w) = remote_paths pid w - {p. in_step pid tol w p}"
proof -
  have one: "m' = m" if "m \<in> set (manifest w)" "m' \<in> set (manifest w)" "m_key m' = m_key m" for m m'
    using that assms(1) by (auto simp: manifest_wf_def dest: distinct_map_inj)
  have row: "find (\<lambda>f. f_key f = k) (files w) = Some f" if "f \<in> set (files w)" "f_key f = k" for f k
  proof (cases "find (\<lambda>f. f_key f = k) (files w)")
    case None
    with that show ?thesis by (simp add: find_None_iff)
  next
    case (Some g)
    from find_Some_iff [OF this] have "g \<in> set (files w)" "f_key g = k" by auto
    with that assms(2) have "g = f" by (auto simp: files_wf_def dest: distinct_map_inj)
    with Some show ?thesis by simp
  qed
  have "changedFrom pid (Milliseconds tol) (files w) m \<longleftrightarrow> m_PairID m = pid \<and> \<not> m_IsDir m \<and> \<not> in_step pid tol w (m_Path m)"
    if m: "m \<in> set (manifest w)" for m
  proof (cases "\<exists>f \<in> set (files w). f_key f = m_key m")
    case True
    then obtain f where f: "f \<in> set (files w)" "f_key f = m_key m" by blast
    have "f' = f" if "f' \<in> set (files w)" "f_key f' = m_key m" for f'
      using row [OF that] row [OF f] by simp
    with m f one have "in_step (m_PairID m) tol w (m_Path m) \<longleftrightarrow>
        \<not> m_IsDir m \<and> f_Size f = m_Size m \<and> \<bar>f_MTime f - m_MTime m\<bar> \<le> Milliseconds tol"
      unfolding in_step_def m_key_def [of m, symmetric] by metis
    with row [OF f] show ?thesis by (auto simp: changedFrom_def)
  next
    case False
    then have "find (\<lambda>f. f_key f = m_key m) (files w) = None" by (auto simp: find_None_iff)
    with False show ?thesis by (auto simp: changedFrom_def in_step_def m_key_def)
  qed
  then have "d_Path ` set (changed_rows pid tol w) =
      m_Path ` {m \<in> set (manifest w). m_PairID m = pid \<and> \<not> m_IsDir m \<and> \<not> in_step pid tol w (m_Path m)}"
    unfolding changed_paths by (metis (mono_tags, lifting) Collect_cong)
  then show ?thesis by auto
qed

lemma changed_from_manifest:
  "d \<in> set (changed_rows pid tol w) \<Longrightarrow>
     \<exists>m \<in> set (manifest w). m_key m = (pid, d_Path d) \<and> \<not> m_IsDir m \<and> d_Size d = m_Size m \<and> d_MTime d = ofMilli (m_MTime m)"
  by (auto simp: changed_rows_def changedFrom_def diff_of_def Let_def m_key_def)

section \<open>Properties\<close>

definition demo_diff :: world where
  "demo_diff = demo_listed\<lparr>files := [\<lparr>f_PairID = 1, f_Path = ''old.mp3'', f_Size = 3, f_MTime = 0,
     f_Hash = '''', f_State = FileSynced, f_VerifiedAt = 0\<rparr>]\<rparr>"

lemma demo_diff_wf: "manifest_wf demo_diff" "files_wf demo_diff"
  by code_simp+

text \<open>
  (C7) The diff splits the paths of the two sides into three classes that do not meet: vanished is exactly what is held and
  no longer published; changed is exactly what is published and not in step; and in step is what both sides have with one size
  and with times no further apart than the tolerance. A change says \<open>replace\<close> exactly when a local row exists, it carries
  the publisher's size and time, and both lists come in path order without repetition.
\<close>

theorem diff_partition:
  assumes "manifest_wf w" and "files_wf w"
  shows "fst ` set (vanished_rows pid w) = local_paths pid w - remote_paths pid w \<and>
    d_Path ` set (changed_rows pid tol w) = remote_paths pid w - {p. in_step pid tol w p} \<and>
    {p. in_step pid tol w p} \<subseteq> remote_paths pid w \<inter> local_paths pid w \<and>
    (\<forall>d \<in> set (changed_rows pid tol w). (d_Have d \<longleftrightarrow> d_Path d \<in> local_paths pid w) \<and>
       (\<exists>m \<in> set (manifest w). m_key m = (pid, d_Path d) \<and> \<not> m_IsDir m \<and> d_Size d = m_Size m \<and> d_MTime d = ofMilli (m_MTime m))) \<and>
    sorted_wrt (<) (map d_Path (changed_rows pid tol w)) \<and>
    sorted_wrt (<) (map fst (vanished_rows pid w))"
proof (intro conjI ballI)
  show "{p. in_step pid tol w p} \<subseteq> remote_paths pid w \<inter> local_paths pid w"
    by (force simp: in_step_def m_key_def f_key_def)
qed (rule vanished_iff changed_iff [OF assms] changed_have changed_from_manifest changed_rows_sorted [OF assms(1)]
      vanished_rows_sorted [OF assms(2)]; assumption?)+

theorem diff_partition_witness:
  "d_Path ` set (changed_rows 1 0 demo_diff) = remote_paths 1 demo_diff \<and> ''a.mp3'' \<in> d_Path ` set (changed_rows 1 0 demo_diff) \<and>
   fst ` set (vanished_rows 1 demo_diff) = {''old.mp3''}"
proof -
  have at: "''a.mp3'' \<in> remote_paths 1 demo_diff" "remote_paths 1 demo_diff \<inter> local_paths 1 demo_diff = {}"
    "local_paths 1 demo_diff - remote_paths 1 demo_diff = {''old.mp3''}" by code_simp+
  have "{p. in_step 1 0 demo_diff p} = {}" using diff_partition [OF demo_diff_wf, of 1 0] at(2) by blast
  with diff_partition [OF demo_diff_wf, of 1 0] at(1,3) show ?thesis by simp
qed

text \<open>
  (C30) Recording a file as the publisher has it takes exactly that file out of the diff: with the
  size and, up to the tolerance, the timestamp of the manifest the path is no longer a change,
  and every other change stays one. This is what makes a sync converge.
\<close>

theorem put_file_converges:
  assumes "manifest_wf w" and "m \<in> set (manifest w)" and "\<not> m_IsDir m" and "m_key m = (fi_PairID f, fi_Path f)"
    and "fi_Size f = m_Size m" and "\<bar>UnixMilli (fi_MTime f) - m_MTime m\<bar> \<le> Milliseconds tol"
    and "PutFile f w = (Inr (), w')"
  shows "changed_rows (fi_PairID f) tol w' =
    filter (\<lambda>d. d_Path d \<noteq> fi_Path f) (changed_rows (fi_PairID f) tol w)"
proof -
  let ?p = "fi_PairID f" and ?t = "Milliseconds tol"
  obtain v where w': "manifest w' = manifest w" "files w' = put_file_row f v (files w)"
    using PutFile_Inr [OF assms(7)] by auto
  have inj: "m' = m" if "m' \<in> set (manifest w)" "m_key m' = m_key m" for m'
    using that assms(1,2) by (auto simp: manifest_wf_def dest: distinct_map_inj)
  have same: "changedFrom ?p ?t (files w') m' \<longleftrightarrow> changedFrom ?p ?t (files w) m' \<and> m_Path m' \<noteq> fi_Path f"
    if "m' \<in> set (manifest w)" for m'
  proof (cases "m_key m' = (?p, fi_Path f)")
    case True
    then have "m' = m" using inj that assms(4) by simp
    with True assms(3,5,6) show ?thesis
      by (simp add: changedFrom_def w'(2) put_file_row_key file_row_def m_key_def)
  next
    case False
    then show ?thesis
      by (auto simp: changedFrom_def w'(2) put_file_row_key m_key_def)
  qed
  have diff: "diff_of (files w') m' = diff_of (files w) m'" if "m_Path m' \<noteq> fi_Path f" for m'
    using that by (simp add: diff_of_def w'(2) put_file_row_key m_key_def)
  have "changed_rows ?p tol w' = map (diff_of (files w')) (sort_key m_Path
      (filter (\<lambda>m'. m_Path m' \<noteq> fi_Path f) (filter (changedFrom ?p ?t (files w)) (manifest w))))"
    unfolding changed_rows_def w'(1) filter_filter using same
    by (auto simp: conj_commute cong: filter_cong)
  also have "\<dots> = map (diff_of (files w')) (filter (\<lambda>m'. m_Path m' \<noteq> fi_Path f) (sort_key m_Path
      (filter (changedFrom ?p ?t (files w)) (manifest w))))"
    by (simp only: filter_sort)
  also have "\<dots> = map (diff_of (files w)) (filter (\<lambda>m'. m_Path m' \<noteq> fi_Path f) (sort_key m_Path
      (filter (changedFrom ?p ?t (files w)) (manifest w))))"
    using diff by simp
  also have "\<dots> = filter (\<lambda>d. d_Path d \<noteq> fi_Path f) (changed_rows ?p tol w)"
    by (simp add: changed_rows_def filter_map comp_def)
  finally show ?thesis .
qed

definition demo_file :: file_in where
  "demo_file = \<lparr>fi_PairID = 1, fi_Path = ''a.mp3'', fi_Size = 10, fi_MTime = 1000000, fi_Hash = '''',
     fi_State = None, fi_VerifiedAt = None\<rparr>"

theorem put_file_converges_witness:
  "\<exists>w'. PutFile demo_file demo_diff = (Inr (), w') \<and>
     changed_rows 1 2000000000 w' = filter (\<lambda>d. d_Path d \<noteq> ''a.mp3'') (changed_rows 1 2000000000 demo_diff)"
proof (intro exI conjI)
  show run: "PutFile demo_file demo_diff = (Inr (), snd (PutFile demo_file demo_diff))"
    by (rule run_snd) code_simp
  have "entry_row 1 1 5000 demo_entry \<in> set (manifest demo_diff)" by code_simp
  moreover have "\<not> m_IsDir (entry_row 1 1 5000 demo_entry)"
    "m_key (entry_row 1 1 5000 demo_entry) = (fi_PairID demo_file, fi_Path demo_file)"
    "fi_Size demo_file = m_Size (entry_row 1 1 5000 demo_entry)"
    "\<bar>UnixMilli (fi_MTime demo_file) - m_MTime (entry_row 1 1 5000 demo_entry)\<bar> \<le> Milliseconds 2000000000"
    by code_simp+
  ultimately have "changed_rows (fi_PairID demo_file) 2000000000 (snd (PutFile demo_file demo_diff)) =
      filter (\<lambda>d. d_Path d \<noteq> fi_Path demo_file) (changed_rows (fi_PairID demo_file) 2000000000 demo_diff)"
    using run by (rule put_file_converges [OF demo_diff_wf(1)])
  then show "changed_rows 1 2000000000 (snd (PutFile demo_file demo_diff)) =
      filter (\<lambda>d. d_Path d \<noteq> ''a.mp3'') (changed_rows 1 2000000000 demo_diff)"
    by (simp add: demo_file_def)
qed

end
