(* ===== verification/Deletions.thy ===== *)
theory Deletions
  imports World
begin

text \<open>
  Deletion approvals, \<open>store/deletions.go\<close>: a deletion that trips a guard becomes a request, is
  decided once by a person, and is spent at most once. The requests of a pair form a state
  machine; the unique index \<open>delete_approvals_open\<close> allows one request that is pending or
  approved per pair.
\<close>

section \<open>The table and its constraint\<close>

definition approval_open :: "approval \<Rightarrow> bool" where
  "approval_open a \<longleftrightarrow> a_State a = ApprovalPending \<or> a_State a = ApprovalApproved"

definition approvals_open_index :: "approval list \<Rightarrow> bool" where
  "approvals_open_index rows = distinct (map a_PairID (filter approval_open rows))"

definition put_approvals :: "(approval list \<Rightarrow> 'a \<times> approval list) \<Rightarrow> 'a op" where
  "put_approvals f = exec (\<lambda>w. let (a, rows) = f (approvals w) in
     if approvals_open_index rows \<and> list_all (\<lambda>r. has_pair (a_PairID r) w) rows
     then Inr (a, w\<lparr>approvals := rows\<rparr>) else Inl EConstraint)"

section \<open>Operations\<close>

definition decides :: "approval \<Rightarrow> int \<Rightarrow> int \<Rightarrow> bool" where
  "decides a scanID n \<longleftrightarrow> a_ScanID a = scanID \<and> n \<le> a_Files a"

definition Covers :: "approval \<Rightarrow> int \<Rightarrow> int \<Rightarrow> bool" where
  "Covers a scanID n \<longleftrightarrow> a_State a = ApprovalApproved \<and> decides a scanID n"

definition Refuses :: "approval \<Rightarrow> int \<Rightarrow> int \<Rightarrow> bool" where
  "Refuses a scanID n \<longleftrightarrow> a_State a = ApprovalRejected \<and> decides a scanID n"

definition Pending :: "approval \<Rightarrow> bool" where
  "Pending a \<longleftrightarrow> a_State a = ApprovalPending"

text \<open>\<open>QueryRow\<close> on a query that the index allows one answer for.\<close>

definition open_of :: "int \<Rightarrow> approval list \<Rightarrow> approval option" where
  "open_of pid rows = find (\<lambda>a. a_PairID a = pid \<and> approval_open a) rows"

definition openApprovalTx :: "int \<Rightarrow> approval option op" where
  "openApprovalTx pid = query (\<lambda>w. open_of pid (approvals w))"

definition reopen_row :: "int \<Rightarrow> int \<Rightarrow> int \<Rightarrow> string \<Rightarrow> int \<Rightarrow> approval \<Rightarrow> approval" where
  "reopen_row sid n bytes reason ms a = a\<lparr>a_ScanID := sid, a_Files := n, a_Bytes := bytes,
     a_Reason := reason, a_State := ApprovalPending, a_CreatedAt := ms, a_DecidedAt := None,
     a_DecidedBy := ''''\<rparr>"

definition new_approval :: "int \<Rightarrow> int \<Rightarrow> int \<Rightarrow> int \<Rightarrow> int \<Rightarrow> string \<Rightarrow> int \<Rightarrow> approval" where
  "new_approval i pid sid n bytes reason ms = \<lparr>a_ID = i, a_PairID = pid, a_ScanID = sid, a_Files = n,
     a_Bytes = bytes, a_Reason = reason, a_State = ApprovalPending, a_CreatedAt = ms,
     a_DecidedAt = None, a_DecidedBy = '''', a_UsedAt = None\<rparr>"

definition RequestDeleteApproval :: "int \<Rightarrow> int \<Rightarrow> int \<Rightarrow> int \<Rightarrow> string \<Rightarrow> approval op" where
  "RequestDeleteApproval pid sid n bytes reason = bindE now (\<lambda>t. let ms = UnixMilli t in
     tx (bindE (openApprovalTx pid) (\<lambda>found. case found of
           Some a \<Rightarrow>
             if Covers a sid n then returnE a
             else put_approvals (\<lambda>rows. (reopen_row sid n bytes reason ms a,
                    sql_update (\<lambda>r. a_ID r = a_ID a) (reopen_row sid n bytes reason ms) rows))
         | None \<Rightarrow> put_approvals (\<lambda>rows. let i = next_rowid (map a_ID rows);
                    a = new_approval i pid sid n bytes reason ms in (a, rows @ [a])))))"

definition OpenApproval :: "int \<Rightarrow> approval option op" where
  "OpenApproval pid = query (\<lambda>w. open_of pid (approvals w))"

definition LatestApproval :: "int \<Rightarrow> approval option op" where
  "LatestApproval pid = query (\<lambda>w. sql_last a_ID (\<lambda>a. a_PairID a = pid) (approvals w))"

definition decide_row :: "approval_state \<Rightarrow> int \<Rightarrow> string \<Rightarrow> approval \<Rightarrow> approval" where
  "decide_row st ms actor a = a\<lparr>a_State := st, a_DecidedAt := Some ms, a_DecidedBy := actor\<rparr>"

definition DecideDeletion :: "int \<Rightarrow> approval_state \<Rightarrow> string \<Rightarrow> approval op" where
  "DecideDeletion pid st actor =
     (if st \<noteq> ApprovalApproved \<and> st \<noteq> ApprovalRejected
      then throwE (EMsg ''cannot decide a deletion as'')
      else bindE now (\<lambda>t. let ms = UnixMilli t; p = (\<lambda>a. a_PairID a = pid \<and> Pending a) in
        bindE (put_approvals (\<lambda>rows. (find p rows, sql_update p (decide_row st ms actor) rows)))
         (\<lambda>found. case found of
            None \<Rightarrow> throwE ENoApproval
          | Some a \<Rightarrow> returnE (decide_row st ms actor a))))"

definition use_row :: "int \<Rightarrow> approval \<Rightarrow> approval" where
  "use_row ms a = a\<lparr>a_State := ApprovalUsed, a_UsedAt := Some ms\<rparr>"

definition UseApproval :: "int \<Rightarrow> unit op" where
  "UseApproval i = bindE now (\<lambda>t.
     wrapE ''spend approval'' (put_approvals (\<lambda>rows.
       ((), sql_update (\<lambda>a. a_ID a = i \<and> a_State a = ApprovalApproved) (use_row (UnixMilli t)) rows))))"

definition Approvals :: "int \<Rightarrow> int \<Rightarrow> approval list op" where
  "Approvals pid limit = wrapE ''read deletion approvals'' (query (\<lambda>w.
     take (nat (if limit \<le> 0 then 25 else limit))
       (rev (sort_key a_ID (filter (\<lambda>a. a_PairID a = pid) (approvals w))))))"

section \<open>The table is well formed after every operation\<close>

definition approvals_wf :: "world \<Rightarrow> bool" where
  "approvals_wf w \<longleftrightarrow> distinct (map a_ID (approvals w)) \<and> approvals_open_index (approvals w) \<and>
     list_all (\<lambda>a. has_pair (a_PairID a) w) (approvals w)"

interpretation approvals_wf: world_inv approvals_wf
  by unfold_locales (simp add: approvals_wf_def)

lemma keeps_put_approvals:
  assumes "\<And>rows a rows'. f rows = (a, rows') \<Longrightarrow> distinct (map a_ID rows) \<Longrightarrow> distinct (map a_ID rows')"
  shows "keeps (\<lambda>w w'. approvals_wf w \<longrightarrow> approvals_wf w') (put_approvals f)"
  unfolding put_approvals_def
  by (rule approvals_wf.inv.keeps_exec)
     (use assms in \<open>fastforce simp: approvals_wf_def Let_def split: prod.splits if_splits\<close>)

lemma keeps_RequestDeleteApproval:
  "keeps (\<lambda>w w'. approvals_wf w \<longrightarrow> approvals_wf w') (RequestDeleteApproval pid sid n b r)"
  unfolding RequestDeleteApproval_def openApprovalTx_def
  by (intro approvals_wf.inv.keeps_rules keeps_put_approvals)
     (auto simp: map_sql_update reopen_row_def new_approval_def Let_def)

lemma keeps_DecideDeletion: "keeps (\<lambda>w w'. approvals_wf w \<longrightarrow> approvals_wf w') (DecideDeletion pid st actor)"
  unfolding DecideDeletion_def
  by (intro approvals_wf.inv.keeps_rules keeps_put_approvals) (auto simp: map_sql_update decide_row_def)

lemma keeps_UseApproval: "keeps (\<lambda>w w'. approvals_wf w \<longrightarrow> approvals_wf w') (UseApproval i)"
  unfolding UseApproval_def
  by (intro approvals_wf.inv.keeps_rules keeps_put_approvals) (auto simp: map_sql_update use_row_def)

lemmas approvals_keeps = keeps_RequestDeleteApproval keeps_DecideDeletion keeps_UseApproval

section \<open>What the operations do\<close>

lemma put_approvals_InrE [run_elims]:
  "put_approvals f w = (Inr a, w') \<Longrightarrow>
   (\<And>rows e. f (approvals w) = (a, rows) \<Longrightarrow> approvals_open_index rows \<Longrightarrow>
      w' = w\<lparr>approvals := rows, env := e\<rparr> \<Longrightarrow> P) \<Longrightarrow> P"
  by (auto simp: put_approvals_def Let_def used_table dest!: exec_Inr split: prod.splits if_splits)

lemma UseApproval_Inr:
  "UseApproval i w = (Inr (), w') \<Longrightarrow> \<exists>ms e. w' = w\<lparr>approvals :=
     sql_update (\<lambda>a. a_ID a = i \<and> a_State a = ApprovalApproved) (use_row ms) (approvals w), env := e\<rparr>"
  unfolding UseApproval_def by (elim run_elims) (clarsimp, intro exI, rule refl)

lemma LatestApproval_Inr:
  "LatestApproval pid w = (Inr r, w') \<Longrightarrow>
   r = sql_last a_ID (\<lambda>a. a_PairID a = pid) (approvals w) \<and> (\<exists>e. w' = w\<lparr>env := e\<rparr>)"
  unfolding LatestApproval_def by (auto elim!: run_elims)

lemma open_of_Some:
  "open_of pid rows = Some a \<Longrightarrow> a \<in> set rows \<and> a_PairID a = pid \<and> approval_open a"
  unfolding open_of_def by (drule find_Some_iff) simp

lemma RequestDeleteApproval_Inl:
  "RequestDeleteApproval pid sid n b r w = (Inl x, w') \<Longrightarrow> \<exists>e. w' = w\<lparr>env := e\<rparr>"
proof -
  assume run: "RequestDeleteApproval pid sid n b r w = (Inl x, w')"
  obtain t e where "now w = (Inr t, w\<lparr>env := e\<rparr>)" by (rule now_obtain)
  with run show ?thesis
    unfolding RequestDeleteApproval_def Let_def by (auto simp: bindE_Inl dest!: tx_Inl)
qed

lemma RequestDeleteApproval_Inr:
  assumes "RequestDeleteApproval pid sid n b r w = (Inr a, w')"
  obtains (standing) "open_of pid (approvals w) = Some a" "Covers a sid n" "approvals w' = approvals w"
    | (again) a0 ms where "open_of pid (approvals w) = Some a0" "\<not> Covers a0 sid n"
        "a = reopen_row sid n b r ms a0"
        "approvals w' = sql_update (\<lambda>r. a_ID r = a_ID a0) (reopen_row sid n b r ms) (approvals w)"
    | (new) ms where "open_of pid (approvals w) = None"
        "a = new_approval (next_rowid (map a_ID (approvals w))) pid sid n b r ms"
        "approvals w' = approvals w @ [a]"
proof (cases "open_of pid (approvals w)")
  case None
  with assms new show thesis
    unfolding RequestDeleteApproval_def Let_def openApprovalTx_def by (auto elim!: run_elims)
next
  case (Some a0)
  show thesis
  proof (cases "Covers a0 sid n")
    case True
    with Some assms standing show thesis
      unfolding RequestDeleteApproval_def Let_def openApprovalTx_def by (auto elim!: run_elims)
  next
    case False
    with Some assms again show thesis
      unfolding RequestDeleteApproval_def Let_def openApprovalTx_def by (auto elim!: run_elims)
  qed
qed

lemma DecideDeletion_approvals:
  assumes "DecideDeletion pid st actor w = (r, w')"
  shows "approvals w' = approvals w \<or> (st = ApprovalApproved \<or> st = ApprovalRejected) \<and> (\<exists>ms.
    approvals w' = sql_update (\<lambda>a. a_PairID a = pid \<and> Pending a) (decide_row st ms actor) (approvals w))"
proof -
  obtain t e where t: "now w = (Inr t, w\<lparr>env := e\<rparr>)" by (rule now_obtain)
  have put: "put_approvals f v = (x, v') \<Longrightarrow>
      approvals v' = approvals v \<or> approvals v' = snd (f (approvals v))" for f :: "approval list \<Rightarrow> 'b \<times> approval list" and v x v'
    unfolding put_approvals_def Let_def
    by (drule exec_cases) (auto simp: used_table split: prod.splits if_splits)
  show ?thesis
  proof (cases "st \<noteq> ApprovalApproved \<and> st \<noteq> ApprovalRejected")
    case True
    with assms show ?thesis by (auto simp: DecideDeletion_def throwE_run)
  next
    case False
    obtain x v where x: "put_approvals (\<lambda>rows. (find (\<lambda>a. a_PairID a = pid \<and> Pending a) rows,
        sql_update (\<lambda>a. a_PairID a = pid \<and> Pending a) (decide_row st (UnixMilli t) actor) rows))
        (w\<lparr>env := e\<rparr>) = (x, v)"
      by (rule prod.exhaust)
    have "snd (DecideDeletion pid st actor w) = v"
      using False by (cases x) (auto simp: DecideDeletion_def Let_def bindE_def t x throwE_run returnE_run
          split: option.splits)
    then have "w' = v" by (simp add: assms)
    with put [OF x] False show ?thesis by auto
  qed
qed

lemma UseApproval_approvals:
  assumes "UseApproval i w = (r, w')"
  shows "approvals w' = approvals w \<or> (\<exists>ms. approvals w' =
    sql_update (\<lambda>a. a_ID a = i \<and> a_State a = ApprovalApproved) (use_row ms) (approvals w))"
proof (cases r)
  case (Inr u)
  with assms show ?thesis by (auto dest!: UseApproval_Inr)
next
  case (Inl x)
  obtain t e where "now w = (Inr t, w\<lparr>env := e\<rparr>)" by (rule now_obtain)
  with assms Inl show ?thesis
    unfolding UseApproval_def
    by (auto simp: bindE_def wrapE_def put_approvals_def dest: exec_cases split: prod.splits sum.splits)
qed

section \<open>The life of a request\<close>

text \<open>
  What can become of one row from one call to the next: it stays, it is asked again (which takes
  an approval back), a person decides it while it is pending, or a run spends it while it is
  approved. Used and rejected are final.
\<close>

inductive approval_step :: "approval \<Rightarrow> approval \<Rightarrow> bool" where
  stay: "approval_step a a"
| ask: "approval_open a \<Longrightarrow> \<not> Covers a sid n \<Longrightarrow> approval_step a (reopen_row sid n b r ms a)"
| decide: "Pending a \<Longrightarrow> st = ApprovalApproved \<or> st = ApprovalRejected \<Longrightarrow>
    approval_step a (decide_row st ms actor a)"
| spend: "a_State a = ApprovalApproved \<Longrightarrow> approval_step a (use_row ms a)"

inductive_cases approval_stepE: "approval_step a b"

definition final :: "approval \<Rightarrow> bool" where
  "final a \<longleftrightarrow> a_State a = ApprovalUsed \<or> a_State a = ApprovalRejected"

lemma approval_final: "approval_step a b \<Longrightarrow> final a \<Longrightarrow> b = a"
  by (auto elim!: approval_stepE simp: approval_open_def Pending_def final_def)

definition table_step :: "approval list \<Rightarrow> approval list \<Rightarrow> bool" where
  "table_step rows rows' \<longleftrightarrow> (\<exists>old new. rows' = old @ new \<and> list_all2 approval_step rows old \<and>
     list_all Pending new)"

lemma table_step_update:
  assumes "\<And>a. a \<in> set rows \<Longrightarrow> p a \<Longrightarrow> approval_step a (g a)"
  shows "table_step rows (sql_update p g rows)"
  unfolding table_step_def
  using assms
  by (intro exI [of _ "sql_update p g rows"] exI [of _ "[]"])
     (auto simp: list_all2_conv_all_nth sql_update_def intro!: approval_step.stay)

lemma table_step_refl: "table_step rows rows"
  unfolding table_step_def
  by (intro exI [of _ rows] exI [of _ "[]"]) (simp add: list_all2_same approval_step.stay)

lemma table_step_append: "Pending a \<Longrightarrow> table_step rows (rows @ [a])"
  unfolding table_step_def
  by (intro exI [of _ rows] exI [of _ "[a]"]) (simp add: list_all2_same approval_step.stay)

lemma table_step_final:
  assumes "table_step rows rows'" and "a \<in> set rows" and "final a"
  shows "a \<in> set rows'"
proof -
  from assms(1) obtain old new where old: "rows' = old @ new" "list_all2 approval_step rows old"
    by (auto simp: table_step_def)
  from assms(2) obtain i where "i < length rows" "rows ! i = a"
    by (auto simp: in_set_conv_nth)
  with old(2) have "i < length old" "approval_step a (old ! i)"
    by (auto simp: list_all2_conv_all_nth)
  with assms(3) old(1) show ?thesis
    by (metis Un_iff approval_final nth_mem set_append)
qed

lemma step_RequestDeleteApproval:
  assumes wf: "approvals_wf w" and run: "RequestDeleteApproval pid sid n b rs w = (r, w')"
  shows "table_step (approvals w) (approvals w')"
proof (cases r)
  case (Inl x)
  with run show ?thesis by (auto dest!: RequestDeleteApproval_Inl simp: table_step_refl)
next
  case (Inr a)
  from run [unfolded Inr] show ?thesis
  proof (cases rule: RequestDeleteApproval_Inr)
    case standing
    then show ?thesis by (simp add: table_step_refl)
  next
    case (again a0 ms)
    have "x = a0" if "x \<in> set (approvals w)" "a_ID x = a_ID a0" for x
      using that wf open_of_Some [OF again(1)] by (auto simp: approvals_wf_def dest: distinct_map_inj)
    then show ?thesis
      unfolding again(4) using open_of_Some [OF again(1)] again(2)
      by (intro table_step_update) (metis approval_step.ask)
  next
    case (new ms)
    then show ?thesis by (simp add: table_step_append Pending_def new_approval_def)
  qed
qed

lemma step_DecideDeletion:
  "DecideDeletion pid st actor w = (r, w') \<Longrightarrow> table_step (approvals w) (approvals w')"
  using DecideDeletion_approvals [of pid st actor w r w']
  by (auto intro: table_step_refl intro!: table_step_update approval_step.decide)

lemma step_UseApproval: "UseApproval i w = (r, w') \<Longrightarrow> table_step (approvals w) (approvals w')"
  using UseApproval_approvals [of i w r w']
  by (auto intro: table_step_refl intro!: table_step_update approval_step.spend)

section \<open>Properties\<close>

datatype approval_call =
    Ask int int int int string
  | Decide int approval_state string
  | Spend int

fun approval_op :: "approval_call \<Rightarrow> unit op" where
  "approval_op (Ask pid sid n b r) = ignoreE (RequestDeleteApproval pid sid n b r)"
| "approval_op (Decide pid st actor) = ignoreE (DecideDeletion pid st actor)"
| "approval_op (Spend i) = ignoreE (UseApproval i)"

interpretation lasting: step_rel
  "\<lambda>w w'. approvals_wf w \<longrightarrow> approvals_wf w' \<and> (\<forall>a \<in> set (approvals w). final a \<longrightarrow> a \<in> set (approvals w'))"
  by unfold_locales (auto simp: approvals_wf.I_env)

lemma lasting_op:
  assumes "keeps (\<lambda>w w'. approvals_wf w \<longrightarrow> approvals_wf w') m"
    and "\<And>w r w'. approvals_wf w \<Longrightarrow> m w = (r, w') \<Longrightarrow> table_step (approvals w) (approvals w')"
  shows "keeps (\<lambda>w w'. approvals_wf w \<longrightarrow> approvals_wf w' \<and>
     (\<forall>a \<in> set (approvals w). final a \<longrightarrow> a \<in> set (approvals w'))) m"
  using assms by (intro keepsI) (blast dest: keepsD table_step_final)

lemma lasting_call:
  "keeps (\<lambda>w w'. approvals_wf w \<longrightarrow> approvals_wf w' \<and>
     (\<forall>a \<in> set (approvals w). final a \<longrightarrow> a \<in> set (approvals w'))) (approval_op c)"
proof (cases c)
  case (Ask pid sid n b r)
  then show ?thesis
    by simp (intro lasting.keeps_ignore lasting_op approvals_keeps, rule step_RequestDeleteApproval)
next
  case (Decide pid st actor)
  then show ?thesis
    by simp (intro lasting.keeps_ignore lasting_op approvals_keeps, rule step_DecideDeletion)
next
  case (Spend i)
  then show ?thesis
    by simp (intro lasting.keeps_ignore lasting_op approvals_keeps, rule step_UseApproval)
qed

text \<open>
  (C21) An approval authorises one run and a refusal stands: whatever sequence of requests,
  decisions and spends follows, failed calls included, a request that has been used or
  rejected never changes again, so it can never cover another deletion.
\<close>

theorem approval_final_forever:
  assumes "approvals_wf w" and "a \<in> set (approvals w)" and "final a"
    and "forE cs approval_op w = (r, w')"
  shows "a \<in> set (approvals w') \<and> \<not> Covers a sid n"
proof -
  have "keeps (\<lambda>w w'. approvals_wf w \<longrightarrow> approvals_wf w' \<and>
     (\<forall>a \<in> set (approvals w). final a \<longrightarrow> a \<in> set (approvals w'))) (forE cs approval_op)"
    by (intro lasting.keeps_for lasting_call)
  from keepsD [OF this assms(4)] assms(1,2,3) show ?thesis
    by (auto simp: Covers_def final_def)
qed

definition demo_asked :: world where
  "demo_asked = snd (RequestDeleteApproval 1 7 150 4096 ''over the guard'' demo_world)"

definition demo_rejected :: world where
  "demo_rejected = snd (DecideDeletion 1 ApprovalRejected ''ann'' demo_asked)"

theorem approval_final_forever_witness:
  "\<exists>a \<in> set (approvals demo_rejected). final a \<and>
     a \<in> set (approvals (snd (forE [Decide 1 ApprovalApproved ''bob'', Ask 1 8 150 4096 ''again'', Spend 1]
       approval_op demo_rejected))) \<and> \<not> Covers a 7 150"
proof -
  let ?a = "decide_row ApprovalRejected 5000 ''ann'' (new_approval 1 1 7 150 4096 ''over the guard'' 5000)"
  have "approvals_wf demo_rejected" "?a \<in> set (approvals demo_rejected)" "final ?a" by code_simp+
  from this approval_final_forever [OF this surjective_pairing] show ?thesis by blast
qed

text \<open>
  Asking leaves the pair with exactly one open request, the one that is returned, and nothing
  stands that nobody saw: the request is either an approval that covers this walk and this
  count, or pending with exactly these numbers. An approval for another walk or a smaller set
  is taken back.
\<close>

theorem request_is_bound:
  assumes wf: "approvals_wf w" and run: "RequestDeleteApproval pid sid n b rs w = (Inr a, w')"
  shows "{x \<in> set (approvals w'). a_PairID x = pid \<and> approval_open x} = {a} \<and>
    (Covers a sid n \<and> a \<in> set (approvals w) \<or> Pending a \<and> a_ScanID a = sid \<and> a_Files a = n)"
proof -
  have mem: "a \<in> set (approvals w') \<and> a_PairID a = pid \<and> approval_open a \<and>
    (Covers a sid n \<and> a \<in> set (approvals w) \<or> Pending a \<and> a_ScanID a = sid \<and> a_Files a = n)"
    using run
  proof (cases rule: RequestDeleteApproval_Inr)
    case standing
    then show ?thesis using open_of_Some by auto
  next
    case (again a0 ms)
    then show ?thesis
      using open_of_Some [OF again(1)]
      by (auto simp: set_sql_update reopen_row_def Pending_def approval_open_def intro!: image_eqI [of _ _ a0])
  next
    case (new ms)
    then show ?thesis by (simp add: new_approval_def Pending_def approval_open_def)
  qed
  have wf': "approvals_wf w'"
    using wf keepsD [OF keeps_RequestDeleteApproval run] by blast
  then have "distinct (map a_PairID (filter approval_open (approvals w')))"
    by (simp add: approvals_wf_def approvals_open_index_def)
  then have "x = a" if "x \<in> set (approvals w')" "a_PairID x = pid" "approval_open x" for x
    using that mem distinct_map_inj [of a_PairID _ x a] by auto
  with mem show ?thesis by blast
qed

theorem request_is_bound_witness:
  "\<exists>a. {x \<in> set (approvals demo_asked). a_PairID x = 1 \<and> approval_open x} = {a} \<and> Pending a"
proof -
  let ?a = "new_approval 1 1 7 150 4096 ''over the guard'' 5000"
  have run: "RequestDeleteApproval 1 7 150 4096 ''over the guard'' demo_world = (Inr ?a, demo_asked)"
    unfolding demo_asked_def by (rule run_snd) code_simp
  have "approvals_wf demo_world" by code_simp
  from request_is_bound [OF this run] show ?thesis
    by (auto simp: Pending_def new_approval_def)
qed

end
