(* ===== verification/GoStd.thy ===== *)
theory GoStd
  imports Prelude
begin

text \<open>
  What the sources use of Go's standard library on strings and slash-separated paths:
  \<open>strings.Split\<close>, \<open>strings.Trim\<close>, \<open>path.Clean\<close>, \<open>path.Join\<close>, \<open>path.Dir\<close>, \<open>path.Base\<close>,
  \<open>path.Match\<close> (\<open>path/filepath\<close> is the same on the platforms the program runs on). A string is
  the list of its bytes.
\<close>

section \<open>Splitting and joining\<close>

abbreviation slash :: char where "slash \<equiv> CHR ''/''"

fun split_on :: "char \<Rightarrow> string \<Rightarrow> string list" where
  "split_on c [] = [[]]"
| "split_on c (x # xs) = (if x = c then [] # split_on c xs
     else (case split_on c xs of [] \<Rightarrow> [[x]] | s # ss \<Rightarrow> (x # s) # ss))"

fun join_on :: "char \<Rightarrow> string list \<Rightarrow> string" where
  "join_on c [] = []"
| "join_on c [s] = s"
| "join_on c (s # ss) = s @ c # join_on c ss"

lemma split_on_not_Nil [simp]: "split_on c xs \<noteq> []"
  by (induction xs) (auto split: list.splits)

lemma join_split [simp]: "join_on c (split_on c xs) = xs"
proof (induction xs)
  case (Cons x xs)
  then show ?case by (cases "split_on c xs") (auto, (cases "tl (split_on c xs)"; auto)+)
qed simp

lemma split_append_sep: "split_on c (xs @ c # ys) = split_on c xs @ split_on c ys"
proof (induction xs)
  case (Cons x xs)
  then show ?case by (cases "split_on c xs") auto
qed simp

lemma split_no_sep: "c \<notin> set s \<Longrightarrow> split_on c s = [s]"
  by (induction s) auto

lemma split_join:
  "ss \<noteq> [] \<Longrightarrow> (\<And>s. s \<in> set ss \<Longrightarrow> c \<notin> set s) \<Longrightarrow> split_on c (join_on c ss) = ss"
proof (induction c ss rule: join_on.induct)
  case (3 c s s' ss)
  have "split_on c (s @ c # join_on c (s' # ss)) = split_on c s @ split_on c (join_on c (s' # ss))"
    by (rule split_append_sep)
  with 3 show ?case by (simp add: split_no_sep)
qed (auto simp: split_no_sep)

lemma join_append:
  "xs \<noteq> [] \<Longrightarrow> ys \<noteq> [] \<Longrightarrow> join_on c (xs @ ys) = join_on c xs @ c # join_on c ys"
proof (induction c xs rule: join_on.induct)
  case (2 c s)
  then show ?case by (cases ys) auto
qed auto

section \<open>\<open>strings\<close>\<close>

definition HasPrefix :: "string \<Rightarrow> string \<Rightarrow> bool" where
  "HasPrefix s p = (take (length p) s = p)"

definition HasSuffix :: "string \<Rightarrow> string \<Rightarrow> bool" where
  "HasSuffix s p = HasPrefix (rev s) (rev p)"

definition CutPrefix :: "string \<Rightarrow> string \<Rightarrow> string option" where
  "CutPrefix s p = (if HasPrefix s p then Some (drop (length p) s) else None)"

definition TrimPrefix :: "string \<Rightarrow> string \<Rightarrow> string" where
  "TrimPrefix s p = (if HasPrefix s p then drop (length p) s else s)"

definition trim_with :: "(char \<Rightarrow> bool) \<Rightarrow> string \<Rightarrow> string" where
  "trim_with p s = rev (dropWhile p (rev (dropWhile p s)))"

text \<open>ASCII white space; the configuration values the program trims are ASCII.\<close>

definition is_space :: "char \<Rightarrow> bool" where
  "is_space c \<longleftrightarrow> c \<in> {CHR '' '', CHR 0x09, CHR 0x0A, CHR 0x0B, CHR 0x0C, CHR 0x0D}"

definition TrimSpace :: "string \<Rightarrow> string" where
  "TrimSpace = trim_with is_space"

definition Trim :: "string \<Rightarrow> string \<Rightarrow> string" where
  "Trim s cutset = trim_with (\<lambda>c. c \<in> set cutset) s"

lemma HasPrefix_iff: "HasPrefix s p \<longleftrightarrow> (\<exists>r. s = p @ r)"
  by (metis HasPrefix_def append_eq_conv_conj)

lemma HasSuffix_iff: "HasSuffix s p \<longleftrightarrow> (\<exists>r. s = r @ p)"
  unfolding HasSuffix_def HasPrefix_iff by (metis rev_append rev_rev_ident)

lemma CutPrefix_Some: "CutPrefix s p = Some r \<longleftrightarrow> s = p @ r"
  by (auto simp: CutPrefix_def HasPrefix_iff)

section \<open>\<open>path\<close>\<close>

text \<open>
  \<open>Clean\<close> drops empty and \<open>.\<close> segments and resolves \<open>..\<close> against what is before it; at the root
  there is nothing above. \<open>acc\<close> is the path built so far, last segment first.
\<close>

fun clean_segs :: "bool \<Rightarrow> string list \<Rightarrow> string list \<Rightarrow> string list" where
  "clean_segs rooted [] acc = rev acc"
| "clean_segs rooted (s # ss) acc =
     (if s = [] \<or> s = ''.'' then clean_segs rooted ss acc
      else if s = ''..'' then
        (case acc of
           a # as \<Rightarrow> if a \<noteq> ''..'' then clean_segs rooted ss as
                     else clean_segs rooted ss (''..'' # acc)
         | [] \<Rightarrow> if rooted then clean_segs rooted ss [] else clean_segs rooted ss [''..''])
      else clean_segs rooted ss (s # acc))"

definition path_Clean :: "string \<Rightarrow> string" where
  "path_Clean p =
     (if p = [] then ''.''
      else if hd p = slash then slash # join_on slash (clean_segs True (split_on slash p) [])
      else (let segs = clean_segs False (split_on slash p) [] in
            if segs = [] then ''.'' else join_on slash segs))"

definition path_Join :: "string list \<Rightarrow> string" where
  "path_Join elems = (let es = filter (\<lambda>e. e \<noteq> []) elems in
     if es = [] then [] else path_Clean (join_on slash es))"

text \<open>The part up to the last slash, with it, and the part after it.\<close>

definition path_Split :: "string \<Rightarrow> string \<times> string" where
  "path_Split p = (let base = rev (takeWhile (\<lambda>c. c \<noteq> slash) (rev p))
                   in (take (length p - length base) p, base))"

definition path_Dir :: "string \<Rightarrow> string" where
  "path_Dir p = path_Clean (fst (path_Split p))"

definition path_Base :: "string \<Rightarrow> string" where
  "path_Base p =
     (if p = [] then ''.''
      else (let q = rev (dropWhile (\<lambda>c. c = slash) (rev p)) in
            if q = [] then ''/'' else snd (path_Split q)))"

subsection \<open>Clean relative paths\<close>

text \<open>A path of the manifest, as the segments it is made of.\<close>

definition seg_ok :: "string \<Rightarrow> bool" where
  "seg_ok s \<longleftrightarrow> s \<noteq> [] \<and> s \<noteq> ''.'' \<and> s \<noteq> ''..'' \<and> slash \<notin> set s"

definition rel_ok :: "string \<Rightarrow> bool" where
  "rel_ok p \<longleftrightarrow> list_all seg_ok (split_on slash p)"

lemma rel_ok_join: "ss \<noteq> [] \<Longrightarrow> list_all seg_ok ss \<Longrightarrow> split_on slash (join_on slash ss) = ss"
  by (rule split_join) (auto simp: list_all_iff seg_ok_def)

lemma rel_okE:
  assumes "rel_ok p"
  obtains ss where "ss \<noteq> []" and "list_all seg_ok ss" and "p = join_on slash ss" and "split_on slash p = ss"
  using assms that [of "split_on slash p"] by (simp add: rel_ok_def)

lemma clean_segs_ok: "list_all seg_ok ss \<Longrightarrow> clean_segs r ss acc = rev acc @ ss"
  by (induction ss arbitrary: acc) (auto simp: seg_ok_def)

lemma clean_segs_append:
  "list_all seg_ok xs \<Longrightarrow> clean_segs r (xs @ ys) acc = clean_segs r ys (rev xs @ acc)"
  by (induction xs arbitrary: acc) (auto simp: seg_ok_def)

lemma join_seg_nonempty: "ss \<noteq> [] \<Longrightarrow> list_all seg_ok ss \<Longrightarrow> join_on slash ss \<noteq> [] \<and> hd (join_on slash ss) \<noteq> slash"
  by (cases ss; cases "tl ss") (auto simp: seg_ok_def hd_append neq_Nil_conv)

lemma path_Clean_rel: "ss \<noteq> [] \<Longrightarrow> list_all seg_ok ss \<Longrightarrow> path_Clean (join_on slash ss) = join_on slash ss"
  using join_seg_nonempty [of ss]
  by (simp add: path_Clean_def Let_def rel_ok_join clean_segs_ok)

lemma path_Split_snoc:
  assumes "slash \<notin> set s"
  shows "path_Split (p @ slash # s) = (p @ [slash], s)" and "path_Split s = ([], s)"
proof -
  have "takeWhile (\<lambda>c. c \<noteq> slash) (rev s @ slash # rev p) = rev s"
    using assms by (subst takeWhile_append2) auto
  then show "path_Split (p @ slash # s) = (p @ [slash], s)"
    by (simp add: path_Split_def)
  have eq: "takeWhile (\<lambda>c. c \<noteq> slash) (rev s) = rev s"
    using assms by (auto simp: takeWhile_eq_all_conv)
  show "path_Split s = ([], s)"
    by (simp add: path_Split_def eq)
qed

lemma path_Dir_snoc:
  assumes "ss \<noteq> []" and "list_all seg_ok ss" and "seg_ok s"
  shows "path_Dir (join_on slash (ss @ [s])) = join_on slash ss"
proof -
  have "join_on slash (ss @ [s]) = join_on slash ss @ slash # s"
    using assms(1) by (simp add: join_append)
  then have "path_Dir (join_on slash (ss @ [s])) = path_Clean (join_on slash ss @ [slash])"
    using assms(3) by (simp add: path_Dir_def path_Split_snoc seg_ok_def)
  also have "\<dots> = join_on slash ss"
    using assms join_seg_nonempty [of ss] split_append_sep [of slash "join_on slash ss" "[]"]
    by (simp add: path_Clean_def Let_def rel_ok_join clean_segs_append)
  finally show ?thesis .
qed

lemma path_Dir_single: "seg_ok s \<Longrightarrow> path_Dir s = ''.''"
  by (simp add: path_Dir_def path_Split_snoc seg_ok_def path_Clean_def)

lemma path_Base_snoc:
  assumes "seg_ok s"
  shows "path_Base (p @ slash # s) = s" and "path_Base s = s"
proof -
  obtain c cs where rs: "rev s = c # cs" "c \<noteq> slash"
    using assms by (cases "rev s") (auto simp: seg_ok_def)
  then have "dropWhile (\<lambda>c. c = slash) (rev s @ xs) = rev s @ xs" for xs
    by simp
  then have strip: "rev (dropWhile (\<lambda>c. c = slash) (rev s @ xs)) = rev xs @ s" for xs
    by simp
  have "s \<noteq> []" "slash \<notin> set s"
    using assms by (auto simp: seg_ok_def)
  then show "path_Base (p @ slash # s) = s" and "path_Base s = s"
    using strip [of "slash # rev p"] strip [of "[]"]
    by (simp_all add: path_Base_def path_Split_snoc Let_def)
qed

lemma path_Base_join:
  "list_all seg_ok ss \<Longrightarrow> seg_ok s \<Longrightarrow> path_Base (join_on slash (ss @ [s])) = s"
  by (cases "ss = []") (simp_all add: path_Base_snoc join_append)

section \<open>\<open>path.Match\<close>\<close>

text \<open>
  \<open>utf8.DecodeRuneInString\<close>: the first rune of a string and its width. A byte that starts no
  valid encoding is the replacement rune, of width one.
\<close>

definition rune_error :: int where "rune_error = 65533"

definition cont_byte :: "char \<Rightarrow> bool" where
  "cont_byte c \<longleftrightarrow> 128 \<le> (of_char c :: int) \<and> (of_char c :: int) < 192"

definition in_bytes :: "char \<Rightarrow> int \<Rightarrow> int \<Rightarrow> bool" where
  "in_bytes c lo hi \<longleftrightarrow> lo \<le> (of_char c :: int) \<and> (of_char c :: int) \<le> hi"

fun DecodeRune :: "string \<Rightarrow> int \<times> nat" where
  "DecodeRune [] = (rune_error, 0)"
| "DecodeRune (a # s) = (let b0 = of_char a in
     if b0 < 128 then (b0, 1)
     else if 194 \<le> b0 \<and> b0 \<le> 223 then
       (case s of b # _ \<Rightarrow> if cont_byte b then ((b0 - 192) * 64 + (of_char b - 128), 2) else (rune_error, 1)
        | _ \<Rightarrow> (rune_error, 1))
     else if 224 \<le> b0 \<and> b0 \<le> 239 then
       (case s of b # c # _ \<Rightarrow>
           if in_bytes b (if b0 = 224 then 160 else 128) (if b0 = 237 then 159 else 191) \<and> cont_byte c
           then ((b0 - 224) * 4096 + (of_char b - 128) * 64 + (of_char c - 128), 3) else (rune_error, 1)
        | _ \<Rightarrow> (rune_error, 1))
     else if 240 \<le> b0 \<and> b0 \<le> 244 then
       (case s of b # c # d # _ \<Rightarrow>
           if in_bytes b (if b0 = 240 then 144 else 128) (if b0 = 244 then 143 else 191) \<and>
              cont_byte c \<and> cont_byte d
           then ((b0 - 240) * 262144 + (of_char b - 128) * 4096 + (of_char c - 128) * 64 + (of_char d - 128), 4)
           else (rune_error, 1)
        | _ \<Rightarrow> (rune_error, 1))
     else (rune_error, 1))"

text \<open>A rune out of a character class; \<open>None\<close> is \<open>ErrBadPattern\<close>.\<close>

definition getEsc :: "string \<Rightarrow> (int \<times> string) option" where
  "getEsc chunk = (case chunk of
     [] \<Rightarrow> None
   | c # cs \<Rightarrow>
      if c = CHR ''-'' \<or> c = CHR '']'' then None
      else (let body = (if c = CHR 0x5C then cs else chunk) in
        if body = [] then None
        else (let (r, n) = DecodeRune body; rest = drop n body in
              if r = rune_error \<and> n = 1 \<or> rest = [] then None else Some (r, rest))))"

lemma DecodeRune_width: "s \<noteq> [] \<Longrightarrow> 0 < snd (DecodeRune s)"
  by (cases s) (auto simp: Let_def split: list.splits)

lemma getEsc_shorter:
  assumes "getEsc chunk = Some (r, rest)"
  shows "length rest < length chunk"
proof -
  from assms obtain c cs where chunk: "chunk = c # cs"
    by (cases chunk) (auto simp: getEsc_def)
  let ?body = "if c = CHR 0x5C then cs else chunk"
  from assms have "?body \<noteq> []" "rest = drop (snd (DecodeRune ?body)) ?body"
    by (auto simp: getEsc_def chunk Let_def split: if_splits prod.splits)
  with DecodeRune_width [of ?body] have "length rest < length ?body" by auto
  then show ?thesis by (auto simp: chunk split: if_splits)
qed

text \<open>The ranges of a class up to its closing bracket: whether the rune is in one of them.\<close>

function class_ranges :: "int \<Rightarrow> string \<Rightarrow> bool \<Rightarrow> bool \<Rightarrow> (bool \<times> string) option" where
  "class_ranges r chunk some found =
     (if chunk \<noteq> [] \<and> hd chunk = CHR '']'' \<and> some then Some (found, tl chunk)
      else (case getEsc chunk of
          None \<Rightarrow> None
        | Some (lo, rest) \<Rightarrow>
           (if rest \<noteq> [] \<and> hd rest = CHR ''-'' then
              (case getEsc (tl rest) of
                 None \<Rightarrow> None
               | Some (hi, rest2) \<Rightarrow> class_ranges r rest2 True (found \<or> (lo \<le> r \<and> r \<le> hi)))
            else class_ranges r rest True (found \<or> r = lo))))"
  by pat_completeness auto
termination
proof (relation "measure (\<lambda>(r, chunk, some, found). length chunk)")
  fix chunk :: string and lo rest hi rest2 and x1 x2 :: "int \<times> string" and r :: int and some found :: bool
  assume "getEsc chunk = Some x1" "(lo, rest) = x1" "rest \<noteq> [] \<and> hd rest = CHR ''-''"
    "getEsc (tl rest) = Some x2" "(hi, rest2) = x2"
  then have "length rest < length chunk" "length rest2 < length (tl rest)"
    using getEsc_shorter by blast+
  then show "((r, rest2, True, found \<or> (lo \<le> r \<and> r \<le> hi)), r, chunk, some, found)
      \<in> measure (\<lambda>(r, chunk, some, found). length chunk)" by simp
next
  fix chunk :: string and lo rest and x1 :: "int \<times> string" and r :: int and some found :: bool
  assume "getEsc chunk = Some x1" "(lo, rest) = x1"
  then have "length rest < length chunk" using getEsc_shorter by blast
  then show "((r, rest, True, found \<or> r = lo), r, chunk, some, found)
      \<in> measure (\<lambda>(r, chunk, some, found). length chunk)" by simp
qed simp

declare class_ranges.simps [simp del]

lemma class_ranges_shorter:
  "class_ranges r chunk some found = Some (b, rest) \<Longrightarrow> length rest < length chunk"
proof (induction r chunk some found arbitrary: b rest rule: class_ranges.induct)
  case (1 r chunk some found)
  show ?case
  proof (cases "chunk \<noteq> [] \<and> hd chunk = CHR '']'' \<and> some")
    case True
    with 1(3) have "rest = tl chunk" by (simp add: class_ranges.simps [of r chunk])
    with True show ?thesis by (cases chunk) auto
  next
    case False
    with 1(3) obtain lo r1 where r1: "getEsc chunk = Some (lo, r1)"
      by (auto simp: class_ranges.simps [of r chunk] split: option.splits)
    then have "length r1 < length chunk" by (rule getEsc_shorter)
    show ?thesis
    proof (cases "r1 \<noteq> [] \<and> hd r1 = CHR ''-''")
      case dash: True
      with False r1 1(3) obtain hi r2 where r2: "getEsc (tl r1) = Some (hi, r2)"
        and run: "class_ranges r r2 True (found \<or> (lo \<le> r \<and> r \<le> hi)) = Some (b, rest)"
        by (auto simp: class_ranges.simps [of r chunk] split: option.splits)
      have "length rest < length r2"
        using 1(1) [OF False r1 refl dash r2 refl run] .
      moreover have "length r2 < length (tl r1)" using r2 by (rule getEsc_shorter)
      ultimately show ?thesis using \<open>length r1 < length chunk\<close> by simp
    next
      case nodash: False
      with False r1 1(3) have run: "class_ranges r r1 True (found \<or> r = lo) = Some (b, rest)"
        by (auto simp: class_ranges.simps [of r chunk])
      have "length rest < length r1"
        using 1(2) [OF False r1 refl nodash run] .
      then show ?thesis using \<open>length r1 < length chunk\<close> by simp
    qed
  qed
qed

text \<open>
  A chunk without stars against the start of a string. \<open>s = None\<close> is a match that has failed
  already; the chunk is still read to its end, for its syntax. The result is \<open>None\<close> for a
  malformed pattern, \<open>Some None\<close> for no match and \<open>Some (Some rest)\<close> for a match.
\<close>

function matchChunk :: "string \<Rightarrow> string option \<Rightarrow> string option option" where
  "matchChunk [] s = Some s"
| "matchChunk (c # cs) s0 =
     (let s = (if s0 = Some [] then None else s0) in
      if c = CHR ''['' then
        (let (r, s1) = (case s of None \<Rightarrow> (0, None)
                        | Some t \<Rightarrow> (fst (DecodeRune t), Some (drop (snd (DecodeRune t)) t)));
             neg = (cs \<noteq> [] \<and> hd cs = CHR ''^'');
             body = (if neg then tl cs else cs)
         in case class_ranges r body False False of
              None \<Rightarrow> None
            | Some (found, rest) \<Rightarrow> matchChunk rest (if found = neg then None else s1))
      else if c = CHR ''?'' then
        matchChunk cs (case s of None \<Rightarrow> None
          | Some t \<Rightarrow> if hd t = slash then None else Some (drop (snd (DecodeRune t)) t))
      else if c = CHR 0x5C then
        (case cs of [] \<Rightarrow> None
         | d # ds \<Rightarrow> matchChunk ds (case s of None \<Rightarrow> None
             | Some t \<Rightarrow> if d = hd t then Some (tl t) else None))
      else matchChunk cs (case s of None \<Rightarrow> None
             | Some t \<Rightarrow> if c = hd t then Some (tl t) else None))"
  by pat_completeness auto
termination
  by (relation "measure (\<lambda>(c, s). length c)") (auto dest!: class_ranges_shorter split: if_splits)

declare matchChunk.simps(2) [simp del]

text \<open>\<open>scanChunk\<close>: the leading stars, the chunk up to the next star outside a class, the rest.\<close>

fun scan_len :: "string \<Rightarrow> bool \<Rightarrow> nat" where
  "scan_len [] inrange = 0"
| "scan_len (c # cs) inrange =
     (if c = CHR 0x5C then (case cs of [] \<Rightarrow> 1 | _ # ds \<Rightarrow> 2 + scan_len ds inrange)
      else if c = CHR ''['' then Suc (scan_len cs True)
      else if c = CHR '']'' then Suc (scan_len cs False)
      else if c = CHR ''*'' \<and> \<not> inrange then 0
      else Suc (scan_len cs inrange))"

definition scanChunk :: "string \<Rightarrow> bool \<times> string \<times> string" where
  "scanChunk pat = (let p = dropWhile (\<lambda>c. c = CHR ''*'') pat; n = scan_len p False
     in (p \<noteq> pat, take n p, drop n p))"

text \<open>After a star: the first position (not past a slash) where the chunk matches.\<close>

fun star_match :: "string \<Rightarrow> bool \<Rightarrow> string \<Rightarrow> string option option" where
  "star_match chunk final [] = Some None"
| "star_match chunk final (c # cs) =
     (if c = slash then Some None
      else (case matchChunk chunk (Some cs) of
              None \<Rightarrow> None
            | Some None \<Rightarrow> star_match chunk final cs
            | Some (Some t) \<Rightarrow> if final \<and> t \<noteq> [] then star_match chunk final cs else Some (Some t)))"

lemma scan_len_pos: "p \<noteq> [] \<Longrightarrow> hd p \<noteq> CHR ''*'' \<Longrightarrow> 0 < scan_len p b"
  by (cases p) (auto split: list.splits)

lemma scanChunk_shorter:
  assumes "pat \<noteq> []" and "scanChunk pat = (star, chunk, rest)"
  shows "length rest < length pat"
proof -
  let ?p = "dropWhile (\<lambda>c. c = CHR ''*'') pat"
  have rest: "rest = drop (scan_len ?p False) ?p"
    using assms(2) by (simp add: scanChunk_def Let_def)
  have "length ?p \<le> length pat" by (rule length_dropWhile_le)
  show ?thesis
  proof (cases "?p = []")
    case True
    with rest assms(1) show ?thesis by simp
  next
    case False
    then have "0 < scan_len ?p False"
      using hd_dropWhile [of "\<lambda>c. c = CHR ''*''" pat] by (intro scan_len_pos) auto
    moreover have "0 < length ?p" using False by blast
    ultimately show ?thesis
      using \<open>length ?p \<le> length pat\<close> unfolding rest length_drop by arith
  qed
qed

text \<open>The rest of a pattern is still read for its syntax before the answer is no.\<close>

function bad_rest :: "string \<Rightarrow> bool" where
  "bad_rest pat = (if pat = [] then False
     else (let (star, chunk, rest) = scanChunk pat
           in matchChunk chunk (Some []) = None \<or> bad_rest rest))"
  by pat_completeness auto
termination
  by (relation "measure length") (auto dest: scanChunk_shorter [OF _ sym])

declare bad_rest.simps [simp del]

text \<open>\<open>None\<close> is \<open>ErrBadPattern\<close>.\<close>

function path_Match :: "string \<Rightarrow> string \<Rightarrow> bool option" where
  "path_Match pat name = (if pat = [] then Some (name = [])
     else (let (star, chunk, rest) = scanChunk pat in
       if star \<and> chunk = [] then Some (slash \<notin> set name)
       else (let miss = (if bad_rest rest then None else Some False) in
         case matchChunk chunk (Some name) of
           None \<Rightarrow> None
         | Some (Some t) \<Rightarrow>
             if t = [] \<or> rest \<noteq> [] then path_Match rest t
             else if star then (case star_match chunk (rest = []) name of
                 None \<Rightarrow> None
               | Some (Some u) \<Rightarrow> path_Match rest u
               | Some None \<Rightarrow> miss)
             else miss
         | Some None \<Rightarrow>
             if star then (case star_match chunk (rest = []) name of
                 None \<Rightarrow> None
               | Some (Some u) \<Rightarrow> path_Match rest u
               | Some None \<Rightarrow> miss)
             else miss)))"
  by pat_completeness auto
termination
  by (relation "measure (\<lambda>(p, n). length p)") (auto dest: scanChunk_shorter [OF _ sym])

declare path_Match.simps [simp del]

text \<open>A name without special characters matches itself and nothing else.\<close>

definition literal :: "string \<Rightarrow> bool" where
  "literal s \<longleftrightarrow> (\<forall>c \<in> set s. c \<notin> {CHR ''*'', CHR ''?'', CHR ''['', CHR 0x5C})"

lemma scan_len_literal: "literal s \<Longrightarrow> scan_len s False = length s"
  by (induction s) (auto simp: literal_def)

lemma scanChunk_literal: "literal s \<Longrightarrow> scanChunk s = (False, s, [])"
proof -
  assume lit: "literal s"
  then have "dropWhile (\<lambda>c. c = CHR ''*'') s = s"
    by (cases s) (auto simp: literal_def)
  with lit show ?thesis
    by (simp add: scanChunk_def scan_len_literal)
qed

lemma matchChunk_failed_literal: "literal s \<Longrightarrow> matchChunk s None = Some None"
  by (induction s) (auto simp: literal_def matchChunk.simps(2) Let_def)

lemma matchChunk_literal:
  "literal s \<Longrightarrow> matchChunk s (Some name) = Some (CutPrefix name s)"
proof (induction s arbitrary: name)
  case Nil
  then show ?case by (simp add: CutPrefix_def HasPrefix_def)
next
  case (Cons c s)
  then have lit: "literal s" and c: "c \<notin> {CHR ''*'', CHR ''?'', CHR ''['', CHR 0x5C}"
    by (auto simp: literal_def)
  show ?case
    using c Cons.IH [OF lit] matchChunk_failed_literal [OF lit]
    by (cases name) (auto simp: matchChunk.simps(2) Let_def CutPrefix_def HasPrefix_def)
qed

lemma path_Match_literal: "literal s \<Longrightarrow> path_Match s name = Some (name = s)"
proof -
  assume lit: "literal s"
  have "CutPrefix name s = Some [] \<longleftrightarrow> name = s"
    by (simp add: CutPrefix_Some)
  moreover have "bad_rest [] = False" by (simp add: bad_rest.simps)
  moreover have "path_Match [] t = Some (t = [])" for t by (simp add: path_Match.simps)
  moreover have "s \<noteq> [] \<Longrightarrow> path_Match s name = (case CutPrefix name s of
      Some t \<Rightarrow> if t = [] then path_Match [] t else (if bad_rest [] then None else Some False)
    | None \<Rightarrow> (if bad_rest [] then None else Some False))"
    by (subst path_Match.simps)
       (simp add: scanChunk_literal [OF lit] matchChunk_literal [OF lit] Let_def split: option.splits)
  ultimately show ?thesis
    by (cases "s = []") (auto split: option.splits)
qed

end
