(* ===== verification/PathFilter.thy ===== *)
theory PathFilter
  imports GoStd World
begin

text \<open>
  What a pair covers, \<open>engine/filter.go\<close>: the include and exclude globs, and for a jcc pair the
  hard exclusions of \<open>engine/jcc.go\<close> in front of them.
\<close>

section \<open>The jcc pair's settings\<close>

record JCC =
  jcc_DBDir :: string
  jcc_DBName :: string
  jcc_LockStale :: duration
  jcc_Backups :: int

definition UserDataDB :: string where "UserDataDB = ''ClipCornUserData.db''"
definition HistoryDB :: string where "HistoryDB = ''ClipCornHistory.db''"
definition LockSuffix :: string where "LockSuffix = ''.~lock''"
definition incomingSuffix :: string where "incomingSuffix = ''.incoming''"

definition jcc_fill :: "JCC \<Rightarrow> JCC" where
  "jcc_fill j =
     (let d = Trim (TrimSpace (jcc_DBDir j)) ''/'' in
      \<lparr>jcc_DBDir = (if d \<noteq> [] then TrimPrefix (path_Clean (slash # d)) ''/'' else d),
       jcc_DBName = (if TrimSpace (jcc_DBName j) = [] then ''ClipCornDB'' else jcc_DBName j),
       jcc_LockStale = (if jcc_LockStale j \<le> 0 then 24 * Hour else jcc_LockStale j),
       jcc_Backups = (if jcc_Backups j < 1 then 5 else jcc_Backups j)\<rparr>)"

definition jcc_DB :: "JCC \<Rightarrow> string" where
  "jcc_DB j = path_Join [jcc_DBDir j, jcc_DBName j @ ''.db'']"

definition jcc_Lock :: "JCC \<Rightarrow> string" where
  "jcc_Lock j = jcc_DB j @ LockSuffix"

text \<open>The reasons are texts in the source; that there is one is all the callers look at.\<close>

definition refuses :: "JCC \<Rightarrow> string \<Rightarrow> bool" where
  "refuses j rel = (let base = path_Base rel in
     base = UserDataDB \<or> base = HistoryDB \<or> HasSuffix base LockSuffix \<or>
     HasSuffix base ''-journal'' \<or> HasSuffix base ''-wal'' \<or> HasSuffix base ''-shm'' \<or>
     (HasPrefix base ''.'' \<and> HasSuffix base incomingSuffix))"

section \<open>Globs\<close>

fun matchSegments :: "string list \<Rightarrow> string list \<Rightarrow> bool" where
  "matchSegments [] name = (name = [])"
| "matchSegments (p # ps) name =
     (if p = ''**'' then ps = [] \<or> list_ex (\<lambda>i. matchSegments ps (drop i name)) [0 ..< Suc (length name)]
      else (case name of
              [] \<Rightarrow> False
            | n # ns \<Rightarrow> path_Match p n = Some True \<and> matchSegments ps ns))"

definition matchPath :: "string \<Rightarrow> string \<Rightarrow> bool" where
  "matchPath pattern name =
     (if pattern = [] \<or> name = [] then False
      else matchSegments (split_on slash pattern) (split_on slash name))"

text \<open>
  The directories above a path, nearest first: the loop over \<open>path.Dir\<close>. Every step of it makes
  the path shorter, so its length is fuel enough; \<open>dirs_above_join\<close> below shows that on
  the paths of a manifest nothing is cut off.
\<close>

fun climb :: "nat \<Rightarrow> string \<Rightarrow> string list" where
  "climb 0 d = []"
| "climb (Suc n) d = (if d = ''.'' \<or> d = ''/'' then [] else d # climb n (path_Dir d))"

definition dirs_above :: "string \<Rightarrow> string list" where
  "dirs_above rel = climb (length rel) (path_Dir rel)"

definition matchesAny :: "string list \<Rightarrow> string \<Rightarrow> bool" where
  "matchesAny patterns rel =
     list_ex (\<lambda>p. matchPath p rel \<or> list_ex (matchPath p) (dirs_above rel)) patterns"

section \<open>The filter\<close>

record filter_rules =
  fr_includes :: "string list"
  fr_excludes :: "string list"
  fr_jcc :: "JCC option"

definition newFilter :: "pair \<Rightarrow> JCC \<Rightarrow> filter_rules" where
  "newFilter p j = \<lparr>fr_includes = pair_Includes p, fr_excludes = pair_Excludes p,
     fr_jcc = (if pair_Type p = PairJCC then Some (jcc_fill j) else None)\<rparr>"

definition refused :: "filter_rules \<Rightarrow> string \<Rightarrow> bool" where
  "refused f rel = (case fr_jcc f of None \<Rightarrow> False | Some j \<Rightarrow> refuses j rel)"

definition excluded :: "filter_rules \<Rightarrow> string \<Rightarrow> bool" where
  "excluded f rel = (fr_excludes f \<noteq> [] \<and> matchesAny (fr_excludes f) rel)"

definition allows :: "filter_rules \<Rightarrow> string \<Rightarrow> bool" where
  "allows f rel =
     (if refused f rel then False
      else if excluded f rel then False
      else if fr_includes f = [] then True
      else matchesAny (fr_includes f) rel)"

definition allowsDir :: "filter_rules \<Rightarrow> string \<Rightarrow> bool" where
  "allowsDir f rel = (rel = [] \<or> (\<not> refused f rel \<and> \<not> excluded f rel))"

section \<open>The directories above a clean path\<close>

lemma length_join_snoc:
  assumes "ss \<noteq> []" and "seg_ok s"
  shows "length (join_on slash ss) < length (join_on slash (ss @ [s]))"
  using assms by (simp add: join_append)

lemma path_Dir_join:
  assumes "list_all seg_ok (ss @ [s])"
  shows "path_Dir (join_on slash (ss @ [s])) = (if ss = [] then ''.'' else join_on slash ss)"
  using assms by (auto simp: path_Dir_snoc path_Dir_single)

lemma join_not_dot:
  assumes "ss \<noteq> []" and "list_all seg_ok ss"
  shows "join_on slash ss \<noteq> ''.'' \<and> join_on slash ss \<noteq> ''/''"
proof -
  have split: "split_on slash (join_on slash ss) = ss" using assms by (rule rel_ok_join)
  have "ss \<noteq> [''.'']" "ss \<noteq> [[], []]" using assms(2) by (auto simp: seg_ok_def)
  moreover have "split_on slash ''.'' = [''.'']" "split_on slash ''/'' = [[], []]" by simp_all
  ultimately show ?thesis using split by metis
qed

lemma climb_join:
  "list_all seg_ok ss \<Longrightarrow> length (join_on slash ss) \<le> n \<Longrightarrow>
   climb n (if ss = [] then ''.'' else join_on slash ss) =
     map (\<lambda>k. join_on slash (take k ss)) (rev [1 ..< Suc (length ss)])"
proof (induction ss arbitrary: n rule: rev_induct)
  case Nil
  then show ?case by (cases n) auto
next
  case (snoc s ss)
  have ok: "list_all seg_ok ss" "seg_ok s" using snoc.prems(1) by auto
  let ?p = "join_on slash (ss @ [s])"
  have "?p \<noteq> []" using join_seg_nonempty [of "ss @ [s]"] snoc.prems(1) by simp
  with snoc.prems(2) obtain m where n: "n = Suc m" by (cases n) auto
  have "length (join_on slash ss) \<le> m"
    using snoc.prems(2) length_join_snoc [OF _ ok(2), of ss] by (cases "ss = []") (auto simp: n)
  from snoc.IH [OF ok(1) this] show ?case
    using join_not_dot [of "ss @ [s]"] snoc.prems(1) by (auto simp: n path_Dir_join)
qed

lemma dirs_above_join:
  assumes "ss \<noteq> []" and "list_all seg_ok ss"
  shows "dirs_above (join_on slash ss) = map (\<lambda>k. join_on slash (take k ss)) (rev [1 ..< length ss])"
proof -
  obtain ts s where ss: "ss = ts @ [s]" using assms(1) by (metis rev_exhaust)
  have ok: "list_all seg_ok ts" "seg_ok s" using assms(2) ss by auto
  have "length (join_on slash ts) \<le> length (join_on slash ss)"
    using length_join_snoc [OF _ ok(2), of ts] by (cases "ts = []") (auto simp: ss)
  from climb_join [OF ok(1) this] show ?thesis
    using assms(2) unfolding dirs_above_def ss by (auto simp: path_Dir_join simp del: upt_Suc)
qed

text \<open>A pattern selects a path when it matches some non-empty prefix of its segments.\<close>

lemma matchesAny_iff:
  assumes "ss \<noteq> []" and "list_all seg_ok ss"
  shows "matchesAny pats (join_on slash ss) \<longleftrightarrow>
    (\<exists>p \<in> set pats. p \<noteq> [] \<and> (\<exists>k. 1 \<le> k \<and> k \<le> length ss \<and> matchSegments (split_on slash p) (take k ss)))"
proof -
  have pre: "join_on slash (take k ss) \<noteq> [] \<and> split_on slash (join_on slash (take k ss)) = take k ss"
    if "1 \<le> k" for k
  proof -
    have "take k ss \<noteq> []" "list_all seg_ok (take k ss)"
      using that assms by (auto simp: list_all_iff dest: in_set_takeD)
    then show ?thesis using join_seg_nonempty rel_ok_join by blast
  qed
  have one: "(matchPath p (join_on slash ss) \<or> list_ex (matchPath p) (dirs_above (join_on slash ss))) \<longleftrightarrow>
    p \<noteq> [] \<and> (\<exists>k. 1 \<le> k \<and> k \<le> length ss \<and> matchSegments (split_on slash p) (take k ss))" for p
  proof -
    have "(matchPath p (join_on slash ss) \<or> list_ex (matchPath p) (dirs_above (join_on slash ss))) \<longleftrightarrow>
        (\<exists>k. 1 \<le> k \<and> k \<le> length ss \<and> matchPath p (join_on slash (take k ss)))"
    proof -
      have "list_ex (matchPath p) (dirs_above (join_on slash ss)) \<longleftrightarrow>
          (\<exists>k. 1 \<le> k \<and> k < length ss \<and> matchPath p (join_on slash (take k ss)))"
        unfolding dirs_above_join [OF assms] by (auto simp: list_ex_iff)
      moreover have "matchPath p (join_on slash ss) = matchPath p (join_on slash (take (length ss) ss))"
        by simp
      moreover have "1 \<le> length ss" using assms(1) by (cases ss) auto
      ultimately show ?thesis by (metis le_eq_less_or_eq)
    qed
    also have "\<dots> \<longleftrightarrow> p \<noteq> [] \<and> (\<exists>k. 1 \<le> k \<and> k \<le> length ss \<and> matchSegments (split_on slash p) (take k ss))"
      using pre unfolding matchPath_def by metis
    finally show ?thesis .
  qed
  then show ?thesis by (auto simp: matchesAny_def list_ex_iff)
qed

lemma matchesAny_subtree:
  assumes "ss \<noteq> []" and "list_all seg_ok (ss @ ts)" and "matchesAny pats (join_on slash ss)"
  shows "matchesAny pats (join_on slash (ss @ ts))"
proof -
  have ok: "list_all seg_ok ss" using assms(2) by simp
  from assms(3) obtain p k where "p \<in> set pats" "p \<noteq> []" "1 \<le> k" "k \<le> length ss"
      "matchSegments (split_on slash p) (take k ss)"
    unfolding matchesAny_iff [OF assms(1) ok] by blast
  then have "p \<in> set pats \<and> p \<noteq> [] \<and> 1 \<le> k \<and> k \<le> length (ss @ ts) \<and>
      matchSegments (split_on slash p) (take k (ss @ ts))" by simp
  then show ?thesis
    using assms(1,2) by (subst matchesAny_iff) auto
qed

section \<open>What \<open>**\<close> means\<close>

lemma matchSegments_star:
  "matchSegments (''**'' # ps) name \<longleftrightarrow> ps = [] \<or> (\<exists>i \<le> length name. matchSegments ps (drop i name))"
  by (auto simp: list_ex_iff less_Suc_eq_le simp del: upt_Suc)

lemma matchSegments_star_end:
  "matchSegments (ps @ [''**'']) name \<longleftrightarrow> (\<exists>k \<le> length name. matchSegments ps (take k name))"
proof (induction ps arbitrary: name)
  case Nil
  then show ?case by (auto intro: exI [of _ 0])
next
  case (Cons p ps)
  show ?case
  proof (cases "p = ''**''")
    case True
    have "matchSegments ((p # ps) @ [''**'']) name \<longleftrightarrow>
        (\<exists>i \<le> length name. \<exists>k \<le> length name - i. matchSegments ps (take k (drop i name)))"
      using True Cons.IH by (simp only: append_Cons matchSegments_star) simp
    also have "\<dots> \<longleftrightarrow> (\<exists>k \<le> length name. \<exists>i \<le> k. matchSegments ps (drop i (take k name)))"
    proof
      assume "\<exists>i \<le> length name. \<exists>k \<le> length name - i. matchSegments ps (take k (drop i name))"
      then obtain i k where "i \<le> length name" "k \<le> length name - i" "matchSegments ps (take k (drop i name))"
        by blast
      then show "\<exists>k \<le> length name. \<exists>i \<le> k. matchSegments ps (drop i (take k name))"
        by (intro exI [of _ "i + k"] conjI exI [of _ i]) (auto simp: drop_take)
    next
      assume "\<exists>k \<le> length name. \<exists>i \<le> k. matchSegments ps (drop i (take k name))"
      then obtain i k where "k \<le> length name" "i \<le> k" "matchSegments ps (drop i (take k name))"
        by blast
      then show "\<exists>i \<le> length name. \<exists>k \<le> length name - i. matchSegments ps (take k (drop i name))"
        by (intro exI [of _ i] conjI exI [of _ "k - i"]) (auto simp: drop_take)
    qed
    also have "\<dots> \<longleftrightarrow> (\<exists>k \<le> length name. matchSegments (p # ps) (take k name))"
      using True by (simp only: matchSegments_star) (auto simp: min_absorb2)
    finally show ?thesis .
  next
    case False
    show ?thesis
    proof (cases name)
      case Nil
      with False show ?thesis by simp
    next
      case (Cons n ns)
      have "(\<exists>k \<le> length name. matchSegments (p # ps) (take k name)) \<longleftrightarrow>
          (\<exists>k \<le> length ns. matchSegments (p # ps) (n # take k ns))"
      proof
        assume "\<exists>k \<le> length name. matchSegments (p # ps) (take k name)"
        then obtain k where "k \<le> length name" "matchSegments (p # ps) (take k name)" by blast
        with False Cons show "\<exists>k \<le> length ns. matchSegments (p # ps) (n # take k ns)"
          by (cases k) auto
      next
        assume "\<exists>k \<le> length ns. matchSegments (p # ps) (n # take k ns)"
        then obtain k where "k \<le> length ns" "matchSegments (p # ps) (n # take k ns)" by blast
        with Cons have "Suc k \<le> length name \<and> matchSegments (p # ps) (take (Suc k) name)" by simp
        then show "\<exists>k \<le> length name. matchSegments (p # ps) (take k name)" by blast
      qed
      with False Cons Cons.IH [of ns] show ?thesis by auto
    qed
  qed
qed

lemma matchSegments_Nil_all: "ps \<noteq> [] \<Longrightarrow> matchSegments ps [] \<Longrightarrow> \<forall>nm. matchSegments ps nm"
proof (induction ps)
  case (Cons p ps)
  then have p: "p = ''**''" by (auto split: if_splits)
  show ?case
  proof (cases "ps = []")
    case True
    with p show ?thesis by simp
  next
    case False
    obtain i where "matchSegments ps (drop i [])"
      using Cons.prems(2) False unfolding p matchSegments_star by blast
    then have "\<forall>nm. matchSegments ps (drop 0 nm)" using Cons.IH [OF False] by simp
    then show ?thesis unfolding p matchSegments_star by (intro allI disjI2 exI [of _ 0]) simp
  qed
qed simp

lemmas matchSegments_Nil = matchSegments_Nil_all [THEN spec]

section \<open>Properties\<close>

text \<open>
  (C39) Excluding a directory excludes its whole subtree: when the excludes match a directory,
  neither the walk enters anything below it nor does any file below it belong to the pair,
  whatever the includes say.
\<close>

theorem exclude_subtree:
  assumes "rel_ok dir" and "rel_ok below" and "excluded f dir"
  shows "\<not> allows f (dir @ ''/'' @ below) \<and> \<not> allowsDir f (dir @ ''/'' @ below)"
proof -
  obtain ss where ss: "ss \<noteq> []" "list_all seg_ok ss" "dir = join_on slash ss" using assms(1) by (rule rel_okE)
  obtain ts where ts: "ts \<noteq> []" "list_all seg_ok ts" "below = join_on slash ts" using assms(2) by (rule rel_okE)
  have "dir @ ''/'' @ below = join_on slash (ss @ ts)"
    using ss ts by (simp add: join_append)
  moreover have "excluded f (join_on slash (ss @ ts))"
    using assms(3) ss ts matchesAny_subtree [of ss ts "fr_excludes f"] by (auto simp: excluded_def)
  moreover have "dir @ ''/'' @ below \<noteq> []" by simp
  ultimately show ?thesis by (auto simp: allows_def allowsDir_def)
qed

definition demo_rules :: filter_rules where
  "demo_rules = \<lparr>fr_includes = [''**''], fr_excludes = [''Seri[e-f]n''], fr_jcc = None\<rparr>"

theorem exclude_subtree_witness:
  "\<not> allows demo_rules ''Serien/a/b.mkv'' \<and> \<not> allowsDir demo_rules ''Serien/a/b.mkv'' \<and>
   allows demo_rules ''Filme/b.mkv''"
proof -
  have "rel_ok ''Serien''" "rel_ok ''a/b.mkv''" "excluded demo_rules ''Serien''" by code_simp+
  from exclude_subtree [OF this] have "\<not> allows demo_rules (''Serien'' @ ''/'' @ ''a/b.mkv'') \<and>
      \<not> allowsDir demo_rules (''Serien'' @ ''/'' @ ''a/b.mkv'')" .
  moreover have "allows demo_rules ''Filme/b.mkv''" by code_simp
  ultimately show ?thesis by simp
qed

text \<open>
  A pattern and the pattern with \<open>/**\<close> behind it mean the same: both select what the
  pattern matches and everything below it.
\<close>

theorem glob_subtree:
  assumes "rel_ok rel" and "pat \<noteq> []"
  shows "matchesAny [pat @ ''/**''] rel = matchesAny [pat] rel"
proof -
  obtain ss where ss: "ss \<noteq> []" "list_all seg_ok ss" "rel = join_on slash ss" using assms(1) by (rule rel_okE)
  let ?ps = "split_on slash pat"
  have split: "split_on slash (pat @ ''/**'') = ?ps @ [''**'']"
    using split_append_sep [of slash pat "''**''"] by (simp add: split_no_sep)
  have "(\<exists>k. 1 \<le> k \<and> k \<le> length ss \<and> matchSegments (?ps @ [''**'']) (take k ss)) \<longleftrightarrow>
      (\<exists>k. 1 \<le> k \<and> k \<le> length ss \<and> matchSegments ?ps (take k ss))" (is "?l \<longleftrightarrow> ?r")
  proof
    assume ?l
    then obtain k j where "1 \<le> k" "k \<le> length ss" "j \<le> k" "matchSegments ?ps (take j ss)"
      unfolding matchSegments_star_end by (auto simp: min_def split: if_splits)
    then show ?r
      using matchSegments_Nil [of ?ps "take k ss"]
      by (cases "j = 0") (auto intro: exI [of _ k] exI [of _ j])
  next
    assume ?r
    then obtain k where "1 \<le> k" "k \<le> length ss" "matchSegments ?ps (take k ss)" by blast
    then show ?l
      unfolding matchSegments_star_end
      by (intro exI [of _ k] conjI exI [of _ k]) auto
  qed
  then show ?thesis
    using assms(2) ss by (simp add: matchesAny_iff split)
qed

theorem glob_subtree_witness:
  "matchesAny [''Ser*'' @ ''/**''] ''Serien/a.mkv'' = matchesAny [''Ser*''] ''Serien/a.mkv''"
proof (rule glob_subtree)
  show "rel_ok ''Serien/a.mkv''" by code_simp
qed simp

text \<open>
  (C31) The hard exclusions of a jcc pair cannot be configured away: whatever the globs are, the
  per-user databases, lock files, sqlite's transient files and half-copied databases never
  belong to it, in any directory.
\<close>

theorem jcc_refusals:
  assumes "pair_Type p = PairJCC" and "list_all seg_ok ds" and "seg_ok base"
    and "base = UserDataDB \<or> base = HistoryDB \<or> (\<exists>s. base = s @ LockSuffix) \<or>
      (\<exists>s. base \<in> {s @ ''-journal'', s @ ''-wal'', s @ ''-shm''}) \<or> (\<exists>s. base = ''.'' @ s @ incomingSuffix)"
  shows "\<not> allows (newFilter p j) (join_on slash (ds @ [base]))"
proof -
  have "path_Base (join_on slash (ds @ [base])) = base"
    using assms(2,3) by (rule path_Base_join)
  moreover have "HasPrefix (''.'' @ s @ incomingSuffix) ''.'' \<and> HasSuffix (''.'' @ s @ incomingSuffix) incomingSuffix" for s
    unfolding HasPrefix_iff HasSuffix_iff by (metis append.assoc)
  ultimately have "refuses (jcc_fill j) (join_on slash (ds @ [base]))"
    using assms(4) by (auto simp: refuses_def Let_def HasSuffix_iff)
  with assms(1) show ?thesis
    by (simp add: allows_def refused_def newFilter_def)
qed

theorem jcc_refusals_witness:
  "\<not> allows (newFilter (demo_pair\<lparr>pair_Type := PairJCC, pair_Includes := [''**'']\<rparr>)
       \<lparr>jcc_DBDir = '''', jcc_DBName = '''', jcc_LockStale = 0, jcc_Backups = 0\<rparr>)
     ''db/ClipCornHistory.db''"
proof -
  let ?j = "\<lparr>jcc_DBDir = '''', jcc_DBName = '''', jcc_LockStale = 0, jcc_Backups = 0\<rparr>"
  have "list_all seg_ok [''db'']" "seg_ok HistoryDB" by code_simp+
  then have "\<not> allows (newFilter (demo_pair\<lparr>pair_Type := PairJCC, pair_Includes := [''**'']\<rparr>) ?j)
      (join_on slash ([''db''] @ [HistoryDB]))"
    by (intro jcc_refusals) simp_all
  then show ?thesis by (simp add: HistoryDB_def)
qed

end
