(* ===== verification/OS.thy ===== *)
theory OS
  imports GoStd World
begin

text \<open>
  The local file system, as far as the engine uses packages \<open>os\<close> and \<open>filepath\<close>, and the
  engine's own helpers on it (\<open>engine/ownership.go\<close>, \<open>engine/space.go\<close>). Symbolic links,
  owners and permissions are not part of the model: \<open>chown\<close> and \<open>chmod\<close> are calls that may fail
  and change nothing else.
\<close>

section \<open>The disk\<close>

definition node :: "disk \<Rightarrow> string \<Rightarrow> fnode option" where
  "node d p = (if p = ''/'' then Some FDir else map_of d p)"

definition fs_put :: "string \<Rightarrow> fnode \<Rightarrow> disk \<Rightarrow> disk" where
  "fs_put p n d = (p, n) # filter (\<lambda>e. fst e \<noteq> p) d"

definition fs_del :: "string \<Rightarrow> disk \<Rightarrow> disk" where
  "fs_del p d = filter (\<lambda>e. fst e \<noteq> p) d"

definition below :: "string \<Rightarrow> string \<Rightarrow> bool" where
  "below p q = HasPrefix q (p @ ''/'')"

definition has_child :: "disk \<Rightarrow> string \<Rightarrow> bool" where
  "has_child d p = list_ex (\<lambda>e. below p (fst e)) d"

definition move_path :: "string \<Rightarrow> string \<Rightarrow> string \<Rightarrow> string" where
  "move_path src dst q =
     (if q = src then dst else if below src q then dst @ drop (length src) q else q)"

definition fs_move :: "string \<Rightarrow> string \<Rightarrow> disk \<Rightarrow> disk" where
  "fs_move src dst d = map (\<lambda>e. (move_path src dst (fst e), snd e)) (fs_del dst d)"

lemma node_put [simp]: "p \<noteq> ''/'' \<Longrightarrow> node (fs_put p n d) q = (if q = p then Some n else node d q)"
  by (induction d) (auto simp: node_def fs_put_def split: if_splits)

lemma node_del [simp]: "p \<noteq> ''/'' \<Longrightarrow> node (fs_del p d) q = (if q = p then None else node d q)"
  by (induction d) (auto simp: node_def fs_del_def split: if_splits)

section \<open>Calls\<close>

text \<open>
  A call of \<open>Stat\<close> may fail for any reason, but it does not say \<open>ErrNotExist\<close> of a path that is
  there; such a fault counts as an input/output error.
\<close>

definition os_Stat :: "string \<Rightarrow> fnode op" where
  "os_Stat p w = (case exec (\<lambda>w. case node (fs w) p of None \<Rightarrow> Inl ENotExist | Some n \<Rightarrow> Inr (n, w)) w of
     (Inl e, w') \<Rightarrow> (Inl (if errors_Is e ENotExist \<and> node (fs w) p \<noteq> None then EOS 5 else e), w')
   | (Inr n, w') \<Rightarrow> (Inr n, w'))"

abbreviation os_Lstat :: "string \<Rightarrow> fnode op" where
  "os_Lstat \<equiv> os_Stat"

definition os_Mkdir :: "string \<Rightarrow> unit op" where
  "os_Mkdir p = exec (\<lambda>w.
     if node (fs w) p \<noteq> None then Inl EExist
     else if node (fs w) (path_Dir p) \<noteq> Some FDir then Inl ENotExist
     else Inr ((), w\<lparr>fs := fs_put p FDir (fs w)\<rparr>))"

text \<open>A path below something that is no directory does not resolve.\<close>

definition os_Remove :: "string \<Rightarrow> unit op" where
  "os_Remove p = exec (\<lambda>w. if node (fs w) (path_Dir p) \<noteq> Some FDir then Inl (EOS 20) else case node (fs w) p of
     None \<Rightarrow> Inl ENotExist
   | Some FDir \<Rightarrow> if has_child (fs w) p \<or> p = ''/'' then Inl (EOS 39) else Inr ((), w\<lparr>fs := fs_del p (fs w)\<rparr>)
   | Some (FFile _ _) \<Rightarrow> Inr ((), w\<lparr>fs := fs_del p (fs w)\<rparr>))"

text \<open>A file may replace a file, a directory only an empty directory; a directory takes its subtree along.\<close>

definition os_Rename :: "string \<Rightarrow> string \<Rightarrow> unit op" where
  "os_Rename src dst = exec (\<lambda>w. let d = fs w in
     case node d src of
       None \<Rightarrow> Inl ENotExist
     | Some n \<Rightarrow>
        if node d (path_Dir src) \<noteq> Some FDir then Inl (EOS 20)
        else if node d (path_Dir dst) \<noteq> Some FDir then Inl ENotExist
        else if src = ''/'' \<or> dst = ''/'' \<or> below src dst then Inl (EOS 22)
        else if src = dst then Inr ((), w)
        else if n = FDir \<and> (node d dst \<noteq> None \<and> node d dst \<noteq> Some FDir \<or> has_child d dst) then Inl (EOS 39)
        else if n \<noteq> FDir \<and> node d dst = Some FDir then Inl EExist
        else Inr ((), w\<lparr>fs := (if n = FDir then fs_move src dst d else fs_put dst n (fs_del src d))\<rparr>))"

definition os_Chtimes :: "string \<Rightarrow> time \<Rightarrow> unit op" where
  "os_Chtimes p t = exec (\<lambda>w. case node (fs w) p of
     None \<Rightarrow> Inl ENotExist
   | Some FDir \<Rightarrow> Inr ((), w)
   | Some (FFile b _) \<Rightarrow> Inr ((), w\<lparr>fs := fs_put p (FFile b t) (fs w)\<rparr>))"

text \<open>\<open>OpenFile(O_RDWR|O_CREATE)\<close> on a file the caller goes on to use by its path.\<close>

definition os_OpenCreate :: "string \<Rightarrow> unit op" where
  "os_OpenCreate p = exec (\<lambda>w. case node (fs w) p of
     Some FDir \<Rightarrow> Inl (EOS 21)
   | Some (FFile _ _) \<Rightarrow> Inr ((), w)
   | None \<Rightarrow> if node (fs w) (path_Dir p) \<noteq> Some FDir then Inl ENotExist
             else Inr ((), w\<lparr>fs := fs_put p (FFile [] (clock (env w))) (fs w)\<rparr>))"

definition os_ReadFile :: "string \<Rightarrow> string op" where
  "os_ReadFile p = exec (\<lambda>w. case node (fs w) p of
     None \<Rightarrow> Inl ENotExist | Some FDir \<Rightarrow> Inl (EOS 21) | Some (FFile b _) \<Rightarrow> Inr (b, w))"

text \<open>Truncating to a larger size fills with zero bytes, and so does writing past the end.\<close>

definition resize :: "nat \<Rightarrow> string \<Rightarrow> string" where
  "resize n b = take n b @ replicate (n - length b) (CHR 0x00)"

definition splice :: "nat \<Rightarrow> string \<Rightarrow> string \<Rightarrow> string" where
  "splice off new b = resize off b @ new @ drop (off + length new) b"

definition os_Truncate :: "string \<Rightarrow> int \<Rightarrow> unit op" where
  "os_Truncate p n = exec (\<lambda>w. case node (fs w) p of
     Some (FFile b t) \<Rightarrow> if n < 0 then Inl (EOS 22)
       else Inr ((), w\<lparr>fs := fs_put p (FFile (resize (nat n) b) (clock (env w))) (fs w)\<rparr>)
   | _ \<Rightarrow> Inl ENotExist)"

definition os_WriteAt :: "string \<Rightarrow> int \<Rightarrow> string \<Rightarrow> unit op" where
  "os_WriteAt p off new = exec (\<lambda>w. case node (fs w) p of
     Some (FFile b t) \<Rightarrow> if off < 0 then Inl (EOS 22)
       else Inr ((), w\<lparr>fs := fs_put p (FFile (splice (nat off) new b) (clock (env w))) (fs w)\<rparr>)
   | _ \<Rightarrow> Inl ENotExist)"

text \<open>A call that touches nothing the model has: \<open>fsync\<close>, \<open>close\<close>, \<open>chown\<close>, \<open>chmod\<close>.\<close>

definition os_touch :: "string \<Rightarrow> unit op" where
  "os_touch p = query (\<lambda>_. ())"

fun node_size :: "fnode \<Rightarrow> int" where
  "node_size FDir = 0"
| "node_size (FFile b _) = int (length b)"

section \<open>The calls in general\<close>

text \<open>Whatever a call does, the tables stay as they are.\<close>

lemma splice_length: "length (splice off new b) = max (length b) (off + length new)"
  by (simp add: splice_def resize_def)

lemma take_splice:
  assumes "k \<le> off" and "k \<le> length b"
  shows "take k (splice off new b) = take k b"
  using assms by (simp add: splice_def resize_def)

lemma splice_next:
  assumes "off \<le> length b"
  shows "take (off + length new) (splice off new b) = take off b @ new"
  using assms by (simp add: splice_def resize_def)

lemma resize_length [simp]: "length (resize n b) = n"
  by (simp add: resize_def)

lemma resize_id: "length b = n \<Longrightarrow> resize n b = b"
  by (simp add: resize_def)

lemma resize_take: "n \<le> length b \<Longrightarrow> resize n b = take n b"
  by (simp add: resize_def)

section \<open>Directories with the pair's owner and mode\<close>

text \<open>
  \<open>Owner\<close>, \<open>FileMode\<close> and \<open>DirMode\<close> are configured or empty; when they are empty there is no
  call. \<open>settle\<close> is those two calls.
\<close>

definition settle :: "string \<Rightarrow> string \<Rightarrow> string \<Rightarrow> unit op" where
  "settle owner mode p =
     bindE (if owner = [] then returnE () else wrapE ''hand over'' (os_touch p)) (\<lambda>_.
     if mode = [] then returnE () else wrapE ''set mode'' (os_touch p))"

definition settleFile :: "pair \<Rightarrow> string \<Rightarrow> unit op" where
  "settleFile pr p = settle (pair_Owner pr) (pair_FileMode pr) p"

text \<open>
  The recursion climbs to the root, which exists; every step makes the path shorter, so its
  length is fuel enough.
\<close>

fun make_dir :: "nat \<Rightarrow> pair \<Rightarrow> string \<Rightarrow> unit op" where
  "make_dir fuel pr dir =
     bindE (tryE (os_Stat dir)) (\<lambda>r. case r of
       Inr FDir \<Rightarrow> returnE ()
     | Inr (FFile _ _) \<Rightarrow> throwE (EMsg ''exists and is not a directory'')
     | Inl e \<Rightarrow>
        if \<not> errors_Is e ENotExist then throwE e
        else
          bindE (case fuel of
                   0 \<Rightarrow> returnE ()
                 | Suc n \<Rightarrow> if path_Dir dir \<noteq> dir then make_dir n pr (path_Dir dir) else returnE ()) (\<lambda>_.
          bindE (tryE (os_Mkdir dir)) (\<lambda>m. case m of
            Inl e \<Rightarrow> if errors_Is e EExist then returnE () else throwE e
          | Inr _ \<Rightarrow>
              bindE (tryE (settle (pair_Owner pr) (pair_DirMode pr) dir)) (\<lambda>s. case s of
                Inr _ \<Rightarrow> returnE ()
              | Inl e \<Rightarrow> bindE (ignoreE (os_Remove dir)) (\<lambda>_. throwE e)))))"

definition makeDir :: "pair \<Rightarrow> string \<Rightarrow> unit op" where
  "makeDir pr dir = make_dir (length dir) pr dir"

section \<open>Free space\<close>

record Space =
  sp_Free :: int
  sp_Total :: int

definition statfs :: "string \<Rightarrow> (int \<times> int) op" where
  "statfs dir w = (case volumes (env w) of
      [] \<Rightarrow> (Inl (EMsg ''free space cannot be read on this platform''), w)
    | v # vs \<Rightarrow> (v, w\<lparr>env := (env w)\<lparr>volumes := vs\<rparr>\<rparr>))"

fun free_space :: "nat \<Rightarrow> string \<Rightarrow> Space op" where
  "free_space fuel dir =
     bindE (tryE (os_Stat dir)) (\<lambda>r. case r of
       Inr _ \<Rightarrow> bindE (statfs dir) (\<lambda>(free, tot). returnE \<lparr>sp_Free = free, sp_Total = tot\<rparr>)
     | Inl _ \<Rightarrow>
        if path_Dir dir = dir then throwE (EMsg ''no existing directory above'')
        else (case fuel of
                0 \<Rightarrow> throwE (EMsg ''no existing directory above'')
              | Suc n \<Rightarrow> free_space n (path_Dir dir)))"

definition FreeSpace :: "string \<Rightarrow> Space op" where
  "FreeSpace p = free_space (length p) (path_Clean p)"

text \<open>An unknown amount of free space lets the transfer run.\<close>

definition checkSpace :: "int \<Rightarrow> pair \<Rightarrow> int \<Rightarrow> unit op" where
  "checkSpace reserve pr need =
     (if need \<le> 0 then returnE ()
      else bindE (tryE (FreeSpace (pair_LocalPath pr))) (\<lambda>r. case r of
             Inl _ \<Rightarrow> returnE ()
           | Inr sp \<Rightarrow> if sp_Free sp - reserve \<ge> need then returnE ()
                       else throwE (ESpace need (sp_Free sp) reserve)))"

end
