(* ===== verification/Engine.thy ===== *)
theory Engine
  imports Jobs Files Deletions PathFilter OS
begin

text \<open>
  What the parts of package \<open>engine\<close> share (\<open>engine/engine.go\<close>): the options and their defaults,
  the publisher's share, paths on both sides, and the event log (\<open>store/events.go\<close>).

  The publisher's share (package \<open>remote\<close>) is an interface; what implements it is a parameter,
  a record of operations. What the engine relies on is stated where it is needed:
  \<open>env_only\<close> says that a call of the remote changes nothing on this side.
\<close>

section \<open>Options\<close>

record options =
  opt_DataDir :: string
  opt_ScanWorkers :: int
  opt_MTimeTolerance :: duration
  opt_Chunks :: int
  opt_ChunkSize :: int
  opt_MaxAttempts :: int
  opt_RetryBackoff :: duration
  opt_HashAfterCopy :: bool
  opt_Reserve :: int
  opt_DeletePercent :: int
  opt_TrashRetention :: duration
  opt_JCC :: JCC

definition options_fill :: "options \<Rightarrow> options" where
  "options_fill o1 = o1\<lparr>
     opt_ScanWorkers := (if opt_ScanWorkers o1 < 1 then 8 else opt_ScanWorkers o1),
     opt_MTimeTolerance := (if opt_MTimeTolerance o1 < Second then 2 * Second else opt_MTimeTolerance o1),
     opt_Chunks := (if opt_Chunks o1 < 1 then 1 else opt_Chunks o1),
     opt_ChunkSize := (if opt_ChunkSize o1 < 1 then 64 * 1048576 else opt_ChunkSize o1),
     opt_MaxAttempts := (if opt_MaxAttempts o1 < 1 then 5 else opt_MaxAttempts o1),
     opt_RetryBackoff := (if opt_RetryBackoff o1 \<le> 0 then 30 * Second else opt_RetryBackoff o1),
     opt_TrashRetention := (if opt_TrashRetention o1 \<le> 0 then 7 * 24 * Hour else opt_TrashRetention o1),
     opt_JCC := jcc_fill (opt_JCC o1)\<rparr>"

text \<open>What every engine that \<open>New\<close> returns satisfies.\<close>

definition options_ok :: "options \<Rightarrow> bool" where
  "options_ok o1 \<longleftrightarrow> 1 \<le> opt_ScanWorkers o1 \<and> Second \<le> opt_MTimeTolerance o1 \<and> 1 \<le> opt_Chunks o1 \<and>
     1 \<le> opt_ChunkSize o1 \<and> 1 \<le> opt_MaxAttempts o1 \<and> 0 < opt_RetryBackoff o1 \<and> 0 < opt_TrashRetention o1"

lemma options_fill_ok: "options_ok (options_fill o1)"
  by (simp add: options_ok_def options_fill_def Second_def Hour_def)

section \<open>The publisher's share\<close>

record rentry =
  re_Path :: string
  re_Size :: int
  re_MTime :: time
  re_IsDir :: bool

text \<open>
  \<open>r_OpenRange path offset length\<close> is the stream and everything read from it: what each read
  returned and the error the reading ended with, if it did. \<open>r_Exists\<close> and \<open>r_OpenRange\<close>
  are the methods of \<open>Prober\<close> and \<open>RangeReader\<close>.
\<close>

record remote_fs =
  r_List :: "string \<Rightarrow> rentry list op"
  r_Stat :: "string \<Rightarrow> rentry op"
  r_Exists :: "string \<Rightarrow> bool op"
  r_OpenRange :: "string \<Rightarrow> int \<Rightarrow> int \<Rightarrow> (string list \<times> error option) op"

text \<open>
  The engine: its remote, its options, and the two library functions it calls,
  \<open>sha256\<close> (as the hexadecimal text of the digest) and \<open>norm.NFC.String\<close>.
\<close>

record engine =
  en_remote :: remote_fs
  en_opts :: options
  en_sha256 :: "string \<Rightarrow> string"
  en_NFC :: "string \<Rightarrow> string"

definition New :: "remote_fs \<Rightarrow> options \<Rightarrow> (string \<Rightarrow> string) \<Rightarrow> (string \<Rightarrow> string) \<Rightarrow> engine" where
  "New rem opts sha nfc = \<lparr>en_remote = rem, en_opts = options_fill opts, en_sha256 = sha, en_NFC = nfc\<rparr>"

definition errOffline :: error where
  "errOffline = EMsg ''this engine has no remote''"

definition offlineRemote :: remote_fs where
  "offlineRemote = \<lparr>r_List = (\<lambda>_. throwE errOffline), r_Stat = (\<lambda>_. throwE errOffline),
     r_Exists = (\<lambda>_. throwE errOffline), r_OpenRange = (\<lambda>_ _ _. throwE errOffline)\<rparr>"

definition NewOffline :: "options \<Rightarrow> (string \<Rightarrow> string) \<Rightarrow> (string \<Rightarrow> string) \<Rightarrow> engine" where
  "NewOffline = New offlineRemote"

text \<open>A call that leaves this side alone.\<close>

abbreviation env_only :: "'a op \<Rightarrow> bool" where
  "env_only m \<equiv> keeps (\<lambda>w w'. \<exists>e. w' = w\<lparr>env := e\<rparr>) m"

interpretation env_step: step_rel "\<lambda>w w'. \<exists>e. w' = w\<lparr>env := e\<rparr>"
  by unfold_locales auto

definition remote_ok :: "remote_fs \<Rightarrow> bool" where
  "remote_ok rem \<longleftrightarrow> (\<forall>p. env_only (r_List rem p)) \<and> (\<forall>p. env_only (r_Stat rem p)) \<and>
     (\<forall>p. env_only (r_Exists rem p)) \<and> (\<forall>p i n. env_only (r_OpenRange rem p i n))"

lemma remote_okD:
  "remote_ok rem \<Longrightarrow> env_only (r_List rem p)" "remote_ok rem \<Longrightarrow> env_only (r_Stat rem p)"
  "remote_ok rem \<Longrightarrow> env_only (r_Exists rem p)" "remote_ok rem \<Longrightarrow> env_only (r_OpenRange rem p i n)"
  by (auto simp: remote_ok_def)

lemma remote_ok_offline: "remote_ok offlineRemote"
  by (simp add: remote_ok_def offlineRemote_def env_step.keeps_throw)

text \<open>A call of the remote keeps every relation the operations of this side keep.\<close>

context step_rel
begin

lemma keeps_env_only:
  assumes "keeps (\<lambda>w w'. \<exists>e. w' = w\<lparr>env := e\<rparr>) m"
  shows "keeps R m"
proof (rule keepsI)
  fix w r w'
  assume "m w = (r, w')"
  with keepsD [OF assms] obtain e where "w' = w\<lparr>env := e\<rparr>" by blast
  then show "R w w'" by (simp add: R_env)
qed

end

section \<open>Events and changes\<close>

definition put_events :: "(event list \<Rightarrow> 'a \<times> event list) \<Rightarrow> 'a op" where
  "put_events g = exec (\<lambda>w. let (a, rows) = g (events w) in
     if list_all (\<lambda>e. case e_PairID e of None \<Rightarrow> True | Some p \<Rightarrow> has_pair p w) rows
     then Inr (a, w\<lparr>events := rows\<rparr>) else Inl EConstraint)"

definition AppendEvent :: "level \<Rightarrow> kind \<Rightarrow> int option \<Rightarrow> int op" where
  "AppendEvent lv kd pid = bindE now (\<lambda>t.
     wrapE ''append event'' (put_events (\<lambda>rows. let i = next_rowid (map e_ID rows)
       in (i, rows @ [\<lparr>e_ID = i, e_TS = UnixMilli t, e_Level = lv, e_Kind = kd, e_PairID = pid\<rparr>]))))"

text \<open>Telemetry never fails the operation that produced it.\<close>

definition event :: "level \<Rightarrow> kind \<Rightarrow> int \<Rightarrow> unit op" where
  "event lv kd pid = ignoreE (AppendEvent lv kd (if pid = 0 then None else Some pid))"

definition change_of :: "int \<Rightarrow> string \<Rightarrow> change_op \<Rightarrow> int option \<Rightarrow> int option \<Rightarrow> error option \<Rightarrow> change" where
  "change_of pid path oper sizeBefore sizeAfter err = \<lparr>c_ID = 0, c_TS = 0, c_PairID = pid, c_Path = path,
     c_Op = oper, c_SizeBefore = sizeBefore, c_SizeAfter = sizeAfter, c_Error = err\<rparr>"

definition change :: "change \<Rightarrow> unit op" where
  "change c = ignoreE (AppendChange None c)"

text \<open>Events and changes touch their own tables and nothing else.\<close>

interpretation telemetry: step_rel "\<lambda>w w'. \<exists>es cs e. w' = w\<lparr>events := es, changes := cs, env := e\<rparr>"
proof
  fix w :: world and e
  have "w\<lparr>env := e\<rparr> = w\<lparr>events := events w, changes := changes w, env := e\<rparr>" by simp
  then show "\<exists>es cs e'. w\<lparr>env := e\<rparr> = w\<lparr>events := es, changes := cs, env := e'\<rparr>" by blast
qed (auto; blast)

abbreviation telemetry_only :: "'a op \<Rightarrow> bool" where
  "telemetry_only m \<equiv> keeps (\<lambda>w w'. \<exists>es cs e. w' = w\<lparr>events := es, changes := cs, env := e\<rparr>) m"

lemma telemetry_put_events: "telemetry_only (put_events g)"
proof -
  have "\<exists>es cs e. w\<lparr>events := rows\<rparr> = w\<lparr>events := es, changes := cs, env := e\<rparr>" for w :: world and rows
    by (rule exI [of _ rows], rule exI [of _ "changes w"], rule exI [of _ "env w"]) simp
  then show ?thesis
    unfolding put_events_def Let_def
    by (intro telemetry.keeps_exec) (auto split: prod.splits if_splits)
qed

lemma telemetry_put_changes: "telemetry_only (put_changes g)"
proof -
  have "\<exists>es cs e. w\<lparr>changes := rows\<rparr> = w\<lparr>events := es, changes := cs, env := e\<rparr>" for w :: world and rows
    by (rule exI [of _ "events w"], rule exI [of _ rows], rule exI [of _ "env w"]) simp
  then show ?thesis
    unfolding put_changes_def Let_def
    by (intro telemetry.keeps_exec) (auto split: prod.splits if_splits)
qed

lemma telemetry_event: "telemetry_only (event lv kd pid)"
  unfolding event_def AppendEvent_def
  by (intro telemetry.keeps_rules telemetry_put_events)

lemma telemetry_change: "telemetry_only (change c)"
  unfolding change_def AppendChange_def
  by (intro telemetry.keeps_rules telemetry_put_changes)

lemma event_InrE [run_elims]:
  assumes "event lv kd pid w = (Inr u, w')"
    and "\<And>es cs e. w' = w\<lparr>events := es, changes := cs, env := e\<rparr> \<Longrightarrow> P"
  shows P
  using keepsD [OF telemetry_event assms(1)] assms(2) by blast

lemma change_InrE [run_elims]:
  assumes "change c w = (Inr u, w')"
    and "\<And>es cs e. w' = w\<lparr>events := es, changes := cs, env := e\<rparr> \<Longrightarrow> P"
  shows P
  using keepsD [OF telemetry_change assms(1)] assms(2) by blast

lemma event_not_Inl [simp]: "event lv kd pid w \<noteq> (Inl x, w')"
  by (simp add: event_def)

lemma change_not_Inl [simp]: "change c w \<noteq> (Inl x, w')"
  by (simp add: change_def)

section \<open>Paths\<close>

definition PartDir :: string where "PartDir = ''.jccmirror''"

definition remotePath :: "pair \<Rightarrow> string \<Rightarrow> string" where
  "remotePath p rel =
     (if pair_RemotePath p = [] then rel
      else if rel = [] then pair_RemotePath p
      else path_Join [pair_RemotePath p, rel])"

definition localPath :: "pair \<Rightarrow> string \<Rightarrow> string" where
  "localPath p rel = path_Join [pair_LocalPath p, rel]"

definition pairRel :: "pair \<Rightarrow> string \<Rightarrow> string option" where
  "pairRel p rp =
     (if pair_RemotePath p = [] then Some rp
      else if rp = pair_RemotePath p then Some []
      else CutPrefix rp (pair_RemotePath p @ ''/''))"

definition within :: "time \<Rightarrow> time \<Rightarrow> duration \<Rightarrow> bool" where
  "within a b tolerance = (\<bar>a - b\<bar> \<le> tolerance)"


section \<open>A concrete engine\<close>

text \<open>A share of two files and a directory, for the witnesses of the engine's theories.\<close>

definition demo_bytes :: "string \<Rightarrow> string option" where
  "demo_bytes p = (if p = ''a.mp3'' then Some ''abc'' else if p = ''d/b.mp3'' then Some ''hello'' else None)"

definition demo_file_entry :: "string \<Rightarrow> int \<Rightarrow> rentry" where
  "demo_file_entry p n = \<lparr>re_Path = p, re_Size = n, re_MTime = 7000000000, re_IsDir = False\<rparr>"

definition demo_ls :: "string \<Rightarrow> rentry list" where
  "demo_ls p =
     (if p = '''' then [\<lparr>re_Path = ''d'', re_Size = 0, re_MTime = 0, re_IsDir = True\<rparr>, demo_file_entry ''a.mp3'' 3]
      else if p = ''d'' then [demo_file_entry ''d/b.mp3'' 5]
      else [])"

definition demo_remote :: remote_fs where
  "demo_remote = \<lparr>
     r_List = (\<lambda>p. query (\<lambda>_. demo_ls p)),
     r_Stat = (\<lambda>p. case demo_bytes p of
        None \<Rightarrow> throwE ENotExist | Some b \<Rightarrow> query (\<lambda>_. demo_file_entry p (int (length b)))),
     r_Exists = (\<lambda>p. query (\<lambda>_. demo_bytes p \<noteq> None)),
     r_OpenRange = (\<lambda>p off len. case demo_bytes p of
        None \<Rightarrow> throwE ENotExist
      | Some b \<Rightarrow> query (\<lambda>_. (let rest = drop (nat off) b in [if len \<le> 0 then rest else take (nat len) rest], None)))\<rparr>"

definition demo_options :: options where
  "demo_options = \<lparr>opt_DataDir = ''/data'', opt_ScanWorkers = 0, opt_MTimeTolerance = 0, opt_Chunks = 2,
     opt_ChunkSize = 2, opt_MaxAttempts = 0, opt_RetryBackoff = 0, opt_HashAfterCopy = False,
     opt_Reserve = 0, opt_DeletePercent = 10, opt_TrashRetention = 0, opt_JCC = \<lparr>jcc_DBDir = '''', jcc_DBName = '''', jcc_LockStale = 0, jcc_Backups = 0\<rparr>\<rparr>"

definition demo_engine :: engine where
  "demo_engine = New demo_remote demo_options id id"

lemma demo_remote_ok: "remote_ok demo_remote"
  unfolding remote_ok_def demo_remote_def Let_def
  by (auto intro!: env_step.keeps_rules)

end
