(* ===== verification/Walk.thy ===== *)
theory Walk
  imports Engine
begin

text \<open>
  The walk of a pair's remote root into the manifest, \<open>engine/scan.go\<close>. The workers of a batch
  list their directories one after the other here: two listings are transactions on the rows of
  different directories, so the order they finish in does not show in the tables, and a
  worker that is cancelled or never started is a listing that fails.

  The loop over the frontier runs for as long as there are directories to list, and a remote
  that keeps inventing directories keeps it running; \<open>fuel\<close> bounds the number of rounds, and a
  run that is cut short by it says so. \<open>walk_terminates\<close> shows how much is enough.
\<close>

section \<open>Operations\<close>

definition listAttempts :: nat where "listAttempts = 3"

text \<open>One directory; \<open>left\<close> is how many attempts remain.\<close>

fun list_tries :: "engine \<Rightarrow> pair \<Rightarrow> string \<Rightarrow> nat \<Rightarrow> rentry list op" where
  "list_tries E pr dir 0 = throwE (EMsg ''list'')"
| "list_tries E pr dir (Suc left) =
     bindE (tryE (r_List (en_remote E) (remotePath pr dir))) (\<lambda>r. case r of
       Inr entries \<Rightarrow> returnE entries
     | Inl err \<Rightarrow>
        bindE ctx_Err (\<lambda>c. case c of
          Some x \<Rightarrow> throwE x
        | None \<Rightarrow>
           if left = 0 then throwE (EWrap ''list'' err)
           else bindE ctx_Err (\<lambda>c. case c of
                  Some x \<Rightarrow> throwE x
                | None \<Rightarrow> list_tries E pr dir left)))"

definition walk_list :: "engine \<Rightarrow> pair \<Rightarrow> string \<Rightarrow> rentry list op" where
  "walk_list E pr dir = list_tries E pr dir listAttempts"

text \<open>What becomes of one entry: outside the pair, filtered out, or a row.\<close>

definition keep_entry :: "pair \<Rightarrow> filter_rules \<Rightarrow> rentry \<Rightarrow> manifest_entry option" where
  "keep_entry pr f e = (case pairRel pr (re_Path e) of
     None \<Rightarrow> None
   | Some rel \<Rightarrow>
      if (if re_IsDir e then allowsDir f rel else allows f rel)
      then Some \<lparr>me_Path = rel, me_Size = re_Size e, me_MTime = re_MTime e, me_IsDir = re_IsDir e\<rparr>
      else None)"

definition kept :: "pair \<Rightarrow> filter_rules \<Rightarrow> rentry list \<Rightarrow> manifest_entry list" where
  "kept pr f entries = List.map_filter (keep_entry pr f) entries"

definition listDir :: "engine \<Rightarrow> pair \<Rightarrow> int \<Rightarrow> filter_rules \<Rightarrow> string \<Rightarrow> unit op" where
  "listDir E pr sid f dir =
     bindE (walk_list E pr dir) (\<lambda>entries.
     PutListing (pair_ID pr) sid dir (kept pr f entries))"

text \<open>Every listing is tried; the first error is the batch's.\<close>

definition list_step :: "engine \<Rightarrow> pair \<Rightarrow> int \<Rightarrow> filter_rules \<Rightarrow> string \<Rightarrow> error option \<Rightarrow> error option op" where
  "list_step E pr sid f dir first =
     bindE (tryE (listDir E pr sid f dir)) (\<lambda>r. case r of
       Inr _ \<Rightarrow> returnE first
     | Inl e \<Rightarrow> returnE (case first of None \<Rightarrow> Some e | Some _ \<Rightarrow> first))"

definition listBatch :: "engine \<Rightarrow> pair \<Rightarrow> int \<Rightarrow> filter_rules \<Rightarrow> string list \<Rightarrow> unit op" where
  "listBatch E pr sid f dirs =
     bindE (foldE (list_step E pr sid f) dirs None) (\<lambda>first. case first of
       Some e \<Rightarrow> throwE e
     | None \<Rightarrow> bindE ctx_Err (\<lambda>c. case c of Some x \<Rightarrow> throwE x | None \<Rightarrow> returnE ()))"

definition batch_size :: "options \<Rightarrow> int" where
  "batch_size o1 = (if opt_ScanWorkers o1 * 8 < 32 then 32 else opt_ScanWorkers o1 * 8)"

text \<open>The answer is whether the frontier was emptied; \<open>False\<close> is a walk still running.\<close>

fun walk_run :: "nat \<Rightarrow> engine \<Rightarrow> pair \<Rightarrow> int \<Rightarrow> filter_rules \<Rightarrow> bool op" where
  "walk_run 0 E pr sid f = returnE False"
| "walk_run (Suc fuel) E pr sid f =
     bindE ctx_Err (\<lambda>c. case c of
       Some x \<Rightarrow> throwE x
     | None \<Rightarrow>
        bindE (PendingDirs (pair_ID pr) sid (batch_size (en_opts E))) (\<lambda>dirs.
        if dirs = [] then returnE True
        else bindE (listBatch E pr sid f dirs) (\<lambda>_. walk_run fuel E pr sid f)))"

record scan_result =
  sr_Scan :: scan
  sr_Resumed :: bool
  sr_Swept :: int
  sr_Duration :: duration

definition no_files_msg :: string where
  "no_files_msg = ''the walk found no files at all - the remote root is empty or the share is not mounted, which is an error rather than a deletion''"

text \<open>How the walk is closed, from how it ended and the scan's own counters.\<close>

definition verdict :: "error + bool \<Rightarrow> scan \<Rightarrow> scan_state \<times> string" where
  "verdict walked counted = (case walked of
     Inl e \<Rightarrow> (ScanInterrupted, Error e)
   | Inr _ \<Rightarrow> if scan_Files counted = 0 then (ScanFailed, no_files_msg) else (ScanDone, ''''))"

text \<open>The bookkeeping after the walk, which is done whatever stopped it.\<close>

definition close_scan :: "pair \<Rightarrow> int \<Rightarrow> bool \<Rightarrow> time \<Rightarrow> error + bool \<Rightarrow> scan_result op" where
  "close_scan pr sid resumed started walked =
     bindE (ScanByID sid) (\<lambda>counted.
     let (st, msg) = verdict walked counted in
     bindE (FinishScan sid st msg) (\<lambda>swept.
     bindE (ScanByID sid) (\<lambda>last.
     bindE now (\<lambda>t.
     bindE (event (case st of ScanInterrupted \<Rightarrow> LevelWarn | ScanFailed \<Rightarrow> LevelError | _ \<Rightarrow> LevelInfo)
              KindScanFinished (pair_ID pr)) (\<lambda>_.
     case walked of
       Inl e \<Rightarrow> throwE e
     | Inr _ \<Rightarrow>
        if st = ScanFailed then throwE (EWrap ''scan'' (EMsg msg))
        else returnE \<lparr>sr_Scan = last, sr_Resumed = resumed, sr_Swept = swept, sr_Duration = t - started\<rparr>)))))"

text \<open>\<open>None\<close> is a walk that has not come to an end within the fuel.\<close>

definition Scan :: "nat \<Rightarrow> engine \<Rightarrow> pair \<Rightarrow> bool \<Rightarrow> scan_result option op" where
  "Scan fuel E pr resume =
     bindE now (\<lambda>started.
     bindE (BeginScan (pair_ID pr) resume) (\<lambda>(sc, resumed).
     bindE (event LevelInfo KindScanStarted (pair_ID pr)) (\<lambda>_.
     bindE (tryE (walk_run fuel E pr (scan_ID sc) (newFilter pr (opt_JCC (en_opts E))))) (\<lambda>walked.
     if walked = Inr False then returnE None
     else bindE (close_scan pr (scan_ID sc) resumed started walked) (\<lambda>res. returnE (Some res))))))"

section \<open>A walk only ever adds rows\<close>

abbreviation keys_grow :: "world \<Rightarrow> world \<Rightarrow> bool" where
  "keys_grow w w' \<equiv> m_key ` set (manifest w) \<subseteq> m_key ` set (manifest w')"

interpretation grow: step_rel keys_grow
  by unfold_locales auto

lemma grow_put_manifest:
  assumes "\<And>rows a rows'. g rows = (a, rows') \<Longrightarrow> m_key ` set rows \<subseteq> m_key ` set rows'"
  shows "keeps keys_grow (put_manifest g)"
  unfolding put_manifest_def
  by (rule grow.keeps_exec) (use assms in \<open>fastforce simp: Let_def split: prod.splits if_splits\<close>)

lemma grow_put_scans: "keeps keys_grow (put_scans g)"
  unfolding put_scans_def
  by (rule grow.keeps_exec) (auto simp: Let_def split: prod.splits if_splits)

lemma keys_upsert:
  assumes "\<And>r. m_key (upd r) = m_key r"
  shows "m_key ` set rows \<subseteq> m_key ` set (sql_upsert p new upd rows)"
proof -
  have "m_key ` set (sql_update p upd rows) = m_key ` set rows"
    using assms by (metis list.set_map map_sql_update)
  then show ?thesis by (auto simp: sql_upsert_def)
qed

lemma keys_update:
  "(\<And>r. m_key (g r) = m_key r) \<Longrightarrow> m_key ` set (sql_update p g rows) = m_key ` set rows"
  using map_sql_update [of p m_key g rows] by (metis list.set_map)

lemma grow_PutListing: "keeps keys_grow (PutListing pid sid dir es)"
proof -
  have mark: "m_key ` set rows \<subseteq> m_key ` set (mark_listed p i ms d rows)" for p i ms d rows
    unfolding mark_listed_def by (subst keys_update) (simp_all add: m_key_def)
  have "m_key ` set rows \<subseteq> m_key ` set (put_entry p i ms e rows)" for p i ms e rows
    unfolding put_entry_def by (rule keys_upsert) (simp add: m_key_def entry_update_def)
  with mark show ?thesis
    unfolding PutListing_def
    by (intro grow.keeps_rules grow_put_manifest grow_put_scans) (simp_all, blast+)
qed

lemma grow_BeginScan: "keeps keys_grow (BeginScan pid resume)"
proof -
  have "m_key ` set rows \<subseteq> m_key ` set (seed_rows p i ms rows)" for p i ms rows
    unfolding seed_rows_def by (rule keys_upsert) (simp add: m_key_def)
  then show ?thesis
    unfolding BeginScan_def RunningScan_def start_scan_def
    by (intro grow.keeps_rules grow_put_manifest grow_put_scans) (simp, blast)
qed

lemma grow_list_tries: "remote_ok (en_remote E) \<Longrightarrow> env_only (list_tries E pr dir n)"
  by (induction n) (auto intro!: env_step.keeps_rules remote_okD)

text \<open>A walk keeps what its listings keep.\<close>

context step_rel
begin

lemma keeps_listBatch:
  assumes rem: "remote_ok (en_remote E)" and put: "\<And>dir es. keeps R (PutListing (pair_ID pr) sid dir es)"
  shows "keeps R (listBatch E pr sid f dirs)"
proof -
  have list: "keeps R (listDir E pr sid f dir)" for dir
    unfolding listDir_def walk_list_def
    by (intro keeps_rules keeps_env_only grow_list_tries rem put)
  show ?thesis
    unfolding listBatch_def list_step_def by (intro keeps_rules list)
qed

lemma keeps_walk_run:
  assumes rem: "remote_ok (en_remote E)" and put: "\<And>dir es. keeps R (PutListing (pair_ID pr) sid dir es)"
  shows "keeps R (walk_run fuel E pr sid f)"
proof (induction fuel)
  case 0
  then show ?case by (simp add: keeps_return)
next
  case (Suc fuel)
  then show ?case
    unfolding walk_run.simps PendingDirs_def by (intro keeps_rules keeps_listBatch [OF rem put])
qed

end

lemma grow_walk_run: "remote_ok (en_remote E) \<Longrightarrow> keeps keys_grow (walk_run fuel E pr sid f)"
  by (rule grow.keeps_walk_run [OF _ grow_PutListing])

lemma batch_pos: "0 < nat (if batch_size o1 \<le> 0 then 256 else batch_size o1)"
  by (simp add: batch_size_def)

lemma PendingDirs_Inr:
  assumes "PendingDirs pid sid n w = (Inr dirs, w')"
  shows "\<exists>e. w' = w\<lparr>env := e\<rparr>"
    and "set dirs \<subseteq> m_Path ` set (filter (pending_dir pid sid) (manifest w))"
    and "dirs = [] \<Longrightarrow> 0 < nat (if n \<le> 0 then 256 else n) \<Longrightarrow> filter (pending_dir pid sid) (manifest w) = []"
proof -
  have "dirs = take (nat (if n \<le> 0 then 256 else n)) (sort (map m_Path (filter (pending_dir pid sid) (manifest w))))"
    and "\<exists>e. w' = w\<lparr>env := e\<rparr>"
    using assms unfolding PendingDirs_def by (auto elim!: run_elims)
  moreover have "sort xs = [] \<longleftrightarrow> xs = []" for xs :: "string list"
    by (metis length_0_conv length_sort)
  ultimately show "\<exists>e. w' = w\<lparr>env := e\<rparr>"
    and "set dirs \<subseteq> m_Path ` set (filter (pending_dir pid sid) (manifest w))"
    and "dirs = [] \<Longrightarrow> 0 < nat (if n \<le> 0 then 256 else n) \<Longrightarrow> filter (pending_dir pid sid) (manifest w) = []"
    by (auto dest!: in_set_takeD simp del: filter_empty_conv)
qed

text \<open>A walk that comes to its end has listed every directory it discovered.\<close>

lemma walk_run_done:
  "walk_run fuel E pr sid f w = (Inr True, w') \<Longrightarrow> filter (pending_dir (pair_ID pr) sid) (manifest w') = []"
proof (induction fuel arbitrary: w)
  case 0
  then show ?case by (auto simp: returnE_run)
next
  case (Suc fuel)
  from Suc.prems obtain e dirs w2 where dirs: "PendingDirs (pair_ID pr) sid (batch_size (en_opts E)) (w\<lparr>env := e\<rparr>) = (Inr dirs, w2)"
    and rest: "(if dirs = [] then returnE True
        else bindE (listBatch E pr sid f dirs) (\<lambda>_. walk_run fuel E pr sid f)) w2 = (Inr True, w')"
    by (auto elim!: run_elims split: option.splits)
  show ?case
  proof (cases "dirs = []")
    case True
    then have "filter (pending_dir (pair_ID pr) sid) (manifest (w\<lparr>env := e\<rparr>)) = []"
      using PendingDirs_Inr(3) [OF dirs _ batch_pos] by simp
    with True rest PendingDirs_Inr(1) [OF dirs] show ?thesis by (auto simp: returnE_run)
  next
    case False
    with rest obtain w3 where "walk_run fuel E pr sid f w3 = (Inr True, w')"
      by (auto elim!: run_elims)
    then show ?thesis by (rule Suc.IH)
  qed
qed


section \<open>How a scan runs\<close>

lemma Scan_cases:
  assumes "Scan fuel E pr resume w = (r, w')"
  obtains (stuck) x e where "r = Inl x" "w' = w\<lparr>env := e\<rparr>"
    | (walked) sc resumed started e0 w1 es cs e walked w2 where
        "BeginScan (pair_ID pr) resume (w\<lparr>env := e0\<rparr>) = (Inr (sc, resumed), w1)"
        "walk_run fuel E pr (scan_ID sc) (newFilter pr (opt_JCC (en_opts E)))
           (w1\<lparr>events := es, changes := cs, env := e\<rparr>) = (walked, w2)"
        "(if walked = Inr False then (Inr None, w2) else
            case close_scan pr (scan_ID sc) resumed started walked w2 of
              (Inl x, v) \<Rightarrow> (Inl x, v) | (Inr res, v) \<Rightarrow> (Inr (Some res), v)) = (r, w')"
proof -
  obtain started e0 where now: "now w = (Inr started, w\<lparr>env := e0\<rparr>)"
    by (rule now_obtain)
  obtain b w1 where b: "BeginScan (pair_ID pr) resume (w\<lparr>env := e0\<rparr>) = (b, w1)"
    by (rule prod.exhaust)
  show thesis
  proof (cases b)
    case (Inl x)
    with assms now b have "r = Inl x" "w' = w1" by (auto simp: Scan_def bindE_def)
    moreover from BeginScan_Inl b Inl obtain e where "w1 = w\<lparr>env := e\<rparr>" by fastforce
    ultimately show ?thesis by (intro stuck) auto
  next
    case (Inr sb)
    obtain sc resumed where sb: "sb = (sc, resumed)" by (rule prod.exhaust)
    obtain v w2 where ev: "event LevelInfo KindScanStarted (pair_ID pr) w1 = (v, w2)"
      by (rule prod.exhaust)
    from ev obtain u where v: "v = Inr u" by (cases v) auto
    from ev v obtain es cs e where w2: "w2 = w1\<lparr>events := es, changes := cs, env := e\<rparr>"
      by (auto elim: event_InrE)
    obtain walked w3 where k: "walk_run fuel E pr (scan_ID sc) (newFilter pr (opt_JCC (en_opts E))) w2 = (walked, w3)"
      by (rule prod.exhaust)
    have "(if walked = Inr False then (Inr None, w3) else
            case close_scan pr (scan_ID sc) resumed started walked w3 of
              (Inl x, v) \<Rightarrow> (Inl x, v) | (Inr res, v) \<Rightarrow> (Inr (Some res), v)) = (r, w')"
      using assms now b Inr sb ev v k
      by (auto simp: Scan_def bindE_def tryE_def returnE_def split: prod.splits sum.splits)
    with b Inr sb k w2 show ?thesis by (intro walked) auto
  qed
qed

lemma ScanByID_Inl: "ScanByID sid w = (Inl x, w') \<Longrightarrow> \<exists>e. w' = w\<lparr>env := e\<rparr>"
  unfolding ScanByID_def
  by (auto simp: bindE_Inl throwE_run returnE_run split: option.splits dest!: query_cases)

lemma ScanByID_Inr:
  "ScanByID sid w = (Inr s, w') \<Longrightarrow> (\<exists>e. w' = w\<lparr>env := e\<rparr>) \<and> find (\<lambda>s. scan_ID s = sid) (scans w) = Some s"
  unfolding ScanByID_def by (auto elim!: run_elims split: option.splits)

lemma close_scan_cases:
  assumes "close_scan pr sid resumed started walked w = (r, w')"
  obtains (same) x e where "r = Inl x" "w' = w\<lparr>env := e\<rparr>"
    | (closed) counted st msg ms es cs e where
        "find (\<lambda>s. scan_ID s = sid) (scans w) = Some counted" "verdict walked counted = (st, msg)"
        "w' = w\<lparr>manifest := (if st = ScanDone then sql_delete (sweep_row (scan_PairID counted) sid) (manifest w)
                        else manifest w),
           scans := sql_update (\<lambda>s. scan_ID s = sid) (finish_row st msg ms) (scans w),
           events := es, changes := cs, env := e\<rparr>"
        "\<And>res. r = Inr res \<Longrightarrow> st = ScanDone"
proof -
  obtain c w0 where c: "ScanByID sid w = (c, w0)" by (rule prod.exhaust)
  show thesis
  proof (cases c)
    case (Inl x)
    with assms c have "r = Inl x" "w' = w0" by (auto simp: close_scan_def bindE_def)
    moreover from ScanByID_Inl c Inl obtain e where "w0 = w\<lparr>env := e\<rparr>" by fastforce
    ultimately show ?thesis by (intro same) auto
  next
    case (Inr counted)
    from ScanByID_Inr c Inr obtain e where w0: "w0 = w\<lparr>env := e\<rparr>"
      and f: "find (\<lambda>s. scan_ID s = sid) (scans w) = Some counted" by fastforce
    obtain st msg where v: "verdict walked counted = (st, msg)" by (rule prod.exhaust)
    obtain g w1 where g: "FinishScan sid st msg w0 = (g, w1)" by (rule prod.exhaust)
    show ?thesis
    proof (cases g)
      case (Inl x)
      with assms c Inr v g have "r = Inl x" "w' = w1" by (auto simp: close_scan_def bindE_def)
      moreover from FinishScan_Inl g Inl w0 obtain e where "w1 = w\<lparr>env := e\<rparr>" by fastforce
      ultimately show ?thesis by (intro same) auto
    next
      case (Inr n)
      have tail: "keeps (\<lambda>w w'. \<exists>es cs e. w' = w\<lparr>events := es, changes := cs, env := e\<rparr>)
        (bindE (ScanByID sid) (\<lambda>last. bindE now (\<lambda>t.
         bindE (event (case st of ScanInterrupted \<Rightarrow> LevelWarn | ScanFailed \<Rightarrow> LevelError | _ \<Rightarrow> LevelInfo)
              KindScanFinished (pair_ID pr)) (\<lambda>_.
           case walked of
             Inl e \<Rightarrow> throwE e
           | Inr _ \<Rightarrow>
              if st = ScanFailed then throwE (EWrap ''scan'' (EMsg msg))
              else returnE \<lparr>sr_Scan = last, sr_Resumed = resumed, sr_Swept = n, sr_Duration = t - started\<rparr>))))"
        (is "keeps _ ?tail")
        unfolding ScanByID_def by (intro telemetry.keeps_rules telemetry_event)
      have run: "?tail w1 = (r, w')"
        using assms c v g Inr \<open>c = Inr counted\<close> by (simp add: close_scan_def bindE_def)
      have "st = ScanDone" if "r = Inr res" for res
      proof -
        from run that have "st \<noteq> ScanFailed" "\<exists>b. walked = Inr b"
          by (auto elim!: bindE_InrE now_InrE simp: throwE_run split: sum.splits if_splits)
        with v show ?thesis by (auto simp: verdict_def split: if_splits)
      qed
      moreover from keepsD [OF tail run] obtain es cs e'
        where w': "w' = w1\<lparr>events := es, changes := cs, env := e'\<rparr>" by blast
      moreover from FinishScan_Inr [OF g [unfolded Inr]] f w0 obtain ms e1 where
        "w1 = w\<lparr>manifest := (if st = ScanDone then sql_delete (sweep_row (scan_PairID counted) sid) (manifest w)
                        else manifest w),
           scans := sql_update (\<lambda>s. scan_ID s = sid) (finish_row st msg ms) (scans w), env := e1\<rparr>"
        by (cases "st = ScanDone") auto
      then have "w' = w\<lparr>manifest := (if st = ScanDone then sql_delete (sweep_row (scan_PairID counted) sid) (manifest w)
                        else manifest w),
           scans := sql_update (\<lambda>s. scan_ID s = sid) (finish_row st msg ms) (scans w),
           events := es, changes := cs, env := e'\<rparr>"
        unfolding w' by simp
      ultimately show ?thesis by (intro closed [OF f v])
    qed
  qed
qed


text \<open>The identity of a scan row: what listings leave alone.\<close>

definition scan_tags :: "world \<Rightarrow> (int \<times> int \<times> scan_state) list" where
  "scan_tags w = map (\<lambda>s. (scan_ID s, scan_PairID s, scan_State s)) (scans w)"

interpretation tags: world_frame scan_tags
  by unfold_locales (simp add: scan_tags_def)

lemma tags_PutListing: "keeps (\<lambda>w w'. scan_tags w' = scan_tags w) (PutListing pid sid dir es)"
proof (rule keepsI)
  fix w r w'
  assume run: "PutListing pid sid dir es w = (r, w')"
  have "map (\<lambda>s. (scan_ID s, scan_PairID s, scan_State s)) (count_row sid es rows) =
      map (\<lambda>s. (scan_ID s, scan_PairID s, scan_State s)) rows" for rows
    unfolding count_row_def by (rule map_sql_update) simp
  then show "scan_tags w' = scan_tags w"
    using run PutListing_Inl [of pid sid dir es w _ w'] PutListing_Inr [of pid sid dir es w w']
    by (cases r) (fastforce simp: scan_tags_def)+
qed

lemma tags_walk_run:
  "remote_ok (en_remote E) \<Longrightarrow> keeps (\<lambda>w w'. scan_tags w' = scan_tags w) (walk_run fuel E pr sid f)"
  by (rule tags.frame.keeps_walk_run [OF _ tags_PutListing])

lemma wf_walk_run:
  "remote_ok (en_remote E) \<Longrightarrow> keeps (\<lambda>w w'. manifest_wf w \<longrightarrow> manifest_wf w') (walk_run fuel E pr sid f)"
  by (rule manifest_wf.inv.keeps_walk_run [OF _ keeps_PutListing])

lemma tags_find:
  assumes "manifest_wf w" and "(sid, pid, st) \<in> set (scan_tags w)"
    and "find (\<lambda>s. scan_ID s = sid) (scans w) = Some s"
  shows "scan_PairID s = pid" and "scan_State s = st"
proof -
  from assms(2) obtain s' where s': "s' \<in> set (scans w)" "scan_ID s' = sid" "scan_PairID s' = pid" "scan_State s' = st"
    by (auto simp: scan_tags_def)
  with assms(1,3) find_Some_iff [OF assms(3)] have "s = s'"
    using distinct_map_inj [of scan_ID "scans w" s s'] by (auto simp: manifest_wf_def)
  with s' show "scan_PairID s = pid" and "scan_State s = st" by simp_all
qed

lemma BeginScan_tag:
  assumes "BeginScan pid resume w = (Inr (sc, resumed), w')"
  shows "\<exists>st. (scan_ID sc, pid, st) \<in> set (scan_tags w')"
  using assms
proof (cases rule: BeginScan_cases)
  case (resumed e)
  from sql_last_Some [OF resumed(4)] resumed(3) show ?thesis
    by (auto simp: scan_tags_def intro!: image_eqI)
next
  case (fresh e)
  have "scan_PairID sc = pid" by (subst fresh(2)) (simp add: new_scan_def)
  then have "(scan_ID sc, pid, scan_State sc) \<in> set (scan_tags w')"
    unfolding fresh(4) by (simp add: scan_tags_def)
  then show ?thesis by blast
qed

text \<open>
  (C25) Only a walk that saw everything may forget. Whatever the remote answers, whatever fails on
  the way and whether the walk was resumed or not: either no path of the manifest is lost, or the
  scan was closed as done with at least one file counted, nothing was left on its
  frontier, and every row of the pair is one it wrote, each directory listed. A walk that is
  cancelled, fails or finds an empty share never sweeps.
\<close>

theorem scan_sweep_guard:
  assumes rem: "remote_ok (en_remote E)" and wf: "manifest_wf w"
    and run: "Scan fuel E pr resume w = (r, w')"
  shows "m_key ` set (manifest w) \<subseteq> m_key ` set (manifest w') \<or>
    (\<exists>s \<in> set (scans w'). scan_PairID s = pair_ID pr \<and> scan_State s = ScanDone \<and> scan_Files s \<noteq> 0 \<and>
       (\<forall>m \<in> set (manifest w'). m_PairID m = pair_ID pr \<longrightarrow>
          m_ScanID m = scan_ID s \<and> (m_IsDir m \<longrightarrow> m_Listed m)))"
  using run
proof (cases rule: Scan_cases)
  case (stuck x e)
  then show ?thesis by simp
next
  case (walked sc resumed started e0 w1 es cs e walked w2)
  let ?wb = "w1\<lparr>events := es, changes := cs, env := e\<rparr>"
  have "manifest_wf w1" and grown1: "keys_grow w w1"
    using wf keepsD [OF keeps_BeginScan walked(1)] keepsD [OF grow_BeginScan walked(1)]
    by (auto simp: manifest_wf.I_env)
  then have "manifest_wf ?wb" by (simp add: manifest_wf_def)
  then have wf2: "manifest_wf w2" and grown2: "keys_grow w w2"
    using keepsD [OF wf_walk_run [OF rem] walked(2)] keepsD [OF grow_walk_run [OF rem] walked(2)] grown1 by auto
  have tag: "\<exists>st. (scan_ID sc, pair_ID pr, st) \<in> set (scan_tags w2)"
    using BeginScan_tag [OF walked(1)] keepsD [OF tags_walk_run [OF rem] walked(2)]
    by (simp add: scan_tags_def)
  show ?thesis
  proof (cases "walked = Inr False")
    case True
    with walked(3) grown2 show ?thesis by simp
  next
    case False
    with walked(3) obtain rc where "close_scan pr (scan_ID sc) resumed started walked w2 = (rc, w')"
      by (auto split: prod.splits sum.splits)
    then show ?thesis
    proof (cases rule: close_scan_cases)
      case (same x e)
      with grown2 show ?thesis by simp
    next
      case (closed counted st msg ms es cs e)
      show ?thesis
      proof (cases "st = ScanDone")
        case False
        with grown2 closed(3) show ?thesis by simp
      next
        case True
        with closed(2) False have done_walk: "walked = Inr True" and files: "scan_Files counted \<noteq> 0"
          by (auto simp: verdict_def split: sum.splits if_splits)
        have pair: "scan_PairID counted = pair_ID pr"
          using tag tags_find(1) [OF wf2 _ closed(1)] by blast
        have counted: "counted \<in> set (scans w2)" "scan_ID counted = scan_ID sc"
          using find_Some_iff [OF closed(1)] by auto
        let ?s = "finish_row st msg ms counted"
        have "?s \<in> set (scans w')"
          using counted unfolding closed(3) by (auto simp: set_sql_update intro!: image_eqI [of _ _ counted])
        moreover have "\<not> pending_dir (pair_ID pr) (scan_ID sc) m" if "m \<in> set (manifest w2)" for m
          using that walk_run_done [OF walked(2) [unfolded done_walk]] by (simp add: filter_empty_conv)
        then have "\<forall>m \<in> set (manifest w'). m_PairID m = pair_ID pr \<longrightarrow>
            m_ScanID m = scan_ID ?s \<and> (m_IsDir m \<longrightarrow> m_Listed m)"
          unfolding closed(3) True
          by (auto simp: pair counted finish_row_def sweep_row_def pending_dir_def)
        ultimately show ?thesis
          using pair files True by (intro disjI2 bexI [of _ ?s]) (auto simp: finish_row_def)
      qed
    qed
  qed
qed


definition demo_scan :: world where
  "demo_scan = snd (Scan 5 demo_engine demo_pair False demo_world)"

definition demo_scan_res :: scan_result where
  "demo_scan_res = \<lparr>sr_Scan = \<lparr>scan_ID = 1, scan_PairID = 1, scan_StartedAt = 5000, scan_FinishedAt = Some 5000,
     scan_Dirs = 2, scan_Files = 2, scan_Bytes = 8, scan_State = ScanDone, scan_Error = ''''\<rparr>,
     sr_Resumed = False, sr_Swept = 0, sr_Duration = 0\<rparr>"

lemma demo_scan_run: "Scan 5 demo_engine demo_pair False demo_world = (Inr (Some demo_scan_res), demo_scan)"
  unfolding demo_scan_def by (rule run_snd) code_simp

lemma demo_scan_wf: "manifest_wf demo_world" "manifest_wf demo_scan"
  by code_simp+

lemma demo_engine_ok: "remote_ok (en_remote demo_engine)"
  using demo_remote_ok by (simp add: demo_engine_def New_def)

text \<open>The walk after that, with a row of a file that is no longer on the share.\<close>

definition demo_gone :: mrow where
  "demo_gone = (hd (manifest demo_scan))\<lparr>m_Path := ''gone.mp3'', m_IsDir := False\<rparr>"

definition demo_outdated :: world where
  "demo_outdated = demo_scan\<lparr>manifest := manifest demo_scan @ [demo_gone]\<rparr>"

definition demo_rescan :: world where
  "demo_rescan = snd (Scan 5 demo_engine demo_pair False demo_outdated)"

lemma demo_outdated_ok: "manifest_wf demo_outdated" "m_key demo_gone \<notin> m_key ` set (manifest demo_rescan)"
  by code_simp+

theorem scan_sweep_guard_witness:
  "\<exists>s. s \<in> set (scans demo_rescan) \<and> scan_PairID s = pair_ID demo_pair \<and> scan_State s = ScanDone \<and> scan_Files s \<noteq> 0"
proof -
  have "Scan 5 demo_engine demo_pair False demo_outdated = (fst (Scan 5 demo_engine demo_pair False demo_outdated), demo_rescan)"
    by (simp add: demo_rescan_def)
  from scan_sweep_guard [OF demo_engine_ok demo_outdated_ok(1) this] demo_outdated_ok(2) show ?thesis
    by (auto simp: demo_outdated_def)
qed

end
