(* ===== verification/WalkSpec.thy ===== *)
theory WalkSpec
  imports Walk
begin

text \<open>
  What a walk is for: the manifest of a pair becomes the tree the publisher shares, filtered. The
  tree is given by \<open>ch\<close>, the children of each directory by its path under the pair; an entry is
  in the tree when it is a child of the root or of a directory in the tree. The invariant of a
  walk under way, \<open>walk_inv\<close>, holds through failed listings, interruption and resumption.
\<close>

section \<open>The tree\<close>

definition sub :: "string \<Rightarrow> string \<Rightarrow> string" where
  "sub d n = (if d = [] then n else d @ slash # n)"

lemma sub_inj:
  assumes "seg_ok n" and "seg_ok n'" and "sub d n = sub d' n'"
  shows "d = d'" and "n = n'"
proof -
  have split: "path_Split (sub d n) = (if d = [] then [] else d @ [slash], n)" if "seg_ok n" for d n
    using that by (simp add: sub_def path_Split_snoc seg_ok_def)
  have "(if d = [] then [] else d @ [slash], n) = (if d' = [] then [] else d' @ [slash], n')"
    by (simp only: split [OF assms(1), symmetric] split [OF assms(2), symmetric] assms(3))
  then show "d = d'" and "n = n'" by (simp_all split: if_splits)
qed

lemma sub_not_Nil: "seg_ok n \<Longrightarrow> sub d n \<noteq> []"
  by (simp add: sub_def seg_ok_def)

lemma sub_longer: "seg_ok n \<Longrightarrow> length d < length (sub d n)"
  by (simp add: sub_def seg_ok_def)

lemma rel_ok_sub: "d = [] \<or> rel_ok d \<Longrightarrow> seg_ok n \<Longrightarrow> rel_ok (sub d n)"
  by (auto simp: sub_def rel_ok_def split_append_sep split_no_sep seg_ok_def)

inductive in_tree :: "(string \<Rightarrow> manifest_entry list) \<Rightarrow> manifest_entry \<Rightarrow> bool" for ch where
  top: "e \<in> set (ch []) \<Longrightarrow> in_tree ch e"
| under: "in_tree ch d \<Longrightarrow> me_IsDir d \<Longrightarrow> e \<in> set (ch (me_Path d)) \<Longrightarrow> in_tree ch e"

definition tree_dir :: "(string \<Rightarrow> manifest_entry list) \<Rightarrow> string \<Rightarrow> bool" where
  "tree_dir ch d \<longleftrightarrow> d = [] \<or> (\<exists>e. in_tree ch e \<and> me_IsDir e \<and> me_Path e = d)"

lemma in_tree_iff: "in_tree ch e \<longleftrightarrow> (\<exists>d. tree_dir ch d \<and> e \<in> set (ch d))"
  by (auto simp: tree_dir_def elim: in_tree.cases intro: in_tree.intros)

text \<open>Children are called \<open>dir/name\<close>, and no two alike.\<close>

definition tree_ok :: "(string \<Rightarrow> manifest_entry list) \<Rightarrow> bool" where
  "tree_ok ch \<longleftrightarrow> (\<forall>d. d = [] \<or> rel_ok d \<longrightarrow>
     distinct (map me_Path (ch d)) \<and> (\<forall>e \<in> set (ch d). \<exists>n. seg_ok n \<and> me_Path e = sub d n))"

lemma in_tree_rel:
  assumes ok: "tree_ok ch" and e: "in_tree ch e"
  shows "rel_ok (me_Path e)"
  using e
proof induction
  case (top e)
  with ok show ?case unfolding tree_ok_def by (metis rel_ok_sub)
next
  case (under d e)
  with ok show ?case unfolding tree_ok_def by (metis rel_ok_sub)
qed

lemma tree_dir_ok: "tree_ok ch \<Longrightarrow> tree_dir ch d \<Longrightarrow> d = [] \<or> rel_ok d"
  using in_tree_rel by (auto simp: tree_dir_def)

lemma child_path:
  assumes "tree_ok ch" and "tree_dir ch d" and "e \<in> set (ch d)"
  obtains n where "seg_ok n" and "me_Path e = sub d n"
  using assms tree_dir_ok [OF assms(1,2)] unfolding tree_ok_def by blast

lemma parent_unique:
  assumes "tree_ok ch" and "tree_dir ch d" and "e \<in> set (ch d)" and "tree_dir ch d'" and "e' \<in> set (ch d')"
    and "me_Path e = me_Path e'"
  shows "d = d'" and "e = e'"
proof -
  show "d = d'"
    using assms child_path sub_inj(1) by metis
  with assms tree_dir_ok [OF assms(1,2)] show "e = e'"
    unfolding tree_ok_def by (metis distinct_map_inj)
qed

lemma in_tree_unique:
  "tree_ok ch \<Longrightarrow> in_tree ch e \<Longrightarrow> in_tree ch e' \<Longrightarrow> me_Path e = me_Path e' \<Longrightarrow> e = e'"
  unfolding in_tree_iff using parent_unique(2) by blast

lemma child_not_root: "tree_ok ch \<Longrightarrow> in_tree ch e \<Longrightarrow> me_Path e \<noteq> []"
  unfolding in_tree_iff by (metis child_path sub_not_Nil)

lemma child_not_self: "tree_ok ch \<Longrightarrow> tree_dir ch d \<Longrightarrow> e \<in> set (ch d) \<Longrightarrow> me_Path e \<noteq> d"
  by (metis child_path sub_longer less_irrefl)

section \<open>A walk under way\<close>

definition seen :: "int \<Rightarrow> int \<Rightarrow> mrow list \<Rightarrow> string \<Rightarrow> mrow \<Rightarrow> bool" where
  "seen pid sid rows p m \<longleftrightarrow> mfind pid p rows = Some m \<and> m_ScanID m = sid"

definition row_of :: "manifest_entry \<Rightarrow> mrow \<Rightarrow> bool" where
  "row_of e m \<longleftrightarrow> m_Size m = me_Size e \<and> m_MTime m = UnixMilli (me_MTime e) \<and> m_IsDir m = me_IsDir e"

definition listed :: "int \<Rightarrow> int \<Rightarrow> mrow list \<Rightarrow> string \<Rightarrow> bool" where
  "listed pid sid rows d \<longleftrightarrow> (\<exists>m. seen pid sid rows d m \<and> m_Listed m)"

text \<open>
  The root is there and is a directory; every other row of the walk is an entry of the tree as
  the remote reported it, a child of a directory that is marked as listed; and
  what is marked as listed has all its children in the manifest.
\<close>

definition walk_inv :: "(string \<Rightarrow> manifest_entry list) \<Rightarrow> int \<Rightarrow> int \<Rightarrow> mrow list \<Rightarrow> bool" where
  "walk_inv ch pid sid rows \<longleftrightarrow>
     (\<exists>m. seen pid sid rows [] m \<and> m_IsDir m) \<and>
     (\<forall>p m. seen pid sid rows p m \<and> p \<noteq> [] \<longrightarrow> (\<exists>e d. tree_dir ch d \<and> e \<in> set (ch d) \<and> me_Path e = p \<and>
        row_of e m \<and> listed pid sid rows d)) \<and>
     (\<forall>d. listed pid sid rows d \<longrightarrow> (\<forall>e \<in> set (ch d). \<exists>m. seen pid sid rows (me_Path e) m))"

lemma walk_invD:
  assumes "walk_inv ch pid sid rows"
  shows "\<exists>m. seen pid sid rows [] m \<and> m_IsDir m"
    and "seen pid sid rows p m \<Longrightarrow> p \<noteq> [] \<Longrightarrow> \<exists>e d. tree_dir ch d \<and> e \<in> set (ch d) \<and> me_Path e = p \<and>
        row_of e m \<and> listed pid sid rows d"
    and "listed pid sid rows d \<Longrightarrow> e \<in> set (ch d) \<Longrightarrow> \<exists>m. seen pid sid rows (me_Path e) m"
  using assms unfolding walk_inv_def by blast+

lemma pending_tree_dir:
  assumes inv: "walk_inv ch pid sid rows" and m: "seen pid sid rows d m" and dir: "m_IsDir m"
  shows "tree_dir ch d"
proof (cases "d = []")
  case False
  from walk_invD(2) [OF inv m False] obtain e d' where "tree_dir ch d'" "e \<in> set (ch d')" "me_Path e = d" "row_of e m"
    by blast
  then have "in_tree ch e" "me_IsDir e" using dir by (auto simp: row_of_def in_tree_iff)
  with \<open>me_Path e = d\<close> show ?thesis unfolding tree_dir_def by blast
qed (simp add: tree_dir_def)

section \<open>One listing\<close>

lemma find_child:
  assumes ok: "tree_ok ch" and d: "tree_dir ch d"
  shows "find (\<lambda>e. (pid, me_Path e) = (pid, p)) (rev (ch d)) = Some e \<longleftrightarrow> e \<in> set (ch d) \<and> me_Path e = p"
proof -
  have "distinct (map me_Path (rev (ch d)))"
    using ok tree_dir_ok [OF ok d] by (auto simp: tree_ok_def rev_map [symmetric])
  then show ?thesis
    using find_distinct [of me_Path "rev (ch d)" e p] find_Some_iff [of _ "rev (ch d)" e] by auto
qed

lemma seen_listing:
  assumes ok: "tree_ok ch" and d: "tree_dir ch d" and row: "seen pid sid rows d md"
  shows "seen pid sid (listing_rows pid sid ms d (ch d) rows) p m \<longleftrightarrow>
    (if p = d then m = listed_row sid ms md
     else if \<exists>e \<in> set (ch d). me_Path e = p then \<exists>e \<in> set (ch d). me_Path e = p \<and> m = entry_row pid sid ms e
     else seen pid sid rows p m)"
proof (cases "find (\<lambda>e. (pid, me_Path e) = (pid, p)) (rev (ch d))")
  case None
  then have no: "\<not> (\<exists>e \<in> set (ch d). me_Path e = p)"
    by (auto simp: find_None_iff)
  show ?thesis
    unfolding seen_def mfind_listing None using no row
    by (auto simp: seen_def listed_row_def)
next
  case (Some e)
  then have e: "e \<in> set (ch d)" "me_Path e = p" using find_child [OF ok d] by auto
  then have "p \<noteq> d" using child_not_self [OF ok d] by blast
  have "e' = e" if "e' \<in> set (ch d)" "me_Path e' = p" for e'
    using parent_unique(2) [OF ok d that(1) d e(1)] that(2) e(2) by simp
  then have only: "(\<exists>e \<in> set (ch d). me_Path e = p \<and> m = entry_row pid sid ms e) \<longleftrightarrow> m = entry_row pid sid ms e"
    using e by blast
  have "mfind pid p (listing_rows pid sid ms d (ch d) rows) = Some (entry_row pid sid ms e)"
    unfolding mfind_listing Some using \<open>p \<noteq> d\<close> by simp
  then have "seen pid sid (listing_rows pid sid ms d (ch d) rows) p m \<longleftrightarrow> m = entry_row pid sid ms e"
    unfolding seen_def by (auto simp: entry_row_def)
  then show ?thesis
    using \<open>p \<noteq> d\<close> e only by auto
qed

lemma listing_step:
  assumes ok: "tree_ok ch" and inv: "walk_inv ch pid sid rows" and d: "tree_dir ch d"
    and row: "seen pid sid rows d md" and new: "\<not> listed pid sid rows d"
    and rows': "rows' = listing_rows pid sid ms d (ch d) rows"
  shows "walk_inv ch pid sid rows'" and "listed pid sid rows' p \<longleftrightarrow> p = d \<or> listed pid sid rows p"
    and "p \<noteq> d \<Longrightarrow> seen pid sid rows p m \<Longrightarrow> seen pid sid rows' p m"
proof -
  note after = seen_listing [OF ok d row, of ms, folded rows']
  have fresh: "\<not> seen pid sid rows (me_Path e) m" if e: "e \<in> set (ch d)" for e m
  proof
    assume s: "seen pid sid rows (me_Path e) m"
    have "me_Path e \<noteq> []" using child_not_root [OF ok] d e in_tree_iff by blast
    from walk_invD(2) [OF inv s this] obtain e' d' where "tree_dir ch d'" "e' \<in> set (ch d')"
      "me_Path e' = me_Path e" "listed pid sid rows d'" by blast
    with parent_unique(1) [OF ok d e] new show False by metis
  qed
  show keep: "seen pid sid rows' p m" if "p \<noteq> d" "seen pid sid rows p m" for p m
    using that fresh by (auto simp: after)
  show lst: "listed pid sid rows' p \<longleftrightarrow> p = d \<or> listed pid sid rows p" for p
  proof (cases "p = d")
    case True
    then show ?thesis by (simp add: listed_def after listed_row_def)
  next
    case False
    show ?thesis
    proof (cases "\<exists>e \<in> set (ch d). me_Path e = p")
      case True
      then have "\<not> listed pid sid rows p" using fresh by (auto simp: listed_def)
      with True False show ?thesis by (auto simp: listed_def after entry_row_def)
    next
      case none: False
      with False show ?thesis by (simp add: listed_def after)
    qed
  qed
  show "walk_inv ch pid sid rows'"
    unfolding walk_inv_def
  proof (intro conjI allI impI ballI)
    from walk_invD(1) [OF inv] obtain r where r: "seen pid sid rows [] r" "m_IsDir r" by blast
    show "\<exists>m. seen pid sid rows' [] m \<and> m_IsDir m"
    proof (cases "d = []")
      case True
      with r row have "md = r" by (simp add: seen_def)
      with True r show ?thesis by (auto simp: after listed_row_def)
    next
      case False
      then have "[] \<noteq> d" by simp
      from keep [OF this r(1)] r(2) show ?thesis by blast
    qed
  next
    fix p m
    assume a: "seen pid sid rows' p m \<and> p \<noteq> []"
    then have "p = d \<and> m = listed_row sid ms md \<or>
        (\<exists>e \<in> set (ch d). me_Path e = p \<and> m = entry_row pid sid ms e) \<or> seen pid sid rows p m"
      unfolding after by (simp split: if_split_asm)
    then consider (self) "p = d" "m = listed_row sid ms md"
      | (child) e where "e \<in> set (ch d)" "me_Path e = p" "m = entry_row pid sid ms e"
      | (old) "seen pid sid rows p m"
      by blast
    then show "\<exists>e d. tree_dir ch d \<and> e \<in> set (ch d) \<and> me_Path e = p \<and> row_of e m \<and> listed pid sid rows' d"
    proof cases
      case self
      with a walk_invD(2) [OF inv row] lst show ?thesis by (fastforce simp: row_of_def listed_row_def)
    next
      case child
      with d lst show ?thesis by (auto simp: row_of_def entry_row_def)
    next
      case old
      with a walk_invD(2) [OF inv old] lst show ?thesis by blast
    qed
  next
    fix d' e
    assume l: "listed pid sid rows' d'" and e: "e \<in> set (ch d')"
    show "\<exists>m. seen pid sid rows' (me_Path e) m"
    proof (cases "d' = d")
      case True
      with e show ?thesis by (auto simp: after)
    next
      case False
      with l lst walk_invD(3) [OF inv _ e] obtain m where "seen pid sid rows (me_Path e) m" by blast
      then show ?thesis using keep [of "me_Path e" m] after [of d "listed_row sid ms md"]
        by (cases "me_Path e = d") auto
    qed
  qed
qed


section \<open>A batch of listings\<close>

text \<open>
  What is assumed of the remote: it changes nothing on this side, and a listing that succeeds is
  what \<open>ls\<close> says the directory holds.
\<close>

definition lists :: "remote_fs \<Rightarrow> (string \<Rightarrow> rentry list) \<Rightarrow> bool" where
  "lists rem ls \<longleftrightarrow> remote_ok rem \<and> (\<forall>p w es w'. r_List rem p w = (Inr es, w') \<longrightarrow> es = ls p)"

definition children :: "pair \<Rightarrow> filter_rules \<Rightarrow> (string \<Rightarrow> rentry list) \<Rightarrow> string \<Rightarrow> manifest_entry list" where
  "children pr f ls d = kept pr f (ls (remotePath pr d))"

lemma list_tries_Inr:
  assumes "lists (en_remote E) ls" and "list_tries E pr d n w = (Inr es, w')"
  shows "es = ls (remotePath pr d)"
  using assms(2)
proof (induction n arbitrary: w)
  case 0
  then show ?case by (simp add: throwE_run)
next
  case (Suc n)
  from Suc.prems obtain r w1 where r: "r_List (en_remote E) (remotePath pr d) w = (r, w1)"
    by (auto elim!: bindE_InrE tryE_InrE)
  show ?case
  proof (cases r)
    case (Inr es')
    with Suc.prems r assms(1) show ?thesis
      by (auto simp: bindE_def tryE_def returnE_def lists_def)
  next
    case (Inl x)
    with Suc.prems r have "\<exists>w2. list_tries E pr d n w2 = (Inr es, w')"
      by (auto simp: tryE_def throwE_run elim!: bindE_InrE split: option.splits if_splits; blast)
    with Suc.IH show ?thesis by blast
  qed
qed

lemma listDir_rows:
  assumes rem: "lists (en_remote E) ls" and run: "listDir E pr sid f d w = (r, w')"
  shows "(\<exists>x. r = Inl x) \<and> manifest w' = manifest w \<or> r = Inr () \<and>
    (\<exists>ms. manifest w' = listing_rows (pair_ID pr) sid ms d (children pr f ls d) (manifest w))"
proof -
  obtain l w1 where l: "walk_list E pr d w = (l, w1)" by (rule prod.exhaust)
  have "env_only (walk_list E pr d)"
    unfolding walk_list_def using rem by (auto simp: lists_def intro: grow_list_tries)
  from keepsD [OF this l] obtain e where w1: "w1 = w\<lparr>env := e\<rparr>" by blast
  show ?thesis
  proof (cases l)
    case (Inl x)
    with run l w1 show ?thesis by (auto simp: listDir_def bindE_def)
  next
    case (Inr es)
    then have es: "kept pr f es = children pr f ls d"
      using list_tries_Inr [OF rem l [unfolded walk_list_def Inr]] by (simp add: children_def)
    have put: "PutListing (pair_ID pr) sid d (children pr f ls d) w1 = (r, w')"
      using run l Inr es by (simp add: listDir_def bindE_def)
    show ?thesis
      using put PutListing_Inl [of "pair_ID pr" sid d "children pr f ls d" w1 _ w']
        PutListing_Inr [of "pair_ID pr" sid d "children pr f ls d" w1 w'] w1
      by (cases r) fastforce+
  qed
qed

definition ready :: "int \<Rightarrow> int \<Rightarrow> mrow list \<Rightarrow> string \<Rightarrow> bool" where
  "ready pid sid rows d \<longleftrightarrow> (\<exists>m. seen pid sid rows d m \<and> m_IsDir m \<and> \<not> m_Listed m)"

lemma ready_not_listed: "ready pid sid rows d \<Longrightarrow> \<not> listed pid sid rows d"
  by (auto simp: ready_def listed_def seen_def)

lemma batch_rows:
  assumes rem: "lists (en_remote E) ls" and ok: "tree_ok ch" and ch: "ch = children pr f ls"
    and run: "foldE (list_step E pr sid f) dirs first w = (r, w')"
    and inv: "walk_inv ch (pair_ID pr) sid (manifest w)" and dist: "distinct dirs"
    and dirs: "\<And>d. d \<in> set dirs \<Longrightarrow> ready (pair_ID pr) sid (manifest w) d"
  shows "walk_inv ch (pair_ID pr) sid (manifest w') \<and>
    (r = Inr None \<longrightarrow> first = None \<and> (\<forall>p. listed (pair_ID pr) sid (manifest w') p \<longleftrightarrow>
       p \<in> set dirs \<or> listed (pair_ID pr) sid (manifest w) p))"
  using run inv dist dirs
proof (induction dirs arbitrary: w first)
  case Nil
  then show ?case by (auto simp: returnE_run)
next
  case (Cons d ds)
  obtain l w1 where l: "listDir E pr sid f d w = (l, w1)" by (rule prod.exhaust)
  define first1 where "first1 = (case l of Inr _ \<Rightarrow> first
     | Inl e \<Rightarrow> (case first of None \<Rightarrow> Some e | Some _ \<Rightarrow> first))"
  have "list_step E pr sid f d first w = (Inr first1, w1)"
    using l by (auto simp: first1_def list_step_def bindE_def tryE_def returnE_def split: sum.splits option.splits)
  with Cons.prems(1) have rest: "foldE (list_step E pr sid f) ds first1 w1 = (r, w')"
    by (simp add: bindE_def)
  from Cons.prems(4) [of d] obtain md where md: "seen (pair_ID pr) sid (manifest w) d md" "m_IsDir md"
    and rd: "ready (pair_ID pr) sid (manifest w) d" by (auto simp: ready_def)
  have dir: "tree_dir ch d" by (rule pending_tree_dir [OF Cons.prems(2) md])
  from listDir_rows [OF rem l] consider (failed) x where "l = Inl x" "manifest w1 = manifest w"
    | (success) ms where "l = Inr ()" "manifest w1 = listing_rows (pair_ID pr) sid ms d (ch d) (manifest w)"
    unfolding ch by blast
  then show ?case
  proof cases
    case failed
    then have "first1 \<noteq> None" by (auto simp: first1_def split: option.splits)
    with Cons.IH [OF rest] Cons.prems failed(2) show ?thesis by auto
  next
    case success
    note step = listing_step [OF ok Cons.prems(2) dir md(1) ready_not_listed [OF rd] success(2)]
    have "ready (pair_ID pr) sid (manifest w1) d'" if "d' \<in> set ds" for d'
    proof -
      have "d' \<noteq> d" using that Cons.prems(3) by auto
      with that Cons.prems(4) [of d'] step(3) show ?thesis by (fastforce simp: ready_def)
    qed
    with Cons.IH [OF rest step(1)] Cons.prems(3) step(2) success(1) show ?thesis
      by (auto simp: first1_def)
  qed
qed

lemma PendingDirs_ready:
  assumes wf: "manifest_wf w" and run: "PendingDirs pid sid n w = (Inr dirs, w')"
  shows "distinct dirs" and "d \<in> set dirs \<Longrightarrow> ready pid sid (manifest w) d"
proof -
  have key: "distinct (map m_key (manifest w))" using wf by (simp add: manifest_wf_def)
  have "distinct (map m_key (filter (pending_dir pid sid) (manifest w)))"
    using key by (rule distinct_map_filter_key)
  then have "distinct (map m_Path (filter (pending_dir pid sid) (manifest w)))"
    by (auto simp: distinct_map inj_on_def m_key_def pending_dir_def)
  moreover have "dirs = take (nat (if n \<le> 0 then 256 else n)) (sort (map m_Path (filter (pending_dir pid sid) (manifest w))))"
    using run unfolding PendingDirs_def by (auto elim!: run_elims)
  ultimately show "distinct dirs" by simp
  assume "d \<in> set dirs"
  with PendingDirs_Inr(2) [OF run] obtain m where "m \<in> set (manifest w)" "pending_dir pid sid m" "m_Path m = d"
    by auto
  then show "ready pid sid (manifest w) d"
    using mfind_iff [OF key] by (auto simp: ready_def seen_def pending_dir_def)
qed


section \<open>The whole walk\<close>

text \<open>The directories of the tree that the walk has still to list.\<close>

definition todo :: "(string \<Rightarrow> manifest_entry list) \<Rightarrow> int \<Rightarrow> int \<Rightarrow> mrow list \<Rightarrow> string set" where
  "todo ch pid sid rows = {d. tree_dir ch d \<and> \<not> listed pid sid rows d}"

lemma listBatch_rows:
  assumes rem: "lists (en_remote E) ls" and ok: "tree_ok ch" and ch: "ch = children pr f ls"
    and run: "listBatch E pr sid f dirs w = (r, w')"
    and inv: "walk_inv ch (pair_ID pr) sid (manifest w)" and dist: "distinct dirs"
    and dirs: "\<And>d. d \<in> set dirs \<Longrightarrow> ready (pair_ID pr) sid (manifest w) d"
  shows "walk_inv ch (pair_ID pr) sid (manifest w')"
    and "r = Inr () \<Longrightarrow> todo ch (pair_ID pr) sid (manifest w') = todo ch (pair_ID pr) sid (manifest w) - set dirs"
proof -
  obtain x w1 where x: "foldE (list_step E pr sid f) dirs None w = (x, w1)" by (rule prod.exhaust)
  note rows = batch_rows [OF rem ok ch x inv dist dirs]
  have rest: "(case x of Inl y \<Rightarrow> throwE y | Inr (Some y) \<Rightarrow> throwE y
      | Inr None \<Rightarrow> bindE ctx_Err (\<lambda>c. case c of Some x \<Rightarrow> throwE x | None \<Rightarrow> returnE ())) w1 = (r, w')"
    using run x by (auto simp: listBatch_def bindE_def throwE_def split: sum.splits option.splits)
  have "keeps (\<lambda>w w'. \<exists>e. w' = w\<lparr>env := e\<rparr>) (case x of Inl y \<Rightarrow> throwE y | Inr (Some y) \<Rightarrow> throwE y
      | Inr None \<Rightarrow> bindE ctx_Err (\<lambda>c. case c of Some x \<Rightarrow> throwE x | None \<Rightarrow> returnE ()))"
    by (intro env_step.keeps_rules)
  from keepsD [OF this rest] obtain e where w': "manifest w' = manifest w1" by auto
  with rows show "walk_inv ch (pair_ID pr) sid (manifest w')" by simp
  assume "r = Inr ()"
  with rest have "x = Inr None" by (auto simp: throwE_run split: sum.splits option.splits)
  with rows w' show "todo ch (pair_ID pr) sid (manifest w') = todo ch (pair_ID pr) sid (manifest w) - set dirs"
    by (auto simp: todo_def)
qed

lemma walk_run_rows:
  assumes rem: "lists (en_remote E) ls" and ok: "tree_ok ch" and ch: "ch = children pr f ls"
    and run: "walk_run fuel E pr sid f w = (r, w')" and wf: "manifest_wf w"
    and inv: "walk_inv ch (pair_ID pr) sid (manifest w)"
  shows "walk_inv ch (pair_ID pr) sid (manifest w') \<and>
    (finite (todo ch (pair_ID pr) sid (manifest w)) \<and> card (todo ch (pair_ID pr) sid (manifest w)) < fuel \<longrightarrow> r \<noteq> Inr False)"
  using run wf inv
proof (induction fuel arbitrary: w)
  case 0
  then show ?case by (simp add: returnE_run)
next
  case (Suc fuel)
  obtain c e where c: "ctx_Err w = (Inr c, w\<lparr>env := e\<rparr>)"
    using ctx_Err_cases [of w] by (metis surj_pair)
  obtain p w1 where p: "PendingDirs (pair_ID pr) sid (batch_size (en_opts E)) (w\<lparr>env := e\<rparr>) = (p, w1)"
    by (rule prod.exhaust)
  have "env_only (PendingDirs (pair_ID pr) sid (batch_size (en_opts E)))"
    unfolding PendingDirs_def by (intro env_step.keeps_rules)
  from keepsD [OF this p] have w1: "manifest w1 = manifest w" "manifest_wf w1"
    using Suc.prems(2) by (auto simp: manifest_wf.I_env)
  show ?case
  proof (cases c)
    case (Some x)
    with Suc.prems c show ?thesis by (auto simp: bindE_def throwE_def)
  next
    case None
    show ?thesis
    proof (cases p)
      case (Inl x)
      with Suc.prems c None p w1 show ?thesis by (auto simp: bindE_def)
    next
      case (Inr dirs)
      show ?thesis
      proof (cases "dirs = []")
        case True
        with Suc.prems c None p w1 Inr show ?thesis by (auto simp: bindE_def returnE_def)
      next
        case False
        have wfe: "manifest_wf (w\<lparr>env := e\<rparr>)" using Suc.prems(2) by (simp add: manifest_wf.I_env)
        note pend = PendingDirs_ready [OF wfe p [unfolded Inr]]
        have ready: "ready (pair_ID pr) sid (manifest w1) d" if "d \<in> set dirs" for d
          using pend(2) [OF that] w1 by simp
        obtain b w2 where b: "listBatch E pr sid f dirs w1 = (b, w2)" by (rule prod.exhaust)
        note rows = listBatch_rows [OF rem ok ch b _ pend(1) ready, unfolded w1(1), OF Suc.prems(3)]
        have "keeps (\<lambda>w w'. manifest_wf w \<longrightarrow> manifest_wf w') (listBatch E pr sid f dirs)"
          using rem by (intro manifest_wf.inv.keeps_listBatch keeps_PutListing) (simp add: lists_def)
        from keepsD [OF this b] have wf2: "manifest_wf w2" using w1(2) by blast
        show ?thesis
        proof (cases b)
          case (Inl x)
          with Suc.prems c None p b False \<open>p = Inr dirs\<close> rows(1) show ?thesis by (auto simp: bindE_def)
        next
          case (Inr u)
          have rest: "walk_run fuel E pr sid f w2 = (r, w')"
            using Suc.prems c None p b False \<open>p = Inr dirs\<close> Inr by (simp add: bindE_def)
          obtain d where d: "d \<in> set dirs" using False by (cases dirs) auto
          have "d \<in> todo ch (pair_ID pr) sid (manifest w)"
            using ready [OF d] ready_not_listed pending_tree_dir [OF Suc.prems(3)] w1
            unfolding todo_def ready_def by fastforce
          then have "card (todo ch (pair_ID pr) sid (manifest w2)) < card (todo ch (pair_ID pr) sid (manifest w))"
            if "finite (todo ch (pair_ID pr) sid (manifest w))"
            using that rows(2) Inr d by (intro psubset_card_mono) auto
          then show ?thesis
            using Suc.IH [OF rest wf2 rows(1)] rows(2) Inr by auto
        qed
      qed
    qed
  qed
qed


section \<open>The scan\<close>

text \<open>A pair has at most one walk under way, and it is in order.\<close>

definition scan_inv :: "(string \<Rightarrow> manifest_entry list) \<Rightarrow> int \<Rightarrow> world \<Rightarrow> bool" where
  "scan_inv ch pid w \<longleftrightarrow>
     (\<forall>s \<in> set (scans w). \<forall>s' \<in> set (scans w). scan_PairID s = pid \<and> scan_open s \<and> scan_PairID s' = pid \<and> scan_open s'
        \<longrightarrow> scan_ID s = scan_ID s') \<and>
     (\<forall>s \<in> set (scans w). scan_PairID s = pid \<and> scan_open s \<longrightarrow> walk_inv ch pid (scan_ID s) (manifest w))"

lemma scan_inv_env [simp]: "scan_inv ch pid (w\<lparr>env := e\<rparr>) = scan_inv ch pid w"
proof -
  have "scans (w\<lparr>env := e\<rparr>) = scans w" "manifest (w\<lparr>env := e\<rparr>) = manifest w" by simp_all
  then show ?thesis unfolding scan_inv_def by (simp only:)
qed

text \<open>The same in terms of the tags, which listings leave alone.\<close>

definition tag_open :: "int \<Rightarrow> int \<times> int \<times> scan_state \<Rightarrow> bool" where
  "tag_open pid t \<longleftrightarrow> fst (snd t) = pid \<and> (snd (snd t) = ScanRunning \<or> snd (snd t) = ScanInterrupted)"

lemma scan_inv_tags:
  "scan_inv ch pid w \<longleftrightarrow>
     (\<forall>t \<in> set (scan_tags w). \<forall>t' \<in> set (scan_tags w). tag_open pid t \<and> tag_open pid t' \<longrightarrow> fst t = fst t') \<and>
     (\<forall>t \<in> set (scan_tags w). tag_open pid t \<longrightarrow> walk_inv ch pid (fst t) (manifest w))"
  by (simp add: scan_inv_def scan_tags_def tag_open_def scan_open_def)

lemma walk_inv_seeded:
  assumes dist: "distinct (map m_key rows)" and old: "\<And>m. m \<in> set rows \<Longrightarrow> m_ScanID m \<noteq> sid"
    and root: "\<And>m. m \<in> set rows \<Longrightarrow> m_Path m = '''' \<Longrightarrow> m_IsDir m"
  shows "walk_inv ch pid sid (seed_rows pid sid ms rows)"
proof -
  let ?rows = "seed_rows pid sid ms rows"
  have none: "\<not> seen pid sid ?rows p m" if "p \<noteq> []" for p m
    using that old by (auto simp: seen_def mfind_seed dest!: find_Some_iff)
  obtain r where r: "mfind pid [] ?rows = Some r" by (simp add: mfind_seed)
  then have "r \<in> set ?rows" "m_key r = (pid, [])" by (auto dest!: find_Some_iff)
  from seed_root [OF dist root this] r have rootrow: "seen pid sid ?rows [] r" "m_IsDir r" "\<not> m_Listed r"
    by (auto simp: pending_dir_def seen_def)
  then have "\<not> listed pid sid ?rows d" for d
    using none [of d] by (cases "d = []") (auto simp: listed_def seen_def)
  with rootrow none show ?thesis unfolding walk_inv_def by blast
qed

lemma BeginScan_inv:
  assumes wf: "manifest_wf w" and refs: "manifest_refs w" and root: "roots_are_dirs w"
    and inv: "scan_inv ch pid w" and run: "BeginScan pid resume w = (Inr (sc, resumed), w')"
  shows "walk_inv ch pid (scan_ID sc) (manifest w')"
    and "\<And>t. t \<in> set (scan_tags w') \<Longrightarrow> tag_open pid t \<Longrightarrow> fst t = scan_ID sc"
    and "\<exists>t \<in> set (scan_tags w'). fst t = scan_ID sc \<and> tag_open pid t"
proof (atomize(full), use run in \<open>cases rule: BeginScan_cases\<close>)
  case (resumed e)
  have sc: "sc \<in> set (scans w)" "scan_PairID sc = pid" "scan_open sc"
    using sql_last_Some [OF resumed(4)] by auto
  let ?t = "(scan_ID sc, pid, scan_State sc)"
  have t: "?t \<in> set (scan_tags w')" "tag_open pid ?t" and w': "scan_tags w' = scan_tags w" "manifest w' = manifest w"
    using sc unfolding resumed(3) by (auto simp: scan_tags_def tag_open_def scan_open_def)
  note unique = inv [unfolded scan_inv_tags, THEN conjunct1, rule_format, of _ ?t, folded w']
  note order = inv [unfolded scan_inv_tags, THEN conjunct2, rule_format, of ?t, folded w']
  have "fst t' = scan_ID sc" if "t' \<in> set (scan_tags w')" "tag_open pid t'" for t'
    using unique [OF that(1) t(1)] that(2) t(2) by simp
  with order [OF t] t show "walk_inv ch pid (scan_ID sc) (manifest w') \<and>
     (\<forall>t. t \<in> set (scan_tags w') \<longrightarrow> tag_open pid t \<longrightarrow> fst t = scan_ID sc) \<and>
     (\<exists>t \<in> set (scan_tags w'). fst t = scan_ID sc \<and> tag_open pid t)"
    by auto
next
  case (fresh e)
  have id: "scan_ID sc = next_rowid (map scan_ID (scans w))" "scan_PairID sc = pid" "scan_State sc = ScanRunning"
    using arg_cong [OF fresh(2), of scan_ID] arg_cong [OF fresh(2), of scan_PairID] arg_cong [OF fresh(2), of scan_State]
    by (simp_all only: new_scan_def scan.simps)
  have old: "m_ScanID m \<noteq> scan_ID sc" if "m \<in> set (manifest w)" for m
    using that refs id(1) by (auto simp: manifest_refs_def)
  have dist: "distinct (map m_key (manifest w))" using wf by (simp add: manifest_wf_def)
  have dirs: "m_IsDir m" if "m \<in> set (manifest w)" "m_Path m = []" for m
    using root that by (simp add: roots_are_dirs_def)
  have "walk_inv ch pid (scan_ID sc) (manifest w')"
    unfolding fresh(4) by (simp, rule walk_inv_seeded [OF dist old dirs])
  moreover have "fst t = scan_ID sc" if "t \<in> set (scan_tags w')" "tag_open pid t" for t
  proof -
    from that(1) obtain s where s: "s \<in> set (scans w')" "t = (scan_ID s, scan_PairID s, scan_State s)"
      unfolding scan_tags_def by auto
    then have "scan_PairID s = pid \<and> scan_open s" using that(2) by (simp add: tag_open_def scan_open_def)
    with s(1) superseded_closed [of s pid "scan_StartedAt sc" "scans w"] have "s = sc"
      unfolding fresh(4) by simp blast
    with s(2) show ?thesis by simp
  qed
  moreover have "\<exists>t \<in> set (scan_tags w'). fst t = scan_ID sc \<and> tag_open pid t"
    unfolding fresh(4) by (simp add: scan_tags_def tag_open_def id)
  ultimately show "walk_inv ch pid (scan_ID sc) (manifest w') \<and>
     (\<forall>t. t \<in> set (scan_tags w') \<longrightarrow> tag_open pid t \<longrightarrow> fst t = scan_ID sc) \<and>
     (\<exists>t \<in> set (scan_tags w'). fst t = scan_ID sc \<and> tag_open pid t)" by blast
qed

lemma complete_walk:
  assumes ok: "tree_ok ch" and inv: "walk_inv ch pid sid rows" and dist: "distinct (map m_key rows)"
    and done_walk: "filter (pending_dir pid sid) rows = []" and e: "in_tree ch e"
  shows "\<exists>m. seen pid sid rows (me_Path e) m \<and> row_of e m"
proof -
  have all: "listed pid sid rows d" if s: "seen pid sid rows d m" "m_IsDir m" for d m
  proof -
    have "m \<in> set rows" "m_PairID m = pid" using s(1) by (auto simp: seen_def m_key_def dest!: find_Some_iff)
    with done_walk s show ?thesis by (auto simp: filter_empty_conv pending_dir_def listed_def seen_def)
  qed
  have row: "row_of e m" if "in_tree ch e" "seen pid sid rows (me_Path e) m" for e m
  proof -
    from walk_invD(2) [OF inv that(2) child_not_root [OF ok that(1)]] obtain e' d where
      "tree_dir ch d" "e' \<in> set (ch d)" "me_Path e' = me_Path e" "row_of e' m" by blast
    moreover then have "in_tree ch e'" using in_tree_iff by blast
    ultimately show ?thesis using in_tree_unique [OF ok that(1)] by metis
  qed
  have "\<exists>m. seen pid sid rows (me_Path e) m"
    using e
  proof induction
    case (top e)
    from walk_invD(1) [OF inv] all walk_invD(3) [OF inv _ top] show ?case by blast
  next
    case (under d e)
    then obtain m where m: "seen pid sid rows (me_Path d) m" by blast
    with row [OF under(1) m] under(2) have "m_IsDir m" by (simp add: row_of_def)
    from walk_invD(3) [OF inv all [OF m this] under(3)] show ?case .
  qed
  with row [OF e] show ?thesis by blast
qed


section \<open>The share as a tree\<close>

text \<open>
  What \<open>remote.Entry\<close> documents: the path of an entry is the path of its directory, a slash and
  its name, relative to the root of the share.
\<close>

definition share_ok :: "(string \<Rightarrow> rentry list) \<Rightarrow> bool" where
  "share_ok ls \<longleftrightarrow> (\<forall>p. p = [] \<or> rel_ok p \<longrightarrow>
     distinct (map re_Path (ls p)) \<and> (\<forall>e \<in> set (ls p). \<exists>n. seg_ok n \<and> re_Path e = sub p n))"

abbreviation root_ok :: "pair \<Rightarrow> bool" where
  "root_ok pr \<equiv> pair_RemotePath pr = [] \<or> rel_ok (pair_RemotePath pr)"

lemma rel_ok_append: "rel_ok a \<Longrightarrow> rel_ok b \<Longrightarrow> rel_ok (a @ slash # b)"
  by (simp add: rel_ok_def split_append_sep)

lemma rel_ok_not_Nil: "rel_ok p \<Longrightarrow> p \<noteq> []"
  by (auto simp: rel_ok_def seg_ok_def)

lemma path_Clean_rel_ok: "rel_ok p \<Longrightarrow> path_Clean p = p"
  using path_Clean_rel [of "split_on slash p"] by (simp add: rel_ok_def)

lemma remotePath_eq:
  assumes "root_ok pr" and "d = [] \<or> rel_ok d"
  shows "remotePath pr d = (if pair_RemotePath pr = [] then d else if d = [] then pair_RemotePath pr
    else pair_RemotePath pr @ slash # d)"
  using assms rel_ok_append [of "pair_RemotePath pr" d] rel_ok_not_Nil [of d] rel_ok_not_Nil [of "pair_RemotePath pr"]
  by (auto simp: remotePath_def path_Join_def path_Clean_rel_ok)

lemma pairRel_sub:
  assumes "root_ok pr" and "d = [] \<or> rel_ok d"
  shows "pairRel pr (sub (remotePath pr d) n) = Some (sub d n)"
  using rel_ok_not_Nil [of "pair_RemotePath pr"] assms(1)
  by (auto simp: remotePath_eq [OF assms] pairRel_def sub_def CutPrefix_Some)

lemma keep_entry_path:
  "keep_entry pr f e = Some k \<Longrightarrow> pairRel pr (re_Path e) = Some (me_Path k)"
  by (auto simp: keep_entry_def split: option.splits if_splits)

lemma children_ok:
  assumes ls: "share_ok ls" and root: "root_ok pr"
  shows "tree_ok (children pr f ls)"
  unfolding tree_ok_def
proof (intro allI impI conjI ballI)
  fix d
  assume d: "d = [] \<or> rel_ok d"
  let ?rd = "remotePath pr d" and ?es = "ls (remotePath pr d)"
  have "?rd = [] \<or> rel_ok ?rd"
    using d root rel_ok_append by (auto simp: remotePath_eq [OF root d])
  with ls have es: "distinct (map re_Path ?es)" "\<And>e. e \<in> set ?es \<Longrightarrow> \<exists>n. seg_ok n \<and> re_Path e = sub ?rd n"
    unfolding share_ok_def by blast+
  have path: "\<exists>n. seg_ok n \<and> me_Path k = sub d n \<and> re_Path e = sub ?rd n"
    if "e \<in> set ?es" "keep_entry pr f e = Some k" for e k
    using es(2) [OF that(1)] keep_entry_path [OF that(2)] pairRel_sub [OF root d] by fastforce
  have same: "e = e'" if "e \<in> set ?es" "keep_entry pr f e = Some k" "e' \<in> set ?es" "keep_entry pr f e' = Some k'"
    "me_Path k = me_Path k'" for e e' k k'
  proof -
    note prem = that
    obtain n n' where n: "seg_ok n" "me_Path k = sub d n" "re_Path e = sub ?rd n"
      and n': "seg_ok n'" "me_Path k' = sub d n'" "re_Path e' = sub ?rd n'"
      using path [OF prem(1,2)] path [OF prem(3,4)] by blast
    from sub_inj(2) [OF n(1) n'(1)] that(5) n(2) n'(2) have "n = n'" by simp
    with n(3) n'(3) show ?thesis using distinct_map_inj [OF es(1) that(1,3)] by simp
  qed
  show "distinct (map me_Path (children pr f ls d))"
    using es(1) same unfolding children_def kept_def List.map_filter_def
    by (auto simp: distinct_map inj_on_def)
  fix e
  assume "e \<in> set (children pr f ls d)"
  then obtain e0 where "e0 \<in> set ?es" "keep_entry pr f e0 = Some e"
    unfolding children_def kept_def List.map_filter_def by auto
  from path [OF this] show "\<exists>n. seg_ok n \<and> me_Path e = sub d n" by blast
qed

section \<open>Properties\<close>

text \<open>A path of the manifest as the engine's later passes read it.\<close>

definition shown :: "mrow \<Rightarrow> string \<times> int \<times> int \<times> bool" where
  "shown m = (m_Path m, m_Size m, m_MTime m, m_IsDir m)"

definition shown_entry :: "manifest_entry \<Rightarrow> string \<times> int \<times> int \<times> bool" where
  "shown_entry e = (me_Path e, me_Size e, UnixMilli (me_MTime e), me_IsDir e)"

lemma seen_mem:
  "distinct (map m_key rows) \<Longrightarrow> m \<in> set rows \<Longrightarrow> m_PairID m = pid \<Longrightarrow> m_ScanID m = sid \<Longrightarrow>
   seen pid sid rows (m_Path m) m"
  using mfind_iff by (auto simp: seen_def)

lemma swept_rows:
  assumes ok: "tree_ok ch" and inv: "walk_inv ch pid sid rows" and dist: "distinct (map m_key rows)"
    and done_walk: "filter (pending_dir pid sid) rows = []"
  shows "shown ` {m \<in> set (sql_delete (sweep_row pid sid) rows). m_PairID m = pid \<and> m_Path m \<noteq> []} =
    shown_entry ` {e. in_tree ch e}"
proof (intro equalityI subsetI)
  fix x
  assume "x \<in> shown ` {m \<in> set (sql_delete (sweep_row pid sid) rows). m_PairID m = pid \<and> m_Path m \<noteq> []}"
  then obtain m where m: "m \<in> set rows" "m_PairID m = pid" "m_ScanID m = sid" "m_Path m \<noteq> []" "x = shown m"
    by (auto simp: sweep_row_def)
  from walk_invD(2) [OF inv seen_mem [OF dist m(1-3)] m(4)] obtain e d where
    "tree_dir ch d" "e \<in> set (ch d)" "me_Path e = m_Path m" "row_of e m" by blast
  then have "in_tree ch e" "x = shown_entry e"
    using m(5) in_tree_iff by (auto simp: shown_def shown_entry_def row_of_def)
  then show "x \<in> shown_entry ` {e. in_tree ch e}" by blast
next
  fix x
  assume "x \<in> shown_entry ` {e. in_tree ch e}"
  then obtain e where e: "in_tree ch e" "x = shown_entry e" by blast
  from complete_walk [OF ok inv dist done_walk e(1)] obtain m
    where m: "seen pid sid rows (me_Path e) m" "row_of e m" by blast
  then have "m \<in> set rows" "m_PairID m = pid" "m_Path m = me_Path e" "m_ScanID m = sid"
    by (auto simp: seen_def m_key_def dest!: find_Some_iff)
  moreover have "x = shown m"
    using e(2) m(2) \<open>m_Path m = me_Path e\<close> by (simp add: shown_def shown_entry_def row_of_def)
  ultimately show "x \<in> shown ` {m \<in> set (sql_delete (sweep_row pid sid) rows). m_PairID m = pid \<and> m_Path m \<noteq> []}"
    using child_not_root [OF ok e(1)] by (auto simp: sweep_row_def)
qed

lemma Scan_walk:
  assumes rem: "lists (en_remote E) ls" and ok: "tree_ok ch" and ch: "ch = children pr (newFilter pr (opt_JCC (en_opts E))) ls"
    and wf: "manifest_wf w" and refs: "manifest_refs w" and root: "roots_are_dirs w"
    and inv: "scan_inv ch (pair_ID pr) w"
    and bgn: "BeginScan (pair_ID pr) resume (w\<lparr>env := e0\<rparr>) = (Inr (sc, resumed), w1)"
    and walk: "walk_run fuel E pr (scan_ID sc) (newFilter pr (opt_JCC (en_opts E)))
           (w1\<lparr>events := es, changes := cs, env := e\<rparr>) = (walked, w2)"
  shows "walk_inv ch (pair_ID pr) (scan_ID sc) (manifest w2)" and "manifest_wf w2"
    and "\<And>t. t \<in> set (scan_tags w2) \<Longrightarrow> tag_open (pair_ID pr) t \<Longrightarrow> fst t = scan_ID sc"
    and "\<exists>st. (scan_ID sc, pair_ID pr, st) \<in> set (scan_tags w2)"
    and "finite (todo ch (pair_ID pr) (scan_ID sc) (manifest w1)) \<Longrightarrow>
         card (todo ch (pair_ID pr) (scan_ID sc) (manifest w1)) < fuel \<Longrightarrow> walked \<noteq> Inr False"
proof -
  let ?wb = "w1\<lparr>events := es, changes := cs, env := e\<rparr>"
  have rok: "remote_ok (en_remote E)" using rem by (simp add: lists_def)
  have "manifest_wf (w\<lparr>env := e0\<rparr>)" "manifest_refs (w\<lparr>env := e0\<rparr>)" "roots_are_dirs (w\<lparr>env := e0\<rparr>)"
    "scan_inv ch (pair_ID pr) (w\<lparr>env := e0\<rparr>)"
    using wf refs root inv by (simp_all add: manifest_wf.I_env manifest_refs_def roots_are_dirs_def)
  note b = BeginScan_inv [OF this bgn]
  have "manifest_wf w1"
    using keepsD [OF keeps_BeginScan bgn] wf by (simp add: manifest_wf.I_env)
  then have wfb: "manifest_wf ?wb" by (simp add: manifest_wf_def)
  have invb: "walk_inv ch (pair_ID pr) (scan_ID sc) (manifest ?wb)" using b(1) by simp
  note rows = walk_run_rows [OF rem ok ch walk wfb invb]
  have tags: "scan_tags w2 = scan_tags w1"
    using keepsD [OF tags_walk_run [OF rok] walk] by (simp add: scan_tags_def)
  show "walk_inv ch (pair_ID pr) (scan_ID sc) (manifest w2)" using rows by blast
  show "manifest_wf w2" using keepsD [OF wf_walk_run [OF rok] walk] wfb by blast
  show "fst t = scan_ID sc" if "t \<in> set (scan_tags w2)" "tag_open (pair_ID pr) t" for t
    using that b(2) tags by simp
  show "\<exists>st. (scan_ID sc, pair_ID pr, st) \<in> set (scan_tags w2)" using BeginScan_tag [OF bgn] tags by simp
  show "walked \<noteq> Inr False" if "finite (todo ch (pair_ID pr) (scan_ID sc) (manifest w1))"
    "card (todo ch (pair_ID pr) (scan_ID sc) (manifest w1)) < fuel"
    using rows that by simp
qed


text \<open>Closing the walk: it stays open only when it was interrupted, and then nothing was swept.\<close>

lemma closed_scan_inv:
  assumes walk: "walk_inv ch pid sid (manifest w2)"
    and only: "\<And>t. t \<in> set (scan_tags w2) \<Longrightarrow> tag_open pid t \<Longrightarrow> fst t = sid"
    and v: "verdict walked counted = (st, msg)"
    and t: "t \<in> set (scan_tags (w2\<lparr>scans := sql_update (\<lambda>s. scan_ID s = sid) (finish_row st msg ms) (scans w2)\<rparr>))"
    and op: "tag_open pid t"
  shows "fst t = sid" and "st \<noteq> ScanDone"
proof -
  from t obtain s where s: "s \<in> set (scans w2)"
    "t = (if scan_ID s = sid then (sid, scan_PairID s, st) else (scan_ID s, scan_PairID s, scan_State s))"
    by (auto simp: scan_tags_def set_sql_update finish_row_def split: if_splits)
  have "(scan_ID s, scan_PairID s, scan_State s) \<in> set (scan_tags w2)"
    using s(1) by (auto simp: scan_tags_def)
  with only [of "(scan_ID s, scan_PairID s, scan_State s)"] s(2) op have "scan_ID s = sid"
    by (cases "scan_ID s = sid") auto
  with s(2) op v show "fst t = sid" and "st \<noteq> ScanDone"
    by (auto simp: tag_open_def)
qed

text \<open>
  (C6) A scan makes the manifest of the pair the tree the publisher shares, filtered: when it
  returns, fresh or resumed, the paths of the pair are exactly the entries of the tree, with
  the size, time and kind that were reported, each once. When it fails or is interrupted at
  any point, what it has recorded is in order for the next run to pick up.
\<close>

theorem scan_exact:
  assumes rem: "lists (en_remote E) ls" and ls: "share_ok ls" and pr: "root_ok pr"
    and ch: "ch = children pr (newFilter pr (opt_JCC (en_opts E))) ls"
    and wf: "manifest_wf w" and refs: "manifest_refs w" and root: "roots_are_dirs w"
    and inv: "scan_inv ch (pair_ID pr) w"
    and run: "Scan fuel E pr resume w = (r, w')"
  shows "scan_inv ch (pair_ID pr) w' \<and>
    (\<forall>res. r = Inr (Some res) \<longrightarrow>
       shown ` {m \<in> set (manifest w'). m_PairID m = pair_ID pr \<and> m_Path m \<noteq> []} = shown_entry ` {e. in_tree ch e})"
proof -
  have ok: "tree_ok ch" unfolding ch using ls pr by (rule children_ok)
  from run show ?thesis
  proof (cases rule: Scan_cases)
    case (stuck x e)
    with inv show ?thesis by simp
  next
    case (walked sc resumed started e0 w1 es cs e walked w2)
    note w2 = Scan_walk [OF rem ok ch wf refs root inv walked(1,2)]
    have inv2: "scan_inv ch (pair_ID pr) w2"
      unfolding scan_inv_tags using w2(1,3) by metis
    show ?thesis
    proof (cases "walked = Inr False")
      case True
      with walked(3) inv2 show ?thesis by auto
    next
      case False
      with walked(3) obtain rc where close: "close_scan pr (scan_ID sc) resumed started walked w2 = (rc, w')"
        and rc: "\<And>res. r = Inr (Some res) \<Longrightarrow> rc = Inr res"
        by (auto split: prod.splits sum.splits)
      from close show ?thesis
      proof (cases rule: close_scan_cases)
        case (same x e)
        with inv2 rc show ?thesis by fastforce
      next
        case (closed counted st msg ms es cs e)
        have pair: "scan_PairID counted = pair_ID pr"
          using w2(4) tags_find(1) [OF w2(2) _ closed(1)] by blast
        let ?ws = "w2\<lparr>scans := sql_update (\<lambda>s. scan_ID s = scan_ID sc) (finish_row st msg ms) (scans w2)\<rparr>"
        have tags: "scan_tags w' = scan_tags ?ws" unfolding closed(3) by (simp add: scan_tags_def)
        have opened: "fst t = scan_ID sc" "manifest w' = manifest w2"
          if "t \<in> set (scan_tags w')" "tag_open (pair_ID pr) t" for t
          using closed_scan_inv [OF w2(1,3) closed(2) that(1) [unfolded tags] that(2)] unfolding closed(3) by simp_all
        then have "scan_inv ch (pair_ID pr) w'"
          unfolding scan_inv_tags using w2(1) by metis
        moreover have "shown ` {m \<in> set (manifest w'). m_PairID m = pair_ID pr \<and> m_Path m \<noteq> []} =
            shown_entry ` {e. in_tree ch e}" if "r = Inr (Some res)" for res
        proof -
          from closed(4) [OF rc [OF that]] have st: "st = ScanDone" .
          with closed(2) False have "walked = Inr True"
            by (auto simp: verdict_def split: sum.splits if_splits)
          from walk_run_done [OF walked(2) [unfolded this]] w2(1,2) show ?thesis
            using swept_rows [OF ok w2(1)] unfolding closed(3) st pair by (simp add: manifest_wf_def)
        qed
        ultimately show ?thesis by blast
      qed
    qed
  qed
qed

text \<open>
  (C24) A walk comes to an end: with a share of finitely many directories, as many rounds as it
  has directories and one more always suffice, whether the walk starts afresh or
  continues one, and whatever fails on the way.
\<close>

theorem walk_terminates:
  assumes rem: "lists (en_remote E) ls" and ls: "share_ok ls" and pr: "root_ok pr"
    and ch: "ch = children pr (newFilter pr (opt_JCC (en_opts E))) ls"
    and wf: "manifest_wf w" and refs: "manifest_refs w" and root: "roots_are_dirs w"
    and inv: "scan_inv ch (pair_ID pr) w"
    and fin: "finite {d. tree_dir ch d}" and fuel: "card {d. tree_dir ch d} < fuel"
  shows "fst (Scan fuel E pr resume w) \<noteq> Inr None"
proof
  assume none: "fst (Scan fuel E pr resume w) = Inr None"
  have ok: "tree_ok ch" unfolding ch using ls pr by (rule children_ok)
  from run_snd [where m = "Scan fuel E pr resume" and w = w, OF none] show False
  proof (cases rule: Scan_cases)
    case (stuck x e)
    then show False by simp
  next
    case (walked sc resumed started e0 w1 es cs e walked w2)
    let ?todo = "todo ch (pair_ID pr) (scan_ID sc) (manifest w1)"
    have "?todo \<subseteq> {d. tree_dir ch d}" by (auto simp: todo_def)
    with fin fuel have "finite ?todo" "card ?todo < fuel"
      using finite_subset card_mono [of "{d. tree_dir ch d}" ?todo] by auto
    from Scan_walk(5) [OF rem ok ch wf refs root inv walked(1,2) this]
    have "walked \<noteq> Inr False" .
    with walked(3) show False by (auto split: prod.splits sum.splits)
  qed
qed


definition demo_children :: "string \<Rightarrow> manifest_entry list" where
  "demo_children = children demo_pair (newFilter demo_pair (opt_JCC (en_opts demo_engine))) demo_ls"

lemma demo_lists: "lists (en_remote demo_engine) demo_ls"
proof -
  have "es = demo_ls p" if "r_List demo_remote p w = (Inr es, w')" for p w es w'
    using that by (auto simp: demo_remote_def elim!: query_InrE)
  with demo_remote_ok show ?thesis by (auto simp: lists_def demo_engine_def New_def)
qed

lemma demo_share: "share_ok demo_ls"
proof -
  have "seg_ok ''d''" "seg_ok ''a.mp3''" "seg_ok ''b.mp3''" by code_simp+
  moreover have "''d/b.mp3'' = sub ''d'' ''b.mp3''" by code_simp
  ultimately show ?thesis
    by (auto simp: share_ok_def demo_ls_def demo_file_entry_def sub_def intro: exI [of _ "''b.mp3''"])
qed

lemma demo_children_at:
  "demo_children p = (if p = [] then [\<lparr>me_Path = ''d'', me_Size = 0, me_MTime = 0, me_IsDir = True\<rparr>,
       \<lparr>me_Path = ''a.mp3'', me_Size = 3, me_MTime = 7000000000, me_IsDir = False\<rparr>]
     else if p = ''d'' then [\<lparr>me_Path = ''d/b.mp3'', me_Size = 5, me_MTime = 7000000000, me_IsDir = False\<rparr>] else [])"
proof -
  have "demo_children p = []" if "p \<noteq> []" "p \<noteq> ''d''"
    using that by (simp add: demo_children_def children_def kept_def remotePath_def demo_pair_def demo_ls_def List.map_filter_def)
  moreover have "demo_children [] = [\<lparr>me_Path = ''d'', me_Size = 0, me_MTime = 0, me_IsDir = True\<rparr>,
       \<lparr>me_Path = ''a.mp3'', me_Size = 3, me_MTime = 7000000000, me_IsDir = False\<rparr>]"
    "demo_children ''d'' = [\<lparr>me_Path = ''d/b.mp3'', me_Size = 5, me_MTime = 7000000000, me_IsDir = False\<rparr>]"
    by code_simp+
  ultimately show ?thesis by simp
qed

lemma demo_tree_dirs: "{d. tree_dir demo_children d} \<subseteq> {[], ''d''}"
proof -
  have "me_IsDir e \<longrightarrow> me_Path e = ''d''" if "in_tree demo_children e" for e
    using that by induction (auto simp: demo_children_at split: if_splits)
  then show ?thesis by (auto simp: tree_dir_def)
qed

lemma demo_inv: "manifest_wf demo_world" "manifest_refs demo_world" "roots_are_dirs demo_world"
  "scan_inv demo_children (pair_ID demo_pair) demo_world"
  by (code_simp, code_simp, code_simp) (simp add: scan_inv_def demo_world_def empty_world_def)

theorem scan_exact_witness:
  "scan_inv demo_children (pair_ID demo_pair) demo_scan \<and>
   shown ` {m \<in> set (manifest demo_scan). m_PairID m = pair_ID demo_pair \<and> m_Path m \<noteq> []} =
     shown_entry ` {e. in_tree demo_children e}"
  using scan_exact [OF demo_lists demo_share _ demo_children_def demo_inv demo_scan_run]
  by (simp add: demo_pair_def)

theorem walk_terminates_witness: "fst (Scan 3 demo_engine demo_pair False demo_world) \<noteq> Inr None"
proof -
  have "finite {d. tree_dir demo_children d}" "card {d. tree_dir demo_children d} < 3"
    using demo_tree_dirs finite_subset card_mono [OF _ demo_tree_dirs] by fastforce+
  then show ?thesis
    by (intro walk_terminates [OF demo_lists demo_share _ demo_children_def demo_inv])
       (simp_all add: demo_pair_def)
qed

end
