(* ===== verification/Disk.thy ===== *)
theory Disk
  imports Engine
begin

text \<open>
  How the calls of the engine act on the files of the local tree. \<open>file_at\<close> is the contents and
  the time of a path that is a file; the store's operations leave the disk alone, making
  directories leaves every file alone, and the calls on one file touch that file only.
\<close>

definition file_at :: "world \<Rightarrow> string \<Rightarrow> (string \<times> time) option" where
  "file_at w p = (case node (fs w) p of Some (FFile b t) \<Rightarrow> Some (b, t) | _ \<Rightarrow> None)"

lemma file_at_frame: "fs w' = fs w \<Longrightarrow> file_at w' = file_at w"
  by (rule ext) (simp add: file_at_def)

lemma file_at_simps [simp]: "file_at (w\<lparr>env := e\<rparr>) = file_at w" "file_at (used w) = file_at w"
  by (rule file_at_frame; simp)+

lemma file_at_Some: "file_at w p = Some (b, t) \<longleftrightarrow> node (fs w) p = Some (FFile b t)"
  by (auto simp: file_at_def split: option.splits fnode.splits)

lemma node_root [simp]: "node d ''/'' = Some FDir"
  by (simp add: node_def)

lemma file_not_root: "file_at w ''/'' = None"
  by (simp add: file_at_def)

section \<open>The store leaves the disk alone\<close>

interpretation disk: world_frame fs
  by unfold_locales simp

lemma disk_put:
  "keeps (\<lambda>w w'. fs w' = fs w) (put_jobs f1)"
  "keeps (\<lambda>w w'. fs w' = fs w) (put_files f2)"
  "keeps (\<lambda>w w'. fs w' = fs w) (put_changes f3)"
  "keeps (\<lambda>w w'. fs w' = fs w) (put_events f4)"
  "keeps (\<lambda>w w'. fs w' = fs w) (put_approvals f5)"
  unfolding put_jobs_def put_files_def put_changes_def put_events_def put_approvals_def
  by (intro disk.frame.keeps_exec; auto simp: Let_def split: prod.splits if_splits)+

lemma disk_event: "keeps (\<lambda>w w'. fs w' = fs w) (event lv kd pid)"
  unfolding event_def AppendEvent_def by (intro disk.frame.keeps_rules disk_put)

lemma disk_change: "keeps (\<lambda>w w'. fs w' = fs w) (change c)"
  unfolding change_def AppendChange_def by (intro disk.frame.keeps_rules disk_put)

lemma disk_store:
  "keeps (\<lambda>w w'. fs w' = fs w) (JobProgress i n)"
  "keeps (\<lambda>w w'. fs w' = fs w) (SetJobState i st)"
  "keeps (\<lambda>w w'. fs w' = fs w) (ReleaseJob i)"
  "keeps (\<lambda>w w'. fs w' = fs w) (FailJob i err m bo)"
  "keeps (\<lambda>w w'. fs w' = fs w) (ClaimJob pid t)"
  "keeps (\<lambda>w w'. fs w' = fs w) (RequeueRunning pid)"
  "keeps (\<lambda>w w'. fs w' = fs w) (Queue pid)"
  "keeps (\<lambda>w w'. fs w' = fs w) (PutFile f)"
  "keeps (\<lambda>w w'. fs w' = fs w) (FileAt pid path)"
  "keeps (\<lambda>w w'. fs w' = fs w) (ForgetFile pid path)"
  unfolding JobProgress_def SetJobState_def ReleaseJob_def FailJob_def ClaimJob_def RequeueRunning_def
    Queue_def PutFile_def putFileTx_def FileAt_def ForgetFile_def
  by (intro disk.frame.keeps_rules disk_put)+

section \<open>Directories\<close>

interpretation tree: world_frame file_at
  by unfold_locales simp

lemma tree_of_disk: "keeps (\<lambda>w w'. fs w' = fs w) m \<Longrightarrow> keeps (\<lambda>w w'. file_at w' = file_at w) m"
  unfolding keeps_def by (blast intro: file_at_frame)

lemma os_Stat_cases:
  assumes "os_Stat p w = (r, w')"
  shows "w' = used w \<and> (case r of Inr n \<Rightarrow> node (fs w) p = Some n | Inl e \<Rightarrow> errors_Is e ENotExist \<longrightarrow> node (fs w) p = None)"
  using assms unfolding os_Stat_def
  by (auto dest!: exec_cases simp: errors_Is_def split: option.splits prod.splits sum.splits if_splits)

text \<open>A relation that holds of every step of the environment is kept by a look at a path.\<close>

context step_rel
begin

lemma keeps_Stat: "keeps R (os_Stat p)"
proof (rule keepsI)
  fix w r w'
  assume "os_Stat p w = (r, w')"
  with os_Stat_cases have "w' = used w" by blast
  then show "R w w'" by (simp add: used_def R_env)
qed

end

lemma tree_Stat: "keeps (\<lambda>w w'. file_at w' = file_at w) (os_Stat p)"
  by (rule tree.frame.keeps_Stat)

lemma tree_ReadFile: "keeps (\<lambda>w w'. file_at w' = file_at w) (os_ReadFile p)"
  unfolding os_ReadFile_def by (rule tree.frame.keeps_exec) (auto split: option.splits fnode.splits)

lemma tree_touch: "keeps (\<lambda>w w'. file_at w' = file_at w) (os_touch p)"
  unfolding os_touch_def by (rule tree.frame.keeps_query)

lemma tree_Mkdir: "keeps (\<lambda>w w'. file_at w' = file_at w) (os_Mkdir p)"
  unfolding os_Mkdir_def
proof (rule tree.frame.keeps_exec)
  fix w :: world and a w'
  assume a: "(if node (fs w) p \<noteq> None then Inl EExist
     else if node (fs w) (path_Dir p) \<noteq> Some FDir then Inl ENotExist
     else Inr ((), w\<lparr>fs := fs_put p FDir (fs w)\<rparr>)) = Inr (a, w')"
  then have "node (fs w) p = None" "w' = w\<lparr>fs := fs_put p FDir (fs w)\<rparr>"
    by (auto split: if_splits)
  moreover from this(1) have "p \<noteq> ''/''" by auto
  ultimately show "file_at w' = file_at w" by (auto simp: file_at_def)
qed

lemma os_Remove_cases:
  assumes "os_Remove p w = (r, w')"
  obtains e where "r = Inl e" "w' = used w"
    | "r = Inr ()" "p \<noteq> ''/''" "node (fs w) (path_Dir p) = Some FDir" "node (fs w) p \<noteq> None"
      "w' = (used w)\<lparr>fs := fs_del p (fs w)\<rparr>"
proof -
  from exec_cases [OF assms [unfolded os_Remove_def]] show thesis
  proof (elim disjE conjE exE)
    fix e assume "w' = used w" "r = Inl e"
    then show thesis by (intro that(1))
  next
    fix a assume r: "r = Inr a" and f: "(if node (fs (used w)) (path_Dir p) \<noteq> Some FDir then Inl (EOS 20) else case node (fs (used w)) p of
        None \<Rightarrow> Inl ENotExist
      | Some FDir \<Rightarrow> if has_child (fs (used w)) p \<or> p = ''/'' then Inl (EOS 39) else Inr ((), (used w)\<lparr>fs := fs_del p (fs (used w))\<rparr>)
      | Some (FFile _ _) \<Rightarrow> Inr ((), (used w)\<lparr>fs := fs_del p (fs (used w))\<rparr>)) = Inr (a, w')"
    from f have d: "node (fs w) (path_Dir p) = Some FDir" by (simp split: if_splits)
    from f d obtain n where n: "node (fs w) p = Some n" by (cases "node (fs w) p") simp_all
    from f d n have "p \<noteq> ''/''" "w' = (used w)\<lparr>fs := fs_del p (fs w)\<rparr>"
      by (cases n; simp split: if_splits; fastforce)+
    with r d n show thesis by (intro that(2)) simp_all
  qed
qed

lemma file_at_del: "p \<noteq> ''/'' \<Longrightarrow> file_at (w\<lparr>fs := fs_del p d\<rparr>) = (file_at (w\<lparr>fs := d\<rparr>))(p := None)"
  by (auto simp: file_at_def fun_eq_iff)

lemma tree_Remove_dir:
  assumes run: "os_Remove p w = (r, w')" and dir: "file_at w p = None"
  shows "file_at w' = file_at w"
  using run
proof (cases rule: os_Remove_cases)
  case 2
  have "file_at ((used w)\<lparr>fs := fs w\<rparr>) = file_at w" by (rule file_at_frame) simp
  with 2 dir show ?thesis by (auto simp: file_at_del fun_eq_iff)
qed simp

lemma Mkdir_Inr:
  assumes "os_Mkdir p w = (Inr u, w')"
  shows "node (fs w') p = Some FDir"
proof -
  from assms have "node (fs w) p = None" "fs w' = fs_put p FDir (fs w)"
    unfolding os_Mkdir_def by (auto dest!: exec_Inr split: if_splits)
  moreover from this(1) have "p \<noteq> ''/''" by auto
  ultimately show ?thesis by simp
qed

lemma disk_settle: "keeps (\<lambda>w w'. fs w' = fs w) (settle owner mode p)"
  unfolding settle_def os_touch_def by (intro disk.frame.keeps_rules)

lemma disk_settleFile: "keeps (\<lambda>w w'. fs w' = fs w) (settleFile pr p)"
  unfolding settleFile_def by (rule disk_settle)

text \<open>The end of one step of \<open>makeDir\<close>: the directory is made and handed over, or taken back.\<close>

lemma tree_make:
  "keeps (\<lambda>w w'. file_at w' = file_at w) (bindE (tryE (os_Mkdir dir)) (\<lambda>m. case m of
      Inl e \<Rightarrow> if errors_Is e EExist then returnE () else throwE e
    | Inr _ \<Rightarrow> bindE (tryE (settle o1 md dir)) (\<lambda>s. case s of
          Inr _ \<Rightarrow> returnE ()
        | Inl e \<Rightarrow> bindE (ignoreE (os_Remove dir)) (\<lambda>_. throwE e))))"
  (is "keeps _ ?m")
proof (rule keepsI)
  fix w r w'
  assume run: "?m w = (r, w')"
  obtain m w1 where m: "os_Mkdir dir w = (m, w1)" by (rule prod.exhaust)
  have one: "file_at w1 = file_at w" using keepsD [OF tree_Mkdir m] .
  obtain s w2 where s: "settle o1 md dir w1 = (s, w2)" by (rule prod.exhaust)
  have two: "fs w2 = fs w1" using keepsD [OF disk_settle s] .
  obtain d w3 where d: "os_Remove dir w2 = (d, w3)" by (rule prod.exhaust)
  have "file_at w3 = file_at w2" if "m = Inr u" for u
    using tree_Remove_dir [OF d] Mkdir_Inr [OF m [unfolded that]] two by (simp add: file_at_def)
  moreover have "file_at w2 = file_at w1" using two by (rule file_at_frame)
  moreover have "w' = w1 \<or> (\<exists>u. m = Inr u) \<and> (w' = w2 \<or> w' = w3)"
    using run m s d
    by (cases m; cases s; cases d)
       (auto simp: bindE_def tryE_def ignoreE_def throwE_def returnE_def split: if_splits)
  ultimately show "file_at w' = file_at w" using one by metis
qed

declare make_dir.simps [simp del] free_space.simps [simp del]

lemma tree_make_dir: "keeps (\<lambda>w w'. file_at w' = file_at w) (make_dir fuel pr dir)"
proof (induction fuel arbitrary: dir)
  case 0
  then show ?case
    by (subst make_dir.simps) (intro tree.frame.keeps_rules tree_Stat tree_make; auto split: fnode.splits intro!: tree.frame.keeps_rules tree_make)
next
  case (Suc n)
  then show ?case
    by (subst make_dir.simps) (intro tree.frame.keeps_rules tree_Stat tree_make; auto split: fnode.splits intro!: tree.frame.keeps_rules tree_make)
qed

lemma tree_makeDir: "keeps (\<lambda>w w'. file_at w' = file_at w) (makeDir pr dir)"
  unfolding makeDir_def by (rule tree_make_dir)

lemma disk_statfs: "keeps (\<lambda>w w'. fs w' = fs w) (statfs p)"
  by (auto intro!: keepsI simp: statfs_def split: list.splits)

lemma tree_free_space: "keeps (\<lambda>w w'. file_at w' = file_at w) (free_space fuel p)"
proof (induction fuel arbitrary: p)
  case 0
  then show ?case
    by (subst free_space.simps) (auto intro!: tree.frame.keeps_rules tree_Stat tree_of_disk [OF disk_statfs])
next
  case (Suc n)
  then show ?case
    by (subst free_space.simps) (auto intro!: tree.frame.keeps_rules tree_Stat tree_of_disk [OF disk_statfs])
qed

lemma tree_checkSpace: "keeps (\<lambda>w w'. file_at w' = file_at w) (checkSpace rsv pr need)"
  unfolding checkSpace_def FreeSpace_def by (intro tree.frame.keeps_rules tree_free_space)

lemmas tree_keeps = tree_Stat tree_ReadFile tree_touch tree_makeDir tree_checkSpace
  tree_of_disk [OF disk_settleFile] tree_of_disk [OF disk_event] tree_of_disk [OF disk_change]
  disk_store [THEN tree_of_disk]

section \<open>Calls on one file\<close>

lemma os_Rename_file:
  assumes run: "os_Rename src dst w = (r, w')" and src: "file_at w src = Some (b, t)"
  shows "case r of Inl _ \<Rightarrow> file_at w' = file_at w
    | Inr _ \<Rightarrow> file_at w' = (if src = dst then file_at w else (file_at w)(src := None, dst := Some (b, t)))"
proof -
  have node: "node (fs w) src = Some (FFile b t)" using src by (simp add: file_at_Some)
  then have root: "src \<noteq> ''/''" by auto
  from run consider x where "r = Inl x" "w' = used w"
    | "r = Inr ()" "src = dst" "w' = used w"
    | "r = Inr ()" "src \<noteq> dst" "dst \<noteq> ''/''" "w' = (used w)\<lparr>fs := fs_put dst (FFile b t) (fs_del src (fs w))\<rparr>"
    unfolding os_Rename_def by (auto dest!: exec_cases simp: node Let_def split: if_splits)
  then show ?thesis
  proof cases
    case 3
    with root show ?thesis by (auto simp: file_at_def fun_eq_iff)
  qed auto
qed


text \<open>Every other file stays as it is while one is worked on.\<close>

interpretation others: step_rel "\<lambda>w w'. \<forall>p. p \<noteq> part \<longrightarrow> file_at w' p = file_at w p" for part
  by unfold_locales auto

lemma others_of_tree:
  "keeps (\<lambda>w w'. file_at w' = file_at w) m \<Longrightarrow> keeps (\<lambda>w w'. \<forall>p. p \<noteq> part \<longrightarrow> file_at w' p = file_at w p) m"
  unfolding keeps_def by simp

lemma file_at_put: "p \<noteq> ''/'' \<Longrightarrow> file_at (w\<lparr>fs := fs_put p (FFile b t) d\<rparr>) = (file_at (w\<lparr>fs := d\<rparr>))(p := Some (b, t))"
  by (auto simp: file_at_def fun_eq_iff)

lemma os_WriteAt_cases:
  assumes "os_WriteAt p off new w = (r, w')" and "file_at w p = Some (b, t)" and "0 \<le> off"
  shows "(\<exists>x. r = Inl x) \<and> file_at w' = file_at w \<or>
    r = Inr () \<and> (\<exists>t'. file_at w' = (file_at w)(p := Some (splice (nat off) new b, t')))"
proof -
  have n: "node (fs w) p = Some (FFile b t)" using assms(2) by (simp add: file_at_Some)
  then have root: "p \<noteq> ''/''" by auto
  from assms(1,3) n have "(\<exists>x. r = Inl x) \<and> w' = used w \<or> r = Inr () \<and>
      w' = (used w)\<lparr>fs := fs_put p (FFile (splice (nat off) new b) (clock (env (used w)))) (fs w)\<rparr>"
    unfolding os_WriteAt_def by (auto dest!: exec_cases)
  then show ?thesis
    using root by (auto simp: file_at_put file_at_def fun_eq_iff)
qed

lemma os_Truncate_cases:
  assumes "os_Truncate p n w = (r, w')" and "file_at w p = Some (b, t)"
  shows "(\<exists>x. r = Inl x) \<and> file_at w' = file_at w \<or>
    r = Inr () \<and> 0 \<le> n \<and> (\<exists>t'. file_at w' = (file_at w)(p := Some (resize (nat n) b, t')))"
proof -
  have nd: "node (fs w) p = Some (FFile b t)" using assms(2) by (simp add: file_at_Some)
  then have root: "p \<noteq> ''/''" by auto
  from assms(1) nd have "(\<exists>x. r = Inl x) \<and> w' = used w \<or> r = Inr () \<and> 0 \<le> n \<and>
      w' = (used w)\<lparr>fs := fs_put p (FFile (resize (nat n) b) (clock (env (used w)))) (fs w)\<rparr>"
    unfolding os_Truncate_def by (auto dest!: exec_cases split: if_splits)
  then show ?thesis
    using root by (auto simp: file_at_def fun_eq_iff)
qed

lemma os_Chtimes_cases:
  assumes "os_Chtimes p t w = (r, w')" and "file_at w p = Some (b, t0)"
  shows "(\<exists>x. r = Inl x) \<and> file_at w' = file_at w \<or> r = Inr () \<and> file_at w' = (file_at w)(p := Some (b, t))"
proof -
  have nd: "node (fs w) p = Some (FFile b t0)" using assms(2) by (simp add: file_at_Some)
  then have root: "p \<noteq> ''/''" by auto
  from assms(1) nd have "(\<exists>x. r = Inl x) \<and> w' = used w \<or> r = Inr () \<and> w' = (used w)\<lparr>fs := fs_put p (FFile b t) (fs w)\<rparr>"
    unfolding os_Chtimes_def by (auto dest!: exec_cases)
  then show ?thesis
    using root by (auto simp: file_at_def fun_eq_iff)
qed

lemma os_OpenCreate_cases:
  assumes "os_OpenCreate p w = (r, w')"
  shows "(\<exists>x. r = Inl x) \<and> file_at w' = file_at w \<or>
    r = Inr () \<and> (file_at w p \<noteq> None \<and> file_at w' = file_at w \<or>
       file_at w p = None \<and> (\<exists>t. file_at w' = (file_at w)(p := Some ([], t))))"
proof (cases "node (fs w) p")
  case None
  then have root: "p \<noteq> ''/''" by auto
  from assms None have "(\<exists>x. r = Inl x) \<and> w' = used w \<or> r = Inr () \<and>
      w' = (used w)\<lparr>fs := fs_put p (FFile [] (clock (env (used w)))) (fs w)\<rparr>"
    unfolding os_OpenCreate_def by (auto dest!: exec_cases split: if_splits)
  then show ?thesis
    using root None by (auto simp: file_at_def fun_eq_iff)
next
  case (Some n)
  with assms show ?thesis
    unfolding os_OpenCreate_def by (cases n) (auto dest!: exec_cases simp: file_at_def)
qed

lemma os_Stat_Inr: "os_Stat p w = (Inr n, w') \<Longrightarrow> w' = used w \<and> node (fs w) p = Some n"
  using os_Stat_cases [of p w "Inr n" w'] by simp

lemma os_Stat_gone: "os_Stat p w = (Inl e, w') \<Longrightarrow> errors_Is e ENotExist \<Longrightarrow> node (fs w) p = None"
  using os_Stat_cases [of p w "Inl e" w'] by simp

lemma os_ReadFile_Inr: "os_ReadFile p w = (Inr b, w') \<Longrightarrow> w' = used w \<and> (\<exists>t. file_at w p = Some (b, t))"
  unfolding os_ReadFile_def by (auto dest!: exec_Inr simp: file_at_Some split: option.splits fnode.splits)


section \<open>The disk leaves the store alone\<close>

definition tables :: "world \<Rightarrow> world" where
  "tables w = w\<lparr>fs := [], env := quiet_env\<rparr>"

lemma tables_fs [simp]: "tables (w\<lparr>fs := d\<rparr>) = tables w"
  by (simp add: tables_def)

interpretation store: world_frame tables
  by unfold_locales (simp add: tables_def)

lemma tables_eq:
  assumes "tables w' = tables w"
  shows "jobs w' = jobs w" "files w' = files w" "manifest w' = manifest w" "scans w' = scans w"
    "approvals w' = approvals w" "changes w' = changes w" "events w' = events w" "pairs w' = pairs w"
    "backups w' = backups w"
  using arg_cong [OF assms, of jobs] arg_cong [OF assms, of files] arg_cong [OF assms, of manifest] arg_cong [OF assms, of scans]
    arg_cong [OF assms, of approvals] arg_cong [OF assms, of changes] arg_cong [OF assms, of events] arg_cong [OF assms, of pairs]
    arg_cong [OF assms, of backups]
  by (simp_all add: tables_def)

lemma store_calls:
  "keeps (\<lambda>w w'. tables w' = tables w) (os_Mkdir p)"
  "keeps (\<lambda>w w'. tables w' = tables w) (os_Remove p)"
  "keeps (\<lambda>w w'. tables w' = tables w) (os_Rename p q)"
  "keeps (\<lambda>w w'. tables w' = tables w) (os_Chtimes p t)"
  "keeps (\<lambda>w w'. tables w' = tables w) (os_OpenCreate p)"
  "keeps (\<lambda>w w'. tables w' = tables w) (os_ReadFile p)"
  "keeps (\<lambda>w w'. tables w' = tables w) (os_Truncate p n)"
  "keeps (\<lambda>w w'. tables w' = tables w) (os_WriteAt p n b)"
  "keeps (\<lambda>w w'. tables w' = tables w) (os_touch p)"
  unfolding os_Mkdir_def os_Remove_def os_Rename_def os_Chtimes_def os_OpenCreate_def os_ReadFile_def
    os_Truncate_def os_WriteAt_def os_touch_def query_def
  by (rule store.frame.keeps_exec, force simp: Let_def split: option.splits fnode.splits if_splits)+

lemmas store_os = store.frame.keeps_Stat store_calls

lemma store_settle: "keeps (\<lambda>w w'. tables w' = tables w) (settle owner mode p)"
  unfolding settle_def by (intro store.frame.keeps_rules store_os)

lemma store_settleFile: "keeps (\<lambda>w w'. tables w' = tables w) (settleFile pr p)"
  unfolding settleFile_def by (rule store_settle)

lemma keeps_fnode:
  "(n = FDir \<Longrightarrow> keeps R m) \<Longrightarrow> (\<And>b t. n = FFile b t \<Longrightarrow> keeps R (f b t)) \<Longrightarrow>
   keeps R (case n of FDir \<Rightarrow> m | FFile b t \<Rightarrow> f b t)"
  by (cases n) auto

lemma keeps_nat: "keeps R m \<Longrightarrow> (\<And>k. n = Suc k \<Longrightarrow> keeps R (f k)) \<Longrightarrow> keeps R (case n of 0 \<Rightarrow> m | Suc k \<Rightarrow> f k)"
  by (cases n) auto

lemma store_make_dir: "keeps (\<lambda>w w'. tables w' = tables w) (make_dir fuel pr dir)"
proof (induction fuel arbitrary: dir)
  case 0
  show ?case
    by (subst make_dir.simps) (intro store.frame.keeps_rules keeps_fnode keeps_nat store_os store_settle, simp)
next
  case (Suc n)
  then show ?case
    by (subst make_dir.simps) (intro store.frame.keeps_rules keeps_fnode keeps_nat store_os store_settle, simp)
qed

lemma store_makeDir: "keeps (\<lambda>w w'. tables w' = tables w) (makeDir pr dir)"
  unfolding makeDir_def by (rule store_make_dir)

lemma store_statfs: "keeps (\<lambda>w w'. tables w' = tables w) (statfs p)"
  by (auto intro!: keepsI simp: statfs_def tables_def split: list.splits)

lemma store_free_space: "keeps (\<lambda>w w'. tables w' = tables w) (free_space fuel p)"
proof (induction fuel arbitrary: p)
  case 0
  show ?case
    by (subst free_space.simps) (intro store.frame.keeps_rules keeps_nat store_os store_statfs, simp)
next
  case (Suc n)
  then show ?case
    by (subst free_space.simps) (intro store.frame.keeps_rules keeps_nat store_os store_statfs, simp)
qed

lemma store_checkSpace: "keeps (\<lambda>w w'. tables w' = tables w) (checkSpace rsv pr need)"
  unfolding checkSpace_def FreeSpace_def by (intro store.frame.keeps_rules store_free_space)

lemmas store_keeps = store_os store_settle store_settleFile store_makeDir store_checkSpace

end
