(* ===== verification/Copying.thy ===== *)
theory Copying
  imports Disk
begin

text \<open>
  The transfer engine, \<open>engine/transfer.go\<close>: one file (\<open>runJob\<close>), the rounds of ranged requests
  that fill its partial file (\<open>download\<close>), and the run of a pair's queue (\<open>Sync\<close>).

  The partial file is used through its path: the program holds it open, and nothing renames or
  removes it while it does. The chunks of a round are fetched one after the other; each owns
  its own region of the file, so the order does not show, and a chunk that is cancelled because
  another failed is one that fails. The live progress counters (\<open>runBytes\<close>, \<open>fileDone\<close>) and the
  rate limiter's pauses are not part of the model, and with them the field \<open>Bytes\<close> of the result.
\<close>

section \<open>One file\<close>

definition partPath :: "engine \<Rightarrow> pair \<Rightarrow> string \<Rightarrow> string" where
  "partPath E pr rel = path_Join [pair_LocalPath pr, PartDir, en_sha256 E rel @ ''.part'']"

definition job_mtime :: "job \<Rightarrow> time" where
  "job_mtime j = ofMilli (job_MTime j)"

definition matchesOnDisk :: "engine \<Rightarrow> string \<Rightarrow> job \<Rightarrow> bool op" where
  "matchesOnDisk E dst j =
     bindE (tryE (os_Stat dst)) (\<lambda>r. returnE (case r of
       Inr (FFile b t) \<Rightarrow> int (length b) = job_BytesTotal j \<and> within t (job_mtime j) (opt_MTimeTolerance (en_opts E))
     | _ \<Rightarrow> False))"

text \<open>The watermark is trusted as far as the partial file reaches.\<close>

definition resume_from :: "job \<Rightarrow> int \<Rightarrow> int" where
  "resume_from j sz =
     (let from = (if job_BytesDone j > sz then sz else job_BytesDone j)
      in if from > job_BytesTotal j \<or> from < 0 then 0 else from)"

definition resumeOffset :: "string \<Rightarrow> job \<Rightarrow> int op" where
  "resumeOffset part j =
     bindE (wrapE ''stat the partial file'' (os_Stat part)) (\<lambda>st.
     let from = resume_from j (node_size st) in
     if from = 0 \<and> node_size st > 0
     then bindE (wrapE ''truncate the partial file'' (os_Truncate part 0)) (\<lambda>_. returnE from)
     else returnE from)"

text \<open>One ranged request is its offset and its length.\<close>

type_synonym chunk = "int \<times> int"

text \<open>What \<open>io.Copy\<close> does with the reads: each is written behind the one before.\<close>

fun copy_at :: "string \<Rightarrow> int \<Rightarrow> string list \<Rightarrow> int op" where
  "copy_at part off [] = returnE off"
| "copy_at part off (b # bs) = bindE (os_WriteAt part off b) (\<lambda>_. copy_at part (off + int (length b)) bs)"

definition fetchChunk :: "engine \<Rightarrow> string \<Rightarrow> string \<Rightarrow> chunk \<Rightarrow> unit op" where
  "fetchChunk E part src c =
     bindE (r_OpenRange (en_remote E) src (fst c) (snd c)) (\<lambda>(body, err).
     bindE (wrapE ''transfer bytes'' (copy_at part (fst c) body)) (\<lambda>upto.
     case err of
       Some e \<Rightarrow> throwE (EWrap ''transfer bytes'' e)
     | None \<Rightarrow> if upto - fst c \<noteq> snd c then throwE (EMsg ''transfer bytes: got less or more than asked for'')
               else returnE ()))"

definition fetch_step :: "engine \<Rightarrow> string \<Rightarrow> string \<Rightarrow> chunk \<Rightarrow> error option \<Rightarrow> error option op" where
  "fetch_step E part src c first =
     bindE (tryE (fetchChunk E part src c)) (\<lambda>r. case r of
       Inr _ \<Rightarrow> returnE first
     | Inl e \<Rightarrow> returnE (case first of None \<Rightarrow> Some e | Some _ \<Rightarrow> first))"

definition fetchRound :: "engine \<Rightarrow> string \<Rightarrow> string \<Rightarrow> chunk list \<Rightarrow> unit op" where
  "fetchRound E part src round = (case round of
     [c] \<Rightarrow> fetchChunk E part src c
   | _ \<Rightarrow> bindE (foldE (fetch_step E part src) round None) (\<lambda>first. case first of
            None \<Rightarrow> returnE () | Some e \<Rightarrow> throwE e))"

text \<open>The chunks of one round, at most \<open>n\<close> of them.\<close>

fun round_of :: "nat \<Rightarrow> int \<Rightarrow> int \<Rightarrow> int \<Rightarrow> chunk list" where
  "round_of 0 sz off tot = []"
| "round_of (Suc n) sz off tot =
     (if off < tot then (off, if tot - off < sz then tot - off else sz) # round_of n sz (off + sz) tot
      else [])"

text \<open>
  The watermark and the error, which the program returns together. Every round moves the
  watermark, so as many rounds as there are bytes left are always enough.
\<close>

fun download_loop :: "nat \<Rightarrow> engine \<Rightarrow> string \<Rightarrow> string \<Rightarrow> job \<Rightarrow> int \<Rightarrow> (int \<times> error option) op" where
  "download_loop 0 E part src j watermark = returnE (watermark, None)"
| "download_loop (Suc fuel) E part src j watermark =
     (if watermark \<ge> job_BytesTotal j then returnE (watermark, None)
      else bindE ctx_Err (\<lambda>c. case c of
        Some x \<Rightarrow> returnE (watermark, Some x)
      | None \<Rightarrow>
         let round = round_of (nat (opt_Chunks (en_opts E))) (opt_ChunkSize (en_opts E)) watermark (job_BytesTotal j) in
         bindE (tryE (fetchRound E part src round)) (\<lambda>r. case r of
           Inl e \<Rightarrow> returnE (watermark, Some e)
         | Inr _ \<Rightarrow>
            let watermark = fst (last round) + snd (last round) in
            bindE (tryE (JobProgress (job_ID j) watermark)) (\<lambda>p. case p of
              Inl e \<Rightarrow> returnE (watermark, Some e)
            | Inr _ \<Rightarrow> download_loop fuel E part src j watermark))))"

definition download :: "engine \<Rightarrow> string \<Rightarrow> pair \<Rightarrow> job \<Rightarrow> int \<Rightarrow> (int \<times> error option) op" where
  "download E part pr j from =
     download_loop (nat (job_BytesTotal j - from)) E part (remotePath pr (job_Path j)) j from"

definition hashFile :: "engine \<Rightarrow> string \<Rightarrow> string op" where
  "hashFile E part = bindE (wrapE ''hash'' (os_ReadFile part)) (\<lambda>b. returnE (en_sha256 E b))"

definition recordFile :: "engine \<Rightarrow> pair \<Rightarrow> string \<Rightarrow> int \<Rightarrow> time \<Rightarrow> string \<Rightarrow> file_state \<Rightarrow> unit op" where
  "recordFile E pr rel sz mtime hash st =
     bindE (FileAt (pair_ID pr) rel) (\<lambda>old.
     let unchanged = (case old of None \<Rightarrow> False
           | Some f \<Rightarrow> f_Size f = sz \<and> within (ofMilli (f_MTime f)) mtime (opt_MTimeTolerance (en_opts E)));
         st = (case old of Some f \<Rightarrow> if unchanged then f_State f else st | None \<Rightarrow> st) in
     bindE now (\<lambda>t.
     bindE (PutFile \<lparr>fi_PairID = pair_ID pr, fi_Path = rel, fi_Size = sz, fi_MTime = mtime, fi_Hash = hash,
              fi_State = Some st, fi_VerifiedAt = Some t\<rparr>) (\<lambda>_.
     if unchanged then returnE ()
     else change (change_of (pair_ID pr) rel (if old = None then ChangeAdd else ChangeReplace)
            (map_option f_Size old) (Some sz) None))))"

text \<open>From the filled partial file to the finished one.\<close>

definition finish_file :: "engine \<Rightarrow> pair \<Rightarrow> job \<Rightarrow> string \<Rightarrow> string \<Rightarrow> unit op" where
  "finish_file E pr j part dst =
     bindE (SetJobState (job_ID j) JobVerifying) (\<lambda>_.
     bindE (wrapE ''truncate the partial file'' (os_Truncate part (job_BytesTotal j))) (\<lambda>_.
     bindE (wrapE ''flush the partial file'' (os_touch part)) (\<lambda>_.
     bindE (wrapE ''stat the partial file'' (os_Stat part)) (\<lambda>st.
     if node_size st \<noteq> job_BytesTotal j then throwE (EMsg ''short transfer'')
     else
       bindE (if opt_HashAfterCopy (en_opts E) then hashFile E part else returnE '''') (\<lambda>hash.
       bindE (wrapE ''close the partial file'' (os_touch part)) (\<lambda>_.
       bindE (settleFile pr part) (\<lambda>_.
       bindE (wrapE ''set the timestamp'' (os_Chtimes part (job_mtime j))) (\<lambda>_.
       bindE (wrapE ''move the finished file into place'' (os_Rename part dst)) (\<lambda>_.
       bindE (recordFile E pr (job_Path j) (job_BytesTotal j) (job_mtime j) hash FileSynced) (\<lambda>_.
       SetJobState (job_ID j) JobDone))))))))))"

text \<open>The answer is whether the file was moved; \<open>False\<close> is a file that was in place already.\<close>

definition runJob :: "engine \<Rightarrow> pair \<Rightarrow> job \<Rightarrow> bool op" where
  "runJob E pr j =
     (let dst = localPath pr (job_Path j); part = partPath E pr (job_Path j) in
     bindE (matchesOnDisk E dst j) (\<lambda>there.
     if there then
       bindE (recordFile E pr (job_Path j) (job_BytesTotal j) (job_mtime j) '''' FileAdopted) (\<lambda>_.
       bindE (SetJobState (job_ID j) JobDone) (\<lambda>_. returnE False))
     else
       bindE (wrapE ''create the staging directory'' (makeDir pr (path_Dir part))) (\<lambda>_.
       bindE (wrapE ''create'' (makeDir pr (path_Dir dst))) (\<lambda>_.
       bindE (wrapE ''open the partial file'' (os_OpenCreate part)) (\<lambda>_.
       bindE (resumeOffset part j) (\<lambda>from.
       bindE (checkSpace (opt_Reserve (en_opts E)) pr (job_BytesTotal j - from)) (\<lambda>_.
       bindE (download E part pr j from) (\<lambda>(watermark, err). case err of
         Some e \<Rightarrow>
           bindE (if watermark \<noteq> job_BytesDone j then ignoreE (JobProgress (job_ID j) watermark) else returnE ()) (\<lambda>_.
           throwE e)
       | None \<Rightarrow> bindE (finish_file E pr j part dst) (\<lambda>_. returnE True)))))))))"

section \<open>A run of the queue\<close>

definition maxRetryWait :: duration where "maxRetryWait = 2 * Minute"

definition maxConsecutiveFailures :: int where "maxConsecutiveFailures = 5"

record sync_result =
  sy_Files :: int
  sy_InPlace :: int
  sy_Failed :: int
  sy_Retrying :: int
  sy_Pending :: int
  sy_Duration :: duration

definition retryWait :: "int \<Rightarrow> duration option op" where
  "retryWait pid =
     bindE (tryE (Queue pid)) (\<lambda>r. case r of
       Inl _ \<Rightarrow> returnE None
     | Inr q \<Rightarrow> (case q_NextAttempt q of
         None \<Rightarrow> returnE None
       | Some t \<Rightarrow>
          if q_Counts q JobPending = 0 then returnE None
          else bindE now (\<lambda>n. let wait = t - n in
                 if wait \<le> 0 \<or> wait > maxRetryWait then returnE None else returnE (Some wait))))"

text \<open>\<open>time.After\<close>, when nothing cancels the wait.\<close>

definition sleep :: "duration \<Rightarrow> unit op" where
  "sleep d w = (Inr (), w\<lparr>env := (env w)\<lparr>clock := clock (env w) + max d 0\<rparr>\<rparr>)"

definition finishSync :: "pair \<Rightarrow> sync_result \<Rightarrow> error option \<Rightarrow> sync_result op" where
  "finishSync pr res cause =
     bindE (tryE (Queue (pair_ID pr))) (\<lambda>q.
     let res = (case q of Inr q \<Rightarrow> res\<lparr>sy_Pending := q_Counts q JobPending\<rparr> | Inl _ \<Rightarrow> res) in
     bindE (event (if cause \<noteq> None \<or> sy_Failed res > 0 then LevelWarn else LevelInfo)
              KindSyncFinished (pair_ID pr)) (\<lambda>_. returnE res))"

text \<open>How the loop over the queue ends: by leaving it, or by returning an error with or without
the closing report.\<close>

datatype sync_stop = Leave | ReturnErr error | FinishErr error error

text \<open>What becomes of a job whose transfer failed: a stop, or the counters to go on with.\<close>

definition job_failed :: "engine \<Rightarrow> pair \<Rightarrow> job \<Rightarrow> error \<Rightarrow> int \<Rightarrow> sync_result \<Rightarrow> (sync_result \<times> int \<times> sync_stop option) op" where
  "job_failed E pr j err consecutive res =
     bindE ctx_Err (\<lambda>c. if c \<noteq> None then
       bindE (ignoreE (ReleaseJob (job_ID j))) (\<lambda>_. returnE (res, consecutive, None))
     else case root_cause err of
       ESpace _ _ _ \<Rightarrow>
         bindE (ignoreE (ReleaseJob (job_ID j))) (\<lambda>_.
         bindE (event LevelError KindSpaceLow (pair_ID pr)) (\<lambda>_.
         returnE (res, consecutive, Some (FinishErr err err))))
     | _ \<Rightarrow>
         bindE (tryE (FailJob (job_ID j) err (opt_MaxAttempts (en_opts E)) (opt_RetryBackoff (en_opts E)))) (\<lambda>f. case f of
           Inl ferr \<Rightarrow> returnE (res, consecutive + 1, Some (ReturnErr ferr))
         | Inr retrying \<Rightarrow>
            bindE (if retrying then returnE (res\<lparr>sy_Retrying := sy_Retrying res + 1\<rparr>)
                   else bindE (change (change_of (pair_ID pr) (job_Path j) ChangeFail None None (Some err))) (\<lambda>_.
                        bindE (event LevelError KindTransferFail (pair_ID pr)) (\<lambda>_.
                        returnE (res\<lparr>sy_Failed := sy_Failed res + 1\<rparr>)))) (\<lambda>res.
            returnE (res, consecutive + 1,
              if consecutive + 1 \<ge> maxConsecutiveFailures
              then Some (FinishErr err (EWrap ''transfers failed in a row, stopping the run'' err)) else None))))"

text \<open>\<open>None\<close> is a run that is still going when the fuel is used up.\<close>

fun sync_loop :: "nat \<Rightarrow> engine \<Rightarrow> pair \<Rightarrow> int \<Rightarrow> sync_result \<Rightarrow> (sync_result \<times> sync_stop) option op" where
  "sync_loop 0 E pr consecutive res = returnE None"
| "sync_loop (Suc fuel) E pr consecutive res =
     bindE ctx_Err (\<lambda>c. if c \<noteq> None then returnE (Some (res, Leave)) else
     bindE now (\<lambda>t.
     bindE (tryE (ClaimJob (pair_ID pr) t)) (\<lambda>claimed. case claimed of
       Inl err \<Rightarrow> returnE (Some (res, ReturnErr err))
     | Inr None \<Rightarrow>
         bindE (retryWait (pair_ID pr)) (\<lambda>wait. case wait of
           None \<Rightarrow> returnE (Some (res, Leave))
         | Some d \<Rightarrow> bindE ctx_Err (\<lambda>c. if c \<noteq> None then returnE (Some (res, Leave))
             else bindE (sleep d) (\<lambda>_. sync_loop fuel E pr consecutive res)))
     | Inr (Some j) \<Rightarrow>
         bindE (tryE (runJob E pr j)) (\<lambda>r. case r of
           Inr moved \<Rightarrow> sync_loop fuel E pr 0
             (if moved then res\<lparr>sy_Files := sy_Files res + 1\<rparr> else res\<lparr>sy_InPlace := sy_InPlace res + 1\<rparr>)
         | Inl err \<Rightarrow> bindE (job_failed E pr j err consecutive res) (\<lambda>(res, consecutive, stop). case stop of
             Some s \<Rightarrow> returnE (Some (res, s))
           | None \<Rightarrow> sync_loop fuel E pr consecutive res)))))"

definition no_result :: sync_result where
  "no_result = \<lparr>sy_Files = 0, sy_InPlace = 0, sy_Failed = 0, sy_Retrying = 0, sy_Pending = 0, sy_Duration = 0\<rparr>"

text \<open>The result and the error, which the program returns together.\<close>

definition Sync :: "nat \<Rightarrow> engine \<Rightarrow> pair \<Rightarrow> (sync_result \<times> error option) option op" where
  "Sync fuel E pr =
     bindE now (\<lambda>started.
     bindE (tryE (bindE (RequeueRunning (pair_ID pr)) (\<lambda>_. Queue (pair_ID pr)))) (\<lambda>q. case q of
       Inl err \<Rightarrow> returnE (Some (no_result, Some err))
     | Inr queue \<Rightarrow>
        bindE (tryE (checkSpace (opt_Reserve (en_opts E)) pr (q_PendingBytes queue))) (\<lambda>s. case s of
          Inl err \<Rightarrow> bindE (event LevelError KindSpaceLow (pair_ID pr)) (\<lambda>_. returnE (Some (no_result, Some err)))
        | Inr _ \<Rightarrow>
           bindE (event LevelInfo KindSyncStarted (pair_ID pr)) (\<lambda>_.
           bindE (sync_loop fuel E pr 0 no_result) (\<lambda>ran. case ran of
             None \<Rightarrow> returnE None
           | Some (res, ReturnErr e) \<Rightarrow> returnE (Some (res, Some e))
           | Some (res, FinishErr cause e) \<Rightarrow>
               bindE now (\<lambda>t. bindE (finishSync pr (res\<lparr>sy_Duration := t - started\<rparr>) (Some cause)) (\<lambda>res.
               returnE (Some (res, Some e))))
           | Some (res, Leave) \<Rightarrow>
               bindE now (\<lambda>t. bindE ctx_Err (\<lambda>c.
               bindE (finishSync pr (res\<lparr>sy_Duration := t - started\<rparr>) c) (\<lambda>res.
               bindE ctx_Err (\<lambda>c2. returnE (Some (res, c2))))))))))) "

end
