(* ===== verification/CopySpec.thy ===== *)
theory CopySpec
  imports Copying
begin

text \<open>
  What a transfer guarantees. \<open>good k b c\<close>: the first \<open>k\<close> bytes of the partial file are those of the
  publisher's file. The rounds of \<open>download\<close> move this watermark only over bytes that arrived,
  whatever fails in between, so the finished file is the publisher's, and nothing but a
  finished file ever appears under its own name.
\<close>

section \<open>The remote\<close>

text \<open>A range that is served is the bytes of the file there, as far as it got.\<close>

definition serves :: "remote_fs \<Rightarrow> (string \<Rightarrow> string option) \<Rightarrow> bool" where
  "serves rem C \<longleftrightarrow> remote_ok rem \<and> (\<forall>p off len w body err w'.
     r_OpenRange rem p off len w = (Inr (body, err), w') \<and> 0 \<le> off \<and> 0 < len \<longrightarrow>
     (\<exists>b. C p = Some b \<and> prefix (concat body) (take (nat len) (drop (nat off) b))))"

lemma serves_ok: "serves rem C \<Longrightarrow> remote_ok rem"
  by (simp add: serves_def)

lemma servesD:
  "serves rem C \<Longrightarrow> r_OpenRange rem p off len w = (Inr (body, err), w') \<Longrightarrow> 0 \<le> off \<Longrightarrow> 0 < len \<Longrightarrow>
   C p = Some b \<Longrightarrow> prefix (concat body) (take (nat len) (drop (nat off) b))"
  unfolding serves_def by fastforce

section \<open>Bytes\<close>

definition good :: "nat \<Rightarrow> string \<Rightarrow> string \<Rightarrow> bool" where
  "good k b c \<longleftrightarrow> k \<le> length b \<and> take k b = take k c"

lemma good_0 [simp]: "good 0 b c"
  by (simp add: good_def)

lemma good_mono:
  assumes "good k b c" and "j \<le> k"
  shows "good j b c"
proof -
  have "take j (take k b) = take j (take k c)" using assms(1) by (simp add: good_def)
  then have "take j b = take j c" using assms(2) by (simp add: min_absorb1)
  with assms show ?thesis unfolding good_def by linarith
qed

lemma good_splice: "good k b c \<Longrightarrow> k \<le> off \<Longrightarrow> good k (splice off new b) c"
  by (simp add: good_def take_splice splice_length)

lemma good_extend:
  assumes "good k b c" and "new = take (length new) (drop k c)"
  shows "good (k + length new) (splice k new b) c"
proof -
  have "take (k + length new) c = take k c @ take (length new) (drop k c)"
    by (rule take_add)
  with assms show ?thesis
    by (simp add: good_def splice_next splice_length)
qed

lemma prefix_slice:
  assumes "prefix bs (take len (drop k c))"
  shows "bs = take (length bs) (drop k c)"
proof -
  from assms obtain zs where zs: "take len (drop k c) = bs @ zs" by (auto simp: prefix_def)
  have "length (take len (drop k c)) \<le> len" by simp
  then have "length bs \<le> len" unfolding zs by simp
  moreover have "take (length bs) (take len (drop k c)) = bs" unfolding zs by simp
  ultimately show ?thesis by (simp add: min_absorb1)
qed

lemma slice_append:
  assumes "x @ y = take (length x + length y) z"
  shows "x = take (length x) z" and "y = take (length y) (drop (length x) z)"
proof -
  have "length (x @ y) = length (take (length x + length y) z)" using assms by (rule arg_cong)
  then have "length (take (length x) z) = length x" by simp
  moreover have "x @ y = take (length x) z @ take (length y) (drop (length x) z)"
    using assms by (simp only: take_add)
  ultimately show "x = take (length x) z" and "y = take (length y) (drop (length x) z)"
    using append_eq_append_conv [of x "take (length x) z" y "take (length y) (drop (length x) z)"] by auto
qed

section \<open>One chunk\<close>

lemma copy_at_run:
  assumes "copy_at part off bs w = (r, w')" and "file_at w part = Some (b, t)" and "0 \<le> off"
    and k: "good k b c" "k \<le> nat off"
  shows "\<exists>b' t'. file_at w' = (file_at w)(part := Some (b', t')) \<and> good k b' c \<and>
    (\<forall>m. r = Inr m \<longrightarrow> m = off + int (length (concat bs)) \<and>
       (good (nat off) b c \<and> concat bs = take (length (concat bs)) (drop (nat off) c) \<longrightarrow> good (nat m) b' c))"
  using assms
proof (induction bs arbitrary: off w b t k)
  case Nil
  then show ?case by (auto simp: returnE_run intro!: exI [of _ b] exI [of _ t] fun_upd_idem [symmetric])
next
  case (Cons x xs)
  obtain r1 w1 where s1: "os_WriteAt part off x w = (r1, w1)" by (rule prod.exhaust)
  from os_WriteAt_cases [OF s1 Cons.prems(2,3)] consider
    e where "r1 = Inl e" "file_at w1 = file_at w"
    | t1 where "r1 = Inr ()" "file_at w1 = (file_at w)(part := Some (splice (nat off) x b, t1))" by blast
  then show ?case
  proof cases
    case 1
    with Cons.prems s1 have "r = Inl e" "w' = w1" by (auto simp: bindE_def)
    with 1 Cons.prems(2,4) show ?thesis
      by (intro exI [of _ b] exI [of _ t]) (simp add: fun_upd_idem)
  next
    case 2
    let ?b1 = "splice (nat off) x b" and ?off = "off + int (length x)"
    have run: "copy_at part ?off xs w1 = (r, w')"
      using Cons.prems(1) s1 2(1) by (simp add: bindE_def)
    have at: "file_at w1 part = Some (?b1, t1)" using 2(2) by simp
    have off: "0 \<le> ?off" "nat ?off = nat off + length x" using Cons.prems(3) by auto
    have k: "good k ?b1 c" "k \<le> nat ?off" using good_splice [OF Cons.prems(4,5)] Cons.prems(5) off by auto
    from Cons.IH [OF run at off(1) k] obtain b' t' where
      w': "file_at w' = (file_at w1)(part := Some (b', t'))" and g: "good k b' c" and
      m: "\<And>m. r = Inr m \<Longrightarrow> m = ?off + int (length (concat xs)) \<and>
         (good (nat ?off) ?b1 c \<and> concat xs = take (length (concat xs)) (drop (nat ?off) c) \<longrightarrow> good (nat m) b' c)"
      by blast
    have "good (nat ?off) ?b1 c \<and> concat xs = take (length (concat xs)) (drop (nat ?off) c)"
      if "good (nat off) b c" "x @ concat xs = take (length x + length (concat xs)) (drop (nat off) c)"
    proof -
      note x = slice_append [OF that(2)]
      have "drop (nat ?off) c = drop (length x) (drop (nat off) c)" using off(2) by (simp add: add.commute)
      with good_extend [OF that(1) x(1)] off(2) x(2) show ?thesis by simp
    qed
    with w' g m 2(2) show ?thesis
      by (intro exI [of _ b'] exI [of _ t']) (auto simp: algebra_simps)
  qed
qed


text \<open>What a chunk does to the partial file, and what it has achieved when it succeeds.\<close>

lemma fetchChunk_run:
  assumes rem: "serves (en_remote E) C" and c: "C src = Some c"
    and run: "fetchChunk E part src (off, len) w = (r, w')"
    and part: "file_at w part = Some (b, t)" and off: "0 \<le> off" "0 < len"
    and k: "good k b c" "k \<le> nat off"
  shows "\<exists>b' t'. file_at w' = (file_at w)(part := Some (b', t')) \<and> good k b' c \<and>
    (r = Inr () \<and> good (nat off) b c \<longrightarrow> good (nat (off + len)) b' c)"
proof -
  obtain o1 w1 where o1: "r_OpenRange (en_remote E) src off len w = (o1, w1)" by (rule prod.exhaust)
  from keepsD [OF remote_okD(4) [OF serves_ok [OF rem]] o1] have w1: "file_at w1 = file_at w" by auto
  show ?thesis
  proof (cases o1)
    case (Inl x)
    with run o1 have "r = Inl x" "w' = w1" by (auto simp: fetchChunk_def bindE_def)
    with w1 part k show ?thesis by (intro exI [of _ b] exI [of _ t]) (simp add: fun_upd_idem)
  next
    case (Inr be)
    obtain body err where be: "be = (body, err)" by (rule prod.exhaust)
    obtain r2 w2 where s2: "copy_at part off body w1 = (r2, w2)" by (rule prod.exhaust)
    have "file_at w1 part = Some (b, t)" using part w1 by simp
    from copy_at_run [OF s2 this off(1) k] obtain b' t' where
      w2: "file_at w2 = (file_at w)(part := Some (b', t'))" and g: "good k b' c" and
      m: "\<And>m. r2 = Inr m \<Longrightarrow> m = off + int (length (concat body)) \<and>
         (good (nat off) b c \<and> concat body = take (length (concat body)) (drop (nat off) c) \<longrightarrow> good (nat m) b' c)"
      unfolding w1 by blast
    have w': "w' = w2" and ok: "r = Inr () \<Longrightarrow> r2 = Inr (off + len)"
      using run o1 Inr be s2
      by (auto simp: fetchChunk_def bindE_def wrapE_def throwE_def returnE_def split: sum.splits option.splits if_splits)
    have "good (nat (off + len)) b' c" if "r = Inr ()" "good (nat off) b c"
      using m [OF ok [OF that(1)]] that(2) prefix_slice [OF servesD [OF rem o1 [unfolded Inr be] off c]] by blast
    with w2 w' g show ?thesis by blast
  qed
qed

section \<open>Rounds\<close>

lemma round_chunks:
  assumes "(off, len) \<in> set (round_of n cs lo tot)" and "0 < cs" and "0 \<le> lo"
  shows "lo \<le> off" and "0 < len" and "off + len \<le> tot"
  using assms by (induction n arbitrary: lo) (fastforce split: if_splits)+

definition round_end :: "chunk list \<Rightarrow> int \<Rightarrow> int" where
  "round_end rnd lo = (if rnd = [] then lo else fst (last rnd) + snd (last rnd))"

lemma fetch_step_run:
  "fetch_step E part src ch first w = (Inr (case fst (fetchChunk E part src ch w) of Inr _ \<Rightarrow> first
     | Inl e \<Rightarrow> (case first of None \<Rightarrow> Some e | Some _ \<Rightarrow> first)), snd (fetchChunk E part src ch w))"
  by (cases "fetchChunk E part src ch w")
     (auto simp: fetch_step_def bindE_def tryE_def returnE_def split: sum.splits)

lemma round_run:
  assumes rem: "serves (en_remote E) C" and c: "C src = Some c" and cs: "0 < cs"
    and run: "foldE (fetch_step E part src) (round_of n cs lo tot) first w = (r, w')"
    and part: "file_at w part = Some (b, t)" and lo: "0 \<le> lo"
    and k: "good k b c" "k \<le> nat lo" and start: "first = None \<Longrightarrow> good (nat lo) b c"
  shows "\<exists>b' t'. file_at w' = (file_at w)(part := Some (b', t')) \<and> good k b' c \<and> (\<exists>x. r = Inr x) \<and>
    (r = Inr None \<longrightarrow> first = None \<and> good (nat (round_end (round_of n cs lo tot) lo)) b' c)"
  using run part lo k start
proof (induction n arbitrary: lo first w b t)
  case 0
  then show ?case
    by (intro exI [of _ b] exI [of _ t]) (auto simp: returnE_run round_end_def fun_upd_idem)
next
  case (Suc n)
  show ?case
  proof (cases "lo < tot")
    case False
    with Suc.prems show ?thesis
      by (intro exI [of _ b] exI [of _ t]) (auto simp: returnE_run round_end_def fun_upd_idem)
  next
    case True
    let ?len = "if tot - lo < cs then tot - lo else cs" and ?rest = "round_of n cs (lo + cs) tot"
    obtain r1 w1 where s1: "fetchChunk E part src (lo, ?len) w = (r1, w1)" by (rule prod.exhaust)
    have len: "0 < ?len" using True cs by simp
    from fetchChunk_run [OF rem c s1 Suc.prems(2,3) len Suc.prems(4,5)] obtain b1 t1 where
      w1: "file_at w1 = (file_at w)(part := Some (b1, t1))" and g1: "good k b1 c" and
      ok: "r1 = Inr () \<Longrightarrow> good (nat lo) b c \<Longrightarrow> good (nat (lo + ?len)) b1 c" by blast
    define first1 where "first1 = (case r1 of Inr _ \<Rightarrow> first
       | Inl e \<Rightarrow> (case first of None \<Rightarrow> Some e | Some _ \<Rightarrow> first))"
    have "fetch_step E part src (lo, ?len) first w = (Inr first1, w1)"
      by (simp only: fetch_step_run s1 first1_def fst_conv snd_conv)
    with Suc.prems(1) True have run: "foldE (fetch_step E part src) ?rest first1 w1 = (r, w')"
      by (simp add: bindE_def)
    have none: "first = None" "r1 = Inr ()" if "first1 = None"
      using that by (auto simp: first1_def split: sum.splits option.splits)
    have at: "file_at w1 part = Some (b1, t1)" using w1 by simp
    show ?thesis
    proof (cases "tot - lo < cs")
      case last: True
      have "?rest = []" using last by (cases n) auto
      with run have "r = Inr first1" "w' = w1" by (auto simp: returnE_run)
      moreover have "round_of (Suc n) cs lo tot = [(lo, ?len)]" using True \<open>?rest = []\<close> by simp
      ultimately show ?thesis
        using w1 g1 none ok Suc.prems(6)
        by (intro exI [of _ b1] exI [of _ t1]) (auto simp: round_end_def)
    next
      case False
      have start: "good (nat (lo + cs)) b1 c" if "first1 = None"
        using ok [OF none(2) [OF that]] Suc.prems(6) [OF none(1) [OF that]] False by simp
      have "0 \<le> lo + cs" "k \<le> nat (lo + cs)" using Suc.prems(3,5) cs by auto
      from Suc.IH [OF run at this(1) g1 this(2) start] obtain b' t' where
        "file_at w' = (file_at w1)(part := Some (b', t'))" "good k b' c" "\<exists>x. r = Inr x"
        "r = Inr None \<longrightarrow> first1 = None \<and> good (nat (round_end ?rest (lo + cs))) b' c" by blast
      moreover have "round_end (round_of (Suc n) cs lo tot) lo = round_end ?rest (lo + cs)"
        using True False by (auto simp: round_end_def)
      ultimately show ?thesis
        using w1 none by (intro exI [of _ b'] exI [of _ t']) auto
    qed
  qed
qed


lemma round_nonempty: "0 < n \<Longrightarrow> lo < tot \<Longrightarrow> round_of n cs lo tot \<noteq> []"
  by (cases n) auto

lemma round_end_bounds:
  assumes "0 < n" and "lo < tot" and "0 < cs"
  shows "lo < round_end (round_of n cs lo tot) lo" and "round_end (round_of n cs lo tot) lo \<le> tot"
proof -
  have "lo < round_end (round_of n cs lo tot) lo \<and> round_end (round_of n cs lo tot) lo \<le> tot"
    using assms
  proof (induction n arbitrary: lo)
    case (Suc n)
    show ?case
    proof (cases "n = 0 \<or> \<not> lo + cs < tot")
      case True
      then have "round_of n cs (lo + cs) tot = []" by (cases n) auto
      with Suc.prems show ?thesis by (auto simp: round_end_def)
    next
      case False
      with Suc.IH [of "lo + cs"] Suc.prems round_nonempty [of n "lo + cs" tot cs] show ?thesis
        by (simp add: round_end_def)
    qed
  qed simp
  then show "lo < round_end (round_of n cs lo tot) lo" and "round_end (round_of n cs lo tot) lo \<le> tot" by auto
qed

lemma fetchRound_run:
  assumes rem: "serves (en_remote E) C" and c: "C src = Some c" and cs: "0 < cs"
    and run: "fetchRound E part src (round_of n cs lo tot) w = (r, w')"
    and part: "file_at w part = Some (b, t)" and lo: "0 \<le> lo" and good: "good (nat lo) b c"
  shows "\<exists>b' t'. file_at w' = (file_at w)(part := Some (b', t')) \<and> good (nat lo) b' c \<and>
    (r = Inr () \<longrightarrow> good (nat (round_end (round_of n cs lo tot) lo)) b' c)"
proof (cases "\<exists>ch. round_of n cs lo tot = [ch]")
  case True
  then obtain off len where rnd: "round_of n cs lo tot = [(off, len)]" by (metis surj_pair)
  then have "off = lo" by (cases n) (auto split: if_splits)
  have len: "0 < len" using round_chunks(2) [of off len n cs lo tot] rnd cs lo by simp
  have "fetchChunk E part src (lo, len) w = (r, w')" using run rnd \<open>off = lo\<close> by (simp add: fetchRound_def)
  from fetchChunk_run [OF rem c this part lo len good] show ?thesis
    using good rnd \<open>off = lo\<close> by (auto simp: round_end_def)
next
  case False
  obtain r1 w1 where s1: "foldE (fetch_step E part src) (round_of n cs lo tot) None w = (r1, w1)" by (rule prod.exhaust)
  from round_run [OF rem c cs s1 part lo good _ good] obtain b' t' x where
    w1: "file_at w1 = (file_at w)(part := Some (b', t'))" "good (nat lo) b' c" "r1 = Inr x"
      "x = None \<longrightarrow> good (nat (round_end (round_of n cs lo tot) lo)) b' c" by auto
  have "fetchRound E part src (round_of n cs lo tot) w =
      bindE (foldE (fetch_step E part src) (round_of n cs lo tot) None) (\<lambda>first. case first of
            None \<Rightarrow> returnE () | Some e \<Rightarrow> throwE e) w"
    using False unfolding fetchRound_def by (auto split: list.splits)
  with run s1 w1(3) have "w' = w1" "r = Inr () \<Longrightarrow> x = None"
    by (auto simp: bindE_def returnE_def throwE_def split: option.splits)
  with w1 show ?thesis by (intro exI [of _ b'] exI [of _ t']) auto
qed

lemma store_fetchRound:
  assumes "remote_ok (en_remote E)"
  shows "keeps (\<lambda>w w'. tables w' = tables w) (fetchRound E part src rnd)"
proof -
  have copy: "keeps (\<lambda>w w'. tables w' = tables w) (copy_at part off bs)" for off bs
    by (induction bs arbitrary: off) (auto intro!: store.frame.keeps_rules store_os)
  have chunk: "keeps (\<lambda>w w'. tables w' = tables w) (fetchChunk E part src ch)" for ch
    unfolding fetchChunk_def
    by (intro store.frame.keeps_rules copy store.frame.keeps_env_only remote_okD(4) [OF assms])
  then have step: "keeps (\<lambda>w w'. tables w' = tables w) (fetch_step E part src ch first)" for ch first
    unfolding fetch_step_def by (intro store.frame.keeps_rules)
  have all: "keeps (\<lambda>w w'. tables w' = tables w) (bindE (foldE (fetch_step E part src) rnd None)
      (\<lambda>first. case first of None \<Rightarrow> returnE () | Some e \<Rightarrow> throwE e))"
    by (intro store.frame.keeps_rules step)
  show ?thesis
    unfolding fetchRound_def using chunk all by (auto split: list.splits)
qed

section \<open>The watermark\<close>

text \<open>The rows of a job never claim more than \<open>n\<close> bytes.\<close>

definition claims :: "int \<Rightarrow> int \<Rightarrow> world \<Rightarrow> bool" where
  "claims i n w \<longleftrightarrow> (\<forall>j \<in> set (jobs w). job_ID j = i \<longrightarrow> 0 \<le> job_BytesDone j \<and> job_BytesDone j \<le> n)"

lemma claims_mono: "claims i n w \<Longrightarrow> n \<le> m \<Longrightarrow> claims i m w"
  by (fastforce simp: claims_def)

lemma claims_tables:
  assumes "tables w' = tables w"
  shows "claims i n w' = claims i n w"
  unfolding claims_def by (simp only: tables_eq(1) [OF assms])

lemma JobProgress_claims:
  assumes "JobProgress i n w = (r, w')" and "claims i m w" and "m \<le> n" and "0 \<le> n"
  shows "claims i n w'"
proof -
  let ?g = "\<lambda>t j. j\<lparr>job_BytesDone := n, job_UpdatedAt := UnixMilli t\<rparr>"
  obtain t e where n: "now w = (Inr t, w\<lparr>env := e\<rparr>)" by (rule now_obtain)
  obtain p w1 where p: "put_jobs (\<lambda>rows. ((), sql_update (\<lambda>j. job_ID j = i) (?g t) rows)) (w\<lparr>env := e\<rparr>) = (p, w1)"
    by (rule prod.exhaust)
  have "w' = w1" using assms(1) n p by (cases p) (auto simp: JobProgress_def bindE_def wrapE_def)
  with p have "jobs w' = jobs w \<or> jobs w' = sql_update (\<lambda>j. job_ID j = i) (?g t) (jobs w)"
    unfolding put_jobs_def by (auto dest!: exec_cases simp: Let_def split: if_splits)
  then have "j \<in> set (jobs w) \<or> job_BytesDone j = n" if "j \<in> set (jobs w')" for j
    using that by (auto simp: set_sql_update)
  moreover have "0 \<le> job_BytesDone j \<and> job_BytesDone j \<le> n" if "j \<in> set (jobs w)" "job_ID j = i" for j
    using assms(2,3) that order_trans unfolding claims_def by blast
  ultimately show ?thesis using assms(4) unfolding claims_def by auto
qed

lemma download_loop_run:
  assumes rem: "serves (en_remote E) C" and c: "C src = Some c" and opts: "options_ok (en_opts E)"
    and run: "download_loop fuel E part src j wm w = (r, w')"
    and part: "file_at w part = Some (b, t)" and wm: "0 \<le> wm" and good: "good (nat wm) b c"
    and cl: "claims (job_ID j) wm w"
  shows "\<exists>wm' err b' t'. r = Inr (wm', err) \<and> file_at w' = (file_at w)(part := Some (b', t')) \<and>
    good (nat wm') b' c \<and> wm \<le> wm' \<and> claims (job_ID j) wm' w' \<and> (wm \<le> job_BytesTotal j \<longrightarrow> wm' \<le> job_BytesTotal j) \<and>
    (err = None \<and> nat (job_BytesTotal j - wm) \<le> fuel \<and> wm \<le> job_BytesTotal j \<longrightarrow> wm' = job_BytesTotal j)"
  using run part wm good cl
proof (induction fuel arbitrary: wm w b t)
  case 0
  then show ?case
    by (intro exI [of _ wm] exI [of _ None] exI [of _ b] exI [of _ t]) (auto simp: returnE_run fun_upd_idem)
next
  case (Suc fuel)
  let ?tot = "job_BytesTotal j"
  show ?case
  proof (cases "wm \<ge> ?tot")
    case True
    with Suc.prems show ?thesis
      by (intro exI [of _ wm] exI [of _ None] exI [of _ b] exI [of _ t]) (auto simp: returnE_run fun_upd_idem)
  next
    case False
    define rnd where "rnd = round_of (nat (opt_Chunks (en_opts E))) (opt_ChunkSize (en_opts E)) wm ?tot"
    have pos: "0 < nat (opt_Chunks (en_opts E))" "0 < opt_ChunkSize (en_opts E)"
      using opts by (auto simp: options_ok_def)
    note ends = round_end_bounds [OF pos(1) _ pos(2), of wm ?tot, folded rnd_def]
    have ne: "rnd \<noteq> []" using round_nonempty [OF pos(1), of wm ?tot] False by (simp add: rnd_def)
    obtain x e where ctx: "ctx_Err w = (Inr x, w\<lparr>env := e\<rparr>)"
      using ctx_Err_cases [of w] by (metis surj_pair)
    have part1: "file_at (w\<lparr>env := e\<rparr>) part = Some (b, t)" using Suc.prems(2) by simp
    obtain r1 w1 where s1: "fetchRound E part src rnd (w\<lparr>env := e\<rparr>) = (r1, w1)" by (rule prod.exhaust)
    from fetchRound_run [OF rem c pos(2) s1 [unfolded rnd_def] part1 Suc.prems(3,4)] obtain b1 t1 where
      w1: "file_at w1 = (file_at w)(part := Some (b1, t1))" "good (nat wm) b1 c"
        "r1 = Inr () \<Longrightarrow> good (nat (round_end rnd wm)) b1 c"
      unfolding rnd_def by auto
    have cl1: "claims (job_ID j) wm w1"
      using claims_tables [OF keepsD [OF store_fetchRound [OF serves_ok [OF rem]] s1]] Suc.prems(5)
      by (simp add: claims_def)
    obtain p w2 where s2: "JobProgress (job_ID j) (round_end rnd wm) w1 = (p, w2)" by (rule prod.exhaust)
    have w2: "file_at w2 = file_at w1" using keepsD [OF tree_of_disk [OF disk_store(1)] s2] .
    have moves: "wm < round_end rnd wm" "round_end rnd wm \<le> ?tot" using ends False by auto
    have cl2: "claims (job_ID j) (round_end rnd wm) w2"
      using JobProgress_claims [OF s2 cl1] moves(1) Suc.prems(3) by simp
    have ends_eq: "fst (last rnd) + snd (last rnd) = round_end rnd wm" using ne by (simp add: round_end_def)
    consider (cancel) y where "x = Some y" | (fail) y where "x = None" "r1 = Inl y"
      | (noted) y where "x = None" "r1 = Inr ()" "p = Inl y" | (ok) "x = None" "r1 = Inr ()" "p = Inr ()"
      by (metis not_Some_eq old.unit.exhaust sum.exhaust)
    then show ?thesis
    proof cases
      case cancel
      with Suc.prems ctx False have "r = Inr (wm, Some y)" "w' = w\<lparr>env := e\<rparr>" by (auto simp: bindE_def returnE_def)
      with Suc.prems show ?thesis
        by (intro exI [of _ wm] exI [of _ "Some y"] exI [of _ b] exI [of _ t]) (auto simp: fun_upd_idem claims_def)
    next
      case fail
      with Suc.prems(1) ctx False s1 have "r = Inr (wm, Some y)" "w' = w1"
        by (auto simp: bindE_def returnE_def tryE_def rnd_def [symmetric])
      with w1 cl1 show ?thesis by (intro exI [of _ wm] exI [of _ "Some y"] exI [of _ b1] exI [of _ t1]) auto
    next
      case noted
      with Suc.prems(1) ctx False s1 s2 have "r = Inr (round_end rnd wm, Some y)" "w' = w2"
        by (auto simp: bindE_def returnE_def tryE_def rnd_def [symmetric] ends_eq Let_def)
      with w1 w2 cl2 noted moves show ?thesis
        by (intro exI [of _ "round_end rnd wm"] exI [of _ "Some y"] exI [of _ b1] exI [of _ t1]) auto
    next
      case ok
      with Suc.prems(1) ctx False s1 s2 have run2: "download_loop fuel E part src j (round_end rnd wm) w2 = (r, w')"
        by (auto simp: bindE_def returnE_def tryE_def rnd_def [symmetric] ends_eq Let_def)
      have at2: "file_at w2 part = Some (b1, t1)" using w1(1) w2 by simp
      have nn: "0 \<le> round_end rnd wm" using moves(1) Suc.prems(3) by simp
      from Suc.IH [OF run2 at2 nn w1(3) [OF ok(2)] cl2] obtain wm' err b' t' where
        "r = Inr (wm', err)" "file_at w' = (file_at w2)(part := Some (b', t'))" "good (nat wm') b' c"
        "round_end rnd wm \<le> wm'" "claims (job_ID j) wm' w'" "round_end rnd wm \<le> ?tot \<longrightarrow> wm' \<le> ?tot"
        "err = None \<and> nat (?tot - round_end rnd wm) \<le> fuel \<and> round_end rnd wm \<le> ?tot \<longrightarrow> wm' = ?tot" by blast
      with w1 w2 moves show ?thesis
        by (intro exI [of _ wm'] exI [of _ err] exI [of _ b'] exI [of _ t']) auto
    qed
  qed
qed



section \<open>The finished file\<close>

interpretation claims: world_inv "claims i n" for i n
  by unfold_locales (simp add: claims_def)

lemma claims_SetJobState: "keeps (\<lambda>w w'. claims i n w \<longrightarrow> claims i n w') (SetJobState k st)"
proof -
  have "keeps (\<lambda>w w'. claims i n w \<longrightarrow> claims i n w') (put_jobs (\<lambda>rows. ((), sql_update (\<lambda>j. job_ID j = k)
       (\<lambda>j. j\<lparr>job_State := st, job_Error := None, job_UpdatedAt := UnixMilli t\<rparr>) rows)))" for t
    unfolding put_jobs_def
    by (rule claims.inv.keeps_exec) (auto simp: claims_def set_sql_update Let_def split: if_splits)
  then show ?thesis unfolding SetJobState_def by (intro claims.inv.keeps_rules)
qed

text \<open>The partial file is filled up to \<open>n\<close>; every other file is as it was.\<close>

definition filled :: "(string \<Rightarrow> (string \<times> time) option) \<Rightarrow> string \<Rightarrow> string \<Rightarrow> int \<Rightarrow> int \<Rightarrow> world \<Rightarrow> bool" where
  "filled f0 part c i n w \<longleftrightarrow> 0 \<le> n \<and> n \<le> int (length c) \<and> claims i n w \<and>
     (\<exists>b t. file_at w = f0(part := Some (b, t)) \<and> good (nat n) b c)"

definition delivered :: "(string \<Rightarrow> (string \<times> time) option) \<Rightarrow> string \<Rightarrow> string \<Rightarrow> string \<Rightarrow> time \<Rightarrow> world \<Rightarrow> bool" where
  "delivered f0 part dst c mt w \<longleftrightarrow> file_at w = f0(part := None, dst := Some (c, mt))"

lemma filled_keeps:
  assumes "keeps (\<lambda>w w'. file_at w' = file_at w) m" and "keeps (\<lambda>w w'. claims i n w \<longrightarrow> claims i n w') m"
  shows "triple (filled f0 part c i n) m (\<lambda>_. filled f0 part c i n) (filled f0 part c i n)"
proof -
  have "keeps (\<lambda>w w'. filled f0 part c i n w \<longrightarrow> filled f0 part c i n w') m"
    using assms unfolding keeps_def filled_def by metis
  then show ?thesis by (rule triple_keeps) auto
qed

lemma claims_of_store: "keeps (\<lambda>w w'. tables w' = tables w) m \<Longrightarrow> keeps (\<lambda>w w'. claims i n w \<longrightarrow> claims i n w') m"
  unfolding keeps_def using claims_tables by blast

lemma tree_recordFile: "keeps (\<lambda>w w'. file_at w' = file_at w) (recordFile E pr rel sz mt h st)"
  unfolding recordFile_def Let_def by (intro tree.frame.keeps_rules tree_keeps)

lemma finish_file_triple:
  assumes tot: "job_BytesTotal j = int (length c)" and ne: "part \<noteq> dst"
  shows "triple (filled f0 part c i (int (length c))) (finish_file E pr j part dst)
     (\<lambda>_. delivered f0 part dst c (job_mtime j))
     (\<lambda>w. filled f0 part c i (int (length c)) w \<or> delivered f0 part dst c (job_mtime j) w)"
    (is "triple ?F _ (\<lambda>_. ?D) ?X")
proof -
  let ?S = "\<lambda>w. claims i (int (length c)) w \<and> (\<exists>t. file_at w = f0(part := Some (c, t)))"
  let ?T = "\<lambda>w. claims i (int (length c)) w \<and> file_at w = f0(part := Some (c, job_mtime j))"
  have SX: "?S w \<Longrightarrow> ?X w" and TX: "?T w \<Longrightarrow> ?X w" for w
    by (auto simp: filled_def good_def)
  have s: "triple ?S m (\<lambda>_. ?S) ?X"
    if "keeps (\<lambda>w w'. file_at w' = file_at w) m" "keeps (\<lambda>w w'. tables w' = tables w) m" for m :: "'z op"
  proof -
    have "keeps (\<lambda>w w'. ?S w \<longrightarrow> ?S w') m"
      using that(1) claims_of_store [OF that(2)] unfolding keeps_def by metis
    then show ?thesis by (rule triple_keeps) (use SX in auto)
  qed
  have d: "triple ?D m (\<lambda>_. ?D) ?X" if "keeps (\<lambda>w w'. file_at w' = file_at w) m" for m :: "'z op"
    using that by (rule triple_keeps) (auto simp: delivered_def)
  have state: "triple ?F (SetJobState (job_ID j) JobVerifying) (\<lambda>_. ?F) ?X"
    by (rule triple_conseq [OF filled_keeps [OF tree_of_disk [OF disk_store(2)] claims_SetJobState]]) auto
  have trunc: "triple ?F (os_Truncate part (job_BytesTotal j)) (\<lambda>_. ?S) ?X"
  proof (rule tripleI)
    fix w r w'
    assume F: "?F w" and run: "os_Truncate part (job_BytesTotal j) w = (Inr r, w')"
    from F obtain b t where b: "file_at w = f0(part := Some (b, t))" "good (length c) b c"
      by (auto simp: filled_def)
    from os_Truncate_cases [OF run, of b t] b have "\<exists>t'. file_at w' = f0(part := Some (resize (length c) b, t'))"
      by (auto simp: tot)
    moreover have "resize (length c) b = c" using b(2) by (simp add: good_def resize_take)
    moreover have "claims i (int (length c)) w'"
      using F claims_tables [OF keepsD [OF store_os(8) run]] by (simp add: filled_def)
    ultimately show "?S w'" by auto
  next
    fix w e w'
    assume F: "?F w" and run: "os_Truncate part (job_BytesTotal j) w = (Inl e, w')"
    from F obtain b t where b: "file_at w = f0(part := Some (b, t))" by (auto simp: filled_def)
    from os_Truncate_cases [OF run, of b t] b have "file_at w' = file_at w" by auto
    with F claims_tables [OF keepsD [OF store_os(8) run]] show "?X w'" by (simp add: filled_def)
  qed
  have times: "triple ?S (os_Chtimes part (job_mtime j)) (\<lambda>_. ?T) ?X"
  proof (rule tripleI)
    fix w r w'
    assume S: "?S w" and run: "os_Chtimes part (job_mtime j) w = (Inr r, w')"
    with os_Chtimes_cases [OF run] have "file_at w' = f0(part := Some (c, job_mtime j))" by auto
    with S claims_tables [OF keepsD [OF store_os(5) run]] show "?T w'" by simp
  next
    fix w e w'
    assume S: "?S w" and run: "os_Chtimes part (job_mtime j) w = (Inl e, w')"
    with os_Chtimes_cases [OF run] have "file_at w' = file_at w" by auto
    with S claims_tables [OF keepsD [OF store_os(5) run]] SX show "?X w'" by simp
  qed
  have move: "triple ?T (os_Rename part dst) (\<lambda>_. ?D) ?X"
  proof (rule tripleI)
    fix w r w'
    assume T: "?T w" and run: "os_Rename part dst w = (Inr r, w')"
    with os_Rename_file [OF run] ne show "?D w'" by (auto simp: delivered_def)
  next
    fix w e w'
    assume T: "?T w" and run: "os_Rename part dst w = (Inl e, w')"
    with os_Rename_file [OF run] have "file_at w' = file_at w" by auto
    with T claims_tables [OF keepsD [OF store_os(4) run]] TX show "?X w'" by simp
  qed
  have hash: "triple ?S (if opt_HashAfterCopy (en_opts E) then hashFile E part else returnE '''') (\<lambda>_. ?S) ?X"
    unfolding hashFile_def by (rule s) (intro tree.frame.keeps_rules tree_keeps store.frame.keeps_rules store_os)+
  show ?thesis
    unfolding finish_file_def
    by (rule triple_bind [OF state], rule triple_bind [OF triple_wrap [OF trunc]],
        rule triple_bind [OF triple_wrap [OF s [OF tree_touch store_os(10)]]],
        rule triple_bind [OF triple_wrap [OF s [OF tree_Stat store_os(1)]]],
        rule triple_if, rule triple_throw, use SX in blast,
        rule triple_bind [OF hash], rule triple_bind [OF triple_wrap [OF s [OF tree_touch store_os(10)]]],
        rule triple_bind [OF s [OF tree_of_disk [OF disk_settleFile] store_settleFile]],
        rule triple_bind [OF triple_wrap [OF times]], rule triple_bind [OF triple_wrap [OF move]],
        rule triple_bind [OF d [OF tree_recordFile]], rule d [OF tree_of_disk [OF disk_store(2)]])
qed


section \<open>One job\<close>

text \<open>The watermark of a job is true of its partial file.\<close>

definition resumable :: "engine \<Rightarrow> pair \<Rightarrow> string \<Rightarrow> job \<Rightarrow> world \<Rightarrow> bool" where
  "resumable E pr c j w \<longleftrightarrow> 0 \<le> job_BytesDone j \<and> job_BytesDone j \<le> int (length c) \<and>
     (case file_at w (partPath E pr (job_Path j)) of
        None \<Rightarrow> job_BytesDone j = 0 | Some (b, _) \<Rightarrow> good (nat (job_BytesDone j)) b c)"

lemma claims_recordFile: "keeps (\<lambda>w w'. claims i n w \<longrightarrow> claims i n w') (recordFile E pr rel sz mt h st)"
proof -
  have "keeps (\<lambda>w w'. claims i n w \<longrightarrow> claims i n w') (put_files g)" for g :: "frow list \<Rightarrow> 'a \<times> frow list"
    unfolding put_files_def
    by (rule claims.inv.keeps_exec) (auto simp: claims_def Let_def split: prod.splits if_splits)
  moreover have "keeps (\<lambda>w w'. claims i n w \<longrightarrow> claims i n w') (put_changes g)" for g :: "change list \<Rightarrow> 'b \<times> change list"
    unfolding put_changes_def
    by (rule claims.inv.keeps_exec) (auto simp: claims_def Let_def split: prod.splits if_splits)
  ultimately show ?thesis
    unfolding recordFile_def FileAt_def PutFile_def putFileTx_def change_def AppendChange_def Let_def
    by (intro claims.inv.keeps_rules)
qed

lemma open_part:
  assumes "f0 part = None \<Longrightarrow> n = 0" and "\<And>b t. f0 part = Some (b, t) \<Longrightarrow> good (nat n) b c" and "0 \<le> n" "n \<le> int (length c)"
  shows "triple (\<lambda>w. file_at w = f0 \<and> claims i n w) (os_OpenCreate part) (\<lambda>_. filled f0 part c i n)
     (\<lambda>w. file_at w = f0 \<and> claims i n w)"
proof (rule tripleI)
  fix w u w'
  assume P: "file_at w = f0 \<and> claims i n w" and run: "os_OpenCreate part w = (Inr u, w')"
  have cl: "claims i n w'" using P claims_tables [OF keepsD [OF store_os(6) run]] by simp
  show "filled f0 part c i n w'"
  proof (cases "f0 part")
    case None
    with P os_OpenCreate_cases [OF run] obtain t where "file_at w' = f0(part := Some ([], t))" by auto
    with cl None assms show ?thesis by (auto simp: filled_def)
  next
    case (Some bt)
    obtain b t where bt: "bt = (b, t)" by (rule prod.exhaust)
    with P Some os_OpenCreate_cases [OF run] have "file_at w' = f0(part := Some (b, t))"
      by (auto simp: fun_upd_idem)
    with cl Some bt assms show ?thesis by (auto simp: filled_def)
  qed
next
  fix w e w'
  assume P: "file_at w = f0 \<and> claims i n w" and run: "os_OpenCreate part w = (Inl e, w')"
  with os_OpenCreate_cases [OF run] claims_tables [OF keepsD [OF store_os(6) run]]
  show "file_at w' = f0 \<and> claims i n w'" by auto
qed

lemma resume_part:
  assumes tot: "job_BytesTotal j = int (length c)"
  shows "triple (filled f0 part c i (job_BytesDone j)) (resumeOffset part j)
     (\<lambda>from w. from = job_BytesDone j \<and> filled f0 part c i (job_BytesDone j) w) (filled f0 part c i (job_BytesDone j))"
    (is "triple ?F _ _ _")
proof -
  have stat: "triple ?F (os_Stat part) (\<lambda>st w. ?F w \<and> resume_from j (node_size st) = job_BytesDone j) ?F"
  proof (rule tripleI)
    fix w st w'
    assume F: "?F w" and run: "os_Stat part w = (Inr st, w')"
    from F obtain b t where b: "file_at w = f0(part := Some (b, t))" "good (nat (job_BytesDone j)) b c" "0 \<le> job_BytesDone j"
        "job_BytesDone j \<le> int (length c)"
      by (auto simp: filled_def)
    then have "file_at w part = Some (b, t)" by simp
    with os_Stat_Inr [OF run] have st: "st = FFile b t" by (simp add: file_at_Some)
    have "?F w'" using F os_Stat_Inr [OF run] by (simp add: filled_def claims_def)
    with b st tot show "?F w' \<and> resume_from j (node_size st) = job_BytesDone j"
      by (auto simp: resume_from_def good_def)
  next
    fix w e w'
    assume F: "?F w" and run: "os_Stat part w = (Inl e, w')"
    then show "?F w'"
      using keepsD [OF tree_Stat run] claims_tables [OF keepsD [OF store_os(1) run]] by (simp add: filled_def)
  qed
  have trunc: "triple ?F (os_Truncate part 0) (\<lambda>_. ?F) ?F" if "job_BytesDone j = 0"
  proof (rule tripleI)
    fix w u w'
    assume F: "?F w" and run: "os_Truncate part 0 w = (Inr u, w')"
    then obtain b t where b: "file_at w = f0(part := Some (b, t))" by (auto simp: filled_def)
    with os_Truncate_cases [OF run, of b t] F claims_tables [OF keepsD [OF store_os(8) run]] that
    show "?F w'" by (auto simp: filled_def)
  next
    fix w e w'
    assume F: "?F w" and run: "os_Truncate part 0 w = (Inl e, w')"
    then obtain b t where b: "file_at w = f0(part := Some (b, t))" by (auto simp: filled_def)
    with os_Truncate_cases [OF run, of b t] F claims_tables [OF keepsD [OF store_os(8) run]]
    show "?F w'" by (auto simp: filled_def)
  qed
  show ?thesis
    unfolding resumeOffset_def Let_def
  proof (rule triple_bind [OF triple_wrap [OF stat]])
    fix st
    show "triple (\<lambda>w. ?F w \<and> resume_from j (node_size st) = job_BytesDone j)
       (if resume_from j (node_size st) = 0 \<and> 0 < node_size st
        then bindE (wrapE ''truncate the partial file'' (os_Truncate part 0)) (\<lambda>_. returnE (resume_from j (node_size st)))
        else returnE (resume_from j (node_size st)))
       (\<lambda>from w. from = job_BytesDone j \<and> ?F w) ?F"
    proof (cases "resume_from j (node_size st) = job_BytesDone j")
      case True
      show ?thesis
        using trunc True
        by (auto intro!: triple_return triple_bind [OF triple_wrap])
    qed (simp add: triple_def)
  qed
qed

lemma download_triple:
  assumes rem: "serves (en_remote E) C" and c: "C (remotePath pr (job_Path j)) = Some c" and opts: "options_ok (en_opts E)"
    and tot: "job_BytesTotal j = int (length c)"
  shows "triple (filled f0 part c (job_ID j) n) (download E part pr j n)
     (\<lambda>(wm, err) w. filled f0 part c (job_ID j) wm w \<and> (err = None \<longrightarrow> wm = int (length c))) X"
proof (rule tripleI)
  fix w a w'
  assume F: "filled f0 part c (job_ID j) n w" and run: "download E part pr j n w = (Inr a, w')"
  from F obtain b t where b: "file_at w = f0(part := Some (b, t))" "good (nat n) b c" "0 \<le> n" "n \<le> int (length c)"
    "claims (job_ID j) n w" by (auto simp: filled_def)
  then have "file_at w part = Some (b, t)" by simp
  from download_loop_run [OF rem c opts run [unfolded download_def] this b(3,2,5)] b(1,4)
  show "(case a of (wm, err) \<Rightarrow> \<lambda>w. filled f0 part c (job_ID j) wm w \<and> (err = None \<longrightarrow> wm = int (length c))) w'"
    using b(3) by (auto simp: filled_def tot)
next
  fix w e w'
  assume F: "filled f0 part c (job_ID j) n w" and run: "download E part pr j n w = (Inl e, w')"
  from F obtain b t where b: "file_at w = f0(part := Some (b, t))" "good (nat n) b c" "0 \<le> n" "claims (job_ID j) n w"
    by (auto simp: filled_def)
  then have "file_at w part = Some (b, t)" by simp
  from download_loop_run [OF rem c opts run [unfolded download_def] this b(3,2,4)] show "X w'" by blast
qed


lemma run_job_triple:
  assumes rem: "serves (en_remote E) C" and c: "C (remotePath pr (job_Path j)) = Some c" and opts: "options_ok (en_opts E)"
    and tot: "job_BytesTotal j = int (length c)" and ne: "partPath E pr (job_Path j) \<noteq> localPath pr (job_Path j)"
    and res: "resumable E pr c j w0"
  defines "part \<equiv> partPath E pr (job_Path j)" and "dst \<equiv> localPath pr (job_Path j)" and "f0 \<equiv> file_at w0"
  shows "triple (\<lambda>w. file_at w = f0 \<and> claims (job_ID j) (job_BytesDone j) w) (runJob E pr j)
     (\<lambda>moved w. if moved then delivered f0 part dst c (job_mtime j) w else file_at w = f0)
     (\<lambda>w. (file_at w = f0 \<and> claims (job_ID j) (job_BytesDone j) w) \<or> (\<exists>n. filled f0 part c (job_ID j) n w) \<or>
        delivered f0 part dst c (job_mtime j) w)"
    (is "triple ?P _ _ ?X")
proof -
  have n: "f0 part = None \<Longrightarrow> job_BytesDone j = 0" "\<And>b t. f0 part = Some (b, t) \<Longrightarrow> good (nat (job_BytesDone j)) b c"
    "0 \<le> job_BytesDone j" "job_BytesDone j \<le> int (length c)"
    using res by (auto simp: resumable_def part_def f0_def split: option.splits)
  have keep: "triple ?P m (\<lambda>_. ?P) ?X"
    if "keeps (\<lambda>w w'. file_at w' = file_at w) m" "\<And>i n. keeps (\<lambda>w w'. claims i n w \<longrightarrow> claims i n w') m" for m :: "'z op"
  proof -
    have "keeps (\<lambda>w w'. ?P w \<longrightarrow> ?P w') m" using that unfolding keeps_def by metis
    then show ?thesis by (rule triple_keeps) auto
  qed
  have keep_os: "triple ?P m (\<lambda>_. ?P) ?X"
    if "keeps (\<lambda>w w'. file_at w' = file_at w) m" "keeps (\<lambda>w w'. tables w' = tables w) m" for m :: "'z op"
    using that(1) claims_of_store [OF that(2)] by (rule keep)
  have match: "triple ?P (matchesOnDisk E dst j) (\<lambda>_. ?P) ?X"
    unfolding matchesOnDisk_def
    by (rule keep_os) (intro tree.frame.keeps_rules tree_keeps store.frame.keeps_rules store_os)+
  let ?F = "filled f0 part c (job_ID j)"
  have opened: "triple ?P (os_OpenCreate part) (\<lambda>_. ?F (job_BytesDone j)) ?X"
    by (rule triple_conseq [OF open_part [OF n]]) auto
  have resume: "triple (?F (job_BytesDone j)) (resumeOffset part j) (\<lambda>from w. from = job_BytesDone j \<and> ?F (job_BytesDone j) w) ?X"
    by (rule triple_conseq [OF resume_part [OF tot]]) auto
  have space: "triple (?F m) (checkSpace rsv pr need) (\<lambda>_. ?F m) ?X" for m rsv need
    by (rule triple_conseq [OF filled_keeps [OF tree_checkSpace claims_of_store [OF store_checkSpace]]]) auto
  note load = download_triple [OF rem c opts tot, of f0 part "job_BytesDone j" ?X]
  have progress: "triple (?F wm) (JobProgress (job_ID j) wm) (\<lambda>_. ?F wm) (?F wm)" for wm
  proof -
    have "keeps (\<lambda>w w'. ?F wm w \<longrightarrow> ?F wm w') (JobProgress (job_ID j) wm)"
    proof (rule keepsI, rule impI)
      fix w r w'
      assume run: "JobProgress (job_ID j) wm w = (r, w')" and F: "?F wm w"
      have "file_at w' = file_at w" using keepsD [OF tree_of_disk [OF disk_store(1)] run] .
      moreover have "claims (job_ID j) wm w'" using F JobProgress_claims [OF run, of wm] by (auto simp: filled_def)
      ultimately show "?F wm w'" using F unfolding filled_def by simp
    qed
    then show ?thesis by (rule triple_keeps) auto
  qed
  have note_it: "triple (?F wm) (bindE (if wm \<noteq> job_BytesDone j then ignoreE (JobProgress (job_ID j) wm) else returnE ()) (\<lambda>_. throwE e))
      Q ?X" for wm e and Q :: "bool \<Rightarrow> world \<Rightarrow> bool"
    by (rule triple_bind [where Q = "\<lambda>_. ?F wm"]) (auto intro!: triple_ignore progress triple_return triple_throw)
  have fin: "triple (?F (int (length c))) (finish_file E pr j part dst) (\<lambda>_. delivered f0 part dst c (job_mtime j)) ?X"
    by (rule triple_conseq [OF finish_file_triple [OF tot]]) (use ne in \<open>auto simp: part_def dst_def\<close>)
  have loaded: "triple (\<lambda>w. ?F wm w \<and> (err = None \<longrightarrow> wm = int (length c)))
      (case err of
         Some e \<Rightarrow> bindE (if wm \<noteq> job_BytesDone j then ignoreE (JobProgress (job_ID j) wm) else returnE ()) (\<lambda>_. throwE e)
       | None \<Rightarrow> bindE (finish_file E pr j part dst) (\<lambda>_. returnE True))
      (\<lambda>moved w. if moved then delivered f0 part dst c (job_mtime j) w else file_at w = f0) ?X" for wm err
  proof (cases err)
    case None
    have "triple (?F (int (length c))) (bindE (finish_file E pr j part dst) (\<lambda>_. returnE True))
      (\<lambda>moved w. if moved then delivered f0 part dst c (job_mtime j) w else file_at w = f0) ?X"
      by (rule triple_bind [OF fin]) (rule triple_return, simp)
    with None show ?thesis by (auto elim!: triple_conseq)
  next
    case (Some e)
    with note_it show ?thesis by (auto elim!: triple_conseq)
  qed
  have adopt: "triple ?P (bindE (recordFile E pr (job_Path j) (job_BytesTotal j) (job_mtime j) '''' FileAdopted)
       (\<lambda>_. bindE (SetJobState (job_ID j) JobDone) (\<lambda>_. returnE False)))
      (\<lambda>moved w. if moved then delivered f0 part dst c (job_mtime j) w else file_at w = f0) ?X"
    by (rule triple_bind [OF keep [OF tree_recordFile claims_recordFile]],
        rule triple_bind [OF keep [OF tree_of_disk [OF disk_store(2)] claims_SetJobState]], rule triple_return, simp)
  show ?thesis
    unfolding runJob_def Let_def part_def [symmetric] dst_def [symmetric]
    by (rule triple_bind [OF match], rule triple_if, rule adopt,
        rule triple_bind [OF triple_wrap [OF keep_os [OF tree_makeDir store_makeDir]]],
        rule triple_bind [OF triple_wrap [OF keep_os [OF tree_makeDir store_makeDir]]],
        rule triple_bind [OF triple_wrap [OF opened]], rule triple_bind [OF resume], rule triple_fact,
        rule triple_bind [OF space], hypsubst, rule triple_bind [OF load], clarify, rule loaded)
qed


section \<open>Properties\<close>

text \<open>
  (C1) A file appears under its own name whole or not at all. For a job whose total is the size of the publisher's file and whose
  watermark is true of the partial file (\<open>resumable\<close>), however a transfer ends - it succeeds,
  the remote breaks off, the disk refuses a call, the database does - every file of the
  tree but the staged one is as it was, and the file itself either is as it was or has exactly
  the publisher's bytes and time; and when the transfer reports a move, it has.
\<close>

theorem run_job_atomic:
  assumes "serves (en_remote E) C" and "C (remotePath pr (job_Path j)) = Some c" and "options_ok (en_opts E)"
    and "job_BytesTotal j = int (length c)" and ne: "partPath E pr (job_Path j) \<noteq> localPath pr (job_Path j)"
    and "resumable E pr c j w" and cl: "claims (job_ID j) (job_BytesDone j) w"
    and run: "runJob E pr j w = (r, w')"
  shows "(\<forall>p. p \<noteq> partPath E pr (job_Path j) \<and> p \<noteq> localPath pr (job_Path j) \<longrightarrow> file_at w' p = file_at w p) \<and>
    (file_at w' (localPath pr (job_Path j)) = file_at w (localPath pr (job_Path j)) \<or>
     file_at w' (localPath pr (job_Path j)) = Some (c, job_mtime j)) \<and>
    (r = Inr True \<longrightarrow> file_at w' (localPath pr (job_Path j)) = Some (c, job_mtime j))"
proof -
  note t = run_job_triple [OF assms(1-6)]
  show ?thesis
  proof (cases r)
    case (Inr moved)
    from tripleD [OF t conjI [OF refl cl] run [unfolded Inr]] show ?thesis
      using Inr by (cases moved) (auto simp: delivered_def)
  next
    case (Inl e)
    from tripleD_Inl [OF t conjI [OF refl cl] run [unfolded Inl]] show ?thesis
      using Inl ne by (auto simp: delivered_def filled_def)
  qed
qed

text \<open>
  (C8) A failed transfer can be continued: unless the file was delivered already, the watermark
  of its queue row is still true of the partial file. No byte is trusted that did not arrive,
  whichever chunk of a round failed and whether or not the progress could be written.
\<close>

theorem run_job_resumable:
  assumes "serves (en_remote E) C" and "C (remotePath pr (job_Path j)) = Some c" and "options_ok (en_opts E)"
    and "job_BytesTotal j = int (length c)" and "partPath E pr (job_Path j) \<noteq> localPath pr (job_Path j)"
    and res: "resumable E pr c j w" and cl: "claims (job_ID j) (job_BytesDone j) w"
    and run: "runJob E pr j w = (Inl e, w')"
    and j': "j' \<in> set (jobs w')" "job_ID j' = job_ID j" "job_Path j' = job_Path j"
  shows "resumable E pr c j' w' \<or> file_at w' (localPath pr (job_Path j)) = Some (c, job_mtime j)"
proof -
  note t = run_job_triple [OF assms(1-6)]
  have bound: "0 \<le> job_BytesDone j' \<and> job_BytesDone j' \<le> n" if "claims (job_ID j) n w'" for n
    using that j' by (auto simp: claims_def)
  from tripleD_Inl [OF t conjI [OF refl cl] run] consider
      (early) "file_at w' = file_at w" "claims (job_ID j) (job_BytesDone j) w'"
    | (part) n where "filled (file_at w) (partPath E pr (job_Path j)) c (job_ID j) n w'"
    | (whole) "delivered (file_at w) (partPath E pr (job_Path j)) (localPath pr (job_Path j)) c (job_mtime j) w'" by blast
  then show ?thesis
  proof cases
    case early
    with bound [OF early(2)] res j'(3) show ?thesis
      by (auto simp: resumable_def split: option.splits intro: good_mono)
  next
    case part
    then obtain b t where b: "file_at w' (partPath E pr (job_Path j)) = Some (b, t)" "good (nat n) b c"
      "n \<le> int (length c)" "claims (job_ID j) n w'" by (auto simp: filled_def)
    with bound [OF b(4)] good_mono [OF b(2)] j'(3) show ?thesis by (auto simp: resumable_def)
  next
    case whole
    then show ?thesis by (simp add: delivered_def)
  qed
qed

text \<open>A transfer of the small share.\<close>

definition demo_copy_job :: job where
  "demo_copy_job = \<lparr>job_ID = 1, job_PairID = 1, job_Path = ''d/b.mp3'', job_Op = OpAdd, job_BytesTotal = 5,
     job_BytesDone = 0, job_MTime = 7000, job_State = JobRunning, job_Attempts = 1, job_NextAttemptAt = 0,
     job_Error = None, job_CreatedAt = 0, job_UpdatedAt = 0\<rparr>"

definition demo_copy_world :: world where
  "demo_copy_world = demo_world\<lparr>jobs := [demo_copy_job]\<rparr>"

lemma demo_serves: "serves (en_remote demo_engine) demo_bytes"
proof -
  have "prefix (concat body) (take (nat len) (drop (nat off) b))"
    if "r_OpenRange demo_remote p off len w = (Inr (body, err), w')" "demo_bytes p = Some b" "0 < len" for p off len w body err w' b
    using that by (auto simp: demo_remote_def Let_def elim!: query_InrE)
  moreover have "\<exists>b. demo_bytes p = Some b" if "r_OpenRange demo_remote p off len w = (Inr x, w')" for p off len w x w'
    using that by (cases "demo_bytes p") (auto simp: demo_remote_def throwE_run)
  ultimately show ?thesis
    using demo_remote_ok by (fastforce simp: serves_def demo_engine_def New_def)
qed

lemma demo_copy_ok:
  "demo_bytes (remotePath demo_pair (job_Path demo_copy_job)) = Some ''hello''" "options_ok (en_opts demo_engine)"
  "job_BytesTotal demo_copy_job = int (length ''hello'')"
  "partPath demo_engine demo_pair (job_Path demo_copy_job) \<noteq> localPath demo_pair (job_Path demo_copy_job)"
  "resumable demo_engine demo_pair ''hello'' demo_copy_job demo_copy_world"
  "claims (job_ID demo_copy_job) (job_BytesDone demo_copy_job) demo_copy_world"
  by code_simp+

lemma demo_copy_run:
  "runJob demo_engine demo_pair demo_copy_job demo_copy_world =
     (Inr True, snd (runJob demo_engine demo_pair demo_copy_job demo_copy_world))"
  by (rule run_snd) code_simp

theorem run_job_atomic_witness:
  "file_at (snd (runJob demo_engine demo_pair demo_copy_job demo_copy_world)) ''/music/d/b.mp3'' = Some (''hello'', 7000000000)"
proof -
  have "localPath demo_pair (job_Path demo_copy_job) = ''/music/d/b.mp3''" "job_mtime demo_copy_job = 7000000000"
    by code_simp+
  with run_job_atomic [OF demo_serves demo_copy_ok demo_copy_run] show ?thesis by simp
qed

text \<open>The same with the second request refused.\<close>

definition demo_refused :: world where
  "demo_refused = demo_copy_world\<lparr>env := quiet_env\<lparr>faults := replicate 16 None @ [Some (ERemote 1)]\<rparr>\<rparr>"

lemma demo_refused_ok:
  "resumable demo_engine demo_pair ''hello'' demo_copy_job demo_refused"
  "claims (job_ID demo_copy_job) (job_BytesDone demo_copy_job) demo_refused"
  by code_simp+


lemma demo_refused_run:
  "runJob demo_engine demo_pair demo_copy_job demo_refused =
     (Inl (ERemote 1), snd (runJob demo_engine demo_pair demo_copy_job demo_refused))"
  by (rule run_snd) code_simp

lemma demo_refused_row:
  "\<exists>j \<in> set (jobs (snd (runJob demo_engine demo_pair demo_copy_job demo_refused))). job_ID j = job_ID demo_copy_job \<and>
     job_Path j = job_Path demo_copy_job"
  by code_simp

theorem run_job_resumable_witness:
  "\<exists>j. j \<in> set (jobs (snd (runJob demo_engine demo_pair demo_copy_job demo_refused))) \<and> job_ID j = job_ID demo_copy_job \<and>
     (resumable demo_engine demo_pair ''hello'' j (snd (runJob demo_engine demo_pair demo_copy_job demo_refused)) \<or>
      file_at (snd (runJob demo_engine demo_pair demo_copy_job demo_refused)) ''/music/d/b.mp3'' = Some (''hello'', 7000000000))"
proof -
  have at: "localPath demo_pair (job_Path demo_copy_job) = ''/music/d/b.mp3''" "job_mtime demo_copy_job = 7000000000"
    by code_simp+
  from demo_refused_row obtain j where
    j: "j \<in> set (jobs (snd (runJob demo_engine demo_pair demo_copy_job demo_refused)))" "job_ID j = job_ID demo_copy_job"
      "job_Path j = job_Path demo_copy_job" by blast
  from run_job_resumable [OF demo_serves demo_copy_ok(1-4) demo_refused_ok demo_refused_run j] at j(1,2) show ?thesis by auto
qed

definition stale_job :: job where
  "stale_job = demo_copy_job\<lparr>job_BytesDone := 2\<rparr>"

definition stale_world :: world where
  "stale_world = demo_world\<lparr>jobs := [stale_job],
     env := quiet_env\<lparr>faults := replicate 14 None @ [Some (ERemote 1), None, None, Some (EDriver 1)]\<rparr>\<rparr>"

definition stale_next :: world where
  "stale_next = (snd (runJob demo_engine demo_pair stale_job stale_world))\<lparr>env := quiet_env\<rparr>"

text \<open>
  The premise that the watermark is true of the partial file when the transfer starts is needed.
  \<open>resumeOffset\<close> lowers a watermark the file does not reach for the run in hand, but the
  row keeps it until the next \<open>JobProgress\<close>. Here the partial file was removed and the row says 2
  of 5 bytes: the first chunk fails, the second arrives, and the progress cannot be written
  (or the process ends before it is). The next run finds a file of 4 bytes, trusts 2 of them
  and delivers a file whose first two bytes never arrived.
\<close>

theorem stale_watermark_hole:
  "fst (runJob demo_engine demo_pair stale_job stale_world) = Inl (ERemote 1) \<and>
   fst (runJob demo_engine demo_pair (hd (jobs stale_next)) stale_next) = Inr True \<and>
   file_at (snd (runJob demo_engine demo_pair (hd (jobs stale_next)) stale_next)) ''/music/d/b.mp3'' =
     Some ([CHR 0x00, CHR 0x00] @ ''llo'', 7000000000)"
  by (intro conjI; code_simp)

end
