(* ===== verification/Planning.thy ===== *)
theory Planning
  imports Disk
begin

text \<open>
  What a sync would do and the queue it fills, \<open>engine/diff.go\<close>, with the two predicates it shares
  with the deletion phase: the guard on large deletions (\<open>guardTrip\<close>, \<open>engine/reap.go\<close>) and the
  database that is never a plain transfer (\<open>gated\<close>, \<open>engine/jcc.go\<close>).
\<close>

section \<open>Operations\<close>

definition gated :: "engine \<Rightarrow> pair \<Rightarrow> string" where
  "gated E pr = (if pair_Type pr \<noteq> PairJCC then '''' else jcc_DB (opt_JCC (en_opts E)))"

text \<open>The reason, or nothing when the deletion may run unattended.\<close>

definition guardTrip :: "pair \<Rightarrow> int \<Rightarrow> int \<Rightarrow> int \<Rightarrow> string" where
  "guardTrip pr percent gone held =
     (if pair_DeleteGuard pr > 0 \<and> gone > pair_DeleteGuard pr
      then ''files would be deleted and this pair's guard is lower''
      else if percent > 0 \<and> held > 0 \<and> gone * 100 > percent * held
      then ''of the files here would be deleted, over the threshold''
      else '''')"

record plan_entry =
  pe_Path :: string
  pe_Op :: job_op
  pe_Size :: int
  pe_SizeBefore :: int
  pe_MTime :: time

record plan =
  pl_PairID :: int
  pl_PairName :: string
  pl_ScannedAt :: "time option"
  pl_Add :: int
  pl_AddBytes :: int
  pl_Replace :: int
  pl_ReplaceBytes :: int
  pl_Vanished :: int
  pl_VanishedBytes :: int
  pl_Mode :: pair_mode
  pl_Guard :: string
  pl_Approved :: bool
  pl_Excluded :: int
  pl_Database :: "plan_entry option"
  pl_RemoteFiles :: int
  pl_RemoteBytes :: int
  pl_LocalFiles :: int
  pl_LocalBytes :: int
  pl_Free :: int
  pl_Reserve :: int
  pl_Shortfall :: int
  pl_Entries :: "plan_entry list"
  pl_Truncated :: bool
  pl_Queued :: int

definition Transfers :: "plan \<Rightarrow> int" where
  "Transfers p = pl_Add p + pl_Replace p"

definition TransferBytes :: "plan \<Rightarrow> int" where
  "TransferBytes p = pl_AddBytes p + pl_ReplaceBytes p"

definition new_plan :: "pair \<Rightarrow> scan \<Rightarrow> int \<times> int \<Rightarrow> int \<times> int \<Rightarrow> int \<Rightarrow> int \<Rightarrow> plan" where
  "new_plan pr sc rem loc reserve free =
     \<lparr>pl_PairID = pair_ID pr, pl_PairName = pair_Name pr, pl_ScannedAt = map_option ofMilli (scan_FinishedAt sc),
      pl_Add = 0, pl_AddBytes = 0, pl_Replace = 0, pl_ReplaceBytes = 0, pl_Vanished = 0, pl_VanishedBytes = 0,
      pl_Mode = pair_Mode pr, pl_Guard = '''', pl_Approved = False, pl_Excluded = 0, pl_Database = None,
      pl_RemoteFiles = fst rem, pl_RemoteBytes = snd rem, pl_LocalFiles = fst loc, pl_LocalBytes = snd loc,
      pl_Free = free, pl_Reserve = reserve, pl_Shortfall = 0, pl_Entries = [], pl_Truncated = False, pl_Queued = 0\<rparr>"

text \<open>
  \<open>fn\<close> is what the caller does with an entry, and whether it counted it; the count is kept in
  \<open>pl_Queued\<close>. \<open>nil\<close> is the function that does nothing.
\<close>

definition keep :: "int \<Rightarrow> (plan_entry \<Rightarrow> bool op) \<Rightarrow> plan_entry \<Rightarrow> plan \<Rightarrow> plan op" where
  "keep sample fn entry p =
     (let p = (if int (length (pl_Entries p)) < sample then p\<lparr>pl_Entries := pl_Entries p @ [entry]\<rparr>
               else if sample > 0 then p\<lparr>pl_Truncated := True\<rparr> else p) in
      bindE (fn entry) (\<lambda>counted. returnE (if counted then p\<lparr>pl_Queued := pl_Queued p + 1\<rparr> else p)))"

definition change_entry :: "diff_row \<Rightarrow> plan_entry" where
  "change_entry d = \<lparr>pe_Path = d_Path d, pe_Op = (if d_Have d then OpReplace else OpAdd), pe_Size = d_Size d,
     pe_SizeBefore = (if d_Have d then d_LocalSize d else 0), pe_MTime = d_MTime d\<rparr>"

definition count_change :: "string \<Rightarrow> diff_row \<Rightarrow> plan \<Rightarrow> plan" where
  "count_change gate d p =
     (let p = (if d_Have d then p\<lparr>pl_Replace := pl_Replace p + 1, pl_ReplaceBytes := pl_ReplaceBytes p + d_Size d\<rparr>
               else p\<lparr>pl_Add := pl_Add p + 1, pl_AddBytes := pl_AddBytes p + d_Size d\<rparr>)
      in if d_Path d = gate then p\<lparr>pl_Database := Some (change_entry d)\<rparr> else p)"

definition plan_change :: "filter_rules \<Rightarrow> string \<Rightarrow> int \<Rightarrow> (plan_entry \<Rightarrow> bool op) \<Rightarrow> diff_row \<Rightarrow> plan \<Rightarrow> plan op" where
  "plan_change f gate sample fn d p =
     (if \<not> allows f (d_Path d) then returnE (p\<lparr>pl_Excluded := pl_Excluded p + 1\<rparr>)
      else keep sample fn (change_entry d) (count_change gate d p))"

definition plan_vanished :: "filter_rules \<Rightarrow> string \<Rightarrow> int \<Rightarrow> (plan_entry \<Rightarrow> bool op) \<Rightarrow> string \<times> int \<Rightarrow> plan \<Rightarrow> plan op" where
  "plan_vanished f gate sample fn v p =
     (if \<not> allows f (fst v) \<or> fst v = gate then returnE (p\<lparr>pl_Excluded := pl_Excluded p + 1\<rparr>)
      else keep sample fn \<lparr>pe_Path = fst v, pe_Op = OpDelete, pe_Size = 0, pe_SizeBefore = snd v, pe_MTime = 0\<rparr>
             (p\<lparr>pl_Vanished := pl_Vanished p + 1, pl_VanishedBytes := pl_VanishedBytes p + snd v\<rparr>))"

definition plan_guard :: "engine \<Rightarrow> pair \<Rightarrow> scan \<Rightarrow> plan \<Rightarrow> plan op" where
  "plan_guard E pr sc p =
     (if pl_Mode p = ModeGuarded \<and> pl_Vanished p > 0
      then (let reason = guardTrip pr (opt_DeletePercent (en_opts E)) (pl_Vanished p) (pl_LocalFiles p);
                p = p\<lparr>pl_Guard := reason\<rparr> in
            if reason = '''' then returnE p
            else bindE (LatestApproval (pair_ID pr)) (\<lambda>a.
                 returnE (p\<lparr>pl_Approved := (case a of None \<Rightarrow> False | Some a \<Rightarrow> Covers a (scan_ID sc) (pl_Vanished p))\<rparr>)))
      else returnE p)"

definition plan_space :: "plan \<Rightarrow> plan" where
  "plan_space p = (let short = TransferBytes p + pl_Reserve p - pl_Free p in
     if pl_Free p > 0 \<and> short > 0 then p\<lparr>pl_Shortfall := short\<rparr> else p)"

definition plan_run :: "engine \<Rightarrow> pair \<Rightarrow> int \<Rightarrow> (plan_entry \<Rightarrow> bool op) \<Rightarrow> plan op" where
  "plan_run E pr sample fn =
     bindE (LastCompletedScan (pair_ID pr)) (\<lambda>found. case found of
       None \<Rightarrow> throwE (EWrap ''pair'' ENoManifest)
     | Some sc \<Rightarrow>
        bindE (ManifestStats (pair_ID pr)) (\<lambda>rem.
        bindE (FileStats (pair_ID pr)) (\<lambda>loc.
        bindE (tryE (FreeSpace (pair_LocalPath pr))) (\<lambda>space.
        let free = (case space of Inr s \<Rightarrow> sp_Free s | Inl _ \<Rightarrow> 0);
            f = newFilter pr (opt_JCC (en_opts E)); gate = gated E pr in
        bindE (ChangedFiles (pair_ID pr) (opt_MTimeTolerance (en_opts E)) (plan_change f gate sample fn)
                 (new_plan pr sc rem loc (opt_Reserve (en_opts E)) free)) (\<lambda>p.
        bindE (VanishedFiles (pair_ID pr) (plan_vanished f gate sample fn) p) (\<lambda>p.
        bindE (plan_guard E pr sc p) (\<lambda>p. returnE (plan_space p))))))))"

definition Plan :: "engine \<Rightarrow> pair \<Rightarrow> int \<Rightarrow> plan op" where
  "Plan E pr sample = plan_run E pr sample (\<lambda>_. returnE False)"

text \<open>The entries that become jobs: neither deletions nor the gated database.\<close>

definition enqueue_entry :: "engine \<Rightarrow> pair \<Rightarrow> plan_entry \<Rightarrow> bool op" where
  "enqueue_entry E pr entry =
     (if pe_Op entry = OpDelete then returnE False
      else if pe_Path entry = gated E pr then returnE False
      else bindE (EnqueueJob (pair_ID pr) (pe_Path entry) (pe_Op entry) (pe_Size entry) (pe_MTime entry)) (\<lambda>_.
           returnE True))"

definition Enqueue :: "engine \<Rightarrow> pair \<Rightarrow> plan op" where
  "Enqueue E pr =
     bindE now (\<lambda>started.
     bindE (plan_run E pr 0 (enqueue_entry E pr)) (\<lambda>p.
     bindE (DropFailedJobs (pair_ID pr) started) (\<lambda>_. returnE p)))"

definition Behind :: "engine \<Rightarrow> int \<Rightarrow> (int \<times> int) op" where
  "Behind E pid = BehindStats pid (opt_MTimeTolerance (en_opts E))"

section \<open>Streams\<close>

lemma streamE_Inr:
  assumes "streamE fn xs s w = (Inr s', w')"
  obtains (Nil) "xs = []" "s' = s" "w' = w"
    | (Cons) x xs' e s1 w1 where "xs = x # xs'" "fn x s (w\<lparr>env := e\<rparr>) = (Inr s1, w1)" "streamE fn xs' s1 w1 = (Inr s', w')"
  using assms by (cases xs) (auto simp: streamE_def elim!: run_elims)

text \<open>
  What holds of the state and of the world before the first row and is kept by every row holds
  after the last; \<open>I\<close> may say which rows have been seen.
\<close>

lemma streamE_inv:
  assumes run: "streamE fn xs s w = (Inr s', w')" and init: "I [] s w"
    and env: "\<And>seen s w e. I seen s w \<Longrightarrow> I seen s (w\<lparr>env := e\<rparr>)"
    and step: "\<And>seen x rest s w s1 w1. xs = seen @ x # rest \<Longrightarrow> I seen s w \<Longrightarrow> fn x s w = (Inr s1, w1) \<Longrightarrow>
      I (seen @ [x]) s1 w1"
  shows "I xs s' w'"
proof -
  have "I xs s' w'" if "streamE fn ys s w = (Inr s', w')" "I seen s w" "xs = seen @ ys" for ys seen s w
    using that
  proof (induction ys arbitrary: seen s w)
    case Nil
    then show ?case by (auto elim: streamE_Inr)
  next
    case (Cons y ys)
    from Cons.prems(1) obtain e s1 w1 where y: "fn y s (w\<lparr>env := e\<rparr>) = (Inr s1, w1)" and rest: "streamE fn ys s1 w1 = (Inr s', w')"
      by (rule streamE_Inr) auto
    have "I (seen @ [y]) s1 w1" by (rule step [OF Cons.prems(3) env [OF Cons.prems(2)] y])
    from Cons.IH [OF rest this] Cons.prems(3) show ?case by simp
  qed
  from this [OF run init] show ?thesis by simp
qed

section \<open>Planning reads, it does not write\<close>

definition truth :: "world \<Rightarrow> frow list \<times> mrow list \<times> scan list" where
  "truth w = (files w, manifest w, scans w)"

interpretation truth: world_frame truth
  by unfold_locales (simp add: truth_def)

lemma truth_put_jobs: "keeps (\<lambda>w w'. truth w' = truth w) (put_jobs g)"
  unfolding put_jobs_def by (rule truth.frame.keeps_exec) (auto simp: truth_def Let_def split: prod.splits if_splits)

lemma truth_EnqueueJob: "keeps (\<lambda>w w'. truth w' = truth w) (EnqueueJob pid path oper bytes mtime)"
  unfolding EnqueueJob_def reviveFailedJob_def by (intro truth.frame.keeps_rules truth_put_jobs)

lemma truth_enqueue_entry: "keeps (\<lambda>w w'. truth w' = truth w) (enqueue_entry E pr entry)"
  unfolding enqueue_entry_def by (intro truth.frame.keeps_rules truth_EnqueueJob)

lemma truth_rows:
  assumes "truth w' = truth w"
  shows "changed_rows pid tol w' = changed_rows pid tol w" and "vanished_rows pid w' = vanished_rows pid w"
  using assms by (simp_all add: truth_def changed_rows_def vanished_rows_def)

section \<open>The numbers of a plan\<close>

text \<open>What the rows of the diff amount to.\<close>

definition counts_changed :: "filter_rules \<Rightarrow> diff_row list \<Rightarrow> plan \<Rightarrow> bool" where
  "counts_changed f rows p \<longleftrightarrow>
     pl_Add p = sql_count (\<lambda>d. allows f (d_Path d) \<and> \<not> d_Have d) rows \<and>
     pl_AddBytes p = sql_sum d_Size (\<lambda>d. allows f (d_Path d) \<and> \<not> d_Have d) rows \<and>
     pl_Replace p = sql_count (\<lambda>d. allows f (d_Path d) \<and> d_Have d) rows \<and>
     pl_ReplaceBytes p = sql_sum d_Size (\<lambda>d. allows f (d_Path d) \<and> d_Have d) rows"

definition counts_vanished :: "filter_rules \<Rightarrow> string \<Rightarrow> (string \<times> int) list \<Rightarrow> plan \<Rightarrow> bool" where
  "counts_vanished f gate rows p \<longleftrightarrow>
     pl_Vanished p = sql_count (\<lambda>v. allows f (fst v) \<and> fst v \<noteq> gate) rows \<and>
     pl_VanishedBytes p = sql_sum snd (\<lambda>v. allows f (fst v) \<and> fst v \<noteq> gate) rows"

lemma sql_count_snoc: "sql_count q (xs @ [x]) = sql_count q xs + (if q x then 1 else 0)"
  by (simp add: sql_count_def)

lemma sql_sum_snoc: "sql_sum g q (xs @ [x]) = sql_sum g q xs + (if q x then g x else 0)"
  by (simp add: sql_sum_def)

lemma keep_Inr:
  assumes "keep sample fn entry p w = (Inr p', w')"
  shows "\<exists>counted es tr. fn entry w = (Inr counted, w') \<and>
    p' = p\<lparr>pl_Entries := es, pl_Truncated := tr, pl_Queued := pl_Queued p + (if counted then 1 else 0)\<rparr>"
proof -
  define p1 where "p1 = (if int (length (pl_Entries p)) < sample then p\<lparr>pl_Entries := pl_Entries p @ [entry]\<rparr>
               else if sample > 0 then p\<lparr>pl_Truncated := True\<rparr> else p)"
  have p1: "p1 = p\<lparr>pl_Entries := pl_Entries p1, pl_Truncated := pl_Truncated p1\<rparr>" "pl_Queued p1 = pl_Queued p"
    by (simp_all add: p1_def)
  from assms obtain counted where "fn entry w = (Inr counted, w')"
    and p': "p' = (if counted then p1\<lparr>pl_Queued := pl_Queued p1 + 1\<rparr> else p1)"
    unfolding keep_def Let_def p1_def [symmetric] by (auto elim!: bindE_InrE returnE_InrE)
  moreover have "p' = p\<lparr>pl_Entries := pl_Entries p1, pl_Truncated := pl_Truncated p1,
      pl_Queued := pl_Queued p + (if counted then 1 else 0)\<rparr>"
    unfolding p' by (subst p1(1), cases counted) (simp_all add: p1(2) p1_def)
  ultimately show ?thesis by blast
qed

lemma plan_change_counts:
  assumes run: "plan_change f gate sample fn d p w = (Inr p', w')" and I: "counts_changed f rows p"
  shows "counts_changed f (rows @ [d]) p'"
proof (cases "allows f (d_Path d)")
  case False
  with run have "p' = p\<lparr>pl_Excluded := pl_Excluded p + 1\<rparr>" by (auto simp: plan_change_def returnE_run)
  with I False show ?thesis by (simp add: counts_changed_def sql_count_snoc sql_sum_snoc)
next
  case True
  with run have "keep sample fn (change_entry d) (count_change gate d p) w = (Inr p', w')" by (simp add: plan_change_def)
  from keep_Inr [OF this] obtain counted es tr where "p' = (count_change gate d p)\<lparr>pl_Entries := es, pl_Truncated := tr,
      pl_Queued := pl_Queued (count_change gate d p) + (if counted then 1 else 0)\<rparr>"
    by blast
  with I True show ?thesis
    by (auto simp: counts_changed_def count_change_def sql_count_snoc sql_sum_snoc Let_def)
qed

lemma plan_vanished_counts:
  assumes run: "plan_vanished f gate sample fn v p w = (Inr p', w')"
    and I: "counts_changed f crows p" "counts_vanished f gate rows p"
  shows "counts_changed f crows p' \<and> counts_vanished f gate (rows @ [v]) p'"
proof (cases "allows f (fst v) \<and> fst v \<noteq> gate")
  case False
  with run have "p' = p\<lparr>pl_Excluded := pl_Excluded p + 1\<rparr>" by (auto simp: plan_vanished_def returnE_run)
  with I False show ?thesis by (auto simp: counts_changed_def counts_vanished_def sql_count_snoc sql_sum_snoc)
next
  case True
  with run have "keep sample fn \<lparr>pe_Path = fst v, pe_Op = OpDelete, pe_Size = 0, pe_SizeBefore = snd v, pe_MTime = 0\<rparr>
     (p\<lparr>pl_Vanished := pl_Vanished p + 1, pl_VanishedBytes := pl_VanishedBytes p + snd v\<rparr>) w = (Inr p', w')"
    by (simp add: plan_vanished_def)
  from keep_Inr [OF this] I True show ?thesis
    by (auto simp: counts_changed_def counts_vanished_def sql_count_snoc sql_sum_snoc)
qed

lemma keeps_keep: "(\<And>e. keeps (\<lambda>w w'. truth w' = truth w) (fn e)) \<Longrightarrow> keeps (\<lambda>w w'. truth w' = truth w) (keep sample fn entry p)"
  unfolding keep_def by (intro truth.frame.keeps_rules) auto

lemma ChangedFiles_Inr:
  assumes "ChangedFiles pid tol fn s w = (Inr s', w')"
  shows "\<exists>e1 w1 e2. streamE fn (changed_rows pid tol w) s (w\<lparr>env := e1\<rparr>) = (Inr s', w1) \<and> w' = w1\<lparr>env := e2\<rparr>"
  using assms unfolding ChangedFiles_def by (auto elim!: run_elims simp: changed_rows_def; blast)

lemma VanishedFiles_Inr:
  assumes "VanishedFiles pid fn s w = (Inr s', w')"
  shows "\<exists>e1 w1 e2. streamE fn (vanished_rows pid w) s (w\<lparr>env := e1\<rparr>) = (Inr s', w1) \<and> w' = w1\<lparr>env := e2\<rparr>"
  using assms unfolding VanishedFiles_def by (auto elim!: run_elims simp: vanished_rows_def; blast)

text \<open>A plan as its two streams: what was counted before the guard and the space are looked at.\<close>

lemma plan_run_Inr:
  assumes "plan_run E pr sample fn w = (Inr p, w')"
  obtains sc rem loc free p1 w1 p2 w2 e where
    "ChangedFiles (pair_ID pr) (opt_MTimeTolerance (en_opts E))
       (plan_change (newFilter pr (opt_JCC (en_opts E))) (gated E pr) sample fn)
       (new_plan pr sc rem loc (opt_Reserve (en_opts E)) free) w1 = (Inr p1, w2)"
    "truth w1 = truth w" "jobs w1 = jobs w" "pairs w1 = pairs w"
    "\<exists>w3. VanishedFiles (pair_ID pr) (plan_vanished (newFilter pr (opt_JCC (en_opts E))) (gated E pr) sample fn) p1 w2 =
       (Inr p2, w3) \<and> w' = w3\<lparr>env := e\<rparr>"
    "pl_Add p = pl_Add p2" "pl_AddBytes p = pl_AddBytes p2" "pl_Replace p = pl_Replace p2" "pl_ReplaceBytes p = pl_ReplaceBytes p2"
    "pl_Vanished p = pl_Vanished p2" "pl_VanishedBytes p = pl_VanishedBytes p2" "pl_Queued p = pl_Queued p2"
    "sc \<in> set (scans w)" "scan_State sc = ScanDone" "scan_PairID sc = pair_ID pr"
proof -
  let ?f = "newFilter pr (opt_JCC (en_opts E))"
  from assms obtain sc wa rem wb loc wc space wd p1 we p2 wf p3 where
    sc: "LastCompletedScan (pair_ID pr) w = (Inr (Some sc), wa)" and rem: "ManifestStats (pair_ID pr) wa = (Inr rem, wb)"
    and loc: "FileStats (pair_ID pr) wb = (Inr loc, wc)" and sp: "FreeSpace (pair_LocalPath pr) wc = (space, wd)"
    and ch: "ChangedFiles (pair_ID pr) (opt_MTimeTolerance (en_opts E)) (plan_change ?f (gated E pr) sample fn)
       (new_plan pr sc rem loc (opt_Reserve (en_opts E)) (case space of Inr s \<Rightarrow> sp_Free s | Inl _ \<Rightarrow> 0)) wd = (Inr p1, we)"
    and va: "VanishedFiles (pair_ID pr) (plan_vanished ?f (gated E pr) sample fn) p1 we = (Inr p2, wf)"
    and gu: "plan_guard E pr sc p2 wf = (Inr p3, w')" and p: "p = plan_space p3"
    unfolding plan_run_def Let_def by (auto elim!: run_elims split: option.splits)
  have "keeps (\<lambda>w w'. tables w' = tables w) (FreeSpace (pair_LocalPath pr))"
    unfolding FreeSpace_def by (rule store_free_space)
  from keepsD [OF this sp] have "tables wd = tables wc" .
  moreover from query_Inr [OF sc [unfolded LastCompletedScan_def]] obtain e0 where wa: "wa = w\<lparr>env := e0\<rparr>" and last: "sql_last scan_ID
      (\<lambda>s. scan_PairID s = pair_ID pr \<and> scan_State s = ScanDone) (scans w) = Some sc"
    unfolding used_def by (metis used_def used_frame(3))
  moreover have scan: "sc \<in> set (scans w)" "scan_State sc = ScanDone" "scan_PairID sc = pair_ID pr"
    using sql_last_Some(1,2) [OF last] by auto
  moreover have "\<exists>e. wb = wa\<lparr>env := e\<rparr>" using rem unfolding ManifestStats_def by (auto elim!: run_elims)
  moreover have "\<exists>e. wc = wb\<lparr>env := e\<rparr>" using loc unfolding FileStats_def by (auto elim!: run_elims)
  ultimately have tab: "tables wd = tables w" by (auto simp: store.f_env)
  have "\<exists>e. w' = wf\<lparr>env := e\<rparr>"
    using gu unfolding plan_guard_def LatestApproval_def Let_def
    by (auto elim!: run_elims split: if_splits intro: exI [of _ "env wf"])
  then obtain e where e: "w' = wf\<lparr>env := e\<rparr>" by blast
  have guard: "p3 = p2\<lparr>pl_Guard := pl_Guard p3, pl_Approved := pl_Approved p3\<rparr>"
    using gu unfolding plan_guard_def LatestApproval_def Let_def
    by (auto elim!: run_elims split: if_splits)
  have same: "pl_Add p = pl_Add p2" "pl_AddBytes p = pl_AddBytes p2" "pl_Replace p = pl_Replace p2" "pl_ReplaceBytes p = pl_ReplaceBytes p2"
    "pl_Vanished p = pl_Vanished p2" "pl_VanishedBytes p = pl_VanishedBytes p2" "pl_Queued p = pl_Queued p2"
    using arg_cong [OF guard, of pl_Add] arg_cong [OF guard, of pl_AddBytes] arg_cong [OF guard, of pl_Replace]
      arg_cong [OF guard, of pl_ReplaceBytes] arg_cong [OF guard, of pl_Vanished] arg_cong [OF guard, of pl_VanishedBytes]
      arg_cong [OF guard, of pl_Queued]
    unfolding p by (simp_all add: plan_space_def Let_def)
  have "truth wd = truth w" unfolding truth_def by (simp only: tables_eq [OF tab])
  moreover have "jobs wd = jobs w" "pairs wd = pairs w" by (simp_all only: tables_eq [OF tab])
  moreover have "\<exists>w3. VanishedFiles (pair_ID pr) (plan_vanished ?f (gated E pr) sample fn) p1 we = (Inr p2, w3) \<and> w' = w3\<lparr>env := e\<rparr>"
    using va e by blast
  ultimately show thesis using that [OF ch _ _ _ _ same scan] by blast
qed


lemma truth_plan_change:
  "(\<And>e. keeps (\<lambda>w w'. truth w' = truth w) (fn e)) \<Longrightarrow> keeps (\<lambda>w w'. truth w' = truth w) (plan_change f gate sample fn d p)"
  unfolding plan_change_def by (intro truth.frame.keeps_rules keeps_keep)

lemma truth_plan_vanished:
  "(\<And>e. keeps (\<lambda>w w'. truth w' = truth w) (fn e)) \<Longrightarrow> keeps (\<lambda>w w'. truth w' = truth w) (plan_vanished f gate sample fn v p)"
  unfolding plan_vanished_def by (intro truth.frame.keeps_rules keeps_keep)

lemma plan_run_counts:
  assumes fn: "\<And>e. keeps (\<lambda>w w'. truth w' = truth w) (fn e)" and run: "plan_run E pr sample fn w = (Inr p, w')"
  shows "counts_changed (newFilter pr (opt_JCC (en_opts E)))
      (changed_rows (pair_ID pr) (opt_MTimeTolerance (en_opts E)) w) p \<and>
    counts_vanished (newFilter pr (opt_JCC (en_opts E))) (gated E pr) (vanished_rows (pair_ID pr) w) p"
proof -
  let ?f = "newFilter pr (opt_JCC (en_opts E))" and ?tol = "opt_MTimeTolerance (en_opts E)"
  from run show ?thesis
  proof (rule plan_run_Inr)
    fix sc rem loc free p1 w1 p2 w2 e
    assume ch: "ChangedFiles (pair_ID pr) ?tol (plan_change ?f (gated E pr) sample fn)
       (new_plan pr sc rem loc (opt_Reserve (en_opts E)) free) w1 = (Inr p1, w2)" and t1: "truth w1 = truth w"
      and va: "\<exists>w3. VanishedFiles (pair_ID pr) (plan_vanished ?f (gated E pr) sample fn) p1 w2 = (Inr p2, w3) \<and> w' = w3\<lparr>env := e\<rparr>"
      and eqs: "pl_Add p = pl_Add p2" "pl_AddBytes p = pl_AddBytes p2" "pl_Replace p = pl_Replace p2" "pl_ReplaceBytes p = pl_ReplaceBytes p2"
        "pl_Vanished p = pl_Vanished p2" "pl_VanishedBytes p = pl_VanishedBytes p2"
    let ?I = "\<lambda>seen p v. counts_changed ?f seen p \<and> counts_vanished ?f (gated E pr) [] p \<and> truth v = truth w"
    from ChangedFiles_Inr [OF ch] obtain e1 v1 e2 where
      s1: "streamE (plan_change ?f (gated E pr) sample fn) (changed_rows (pair_ID pr) ?tol w1)
        (new_plan pr sc rem loc (opt_Reserve (en_opts E)) free) (w1\<lparr>env := e1\<rparr>) = (Inr p1, v1)" "w2 = v1\<lparr>env := e2\<rparr>" by blast
    have "?I (changed_rows (pair_ID pr) ?tol w1) p1 v1"
    proof (rule streamE_inv [OF s1(1), where I = ?I])
      show "?I [] (new_plan pr sc rem loc (opt_Reserve (en_opts E)) free) (w1\<lparr>env := e1\<rparr>)"
        using t1 by (simp add: counts_changed_def counts_vanished_def new_plan_def sql_count_def sql_sum_def truth.f_env)
    next
      fix seen x s u s1 u1
      assume I: "?I seen s u" and step: "plan_change ?f (gated E pr) sample fn x s u = (Inr s1, u1)"
      have "pl_Vanished s1 = pl_Vanished s" "pl_VanishedBytes s1 = pl_VanishedBytes s"
        using step by (auto simp: plan_change_def returnE_run count_change_def Let_def dest!: keep_Inr split: if_splits)
      with I keepsD [OF truth_plan_change [OF fn] step] plan_change_counts [OF step] show "?I (seen @ [x]) s1 u1"
        by (simp add: counts_vanished_def)
    qed (simp add: truth.f_env)
    then have cc: "counts_changed ?f (changed_rows (pair_ID pr) ?tol w) p1" "counts_vanished ?f (gated E pr) [] p1"
      and t2: "truth w2 = truth w"
      using truth_rows(1) [OF t1] s1(2) by (auto simp: truth.f_env)
    from va obtain w3 where va': "VanishedFiles (pair_ID pr) (plan_vanished ?f (gated E pr) sample fn) p1 w2 = (Inr p2, w3)" by blast
    from VanishedFiles_Inr [OF va'] obtain e3 v2 where
      s2: "streamE (plan_vanished ?f (gated E pr) sample fn) (vanished_rows (pair_ID pr) w2) p1 (w2\<lparr>env := e3\<rparr>) = (Inr p2, v2)" by blast
    let ?J = "\<lambda>seen p (v::world). counts_changed ?f (changed_rows (pair_ID pr) ?tol w) p \<and> counts_vanished ?f (gated E pr) seen p"
    have "?J (vanished_rows (pair_ID pr) w2) p2 v2"
      by (rule streamE_inv [OF s2, where I = ?J]) (use cc plan_vanished_counts in auto)
    then show ?thesis
      using truth_rows(2) [OF t2] eqs by (simp add: counts_changed_def counts_vanished_def)
  qed
qed

section \<open>The queue a plan fills\<close>

text \<open>The rows of the diff that become transfers.\<close>

definition queued_rows :: "engine \<Rightarrow> pair \<Rightarrow> world \<Rightarrow> diff_row list" where
  "queued_rows E pr w = filter (\<lambda>d. allows (newFilter pr (opt_JCC (en_opts E))) (d_Path d) \<and> d_Path d \<noteq> gated E pr)
     (changed_rows (pair_ID pr) (opt_MTimeTolerance (en_opts E)) w)"

definition has_job :: "int \<Rightarrow> diff_row \<Rightarrow> job list \<Rightarrow> bool" where
  "has_job pid d rows \<longleftrightarrow> (\<exists>j \<in> set rows. job_key j = (pid, d_Path d) \<and> job_open j \<and>
     job_BytesTotal j = d_Size d \<and> job_MTime j = UnixMilli (d_MTime d))"

lemma EnqueueJob_has:
  assumes wf: "jobs_wf w" and run: "EnqueueJob pid (d_Path d) oper (d_Size d) (d_MTime d) w = (Inr i, w')"
  shows "jobs_wf w'" and "has_job pid d (jobs w')"
    and "d_Path d' \<noteq> d_Path d \<Longrightarrow> has_job pid d' (jobs w) \<Longrightarrow> has_job pid d' (jobs w')"
proof -
  obtain ms where enq: "enqueue_rows pid (d_Path d) oper (d_Size d) (UnixMilli (d_MTime d)) ms (jobs w) = (i, jobs w')"
    using EnqueueJob_Inr [OF wf run] by blast
  show "jobs_wf w'" using wf keepsD [OF keeps_EnqueueJob run] by blast
  from enqueue_rows_job [OF jobs_wf_D(1) [OF wf] enq] obtain j where
    j: "j \<in> set (jobs w')" "job_ID j = i" "job_key j = (pid, d_Path d)" "job_open j" "job_BytesTotal j = d_Size d"
      "job_MTime j = UnixMilli (d_MTime d)" by blast
  then show "has_job pid d (jobs w')" unfolding has_job_def by blast
  assume ne: "d_Path d' \<noteq> d_Path d" and "has_job pid d' (jobs w)"
  then obtain j' where j': "j' \<in> set (jobs w)" "job_key j' = (pid, d_Path d')" "job_open j'" "job_BytesTotal j' = d_Size d'"
    "job_MTime j' = UnixMilli (d_MTime d')" unfolding has_job_def by blast
  have "job_ID j' \<noteq> i"
  proof
    assume same: "job_ID j' = i"
    from enqueue_rows_key [OF jobs_wf_D(1) [OF wf] enq] j'(1) same have "job_key j' = (pid, d_Path d)" by blast
    with j'(2) ne show False by simp
  qed
  with j'(1) enqueue_rows_others [OF enq] have "j' \<in> set (jobs w')" by blast
  with j' show "has_job pid d' (jobs w')" unfolding has_job_def by blast
qed

end
