(* ===== verification/PlanSpec.thy ===== *)
theory PlanSpec
  imports Planning Walk
begin

text \<open>
  What a plan and the queue it fills amount to: the numbers shown are those of the diff, planning
  writes nothing, and queueing leaves an open job for every file the pair is behind on.
\<close>

section \<open>The numbers\<close>

context world_frame
begin

lemma frame_streamE:
  assumes "\<And>x s. keeps (\<lambda>w w'. f w' = f w) (fn x s)"
  shows "keeps (\<lambda>w w'. f w' = f w) (streamE fn xs s)"
  using assms by (induction xs arbitrary: s) (auto simp: streamE_def intro!: frame.keeps_rules)

lemma frame_plan_run:
  assumes fn: "\<And>e. keeps (\<lambda>w w'. f w' = f w) (fn e)"
    and free: "keeps (\<lambda>w w'. f w' = f w) (FreeSpace (pair_LocalPath pr))"
  shows "keeps (\<lambda>w w'. f w' = f w) (plan_run E pr sample fn)"
  unfolding plan_run_def LastCompletedScan_def ManifestStats_def FileStats_def ChangedFiles_def VanishedFiles_def
    plan_change_def plan_vanished_def keep_def plan_guard_def LatestApproval_def
  by (intro frame.keeps_rules frame_streamE fn free)

end

lemma tables_truth: "tables w' = tables w \<Longrightarrow> truth w' = truth w"
  using tables_eq [of w' w] by (simp only: truth_def)

text \<open>
  What a run of the plan leaves of an invariant over the rows seen and the number queued, when the
  caller's function keeps it on every entry.
\<close>

lemma plan_run_inv:
  assumes run: "plan_run E pr sample fn w = (Inr p, w')"
    and start: "\<And>v. jobs v = jobs w \<Longrightarrow> pairs v = pairs w \<Longrightarrow> I [] 0 v"
    and env: "\<And>seen q v e. I seen q v \<Longrightarrow> I seen q (v\<lparr>env := e\<rparr>)"
    and skip: "\<And>seen x q v. I seen q v \<Longrightarrow> \<not> allows (newFilter pr (opt_JCC (en_opts E))) (d_Path x) \<Longrightarrow> I (seen @ [x]) q v"
    and step: "\<And>seen x rest q v c v'. changed_rows (pair_ID pr) (opt_MTimeTolerance (en_opts E)) w = seen @ x # rest \<Longrightarrow>
      I seen q v \<Longrightarrow> allows (newFilter pr (opt_JCC (en_opts E))) (d_Path x) \<Longrightarrow>
      fn (change_entry x) v = (Inr c, v') \<Longrightarrow> I (seen @ [x]) (q + (if c then 1 else 0)) v'"
    and gone: "\<And>seen e q v c v'. I seen q v \<Longrightarrow> pe_Op e = OpDelete \<Longrightarrow> fn e v = (Inr c, v') \<Longrightarrow>
      I seen (q + (if c then 1 else 0)) v'"
  shows "I (changed_rows (pair_ID pr) (opt_MTimeTolerance (en_opts E)) w) (pl_Queued p) w'"
  using run
proof (rule plan_run_Inr)
  let ?f = "newFilter pr (opt_JCC (en_opts E))" and ?tol = "opt_MTimeTolerance (en_opts E)"
  fix sc rem loc free p1 w1 p2 w2 e
  assume ch: "ChangedFiles (pair_ID pr) ?tol (plan_change ?f (gated E pr) sample fn)
       (new_plan pr sc rem loc (opt_Reserve (en_opts E)) free) w1 = (Inr p1, w2)" and t1: "truth w1 = truth w"
    and js: "jobs w1 = jobs w" "pairs w1 = pairs w"
    and va: "\<exists>w3. VanishedFiles (pair_ID pr) (plan_vanished ?f (gated E pr) sample fn) p1 w2 = (Inr p2, w3) \<and> w' = w3\<lparr>env := e\<rparr>"
    and q: "pl_Queued p = pl_Queued p2"
  let ?rows = "changed_rows (pair_ID pr) ?tol w"
  from ChangedFiles_Inr [OF ch] truth_rows(1) [OF t1] obtain e1 v1 e2 where
    s1: "streamE (plan_change ?f (gated E pr) sample fn) ?rows
        (new_plan pr sc rem loc (opt_Reserve (en_opts E)) free) (w1\<lparr>env := e1\<rparr>) = (Inr p1, v1)" and w2: "w2 = v1\<lparr>env := e2\<rparr>" by metis
  have "I ?rows (pl_Queued p1) v1"
  proof (rule streamE_inv [OF s1, where I = "\<lambda>seen p v. I seen (pl_Queued p) v"])
    fix seen x rest s u s1 u1
    assume split: "?rows = seen @ x # rest" and I: "I seen (pl_Queued s) u"
      and run: "plan_change ?f (gated E pr) sample fn x s u = (Inr s1, u1)"
    show "I (seen @ [x]) (pl_Queued s1) u1"
    proof (cases "allows ?f (d_Path x)")
      case False
      with run have "s1 = s\<lparr>pl_Excluded := pl_Excluded s + 1\<rparr>" "u1 = u" by (auto simp: plan_change_def returnE_run)
      with skip [OF I False] show ?thesis by simp
    next
      case True
      with run have "keep sample fn (change_entry x) (count_change (gated E pr) x s) u = (Inr s1, u1)"
        by (simp add: plan_change_def)
      from keep_Inr [OF this] obtain c where c: "fn (change_entry x) u = (Inr c, u1)"
        and "pl_Queued s1 = pl_Queued (count_change (gated E pr) x s) + (if c then 1 else 0)" by auto
      then have "pl_Queued s1 = pl_Queued s + (if c then 1 else 0)" by (simp add: count_change_def Let_def)
      with step [OF split I True c] show ?thesis by simp
    qed
  qed (use start js env in \<open>simp_all add: new_plan_def\<close>)
  then have I2: "I ?rows (pl_Queued p1) w2" unfolding w2 by (rule env)
  from va obtain w3 where va: "VanishedFiles (pair_ID pr) (plan_vanished ?f (gated E pr) sample fn) p1 w2 = (Inr p2, w3)"
    and w': "w' = w3\<lparr>env := e\<rparr>" by blast
  from VanishedFiles_Inr [OF va] obtain e3 v3 e4 where
    s2: "streamE (plan_vanished ?f (gated E pr) sample fn) (vanished_rows (pair_ID pr) w2) p1 (w2\<lparr>env := e3\<rparr>) = (Inr p2, v3)"
    and w3: "w3 = v3\<lparr>env := e4\<rparr>" by blast
  have "I ?rows (pl_Queued p2) v3"
  proof (rule streamE_inv [OF s2, where I = "\<lambda>seen p v. I ?rows (pl_Queued p) v"])
    fix seen x rest s u s1 u1
    assume I: "I ?rows (pl_Queued s) u" and run: "plan_vanished ?f (gated E pr) sample fn x s u = (Inr s1, u1)"
    show "I ?rows (pl_Queued s1) u1"
    proof (cases "\<not> allows ?f (fst x) \<or> fst x = gated E pr")
      case True
      with run have "s1 = s\<lparr>pl_Excluded := pl_Excluded s + 1\<rparr>" "u1 = u" by (auto simp: plan_vanished_def returnE_run)
      with I show ?thesis by simp
    next
      case False
      let ?e = "\<lparr>pe_Path = fst x, pe_Op = OpDelete, pe_Size = 0, pe_SizeBefore = snd x, pe_MTime = 0\<rparr>"
      from False run obtain c where c: "fn ?e u = (Inr c, u1)" and "pl_Queued s1 = pl_Queued s + (if c then 1 else 0)"
        unfolding plan_vanished_def by (auto dest!: keep_Inr)
      with gone [OF I _ c] show ?thesis by simp
    qed
  qed (use I2 env in simp_all)
  then show ?thesis unfolding q w' w3 by (intro env)
qed

text \<open>
  (C22) The numbers of a plan are the numbers of the diff: additions, replacements and files that
  vanished, with their bytes, are counted over exactly the rows the filter lets through, the gated
  database never among the vanished; nothing a plan does writes a table.
\<close>

theorem plan_counts:
  assumes "Plan E pr sample w = (Inr p, w')"
  shows "counts_changed (newFilter pr (opt_JCC (en_opts E)))
       (changed_rows (pair_ID pr) (opt_MTimeTolerance (en_opts E)) w) p \<and>
     counts_vanished (newFilter pr (opt_JCC (en_opts E))) (gated E pr) (vanished_rows (pair_ID pr) w) p \<and>
     pl_Queued p = 0 \<and> tables w' = tables w"
proof -
  note run = assms [unfolded Plan_def]
  have "keeps (\<lambda>w w'. tables w' = tables w) (plan_run E pr sample (\<lambda>_. returnE False))"
    unfolding FreeSpace_def
    by (rule store.frame_plan_run, rule store.frame.keeps_return, unfold FreeSpace_def, rule store_free_space)
  from keepsD [OF this run] have "tables w' = tables w" .
  moreover have "pl_Queued p = 0"
    by (rule plan_run_inv [OF run, where I = "\<lambda>seen q v. q = 0"]) (auto simp: returnE_run)
  moreover have "keeps (\<lambda>w w'. truth w' = truth w) (returnE False)" by (rule truth.frame.keeps_return)
  note plan_run_counts [OF this run]
  ultimately show ?thesis by simp
qed

section \<open>The queue\<close>

definition queue_inv :: "engine \<Rightarrow> pair \<Rightarrow> world \<Rightarrow> diff_row list \<Rightarrow> int \<Rightarrow> world \<Rightarrow> bool" where
  "queue_inv E pr w seen q v \<longleftrightarrow>
     (let rows = filter (\<lambda>d. allows (newFilter pr (opt_JCC (en_opts E))) (d_Path d) \<and> d_Path d \<noteq> gated E pr) seen in
      jobs_wf v \<and> (\<forall>d \<in> set rows. has_job (pair_ID pr) d (jobs v)) \<and> q = int (length rows) \<and>
      (\<forall>j \<in> set (jobs v). j \<in> set (jobs w) \<or> job_key j \<in> (\<lambda>d. (pair_ID pr, d_Path d)) ` set rows))"

lemma EnqueueJob_only:
  assumes wf: "jobs_wf w" and run: "EnqueueJob pid path oper n mt w = (Inr i, w')" and j: "j \<in> set (jobs w')"
  shows "j \<in> set (jobs w) \<or> job_key j = (pid, path)"
proof (cases "job_ID j = i")
  case True
  obtain ms where enq: "enqueue_rows pid path oper n (UnixMilli mt) ms (jobs w) = (i, jobs w')"
    using EnqueueJob_Inr [OF wf run] by blast
  from keepsD [OF keeps_EnqueueJob run] wf have "job_rows_ok (jobs w')" by (simp add: jobs_wf_def)
  with enqueue_rows_job [OF jobs_wf_D(1) [OF wf] enq] j True job_rows_inj show ?thesis by metis
next
  case False
  obtain ms where enq: "enqueue_rows pid path oper n (UnixMilli mt) ms (jobs w) = (i, jobs w')"
    using EnqueueJob_Inr [OF wf run] by blast
  with enqueue_rows_others [OF enq] False j show ?thesis by blast
qed

lemma queue_inv_step:
  assumes I: "queue_inv E pr w seen q v" and ok: "allows (newFilter pr (opt_JCC (en_opts E))) (d_Path x)"
    and new: "d_Path x \<notin> d_Path ` set seen" and run: "enqueue_entry E pr (change_entry x) v = (Inr c, v')"
  shows "queue_inv E pr w (seen @ [x]) (q + (if c then 1 else 0)) v'"
proof (cases "d_Path x = gated E pr")
  case True
  with run have "c = False" "v' = v" by (auto simp: enqueue_entry_def change_entry_def returnE_run split: if_splits)
  with I True show ?thesis by (simp add: queue_inv_def Let_def)
next
  case False
  with run obtain i oper where enq: "EnqueueJob (pair_ID pr) (d_Path x) oper (d_Size x) (d_MTime x) v = (Inr i, v')" and c: "c"
    by (auto simp: enqueue_entry_def change_entry_def elim!: bindE_InrE returnE_InrE split: if_splits)
  from I have wf: "jobs_wf v" by (simp add: queue_inv_def Let_def)
  note enq_facts = EnqueueJob_has [OF wf enq] EnqueueJob_only [OF wf enq]
  let ?rows = "filter (\<lambda>d. allows (newFilter pr (opt_JCC (en_opts E))) (d_Path d) \<and> d_Path d \<noteq> gated E pr) seen"
  have rows: "filter (\<lambda>d. allows (newFilter pr (opt_JCC (en_opts E))) (d_Path d) \<and> d_Path d \<noteq> gated E pr) (seen @ [x]) =
      ?rows @ [x]" using ok False by simp
  have "\<forall>d \<in> set ?rows. has_job (pair_ID pr) d (jobs v')"
  proof
    fix d assume d: "d \<in> set ?rows"
    with new have "d_Path d \<noteq> d_Path x" by (auto simp: image_iff)
    with d I enq_facts(3) show "has_job (pair_ID pr) d (jobs v')" by (simp add: queue_inv_def Let_def)
  qed
  moreover have "j \<in> set (jobs w) \<or> job_key j \<in> (\<lambda>d. (pair_ID pr, d_Path d)) ` set (?rows @ [x])" if "j \<in> set (jobs v')" for j
    using enq_facts(4) [OF that] I unfolding queue_inv_def Let_def by auto
  ultimately show ?thesis
    using I c enq_facts(1,2) unfolding queue_inv_def Let_def rows by auto
qed

text \<open>
  (C23) Queueing what a plan says leaves, for every file of the diff that the filter allows and that
  is not the gated database, an open job with the size and the modification time the publisher
  has; it reports as many as there are, no other job of any pair is added, and of the jobs there
  were only failed ones of this pair may be gone.
\<close>

theorem enqueue_covers:
  assumes "manifest_wf w" and "jobs_wf w" and "Enqueue E pr w = (Inr p, w')"
  shows "(\<forall>d \<in> set (queued_rows E pr w). has_job (pair_ID pr) d (jobs w')) \<and>
     pl_Queued p = int (length (queued_rows E pr w)) \<and> jobs_wf w' \<and>
     (\<forall>j \<in> set (jobs w'). j \<in> set (jobs w) \<or> job_key j \<in> (\<lambda>d. (pair_ID pr, d_Path d)) ` set (queued_rows E pr w))"
proof -
  from assms(3) obtain t w1 w2 n where now: "now w = (Inr t, w1)"
    and run: "plan_run E pr 0 (enqueue_entry E pr) w1 = (Inr p, w2)"
    and drop: "DropFailedJobs (pair_ID pr) t w2 = (Inr n, w')"
    unfolding Enqueue_def by (auto elim!: bindE_InrE returnE_InrE)
  from now obtain e where w1: "w1 = w\<lparr>env := e\<rparr>" by (auto elim!: run_elims)
  have rows: "changed_rows (pair_ID pr) (opt_MTimeTolerance (en_opts E)) w1 =
      changed_rows (pair_ID pr) (opt_MTimeTolerance (en_opts E)) w"
    by (simp add: w1 changed_rows_def)
  have "distinct (map d_Path (changed_rows (pair_ID pr) (opt_MTimeTolerance (en_opts E)) w1))"
    using changed_rows_sorted [OF assms(1)] unfolding rows by (simp add: strict_sorted_iff)
  then have "queue_inv E pr w (changed_rows (pair_ID pr) (opt_MTimeTolerance (en_opts E)) w1) (pl_Queued p) w2"
    by (intro plan_run_inv [OF run, where I = "queue_inv E pr w"] queue_inv_step)
       (use assms(2) in \<open>auto simp: queue_inv_def Let_def w1 jobs_wf_def has_pair_def enqueue_entry_def returnE_run\<close>)
  then have I: "queue_inv E pr w (changed_rows (pair_ID pr) (opt_MTimeTolerance (en_opts E)) w) (pl_Queued p) w2"
    unfolding rows .
  have sub: "set (jobs w') \<subseteq> set (jobs w2)" and "jobs_wf w'"
    and still: "has_job (pair_ID pr) d (jobs w2) \<Longrightarrow> has_job (pair_ID pr) d (jobs w')" for d
    using DropFailedJobs_Inr [OF drop] keepsD [OF keeps_DropFailedJobs drop] I
    by (auto simp: sql_delete_def has_job_def queue_inv_def Let_def)
  with I show ?thesis unfolding queue_inv_def Let_def queued_rows_def by blast
qed

section \<open>Witnesses\<close>

definition demo_plan :: plan where
  "demo_plan = (case fst (Plan demo_engine demo_pair 10 demo_scan) of Inr p \<Rightarrow> p)"

definition demo_planned :: world where
  "demo_planned = snd (Plan demo_engine demo_pair 10 demo_scan)"

definition demo_queued :: world where
  "demo_queued = snd (Enqueue demo_engine demo_pair demo_scan)"

lemma demo_plan_run: "Plan demo_engine demo_pair 10 demo_scan = (Inr demo_plan, demo_planned)"
proof -
  have "isl (fst (Plan demo_engine demo_pair 10 demo_scan)) = False" by code_simp
  then show ?thesis unfolding demo_plan_def demo_planned_def
    by (cases "Plan demo_engine demo_pair 10 demo_scan") (auto split: sum.splits)
qed

theorem plan_counts_witness:
  "Transfers demo_plan = 2 \<and> pl_Vanished demo_plan =
     sql_count (\<lambda>v. allows (newFilter demo_pair (opt_JCC (en_opts demo_engine))) (fst v) \<and> fst v \<noteq> gated demo_engine demo_pair)
       (vanished_rows (pair_ID demo_pair) demo_scan)"
proof -
  have "Transfers demo_plan = 2" by code_simp
  with plan_counts [OF demo_plan_run] show ?thesis by (simp add: counts_vanished_def)
qed

lemma demo_queue_ok: "manifest_wf demo_scan" "jobs_wf demo_scan"
  by code_simp+

lemma demo_queue_run:
  "Enqueue demo_engine demo_pair demo_scan = (Inr (case fst (Enqueue demo_engine demo_pair demo_scan) of Inr p \<Rightarrow> p), demo_queued)"
proof -
  have "isl (fst (Enqueue demo_engine demo_pair demo_scan)) = False" by code_simp
  then show ?thesis unfolding demo_queued_def
    by (cases "Enqueue demo_engine demo_pair demo_scan") (auto split: sum.splits)
qed

theorem enqueue_covers_witness:
  "map d_Path (queued_rows demo_engine demo_pair demo_scan) = [''a.mp3'', ''d/b.mp3''] \<and>
   has_job (pair_ID demo_pair) (hd (queued_rows demo_engine demo_pair demo_scan)) (jobs demo_queued)"
proof -
  have rows: "map d_Path (queued_rows demo_engine demo_pair demo_scan) = [''a.mp3'', ''d/b.mp3'']" by code_simp
  then have "hd (queued_rows demo_engine demo_pair demo_scan) \<in> set (queued_rows demo_engine demo_pair demo_scan)"
    by (intro hd_in_set) auto
  with rows enqueue_covers [OF demo_queue_ok demo_queue_run] show ?thesis by simp
qed

end
