(* ===== verification/Calendar.thy ===== *)
theory Calendar
  imports GoStd
begin

text \<open>
  What the program uses of package \<open>time\<close> beyond instants and durations: the proleptic Gregorian
  calendar, locations as lists of offset changes, \<open>Date\<close> and the layouts \<open>2006-01-02\<close> and
  \<open>20060102-150405\<close>, and \<open>strconv\<close> on decimal numbers. An instant is nanoseconds since the epoch.
\<close>

section \<open>Decimal numbers\<close>

definition digit :: "int \<Rightarrow> char" where
  "digit n = char_of (48 + n)"

definition is_digit :: "char \<Rightarrow> bool" where
  "is_digit c = (48 \<le> (of_char c :: int) \<and> (of_char c :: int) \<le> 57)"

definition digits_val :: "string \<Rightarrow> int" where
  "digits_val s = foldl (\<lambda>a c. a * 10 + (of_char c - 48)) 0 s"

text \<open>\<open>appendInt\<close> with a width, and \<open>strconv.Itoa\<close>.\<close>

fun pad :: "nat \<Rightarrow> int \<Rightarrow> string" where
  "pad 0 n = []"
| "pad (Suc k) n = pad k (n div 10) @ [digit (n mod 10)]"

fun dec :: "nat \<Rightarrow> string" where
  "dec n = (if n < 10 then [digit (int n)] else dec (n div 10) @ [digit (int (n mod 10))])"

declare dec.simps [simp del]

definition Itoa :: "int \<Rightarrow> string" where
  "Itoa n = (if n < 0 then CHR ''-'' # dec (nat (- n)) else dec (nat n))"

definition Atoi :: "string \<Rightarrow> int option" where
  "Atoi s = (let neg = (take 1 s = ''-''); ds = (if take 1 s = ''-'' \<or> take 1 s = ''+'' then drop 1 s else s) in
     if ds = [] \<or> \<not> list_all is_digit ds then None
     else let n = (if neg then - digits_val ds else digits_val ds) in
          if - (2 ^ 63) \<le> n \<and> n < 2 ^ 63 then Some n else None)"

lemma of_char_digit: "0 \<le> n \<Longrightarrow> n < 10 \<Longrightarrow> (of_char (digit n) :: int) = 48 + n"
  by (simp add: digit_def)

lemma is_digit_digit [simp]: "0 \<le> n \<Longrightarrow> n < 10 \<Longrightarrow> is_digit (digit n)"
  by (simp add: is_digit_def of_char_digit)

lemma digits_val_Nil [simp]: "digits_val [] = 0"
  by (simp add: digits_val_def)

lemma digits_val_snoc [simp]: "0 \<le> n \<Longrightarrow> n < 10 \<Longrightarrow> digits_val (s @ [digit n]) = digits_val s * 10 + n"
  by (simp add: digits_val_def of_char_digit)

lemma length_pad [simp]: "length (pad k n) = k"
  by (induction k arbitrary: n) auto

lemma pad_digits [simp]: "list_all is_digit (pad k n)"
  by (induction k arbitrary: n) auto

lemma digits_val_pad: "0 \<le> n \<Longrightarrow> n < 10 ^ k \<Longrightarrow> digits_val (pad k n) = n"
proof (induction k arbitrary: n)
  case (Suc k)
  then have "n div 10 < 10 ^ k" by (simp add: div_less_iff_less_mult)
  with Suc show ?case by (simp add: pos_imp_zdiv_nonneg_iff)
qed simp

lemma dec_digits: "list_all is_digit (dec n) \<and> dec n \<noteq> []"
  by (induction n rule: dec.induct) (subst (1 2) dec.simps, simp)

lemma digits_val_dec: "digits_val (dec n) = int n"
proof (induction n rule: dec.induct)
  case (1 n)
  show ?case
  proof (cases "n < 10")
    case True
    then show ?thesis using digits_val_snoc [of "int n" "[]"] by (simp add: dec.simps)
  next
    case False
    then have "digits_val (dec n) = int (n div 10) * 10 + int (n mod 10)"
      using 1 by (subst dec.simps) simp
    also have "\<dots> = int n" by (simp add: zdiv_int zmod_int)
    finally show ?thesis .
  qed
qed

lemma is_digit_sign: "is_digit c \<Longrightarrow> c \<noteq> CHR ''-'' \<and> c \<noteq> CHR ''+''"
  by (auto simp: is_digit_def)

lemma Atoi_dec: "int n < 2 ^ 63 \<Longrightarrow> Atoi (dec n) = Some (int n)"
proof -
  assume bound: "int n < 2 ^ 63"
  obtain c cs where dec: "dec n = c # cs" using dec_digits by (metis neq_Nil_conv)
  then have "is_digit c" using dec_digits [of n] by simp
  with is_digit_sign have "c \<noteq> CHR ''-''" "c \<noteq> CHR ''+''" by auto
  with dec dec_digits [of n] digits_val_dec [of n] bound show ?thesis
    by (simp add: Atoi_def Let_def)
qed

section \<open>The calendar\<close>

definition leap :: "int \<Rightarrow> bool" where
  "leap y = (y mod 4 = 0 \<and> (y mod 100 \<noteq> 0 \<or> y mod 400 = 0))"

text \<open>Days from the start of year 1 to the start of year \<open>y\<close>.\<close>

definition year_start :: "int \<Rightarrow> int" where
  "year_start y = 365 * (y - 1) + (y - 1) div 4 - (y - 1) div 100 + (y - 1) div 400"

definition month_days :: "int \<Rightarrow> int list" where
  "month_days y = [31, if leap y then 29 else 28, 31, 30, 31, 30, 31, 31, 30, 31, 30, 31]"

definition epoch_days :: int where "epoch_days = 719162"

definition year_of :: "int \<Rightarrow> int" where
  "year_of d = (let y = (400 * d) div 146097 + 1 in if year_start (y + 1) \<le> d then y + 1 else y)"

fun split_month :: "int list \<Rightarrow> int \<Rightarrow> int \<times> int" where
  "split_month (n # ns) d = (if d < n then (1, d + 1) else (let (m, r) = split_month ns (d - n) in (m + 1, r)))"
| "split_month [] d = (1, d + 1)"

text \<open>The date of a day, counted from the epoch.\<close>

definition civil :: "int \<Rightarrow> int \<times> int \<times> int" where
  "civil z = (let d = z + epoch_days; y = year_of d; (m, day) = split_month (month_days y) (d - year_start y) in (y, m, day))"

definition days_of :: "int \<Rightarrow> int \<Rightarrow> int \<Rightarrow> int" where
  "days_of y m day = year_start y + sum_list (take (nat (m - 1)) (month_days y)) + (day - 1) - epoch_days"

definition days_in :: "int \<Rightarrow> int \<Rightarrow> int" where
  "days_in y m = month_days y ! nat (m - 1)"

lemma div_pred: "0 < k \<Longrightarrow> (y::int) div k = (y - 1) div k + (if y mod k = 0 then 1 else 0)"
proof (cases "y mod k = 0")
  case True
  assume k: "0 < k"
  have "y - 1 = k * (y div k - 1) + (k - 1)" using True by (simp add: algebra_simps) (metis add.commute mult.commute div_mult_mod_eq add_0)
  from int_div_pos_eq [OF this] k have "(y - 1) div k = y div k - 1" by simp
  with True show ?thesis by simp
next
  case False
  assume k: "0 < k"
  have "y - 1 = k * (y div k) + (y mod k - 1)" by simp
  moreover have "0 < y mod k" "y mod k < k" using k False pos_mod_sign [of k y] pos_mod_bound [of k y] by linarith+
  ultimately have "(y - 1) div k = y div k" using int_div_pos_eq [of "y - 1" k "y div k" "y mod k - 1"] by linarith
  with False show ?thesis by simp
qed

lemma mod_0_trans: "(y::int) mod (k * j) = 0 \<Longrightarrow> y mod k = 0"
  by (simp add: mod_eq_0_iff_dvd) (metis dvd_mult_left)

lemma year_start_Suc: "year_start (y + 1) = year_start y + sum_list (month_days y)"
proof -
  have count: "(if p \<and> (\<not> q \<or> r) then 29 else 28 :: int) =
      28 + (if p then 1 else 0) - (if q then 1 else 0) + (if r then 1 else 0)" if "q \<longrightarrow> p" "r \<longrightarrow> q" for p q r
    using that by (cases p; cases q; cases r) simp_all
  have "sum_list (month_days y) = 337 + (if leap y then 29 else 28)" by (simp add: month_days_def)
  also have "\<dots> = 365 + (if y mod 4 = 0 then 1 else 0) - (if y mod 100 = 0 then 1 else 0) + (if y mod 400 = 0 then 1 else 0)"
    unfolding leap_def using mod_0_trans [of y 4 25] mod_0_trans [of y 100 4] by (subst count) simp_all
  finally have "sum_list (month_days y) = 365 + (if y mod 4 = 0 then 1 else 0) - (if y mod 100 = 0 then 1 else 0) +
      (if y mod 400 = 0 then 1 else 0)" .
  moreover have "year_start (y + 1) = 365 * y + y div 4 - y div 100 + y div 400"
    by (simp add: year_start_def)
  ultimately show ?thesis
    unfolding year_start_def [of y] div_pred [of 4 y, simplified] div_pred [of 100 y, simplified] div_pred [of 400 y, simplified]
    by algebra
qed

lemma year_of_range: "year_start (year_of d) \<le> d \<and> d < year_start (year_of d + 1)"
proof -
  define y where "y = (400 * d) div 146097"
  have lo: "146097 * y \<le> 400 * d" and hi: "400 * d < 146097 * y + 146097"
    unfolding y_def by linarith+
  have est: "400 * year_start (k + 1) \<le> 146097 * k + 399" "146097 * k - 700 \<le> 400 * year_start (k + 1)" for k
  proof -
    have "400 * (k div 4) \<le> 100 * k" "100 * k - 300 \<le> 400 * (k div 4)" by linarith+
    moreover have "400 * (k div 100) \<le> 4 * k" "4 * k - 396 \<le> 400 * (k div 100)" by linarith+
    moreover have "400 * (k div 400) \<le> k" "k - 399 \<le> 400 * (k div 400)" by linarith+
    ultimately show "400 * year_start (k + 1) \<le> 146097 * k + 399" "146097 * k - 700 \<le> 400 * year_start (k + 1)"
      by (simp_all add: year_start_def)
  qed
  have "year_start (y + 1) \<le> d" using est(1) [of y] lo by linarith
  moreover have "d < year_start (y + 3)" using est(2) [of "y + 2"] hi by (simp add: add.commute)
  ultimately show ?thesis by (auto simp: year_of_def y_def [symmetric] Let_def add.assoc)
qed

lemma split_month_range:
  assumes "0 \<le> d" and "d < sum_list ns" and "split_month ns d = (m, day)"
  shows "1 \<le> m \<and> m \<le> int (length ns) \<and> 1 \<le> day \<and> day \<le> ns ! nat (m - 1) \<and>
    sum_list (take (nat (m - 1)) ns) + (day - 1) = d"
  using assms
proof (induction ns d arbitrary: m day rule: split_month.induct)
  case (1 n ns d)
  show ?case
  proof (cases "d < n")
    case True
    with 1 show ?thesis by auto
  next
    case False
    then obtain m' where rest: "split_month ns (d - n) = (m', day)" and m: "m = m' + 1"
      using 1(4) by (auto split: prod.splits)
    have IH: "1 \<le> m' \<and> m' \<le> int (length ns) \<and> 1 \<le> day \<and> day \<le> ns ! nat (m' - 1) \<and>
        sum_list (take (nat (m' - 1)) ns) + (day - 1) = d - n"
      using False 1(3) by (intro 1(1) rest) auto
    moreover have "nat m' = Suc (nat (m' - 1))" using IH by linarith
    ultimately show ?thesis by (auto simp: m)
  qed
qed simp

lemma civil_range:
  assumes "civil z = (y, m, day)"
  shows "1 \<le> m \<and> m \<le> 12 \<and> 1 \<le> day \<and> day \<le> days_in y m" and "days_of y m day = z"
proof -
  define d where "d = z + epoch_days"
  from assms have y: "y = year_of d" and split: "split_month (month_days y) (d - year_start y) = (m, day)"
    by (auto simp: civil_def d_def Let_def split: prod.splits)
  have "0 \<le> d - year_start y" "d - year_start y < sum_list (month_days y)"
    using year_of_range [of d] year_start_Suc [of y] by (simp_all add: y)
  note r = split_month_range [OF this split]
  moreover have "length (month_days y) = 12" by (simp add: month_days_def)
  ultimately show "1 \<le> m \<and> m \<le> 12 \<and> 1 \<le> day \<and> day \<le> days_in y m" by (simp add: days_in_def)
  from r show "days_of y m day = z" by (simp add: days_of_def d_def)
qed

lemma days_in_le: "1 \<le> m \<Longrightarrow> m \<le> 12 \<Longrightarrow> days_in y m \<le> 31"
proof -
  assume "1 \<le> m" "m \<le> 12"
  then have "m = 1 \<or> m = 2 \<or> m = 3 \<or> m = 4 \<or> m = 5 \<or> m = 6 \<or> m = 7 \<or> m = 8 \<or> m = 9 \<or> m = 10 \<or> m = 11 \<or> m = 12"
    by presburger
  then show ?thesis by (auto simp: days_in_def month_days_def)
qed

section \<open>Locations\<close>

text \<open>
  A \<open>time.Location\<close>: the offset from UTC in seconds before the first change, and the changes in
  ascending order, each the second it takes effect and the offset from then on.
\<close>

record location =
  loc_first :: int
  loc_changes :: "(int \<times> int) list"

definition loc_offset :: "location \<Rightarrow> int \<Rightarrow> int" where
  "loc_offset l sec = (case takeWhile (\<lambda>c. fst c \<le> sec) (loc_changes l) of [] \<Rightarrow> loc_first l | cs \<Rightarrow> snd (last cs))"

text \<open>Whether two instants lie in the same stretch of one offset.\<close>

definition loc_same :: "location \<Rightarrow> int \<Rightarrow> int \<Rightarrow> bool" where
  "loc_same l a b = list_all (\<lambda>c. (fst c \<le> a) = (fst c \<le> b)) (loc_changes l)"

definition unix_sec :: "time \<Rightarrow> int" where
  "unix_sec t = t div 1000000000"

definition local_sec :: "location \<Rightarrow> time \<Rightarrow> int" where
  "local_sec l t = unix_sec t + loc_offset l (unix_sec t)"

definition Weekday :: "location \<Rightarrow> time \<Rightarrow> int" where
  "Weekday l t = (local_sec l t div 86400 + 4) mod 7"

definition HourOf :: "location \<Rightarrow> time \<Rightarrow> int" where
  "HourOf l t = local_sec l t mod 86400 div 3600"

definition Date :: "location \<Rightarrow> time \<Rightarrow> int \<times> int \<times> int" where
  "Date l t = civil (local_sec l t div 86400)"

text \<open>\<open>time.Date\<close> guesses the offset at the wall clock read as UTC and corrects it once.\<close>

definition time_Date :: "location \<Rightarrow> int \<times> int \<times> int \<Rightarrow> int \<Rightarrow> time" where
  "time_Date l ymd secs =
     (let (y, m, d) = ymd; wall = days_of y m d * 86400 + secs; off = loc_offset l wall;
          sec = (if off = 0 then wall
                 else if loc_same l wall (wall - off) then wall - off
                 else wall - loc_offset l (wall - off))
      in sec * 1000000000)"

definition UTC :: location where
  "UTC = \<lparr>loc_first = 0, loc_changes = []\<rparr>"

text \<open>A location that never changes its offset.\<close>

definition fixed :: "location \<Rightarrow> bool" where
  "fixed l \<longleftrightarrow> loc_changes l = []"

lemma loc_offset_fixed [simp]: "fixed l \<Longrightarrow> loc_offset l sec = loc_first l"
  by (simp add: fixed_def loc_offset_def)

lemma loc_same_fixed [simp]: "fixed l \<Longrightarrow> loc_same l a b"
  by (simp add: fixed_def loc_same_def)

lemma time_Date_Date:
  assumes "fixed l"
  shows "time_Date l (Date l t) secs = (local_sec l t div 86400 * 86400 + secs - loc_first l) * 1000000000"
proof -
  obtain y m d where c: "civil (local_sec l t div 86400) = (y, m, d)" by (metis prod_cases3)
  from civil_range(2) [OF c] assms show ?thesis
    by (simp add: time_Date_def Date_def c Let_def)
qed

section \<open>Layouts\<close>

definition year_text :: "int \<Rightarrow> string" where
  "year_text y = (if 0 \<le> y \<and> y \<le> 9999 then pad 4 y else Itoa y)"

text \<open>\<open>Format("2006-01-02")\<close> and \<open>Format("20060102-150405")\<close>\<close>

definition format_day :: "location \<Rightarrow> time \<Rightarrow> string" where
  "format_day l t = (let (y, m, d) = Date l t in year_text y @ ''-'' @ pad 2 m @ ''-'' @ pad 2 d)"

definition format_stamp :: "location \<Rightarrow> time \<Rightarrow> string" where
  "format_stamp l t = (let (y, m, d) = Date l t; s = local_sec l t mod 86400 in
     year_text y @ pad 2 m @ pad 2 d @ ''-'' @ pad 2 (s div 3600) @ pad 2 (s mod 3600 div 60) @ pad 2 (s mod 60))"

text \<open>\<open>ParseInLocation("2006-01-02")\<close>: four digits, two and two, and a day the month has.\<close>

definition parse_day :: "location \<Rightarrow> string \<Rightarrow> time option" where
  "parse_day l s =
     (let y = digits_val (take 4 s); m = digits_val (take 2 (drop 5 s)); d = digits_val (take 2 (drop 8 s)) in
      if length s = 10 \<and> list_all is_digit (take 4 s) \<and> s ! 4 = CHR ''-'' \<and> list_all is_digit (take 2 (drop 5 s)) \<and>
         s ! 7 = CHR ''-'' \<and> list_all is_digit (take 2 (drop 8 s)) \<and> 1 \<le> m \<and> m \<le> 12 \<and> 1 \<le> d \<and> d \<le> days_in y m
      then Some (time_Date l (y, m, d) 0) else None)"

lemma parse_format_day:
  assumes "Date l t = (y, m, d)" and "0 \<le> y" and "y \<le> 9999"
  shows "parse_day l (format_day l t) = Some (time_Date l (y, m, d) 0)"
proof -
  have r: "1 \<le> m" "m \<le> 12" "1 \<le> d" "d \<le> days_in y m" using civil_range(1) assms(1) by (auto simp: Date_def)
  with days_in_le have "d \<le> 31" by (meson order_trans)
  with r assms(2,3) have v: "digits_val (pad 4 y) = y" "digits_val (pad 2 m) = m" "digits_val (pad 2 d) = d"
    by (auto intro!: digits_val_pad)
  define s where "s = pad 4 y @ ''-'' @ pad 2 m @ ''-'' @ pad 2 d"
  have s: "take 4 s = pad 4 y" "s ! 4 = CHR ''-''" "take 2 (drop 5 s) = pad 2 m" "s ! 7 = CHR ''-''"
    "take 2 (drop 8 s) = pad 2 d" "length s = 10"
    by (simp_all add: s_def nth_append)
  have "format_day l t = s" using assms by (simp add: format_day_def year_text_def s_def)
  then show ?thesis unfolding parse_day_def by (simp add: s v r)
qed

text \<open>A day that is formatted and read back is the midnight it began with.\<close>

lemma parse_format_midnight:
  assumes "fixed l" and "0 \<le> fst (Date l t)" and "fst (Date l t) \<le> 9999"
  shows "\<exists>m. parse_day l (format_day l t) = Some m \<and> m \<le> t \<and> t < m + 24 * Hour"
proof -
  obtain y mo d where D: "Date l t = (y, mo, d)" by (metis prod_cases3)
  define m where "m = time_Date l (y, mo, d) 0"
  have m: "m = (local_sec l t div 86400 * 86400 - loc_first l) * 1000000000"
    using time_Date_Date [OF assms(1), of t 0] by (simp add: m_def D)
  define u where "u = unix_sec t"
  have u: "u * 1000000000 \<le> t" "t < u * 1000000000 + 1000000000" unfolding u_def unix_sec_def by linarith+
  define q where "q = (u + loc_first l) div 86400"
  have q: "q * 86400 \<le> u + loc_first l" "u + loc_first l < q * 86400 + 86400" unfolding q_def by linarith+
  have "m = (q * 86400 - loc_first l) * 1000000000"
    using assms(1) by (simp add: m local_sec_def q_def u_def)
  with u q have "m \<le> t" "t < m + 24 * Hour" by (simp_all add: Hour_def)
  with parse_format_day [OF D] assms D show ?thesis by (auto simp: m_def)
qed

end
