(* ===== verification/Trash.thy ===== *)
theory Trash
  imports Disk Calendar
begin

text \<open>
  The quarantine, \<open>engine/trash.go\<close>: a deleted file of a guarded pair is moved below the day's
  directory of \<open>.jccmirror/trash\<close>, can be moved back, and is removed for good once the retention of
  its day has run out. \<open>time.Local\<close> is the argument \<open>l\<close> of the operations that use it.
\<close>

section \<open>Reading directories\<close>

definition children :: "disk \<Rightarrow> string \<Rightarrow> string list" where
  "children d p = sort (remdups (filter (\<lambda>q. q \<noteq> p \<and> path_Dir q = p) (map fst d)))"

text \<open>\<open>os.ReadDir\<close>: the entries by name, with the kind each has at that moment.\<close>

definition os_ReadDir :: "string \<Rightarrow> (string \<times> fnode) list op" where
  "os_ReadDir p = exec (\<lambda>w. case node (fs w) p of
     None \<Rightarrow> Inl ENotExist
   | Some (FFile _ _) \<Rightarrow> Inl (EOS 20)
   | Some FDir \<Rightarrow> Inr (map (\<lambda>q. (path_Base q, the (node (fs w) q))) (children (fs w) p), w))"

text \<open>
  \<open>filepath.WalkDir\<close> with a callback that hands every error it is given back, as both callers do;
  the callback returns whether the directory is to be skipped. A path grows with every level,
  so the longest path of the disk bounds the depth.
\<close>

fun walk_dir :: "nat \<Rightarrow> (string \<Rightarrow> fnode \<Rightarrow> 's \<Rightarrow> ('s \<times> bool) op) \<Rightarrow> string \<Rightarrow> fnode \<Rightarrow> 's \<Rightarrow> 's op" where
  "walk_dir fuel fn p n s =
     bindE (fn p n s) (\<lambda>(s, skip).
       if n \<noteq> FDir \<or> skip then returnE s
       else bindE (os_ReadDir p) (\<lambda>entries. case fuel of
              0 \<Rightarrow> returnE s
            | Suc k \<Rightarrow> foldE (\<lambda>e s. walk_dir k fn (path_Join [p, fst e]) (snd e) s) entries s))"

declare walk_dir.simps [simp del]

definition disk_depth :: "disk \<Rightarrow> nat" where
  "disk_depth d = foldr max (map (length \<circ> fst) d) 0"

definition WalkDir :: "string \<Rightarrow> (string \<Rightarrow> fnode \<Rightarrow> 's \<Rightarrow> ('s \<times> bool) op) \<Rightarrow> 's \<Rightarrow> 's op" where
  "WalkDir root fn s w = bindE (os_Lstat root) (\<lambda>n. walk_dir (disk_depth (fs w)) fn root n s) w"

text \<open>\<open>os.RemoveAll\<close>: what is below first, the path itself last; what is not there is no error.\<close>

definition remove_gone :: "string \<Rightarrow> unit op" where
  "remove_gone p = bindE (tryE (os_Remove p)) (\<lambda>r. case r of
     Inr _ \<Rightarrow> returnE () | Inl e \<Rightarrow> if errors_Is e ENotExist then returnE () else throwE e)"

definition os_RemoveAll :: "string \<Rightarrow> unit op" where
  "os_RemoveAll p = bindE (query (\<lambda>w. rev (sort_key length (filter (below p) (map fst (fs w)))))) (\<lambda>qs.
     bindE (forE qs remove_gone) (\<lambda>_. remove_gone p))"

section \<open>Operations\<close>

definition TrashDir :: string where "TrashDir = ''trash''"

record trash_day =
  td_Day :: string
  td_Path :: string
  td_Files :: int
  td_Bytes :: int
  td_Expires :: "time option"

definition Expired :: "trash_day \<Rightarrow> time \<Rightarrow> bool" where
  "Expired d at = (case td_Expires d of None \<Rightarrow> False | Some t \<Rightarrow> t < at)"

definition trashRoot :: "pair \<Rightarrow> string" where
  "trashRoot pr = path_Join [pair_LocalPath pr, PartDir, TrashDir]"

definition trashDirFor :: "location \<Rightarrow> pair \<Rightarrow> time \<Rightarrow> string" where
  "trashDirFor l pr at = path_Join [trashRoot pr, format_day l at]"

text \<open>The candidates of a name, in the order they are tried.\<close>

definition candidate :: "string \<Rightarrow> nat \<Rightarrow> string" where
  "candidate base i = (if i = 0 then base else base @ ''.'' @ dec i)"

fun free_name :: "nat \<Rightarrow> nat \<Rightarrow> string \<Rightarrow> string op" where
  "free_name 0 i base = throwE (EMsg ''already quarantined a hundred times over'')"
| "free_name (Suc k) i base =
     bindE (tryE (os_Lstat (candidate base i))) (\<lambda>r. case r of
       Inr _ \<Rightarrow> free_name k (Suc i) base
     | Inl e \<Rightarrow> if errors_Is e ENotExist then returnE (candidate base i)
                else throwE (EWrap ''check the quarantine path'' e))"

definition trashPath :: "string \<Rightarrow> string \<Rightarrow> string op" where
  "trashPath dir rel = free_name 100 0 (path_Join [dir, rel])"

definition count_node :: "string \<Rightarrow> fnode \<Rightarrow> int \<times> int \<Rightarrow> ((int \<times> int) \<times> bool) op" where
  "count_node p n s = (if n = FDir then returnE (s, False)
     else bindE (query (\<lambda>_. ())) (\<lambda>_. returnE ((fst s + 1, snd s + node_size n), False)))"

definition trash_entry :: "location \<Rightarrow> pair \<Rightarrow> duration \<Rightarrow> string \<times> fnode \<Rightarrow> trash_day list \<Rightarrow> trash_day list op" where
  "trash_entry l pr retention e out =
     (if snd e \<noteq> FDir then returnE out
      else case parse_day l (fst e) of
        None \<Rightarrow> returnE out
      | Some day \<Rightarrow>
          let path = path_Join [trashRoot pr, fst e] in
          bindE (wrapE ''read the quarantine'' (WalkDir path count_node (0, 0))) (\<lambda>(n, b).
          returnE (out @ [\<lparr>td_Day = fst e, td_Path = path, td_Files = n, td_Bytes = b,
            td_Expires = (if retention > 0 then Some (day + retention) else None)\<rparr>])))"

definition Trash :: "location \<Rightarrow> pair \<Rightarrow> duration \<Rightarrow> trash_day list op" where
  "Trash l pr retention =
     bindE (tryE (os_ReadDir (trashRoot pr))) (\<lambda>r. case r of
       Inl e \<Rightarrow> if errors_Is e ENotExist then returnE [] else throwE (EWrap ''read the quarantine'' e)
     | Inr entries \<Rightarrow> bindE (foldE (trash_entry l pr retention) entries []) (\<lambda>out.
         returnE (rev (sort_key td_Day out))))"

text \<open>The days removed before the first error, and the error.\<close>

fun prune_days :: "time \<Rightarrow> trash_day list \<Rightarrow> trash_day list \<Rightarrow> (trash_day list \<times> error option) op" where
  "prune_days at [] removed = returnE (removed, None)"
| "prune_days at (d # ds) removed =
     (if \<not> Expired d at then prune_days at ds removed
      else bindE (tryE (os_RemoveAll (td_Path d))) (\<lambda>r. case r of
             Inl e \<Rightarrow> returnE (removed, Some (EWrap ''empty the quarantine'' e))
           | Inr _ \<Rightarrow> prune_days at ds (removed @ [d])))"

definition PruneTrash :: "location \<Rightarrow> pair \<Rightarrow> duration \<Rightarrow> time \<Rightarrow> (trash_day list \<times> error option) op" where
  "PruneTrash l pr retention at =
     (if retention \<le> 0 then returnE ([], None)
      else bindE (tryE (Trash l pr retention)) (\<lambda>r. case r of
             Inl e \<Rightarrow> returnE ([], Some e)
           | Inr days \<Rightarrow> prune_days at days []))"

record restored =
  rs_Path :: string
  rs_From :: string
  rs_Size :: int

fun restore_from :: "pair \<Rightarrow> string \<Rightarrow> string \<Rightarrow> trash_day list \<Rightarrow> restored op" where
  "restore_from pr day rel [] = throwE (EMsg ''not in the quarantine'')"
| "restore_from pr day rel (d # ds) =
     (if day \<noteq> [] \<and> td_Day d \<noteq> day then restore_from pr day rel ds
      else let src = path_Join [td_Path d, rel]; dst = localPath pr rel in
        bindE (tryE (os_Stat src)) (\<lambda>r. case r of
          Inl e \<Rightarrow> if errors_Is e ENotExist then restore_from pr day rel ds
                   else throwE (EWrap ''read from the quarantine'' e)
        | Inr st \<Rightarrow>
            bindE (tryE (os_Lstat dst)) (\<lambda>q. case q of
              Inr _ \<Rightarrow> throwE (EMsg ''already back in place; nothing was moved'')
            | Inl _ \<Rightarrow>
                bindE (wrapE ''create'' (makeDir pr (path_Dir dst))) (\<lambda>_.
                bindE (wrapE ''restore'' (os_Rename src dst)) (\<lambda>_.
                returnE \<lparr>rs_Path = rel, rs_From = src, rs_Size = node_size st\<rparr>)))))"

definition RestoreTrash :: "location \<Rightarrow> pair \<Rightarrow> string \<Rightarrow> string \<Rightarrow> restored op" where
  "RestoreTrash l pr day relpath =
     (let rel = Trim (TrimSpace relpath) ''/'' in
      if rel = [] then throwE (EMsg ''no path to restore'')
      else bindE (Trash l pr 0) (\<lambda>days. restore_from pr day rel days))"

text \<open>Every step of the climb makes the path shorter.\<close>

fun prune_up :: "nat \<Rightarrow> string \<Rightarrow> string \<Rightarrow> string \<Rightarrow> unit op" where
  "prune_up fuel root part dir =
     (if dir \<noteq> root \<and> HasPrefix dir (root @ ''/'') \<and> dir \<noteq> part
      then bindE (tryE (os_Remove dir)) (\<lambda>r. case r of
             Inl _ \<Rightarrow> returnE ()
           | Inr _ \<Rightarrow> (case fuel of 0 \<Rightarrow> returnE () | Suc k \<Rightarrow> prune_up k root part (path_Dir dir)))
      else returnE ())"

declare prune_up.simps [simp del]

definition pruneEmptyDirs :: "pair \<Rightarrow> string \<Rightarrow> unit op" where
  "pruneEmptyDirs pr rel =
     (let root = path_Clean (pair_LocalPath pr); dir = path_Dir (localPath pr rel)
      in prune_up (length dir) root (path_Join [root, PartDir]) dir)"

end
