(* ===== verification/Reap.thy ===== *)
theory Reap
  imports Trash Planning
begin

text \<open>
  The deletion phase, \<open>engine/reap.go\<close>: the guards in front of it, the approvals a person gives,
  the pages it reads what vanished in, and the removal of each file.
\<close>

section \<open>Operations\<close>

record reap_result =
  rr_PairID :: int
  rr_PairName :: string
  rr_Mode :: pair_mode
  rr_Deleted :: int
  rr_Bytes :: int
  rr_Missing :: int
  rr_Failed :: int
  rr_Blocked :: "approval option"
  rr_Approved :: "approval option"
  rr_Skipped :: string
  rr_Pruned :: "trash_day list"
  rr_PrunedBytes :: int
  rr_Duration :: duration

definition vanishedPage :: int where "vanishedPage = 1000"

text \<open>
  The rows of one page: what the filter refuses and the gated database are stepped over. \<open>fn\<close> is
  what the caller does with a row; its error ends the pass. The state, how many rows counted
  and their bytes come back with the error.
\<close>

fun each_vanished :: "filter_rules \<Rightarrow> string \<Rightarrow> (string \<Rightarrow> int \<Rightarrow> 's \<Rightarrow> ('s \<times> error option) op) \<Rightarrow>
    (string \<times> int) list \<Rightarrow> 's \<times> int \<times> int \<Rightarrow> (('s \<times> int \<times> int) \<times> error option) op" where
  "each_vanished f gate fn [] acc = returnE (acc, None)"
| "each_vanished f gate fn (v # vs) (s, n, b) =
     (if \<not> allows f (fst v) \<or> fst v = gate then each_vanished f gate fn vs (s, n, b)
      else bindE (fn (fst v) (snd v) s) (\<lambda>(s', err). case err of
             Some e \<Rightarrow> returnE ((s', n + 1, b + snd v), Some e)
           | None \<Rightarrow> each_vanished f gate fn vs (s', n + 1, b + snd v)))"

fun vanished_loop :: "nat \<Rightarrow> engine \<Rightarrow> pair \<Rightarrow> (string \<Rightarrow> int \<Rightarrow> 's \<Rightarrow> ('s \<times> error option) op) \<Rightarrow> string \<Rightarrow>
    's \<times> int \<times> int \<Rightarrow> (('s \<times> int \<times> int) \<times> error option) op" where
  "vanished_loop fuel E pr fn after acc =
     bindE (tryE (VanishedPage (pair_ID pr) after vanishedPage)) (\<lambda>r. case r of
       Inl e \<Rightarrow> returnE (acc, Some e)
     | Inr page \<Rightarrow>
        if page = [] then returnE (acc, None)
        else bindE (each_vanished (newFilter pr (opt_JCC (en_opts E))) (gated E pr) fn page acc) (\<lambda>(acc, err).
          case err of
            Some e \<Rightarrow> returnE (acc, Some e)
          | None \<Rightarrow> (case fuel of
              0 \<Rightarrow> returnE (acc, None)
            | Suc k \<Rightarrow> vanished_loop k E pr fn (fst (last page)) acc)))"

declare vanished_loop.simps [simp del]

text \<open>A page ends further along the paths than the one before, so there are no more pages than rows.\<close>

definition vanished :: "engine \<Rightarrow> pair \<Rightarrow> (string \<Rightarrow> int \<Rightarrow> 's \<Rightarrow> ('s \<times> error option) op) \<Rightarrow> 's \<Rightarrow>
    (('s \<times> int \<times> int) \<times> error option) op" where
  "vanished E pr fn s w = vanished_loop (length (files w)) E pr fn [] (s, 0, 0) w"

text \<open>The decision on a deletion the guards stopped: the result, and whether it goes ahead.\<close>

definition hold :: "pair \<Rightarrow> int \<Rightarrow> int \<Rightarrow> int \<Rightarrow> string \<Rightarrow> reap_result \<Rightarrow> (reap_result \<times> bool) op" where
  "hold pr sid n bytes reason res =
     bindE (LatestApproval (pair_ID pr)) (\<lambda>latest.
       let ask = bindE (RequestDeleteApproval (pair_ID pr) sid n bytes reason) (\<lambda>blocked.
             let res = res\<lparr>rr_Blocked := Some blocked\<rparr> in
             case latest of
               Some a \<Rightarrow> if a_ID a = a_ID blocked \<and> a_ScanID a = a_ScanID blocked \<and> a_Files a = a_Files blocked
                         then returnE (res, False)
                         else bindE (event LevelWarn KindDeleteBlocked (pair_ID pr)) (\<lambda>_. returnE (res, False))
             | None \<Rightarrow> bindE (event LevelWarn KindDeleteBlocked (pair_ID pr)) (\<lambda>_. returnE (res, False)))
       in case latest of
            Some a \<Rightarrow> if Covers a sid n then returnE (res\<lparr>rr_Approved := Some a\<rparr>, True)
                      else if Refuses a sid n then returnE (res\<lparr>rr_Skipped := ''refused''\<rparr>, False)
                      else ask
          | None \<Rightarrow> ask)"

definition removeOne :: "pair \<Rightarrow> string \<Rightarrow> string \<Rightarrow> string \<Rightarrow> unit op" where
  "removeOne pr dir src rel =
     (if dir = [] then os_Remove src
      else bindE (trashPath dir rel) (\<lambda>dst.
           bindE (makeDir pr (path_Dir dst)) (\<lambda>_. os_Rename src dst)))"

text \<open>What the pass counts: deleted, bytes, missing, failed.\<close>

record tally =
  ta_Deleted :: int
  ta_Bytes :: int
  ta_Missing :: int
  ta_Failed :: int

definition forget :: "pair \<Rightarrow> string \<Rightarrow> int \<Rightarrow> tally \<Rightarrow> (tally \<times> error option) op" where
  "forget pr rel n t =
     bindE (tryE (ForgetFile (pair_ID pr) rel)) (\<lambda>r. case r of
       Inl e \<Rightarrow> returnE (t, Some e)
     | Inr _ \<Rightarrow> bindE (change (change_of (pair_ID pr) rel ChangeDelete (Some n) None None)) (\<lambda>_. returnE (t, None)))"

definition remove_file :: "pair \<Rightarrow> string \<Rightarrow> string \<Rightarrow> int \<Rightarrow> tally \<Rightarrow> (tally \<times> error option) op" where
  "remove_file pr dir rel n t =
     bindE ctx_Err (\<lambda>c. case c of
       Some e \<Rightarrow> returnE (t, Some e)
     | None \<Rightarrow>
        let src = localPath pr rel in
        bindE (tryE (os_Lstat src)) (\<lambda>st. case st of
          Inl e \<Rightarrow> if errors_Is e ENotExist then forget pr rel n (t\<lparr>ta_Missing := ta_Missing t + 1\<rparr>)
                   else returnE (t\<lparr>ta_Failed := ta_Failed t + 1\<rparr>, None)
        | Inr _ \<Rightarrow>
            bindE (tryE (removeOne pr dir src rel)) (\<lambda>r. case r of
              Inl _ \<Rightarrow> returnE (t\<lparr>ta_Failed := ta_Failed t + 1\<rparr>, None)
            | Inr _ \<Rightarrow>
                bindE (pruneEmptyDirs pr rel) (\<lambda>_.
                forget pr rel n (t\<lparr>ta_Deleted := ta_Deleted t + 1, ta_Bytes := ta_Bytes t + n\<rparr>)))))"

definition no_tally :: tally where
  "no_tally = \<lparr>ta_Deleted = 0, ta_Bytes = 0, ta_Missing = 0, ta_Failed = 0\<rparr>"

definition remove :: "location \<Rightarrow> engine \<Rightarrow> pair \<Rightarrow> (tally \<times> error option) op" where
  "remove l E pr =
     bindE (if pair_Mode pr = ModeGuarded
            then bindE now (\<lambda>t. let dir = trashDirFor l pr t in
                 bindE (wrapE ''create the quarantine directory'' (makeDir pr dir)) (\<lambda>_. returnE dir))
            else returnE []) (\<lambda>dir.
     bindE (vanished E pr (remove_file pr dir) no_tally) (\<lambda>((t, n, b), err). returnE (t, err)))"

definition pruneTrash :: "location \<Rightarrow> engine \<Rightarrow> pair \<Rightarrow> reap_result \<Rightarrow> reap_result op" where
  "pruneTrash l E pr res =
     bindE now (\<lambda>t.
     bindE (PruneTrash l pr (opt_TrashRetention (en_opts E)) t) (\<lambda>(removed, err).
       if removed = [] then returnE res
       else bindE (event LevelInfo KindTrashPruned (pair_ID pr)) (\<lambda>_.
            returnE (res\<lparr>rr_Pruned := removed, rr_PrunedBytes := sum_list (map td_Bytes removed)\<rparr>))))"

definition new_reap :: "pair \<Rightarrow> reap_result" where
  "new_reap pr = \<lparr>rr_PairID = pair_ID pr, rr_PairName = pair_Name pr, rr_Mode = pair_Mode pr, rr_Deleted = 0, rr_Bytes = 0,
     rr_Missing = 0, rr_Failed = 0, rr_Blocked = None, rr_Approved = None, rr_Skipped = '''', rr_Pruned = [],
     rr_PrunedBytes = 0, rr_Duration = 0\<rparr>"

text \<open>The removal itself, once every guard has let it through.\<close>

definition reap_act :: "location \<Rightarrow> engine \<Rightarrow> pair \<Rightarrow> reap_result \<Rightarrow> (reap_result \<times> error option) op" where
  "reap_act l E pr res =
     bindE (tryE (remove l E pr)) (\<lambda>r. case r of
       Inl e \<Rightarrow> returnE (res, Some e)
     | Inr (t, err) \<Rightarrow>
        let res = res\<lparr>rr_Deleted := ta_Deleted t, rr_Bytes := ta_Bytes t, rr_Missing := ta_Missing t, rr_Failed := ta_Failed t\<rparr> in
        case err of
          Some e \<Rightarrow> returnE (res, Some e)
        | None \<Rightarrow>
           bindE (tryE (case rr_Approved res of None \<Rightarrow> returnE () | Some a \<Rightarrow> UseApproval (a_ID a))) (\<lambda>u. case u of
             Inl e \<Rightarrow> returnE (res, Some e)
           | Inr _ \<Rightarrow>
              bindE (event (if rr_Failed res > 0 then LevelWarn else LevelInfo) KindDeleted (pair_ID pr)) (\<lambda>_.
              returnE (res, None))))"

text \<open>The guard of a guarded pair: whether the deletion goes ahead.\<close>

definition reap_guard :: "engine \<Rightarrow> pair \<Rightarrow> int \<Rightarrow> int \<Rightarrow> int \<Rightarrow> reap_result \<Rightarrow> (reap_result \<times> bool) op" where
  "reap_guard E pr sid n bytes res =
     (if pair_Mode pr \<noteq> ModeGuarded then returnE (res, True)
      else bindE (FileStats (pair_ID pr)) (\<lambda>(held, _).
        let reason = guardTrip pr (opt_DeletePercent (en_opts E)) n held in
        if reason = '''' then returnE (res, True) else hold pr sid n bytes reason res))"

definition open_jobs :: "job_queue \<Rightarrow> int" where
  "open_jobs q = q_Counts q JobPending + q_Counts q JobRunning + q_Counts q JobVerifying"

text \<open>Everything after the quarantine is pruned; an error comes with the result it left.\<close>

definition reap_guarded :: "location \<Rightarrow> engine \<Rightarrow> pair \<Rightarrow> reap_result \<Rightarrow> (reap_result \<times> error option) op" where
  "reap_guarded l E pr res =
     (if pair_Mode pr = ModeAdditive then returnE (res\<lparr>rr_Skipped := ''additive''\<rparr>, None)
      else bindE (LastCompletedScan (pair_ID pr)) (\<lambda>found. case found of
        None \<Rightarrow> throwE (EWrap ''pair'' ENoManifest)
      | Some sc \<Rightarrow>
         bindE (ManifestStats (pair_ID pr)) (\<lambda>(remoteFiles, _).
         if remoteFiles = 0 then throwE (EMsg ''the manifest holds no files at all'')
         else bindE (Queue (pair_ID pr)) (\<lambda>q.
         if open_jobs q > 0 then returnE (res\<lparr>rr_Skipped := ''transfers are still queued''\<rparr>, None)
         else bindE (vanished E pr (\<lambda>_ _ s. returnE (s, None)) ()) (\<lambda>((_, n, bytes), err). case err of
           Some e \<Rightarrow> throwE e
         | None \<Rightarrow>
            if n = 0 then returnE (res\<lparr>rr_Skipped := ''the publisher still has everything we hold''\<rparr>, None)
            else bindE (reap_guard E pr (scan_ID sc) n bytes res) (\<lambda>(res, ahead).
                 if \<not> ahead then returnE (res, None) else reap_act l E pr res))))))"

definition Reap :: "location \<Rightarrow> engine \<Rightarrow> pair \<Rightarrow> (reap_result \<times> error option) op" where
  "Reap l E pr =
     bindE now (\<lambda>started.
     bindE (pruneTrash l E pr (new_reap pr)) (\<lambda>res.
     bindE (tryE (reap_guarded l E pr res)) (\<lambda>r.
     bindE now (\<lambda>t. returnE (case r of
        Inl e \<Rightarrow> (res\<lparr>rr_Duration := t - started\<rparr>, Some e)
      | Inr (res, err) \<Rightarrow> (res\<lparr>rr_Duration := t - started\<rparr>, err))))))"

end
