(* ===== verification/ReapSpec.thy ===== *)
theory ReapSpec
  imports Reap
begin

text \<open>
  What the deletion phase may and may not do: the pages it reads are the whole list, nothing goes
  unless every guard lets it through, a quarantined file is moved and never lost, and the
  quarantine gives up nothing before its time.
\<close>

section \<open>Clean absolute paths\<close>

text \<open>The local root of a pair, as \<open>filepath.Clean\<close> leaves an absolute path below the root.\<close>

definition abs_ok :: "string \<Rightarrow> bool" where
  "abs_ok p \<longleftrightarrow> p \<noteq> [] \<and> hd p = slash \<and> rel_ok (tl p)"

lemma abs_okE:
  assumes "abs_ok p"
  obtains ss where "ss \<noteq> []" "list_all seg_ok ss" "p = slash # join_on slash ss"
  using assms by (cases p) (auto simp: abs_ok_def elim: rel_okE)

lemma abs_ok_join: "ss \<noteq> [] \<Longrightarrow> list_all seg_ok ss \<Longrightarrow> abs_ok (slash # join_on slash ss)"
  by (simp add: abs_ok_def rel_ok_def rel_ok_join)

lemma rel_ok_seg: "seg_ok s \<Longrightarrow> rel_ok s"
  by (simp add: rel_ok_def split_no_sep seg_ok_def)

lemma path_Clean_abs:
  assumes "ss \<noteq> []" "list_all seg_ok ss"
  shows "path_Clean (slash # join_on slash ss) = slash # join_on slash ss"
  using split_append_sep [of slash "[]" "join_on slash ss"] assms
  by (simp add: path_Clean_def rel_ok_join clean_segs_ok)

lemma path_Join_abs:
  assumes "abs_ok p" and "rel_ok q"
  shows "path_Join [p, q] = p @ slash # q" and "abs_ok (p @ slash # q)"
proof -
  from assms(1) obtain ss where s: "ss \<noteq> []" "list_all seg_ok ss" "p = slash # join_on slash ss" by (rule abs_okE)
  from assms(2) obtain ts where t: "ts \<noteq> []" "list_all seg_ok ts" "q = join_on slash ts" by (rule rel_okE)
  have eq: "p @ slash # q = slash # join_on slash (ss @ ts)"
    unfolding s(3) t(3) using s(1) t(1) by (simp add: join_append)
  have "q \<noteq> []" using join_seg_nonempty [OF t(1,2)] t(3) by simp
  then show "path_Join [p, q] = p @ slash # q"
    using path_Clean_abs [of "ss @ ts"] s t eq by (simp add: path_Join_def)
  show "abs_ok (p @ slash # q)" unfolding eq using s t by (intro abs_ok_join) auto
qed

lemma abs_ok_not_root: "abs_ok p \<Longrightarrow> p \<noteq> ''/''"
  by (auto simp: abs_ok_def rel_ok_def seg_ok_def)

lemma trashRoot_eq:
  assumes "abs_ok (pair_LocalPath pr)"
  shows "trashRoot pr = pair_LocalPath pr @ ''/.jccmirror/trash''" and "abs_ok (trashRoot pr)"
proof -
  have ok: "rel_ok ''.jccmirror/trash''" by code_simp
  have "trashRoot pr = path_Join [pair_LocalPath pr, ''.jccmirror/trash'']"
    using assms by (simp add: trashRoot_def path_Join_def PartDir_def TrashDir_def abs_ok_def)
  then show "trashRoot pr = pair_LocalPath pr @ ''/.jccmirror/trash''" "abs_ok (trashRoot pr)"
    using path_Join_abs [OF assms ok] by simp_all
qed

lemma below_join: "below p (p @ slash # q)"
  by (simp add: below_def HasPrefix_iff)

lemma below_trans: "below p q \<Longrightarrow> below q r \<Longrightarrow> below p r"
  by (auto simp: below_def HasPrefix_iff)

lemma below_neq: "below p q \<Longrightarrow> q \<noteq> p"
  by (auto simp: below_def HasPrefix_iff)

section \<open>Days\<close>

lemma parse_day_seg: "parse_day l s = Some t \<Longrightarrow> seg_ok s"
proof -
  assume "parse_day l s = Some t"
  then have len: "length s = 10" and d: "list_all is_digit (take 4 s)" "list_all is_digit (take 2 (drop 5 s))"
      "list_all is_digit (take 2 (drop 8 s))" and c: "s ! 4 = CHR ''-''" "s ! 7 = CHR ''-''"
    by (auto simp: parse_day_def Let_def split: if_splits)
  have "s = take 4 s @ s ! 4 # take 2 (drop 5 s) @ s ! 7 # take 2 (drop 8 s)"
    using len by (intro nth_equalityI) (auto simp: nth_append nth_Cons' less_Suc_eq numeral_eq_Suc)
  from arg_cong [OF this, of set]
  have "set s = set (take 4 s) \<union> ({s ! 4} \<union> set (take 2 (drop 5 s)) \<union> ({s ! 7} \<union> set (take 2 (drop 8 s))))"
    by (simp only: set_append list.set(2)) blast
  moreover have "\<not> is_digit slash" by code_simp
  ultimately have "slash \<notin> set s" using d c unfolding list_all_iff by auto
  with len show ?thesis by (auto simp: seg_ok_def)
qed

lemma format_day_ok: "seg_ok (format_day l t)"
proof -
  obtain y m d where D: "Date l t = (y, m, d)" by (metis prod_cases3)
  have digits: "\<forall>c \<in> set (pad k n). is_digit c" "\<forall>c \<in> set (dec i). is_digit c" for k n i
    using pad_digits [of k n] dec_digits [of i] unfolding list_all_iff by blast+
  have "\<forall>c \<in> set (year_text y). is_digit c \<or> c = CHR ''-''"
    using digits by (auto simp: year_text_def Itoa_def)
  with digits have "\<forall>c \<in> set (format_day l t). is_digit c \<or> c = CHR ''-''"
    by (auto simp: format_day_def D)
  moreover have "\<not> is_digit slash" by code_simp
  ultimately have "slash \<notin> set (format_day l t)" by auto
  moreover have "6 \<le> length (format_day l t)" by (simp add: format_day_def D)
  ultimately show ?thesis by (auto simp: seg_ok_def)
qed

lemma takeWhile_seg: "slash \<notin> set s \<Longrightarrow> takeWhile (\<lambda>c. c \<noteq> slash) (s @ slash # v) = s"
  "slash \<notin> set s \<Longrightarrow> takeWhile (\<lambda>c. c \<noteq> slash) s = s"
  by (induction s) auto

section \<open>What is spared\<close>

context step_rel
begin

text \<open>A bind whose continuation runs only on values the first part can return.\<close>

lemma keeps_bind_run:
  assumes "keeps R m" and "\<And>w a w1. m w = (Inr a, w1) \<Longrightarrow> keeps R (f a)"
  shows "keeps R (bindE m f)"
proof (rule keepsI)
  fix w r w'
  assume run: "bindE m f w = (r, w')"
  obtain x w1 where m: "m w = (x, w1)" by (rule prod.exhaust)
  note one = keepsD [OF assms(1) m]
  show "R w w'"
  proof (cases x)
    case (Inl e)
    with run m one show ?thesis by (simp add: bindE_def)
  next
    case (Inr a)
    with run m have "f a w1 = (r, w')" by (simp add: bindE_def)
    from R_trans [OF one keepsD [OF assms(2) this]] m Inr show ?thesis by blast
  qed
qed

lemma keeps_walk_dir:
  assumes "\<And>p n s. keeps R (fn p n s)" and "\<And>p. keeps R (os_ReadDir p)"
  shows "keeps R (walk_dir fuel fn p n s)"
proof (induction fuel arbitrary: p n s)
  case 0
  show ?case by (subst walk_dir.simps) (intro keeps_rules assms keeps_nat, simp)
next
  case (Suc k)
  show ?case by (subst walk_dir.simps) (intro keeps_rules assms keeps_nat, auto intro: Suc)
qed

lemma keeps_ReadDir: "keeps R (os_ReadDir p)"
  unfolding os_ReadDir_def by (rule keeps_exec) (auto split: option.splits fnode.splits intro: R_refl)

lemma keeps_Trash: "keeps R (Trash l pr r)"
proof -
  have walk: "keeps R (WalkDir p count_node s)" for p s
  proof (rule keepsI)
    fix w r w'
    assume "WalkDir p count_node s w = (r, w')"
    moreover have "keeps R (bindE (os_Lstat p) (\<lambda>n. walk_dir k count_node p n s))" for k
      unfolding count_node_def by (intro keeps_rules keeps_Stat keeps_walk_dir keeps_ReadDir)
    ultimately show "R w w'" unfolding WalkDir_def by (blast dest: keepsD)
  qed
  show ?thesis
    unfolding Trash_def trash_entry_def by (intro keeps_rules keeps_ReadDir walk)
qed

end

interpretation spare: step_rel "\<lambda>w w'. \<forall>p. \<not> gone p \<longrightarrow> file_at w' p = file_at w p" for gone
  by unfold_locales auto

lemma spare_Remove:
  assumes "gone p"
  shows "keeps (\<lambda>w w'. \<forall>p. \<not> gone p \<longrightarrow> file_at w' p = file_at w p) (os_Remove p)"
proof (rule keepsI)
  fix w r w'
  assume "os_Remove p w = (r, w')"
  then show "\<forall>q. \<not> gone q \<longrightarrow> file_at w' q = file_at w q"
  proof (cases rule: os_Remove_cases)
    case 2
    have "file_at ((used w)\<lparr>fs := fs w\<rparr>) = file_at w" by (rule file_at_frame) simp
    with 2 assms show ?thesis by (auto simp: file_at_del)
  qed simp
qed

lemma spare_RemoveAll:
  assumes "gone p" and "\<And>q. below p q \<Longrightarrow> gone q"
  shows "keeps (\<lambda>w w'. \<forall>p. \<not> gone p \<longrightarrow> file_at w' p = file_at w p) (os_RemoveAll p)"
  unfolding os_RemoveAll_def
proof (rule spare.keeps_bind_run)
  fix w qs w1
  assume "query (\<lambda>w. rev (sort_key length (filter (below p) (map fst (fs w))))) w = (Inr qs, w1)"
  then have "\<And>q. q \<in> set qs \<Longrightarrow> below p q" by (auto elim!: query_InrE)
  with assms show "keeps (\<lambda>w w'. \<forall>p. \<not> gone p \<longrightarrow> file_at w' p = file_at w p) (bindE (forE qs remove_gone) (\<lambda>_. remove_gone p))"
    unfolding remove_gone_def by (intro spare.keeps_rules spare_Remove) auto
qed (rule spare.keeps_query)

text \<open>The day a path of the quarantine belongs to, and whether its retention has run out.\<close>

definition trash_day_of :: "pair \<Rightarrow> string \<Rightarrow> string option" where
  "trash_day_of pr p = map_option (takeWhile (\<lambda>c. c \<noteq> slash)) (CutPrefix p (trashRoot pr @ ''/''))"

definition expired_path :: "location \<Rightarrow> pair \<Rightarrow> duration \<Rightarrow> time \<Rightarrow> string \<Rightarrow> bool" where
  "expired_path l pr r at p = (case trash_day_of pr p of None \<Rightarrow> False
     | Some day \<Rightarrow> (case parse_day l day of None \<Rightarrow> False | Some m \<Rightarrow> 0 < r \<and> m + r < at))"

lemma trash_day_of_below:
  assumes "slash \<notin> set day" and "p = trashRoot pr @ slash # day \<or> below (trashRoot pr @ slash # day) p"
  shows "trash_day_of pr p = Some day"
  using assms(2)
proof
  assume "p = trashRoot pr @ slash # day"
  then have "CutPrefix p (trashRoot pr @ ''/'') = Some day" by (simp add: CutPrefix_Some)
  then show ?thesis by (simp only: trash_day_of_def option.map takeWhile_seg(2) [OF assms(1)])
next
  assume "below (trashRoot pr @ slash # day) p"
  then obtain v where "p = ((trashRoot pr @ slash # day) @ ''/'') @ v" by (auto simp: below_def HasPrefix_iff)
  then have "CutPrefix p (trashRoot pr @ ''/'') = Some (day @ slash # v)" by (simp add: CutPrefix_Some)
  then show ?thesis by (simp only: trash_day_of_def option.map takeWhile_seg(1) [OF assms(1)])
qed

text \<open>What the listing of the quarantine says of a day.\<close>

definition day_ok :: "location \<Rightarrow> pair \<Rightarrow> duration \<Rightarrow> trash_day \<Rightarrow> bool" where
  "day_ok l pr r d \<longleftrightarrow> (\<exists>m. parse_day l (td_Day d) = Some m \<and> td_Path d = path_Join [trashRoot pr, td_Day d] \<and>
    td_Expires d = (if r > 0 then Some (m + r) else None))"

lemma Trash_days:
  assumes "Trash l pr r w = (Inr days, w')"
  shows "\<forall>d \<in> set days. day_ok l pr r d"
proof -
  have fold: "\<forall>d \<in> set out'. day_ok l pr r d"
    if "foldE (trash_entry l pr r) es out v = (Inr out', v')" "\<forall>d \<in> set out. day_ok l pr r d" for es out out' v v'
    using that
  proof (induction es arbitrary: out v)
    case (Cons e es)
    from Cons.prems(1) obtain out1 v1 where one: "trash_entry l pr r e out v = (Inr out1, v1)"
      and rest: "foldE (trash_entry l pr r) es out1 v1 = (Inr out', v')" by (auto elim!: bindE_InrE)
    from one Cons.prems(2) have "\<forall>d \<in> set out1. day_ok l pr r d"
      unfolding trash_entry_def Let_def
      by (auto simp: day_ok_def elim!: bindE_InrE wrapE_InrE returnE_InrE split: if_splits option.splits prod.splits)
    from Cons.IH [OF rest this] show ?case .
  qed (auto elim!: returnE_InrE)
  from assms consider "days = []" | es out v v' where "foldE (trash_entry l pr r) es [] v = (Inr out, v')" "days = rev (sort_key td_Day out)"
    unfolding Trash_def by (auto elim!: bindE_InrE tryE_InrE returnE_InrE throwE_InrE split: sum.splits if_splits)
  then show ?thesis by cases (use fold in force)+
qed

lemma spare_day:
  assumes "abs_ok (pair_LocalPath pr)" and "Expired d at" and "day_ok l pr r d"
  shows "keeps (\<lambda>w w'. \<forall>p. \<not> expired_path l pr r at p \<longrightarrow> file_at w' p = file_at w p) (os_RemoveAll (td_Path d))"
proof -
  from assms(2,3) obtain m where m: "parse_day l (td_Day d) = Some m" "0 < r" "m + r < at" "td_Path d = path_Join [trashRoot pr, td_Day d]"
    by (auto simp: Expired_def day_ok_def split: if_splits)
  from parse_day_seg [OF m(1)] have seg: "seg_ok (td_Day d)" .
  have path: "td_Path d = trashRoot pr @ slash # td_Day d"
    using path_Join_abs(1) [OF trashRoot_eq(2) [OF assms(1)] rel_ok_seg [OF seg]] m(4) by simp
  have "expired_path l pr r at q" if "q = td_Path d \<or> below (td_Path d) q" for q
  proof -
    have "trash_day_of pr q = Some (td_Day d)"
      using that seg unfolding path by (intro trash_day_of_below) (auto simp: seg_ok_def)
    with m show ?thesis by (simp add: expired_path_def)
  qed
  then show ?thesis by (intro spare_RemoveAll) auto
qed

lemma PruneTrash_spares:
  assumes "abs_ok (pair_LocalPath pr)"
  shows "keeps (\<lambda>w w'. \<forall>p. \<not> expired_path l pr r at p \<longrightarrow> file_at w' p = file_at w p) (PruneTrash l pr r at)"
proof -
  have days: "keeps (\<lambda>w w'. \<forall>p. \<not> expired_path l pr r at p \<longrightarrow> file_at w' p = file_at w p) (prune_days at ds removed)"
    if "\<forall>d \<in> set ds. day_ok l pr r d" for ds removed
    using that by (induction ds arbitrary: removed) (auto intro!: spare.keeps_rules spare_day [OF assms])
  show ?thesis
    unfolding PruneTrash_def
  proof (intro spare.keeps_if spare.keeps_return spare.keeps_bind_run [OF spare.keeps_try [OF spare.keeps_Trash]] spare.keeps_sum)
    fix w a w1 ds
    assume "tryE (Trash l pr r) w = (Inr a, w1)" "a = Inr ds"
    then have "Trash l pr r w = (Inr ds, w1)" by (auto elim!: tryE_InrE)
    from days [OF Trash_days [OF this]]
    show "keeps (\<lambda>w w'. \<forall>p. \<not> expired_path l pr r at p \<longrightarrow> file_at w' p = file_at w p) (prune_days at ds [])" .
  qed
qed

lemma trashDirFor_eq:
  assumes "abs_ok (pair_LocalPath pr)"
  shows "trashDirFor l pr t = trashRoot pr @ slash # format_day l t" and "abs_ok (trashDirFor l pr t)"
  unfolding trashDirFor_def
  using path_Join_abs [OF trashRoot_eq(2) [OF assms] rel_ok_seg [OF format_day_ok]] by simp_all

text \<open>
  (C26) The quarantine keeps a file for its retention, less the part of the day that was over. In a location with one offset and
  for the years 0 to 9999, whose days are written with four digits: a
  file below the day's directory of the moment \<open>t\<close> is untouched by every pruning up to a day
  before \<open>t\<close> plus the retention, whatever fails on the way.
\<close>

theorem quarantine_retention:
  assumes "abs_ok (pair_LocalPath pr)" and "fixed l" and "0 \<le> fst (Date l t)" and "fst (Date l t) \<le> 9999"
    and "below (trashDirFor l pr t) p" and "at \<le> t + r - 24 * Hour"
    and "PruneTrash l pr r at w = (res, w')"
  shows "file_at w' p = file_at w p"
proof -
  have seg: "seg_ok (format_day l t)" by (rule format_day_ok)
  with trashDirFor_eq(1) [OF assms(1)] assms(5) seg have "trash_day_of pr p = Some (format_day l t)"
    by (intro trash_day_of_below) (auto simp: seg_ok_def)
  moreover from parse_format_midnight [OF assms(2-4)] obtain m where "parse_day l (format_day l t) = Some m" "t < m + 24 * Hour" by blast
  ultimately have "\<not> expired_path l pr r at p" using assms(6) by (simp add: expired_path_def)
  with keepsD [OF PruneTrash_spares [OF assms(1)] assms(7)] show ?thesis by blast
qed

section \<open>The pages of what vanished\<close>

text \<open>The rows the pass acts on.\<close>

definition doomed :: "engine \<Rightarrow> pair \<Rightarrow> (string \<times> int) list \<Rightarrow> (string \<times> int) list" where
  "doomed E pr = filter (\<lambda>v. allows (newFilter pr (opt_JCC (en_opts E))) (fst v) \<and> fst v \<noteq> gated E pr)"

lemma each_vanished_run:
  assumes "each_vanished (newFilter pr (opt_JCC (en_opts E))) (gated E pr) fn vs (s, n, b) w = (Inr ((s', n', b'), err), w')"
    and "I seen s None w"
    and "\<And>seen v s w s' err w'. v \<in> set vs \<Longrightarrow> I seen s None w \<Longrightarrow> fn (fst v) (snd v) s w = (Inr (s', err), w') \<Longrightarrow> I (seen @ [v]) s' err w'"
  shows "\<exists>ds rest. doomed E pr vs = ds @ rest \<and> n' = n + int (length ds) \<and> b' = b + sum_list (map snd ds) \<and>
    (err = None \<longrightarrow> rest = []) \<and> I (seen @ ds) s' err w'"
  using assms
proof (induction vs arbitrary: s n b w seen)
  case Nil
  then show ?case by (auto simp: doomed_def elim!: returnE_InrE)
next
  case (Cons v vs)
  let ?f = "newFilter pr (opt_JCC (en_opts E))"
  show ?case
  proof (cases "allows ?f (fst v) \<and> fst v \<noteq> gated E pr")
    case False
    with Cons.prems(1) have "each_vanished ?f (gated E pr) fn vs (s, n, b) w = (Inr ((s', n', b'), err), w')" by auto
    from Cons.IH [OF this Cons.prems(2)] Cons.prems(3) False show ?thesis by (auto simp: doomed_def)
  next
    case True
    with Cons.prems(1) obtain s1 e1 w1 where step: "fn (fst v) (snd v) s w = (Inr (s1, e1), w1)"
      and rest: "(case e1 of Some e \<Rightarrow> returnE ((s1, n + 1, b + snd v), Some e)
         | None \<Rightarrow> each_vanished ?f (gated E pr) fn vs (s1, n + 1, b + snd v)) w1 = (Inr ((s', n', b'), err), w')"
      by (auto elim!: bindE_InrE)
    have I1: "I (seen @ [v]) s1 e1 w1" using Cons.prems(3) [OF _ Cons.prems(2) step] by simp
    show ?thesis
    proof (cases e1)
      case (Some e)
      with rest I1 True show ?thesis
        by (intro exI [of _ "[v]"] exI [of _ "doomed E pr vs"]) (auto simp: doomed_def elim!: returnE_InrE)
    next
      case None
      with rest have "each_vanished ?f (gated E pr) fn vs (s1, n + 1, b + snd v) w1 = (Inr ((s', n', b'), err), w')" by simp
      from Cons.IH [OF this I1 [unfolded None]] Cons.prems(3) obtain ds rest where
        "doomed E pr vs = ds @ rest" "n' = n + 1 + int (length ds)" "b' = b + snd v + sum_list (map snd ds)"
        "err = None \<longrightarrow> rest = []" "I ((seen @ [v]) @ ds) s' err w'" by force
      with True show ?thesis by (intro exI [of _ "v # ds"] exI [of _ rest]) (auto simp: doomed_def)
    qed
  qed
qed

lemma sorted_last:
  "sorted_wrt (<) (map fst ys) \<Longrightarrow> v \<in> set ys \<Longrightarrow> fst v \<le> (fst (last ys) :: string)"
proof (induction ys)
  case (Cons y ys)
  then show ?case by (cases "ys = []") (auto intro: less_imp_le)
qed simp

lemma sorted_take_drop:
  assumes "sorted_wrt (<) (map fst xs)"
  shows "sorted_wrt (<) (map fst (take k xs))" and "\<forall>x \<in> set (take k xs). \<forall>y \<in> set (drop k xs). fst x < (fst y :: string)"
proof -
  have "sorted_wrt (<) (map fst (take k xs) @ map fst (drop k xs))"
    unfolding map_append [symmetric] append_take_drop_id by (rule assms)
  then show "sorted_wrt (<) (map fst (take k xs))" "\<forall>x \<in> set (take k xs). \<forall>y \<in> set (drop k xs). fst x < fst y"
    by (auto simp: sorted_wrt_append)
qed

lemma sorted_page:
  assumes sorted: "sorted_wrt (<) (map fst xs)" and page: "take k xs \<noteq> []"
  shows "filter (\<lambda>v. fst (last (take k xs)) < (fst v :: string)) xs = drop k xs"
proof -
  let ?q = "\<lambda>v. fst (last (take k xs)) < fst v"
  have "filter ?q (take k xs) = []"
    using sorted_last [OF sorted_take_drop(1) [OF sorted]] by (auto simp: filter_empty_conv not_less)
  moreover have "filter ?q (drop k xs) = drop k xs"
    using sorted_take_drop(2) [OF sorted] last_in_set [OF page] by (simp add: filter_id_conv)
  ultimately have "filter ?q (take k xs @ drop k xs) = drop k xs" by (simp only: filter_append append_Nil)
  then show ?thesis by simp
qed

lemma vanished_rows_env: "vanished_rows pid (w\<lparr>env := e\<rparr>) = vanished_rows pid w"
  by (simp add: vanished_rows_def)

lemma vanished_page_run:
  assumes run: "each_vanished (newFilter pr (opt_JCC (en_opts E))) (gated E pr) fn (take k xs) (s, n, b) w = (Inr ((s', n', b'), err), w')"
    and sorted: "sorted_wrt (<) (map fst xs)" and page: "take k xs \<noteq> []"
    and now: "filter (\<lambda>v. fst (last (take k xs)) < fst v) (vanished_rows (pair_ID pr) w) = drop k xs" and I: "I seen s None w"
    and step: "\<And>seen v s w s' err w'. v \<in> set xs \<Longrightarrow> I seen s None w \<Longrightarrow> fn (fst v) (snd v) s w = (Inr (s', err), w') \<Longrightarrow>
      I (seen @ [v]) s' err w' \<and> filter (\<lambda>x. fst v < fst x) (vanished_rows (pair_ID pr) w') =
        filter (\<lambda>x. fst v < fst x) (vanished_rows (pair_ID pr) w)"
  shows "\<exists>ds rest. doomed E pr (take k xs) = ds @ rest \<and> n' = n + int (length ds) \<and> b' = b + sum_list (map snd ds) \<and>
    (err = None \<longrightarrow> rest = []) \<and> I (seen @ ds) s' err w' \<and>
    filter (\<lambda>v. fst (last (take k xs)) < fst v) (vanished_rows (pair_ID pr) w') = drop k xs"
proof -
  let ?p = "fst (last (take k xs))"
  let ?I = "\<lambda>seen s err w. I seen s err w \<and> filter (\<lambda>v. ?p < fst v) (vanished_rows (pair_ID pr) w) = drop k xs"
  have le: "fst v \<le> ?p" if "v \<in> set (take k xs)" for v
    by (rule sorted_last [OF sorted_take_drop(1) [OF sorted] that])
  show ?thesis
  proof (rule each_vanished_run [where I = ?I, OF run])
    show "?I seen s None w" using I now by simp
  next
    fix seen v s w s' err w'
    assume v: "v \<in> set (take k xs)" and I: "?I seen s None w" and fn: "fn (fst v) (snd v) s w = (Inr (s', err), w')"
    from v have "v \<in> set xs" by (rule in_set_takeD)
    with step [OF this conjunct1 [OF I] fn] have one: "I (seen @ [v]) s' err w'"
      and later: "filter (\<lambda>x. fst v < fst x) (vanished_rows (pair_ID pr) w') = filter (\<lambda>x. fst v < fst x) (vanished_rows (pair_ID pr) w)"
      by auto
    have sub: "filter (\<lambda>x. ?p < fst x) (filter (\<lambda>x. fst v < fst x) ys) = filter (\<lambda>x. ?p < fst x) ys" for ys :: "(string \<times> int) list"
      using le [OF v] by (auto intro!: filter_cong)
    from later sub have "filter (\<lambda>x. ?p < fst x) (vanished_rows (pair_ID pr) w') = filter (\<lambda>x. ?p < fst x) (vanished_rows (pair_ID pr) w)"
      by metis
    with one I show "?I (seen @ [v]) s' err w'" by simp
  qed
qed

text \<open>One turn of the loop: the page cannot be read, is empty, or is worked through.\<close>

lemma vanished_loop_Inr:
  assumes "vanished_loop fuel E pr fn after acc w = (Inr (acc', err), w')"
  obtains (stop) e where "err \<noteq> None" "acc' = acc" "w' = w\<lparr>env := e\<rparr>"
    | (empty) e where "filter (\<lambda>v. after < fst v) (vanished_rows (pair_ID pr) w) = []" "err = None" "acc' = acc" "w' = w\<lparr>env := e\<rparr>"
    | (page) pg e acc1 err1 w1 where "pg = take 1000 (filter (\<lambda>v. after < fst v) (vanished_rows (pair_ID pr) w))" "pg \<noteq> []"
       "each_vanished (newFilter pr (opt_JCC (en_opts E))) (gated E pr) fn pg acc (w\<lparr>env := e\<rparr>) = (Inr (acc1, err1), w1)"
       "(case err1 of Some e \<Rightarrow> returnE (acc1, Some e) | None \<Rightarrow> (case fuel of 0 \<Rightarrow> returnE (acc1, None)
          | Suc k \<Rightarrow> vanished_loop k E pr fn (fst (last pg)) acc1)) w1 = (Inr (acc', err), w')"
proof -
  let ?each = "each_vanished (newFilter pr (opt_JCC (en_opts E))) (gated E pr) fn"
  from assms obtain r w1 where rd: "VanishedPage (pair_ID pr) after vanishedPage w = (r, w1)"
    and rest: "(case r of Inl e \<Rightarrow> returnE (acc, Some e) | Inr pg \<Rightarrow> if pg = [] then returnE (acc, None)
        else bindE (?each pg acc) (\<lambda>(acc, err). case err of Some e \<Rightarrow> returnE (acc, Some e)
          | None \<Rightarrow> (case fuel of 0 \<Rightarrow> returnE (acc, None) | Suc k \<Rightarrow> vanished_loop k E pr fn (fst (last pg)) acc))) w1
        = (Inr (acc', err), w')"
    by (subst (asm) vanished_loop.simps) (auto elim!: bindE_InrE tryE_InrE)
  have "keeps (\<lambda>w w'. \<exists>e. w' = w\<lparr>env := e\<rparr>) (VanishedPage (pair_ID pr) after vanishedPage)"
    unfolding VanishedPage_def by (intro env_step.keeps_rules)
  from keepsD [OF this rd] obtain e where w1: "w1 = w\<lparr>env := e\<rparr>" by blast
  show thesis
  proof (cases r)
    case (Inl x)
    with rest have "err = Some x" "acc' = acc" "w' = w1" by (auto elim!: returnE_InrE)
    with w1 show thesis by (intro stop) auto
  next
    case (Inr pg)
    with rd have pg: "pg = take 1000 (filter (\<lambda>v. after < fst v) (vanished_rows (pair_ID pr) w))"
      unfolding VanishedPage_def vanishedPage_def by (auto elim!: wrapE_InrE query_InrE simp: vanished_rows_def)
    show thesis
    proof (cases "pg = []")
      case True
      with rest Inr have "err = None" "acc' = acc" "w' = w1" by (auto elim!: returnE_InrE)
      with w1 pg True show thesis by (intro empty) auto
    next
      case False
      with rest Inr obtain acc1 err1 w2 where "?each pg acc w1 = (Inr (acc1, err1), w2)"
        "(case err1 of Some e \<Rightarrow> returnE (acc1, Some e) | None \<Rightarrow> (case fuel of 0 \<Rightarrow> returnE (acc1, None)
          | Suc k \<Rightarrow> vanished_loop k E pr fn (fst (last pg)) acc1)) w2 = (Inr (acc', err), w')"
        by (auto elim!: bindE_InrE)
      with pg False w1 show thesis by (intro page) auto
    qed
  qed
qed

lemma vanished_loop_run:
  assumes "vanished_loop fuel E pr fn after (s, n, b) w = (Inr ((s', n', b'), err), w')"
    and sorted: "sorted_wrt (<) (map fst rows)"
    and "filter (\<lambda>v. after < fst v) (vanished_rows (pair_ID pr) w) = filter (\<lambda>v. after < fst v) rows"
    and "length (filter (\<lambda>v. after < fst v) rows) \<le> fuel" and "I seen s None w"
    and env: "\<And>seen s w e. I seen s None w \<Longrightarrow> I seen s None (w\<lparr>env := e\<rparr>)"
    and fail: "\<And>seen s w e x. I seen s None w \<Longrightarrow> I seen s (Some x) w"
    and step: "\<And>seen v s w s' err w'. v \<in> set rows \<Longrightarrow> I seen s None w \<Longrightarrow> fn (fst v) (snd v) s w = (Inr (s', err), w') \<Longrightarrow>
      I (seen @ [v]) s' err w' \<and> filter (\<lambda>x. fst v < fst x) (vanished_rows (pair_ID pr) w') =
        filter (\<lambda>x. fst v < fst x) (vanished_rows (pair_ID pr) w)"
  shows "\<exists>ds rest. doomed E pr (filter (\<lambda>v. after < fst v) rows) = ds @ rest \<and> n' = n + int (length ds) \<and>
    b' = b + sum_list (map snd ds) \<and> (err = None \<longrightarrow> rest = []) \<and> I (seen @ ds) s' err w'"
  using assms(1,3-5)
proof (induction fuel arbitrary: after s n b w seen rule: less_induct)
  case (less fuel)
  let ?xs = "filter (\<lambda>v. after < fst v) rows" and ?each = "each_vanished (newFilter pr (opt_JCC (en_opts E))) (gated E pr) fn"
  have sorted': "sorted_wrt (<) (map fst ?xs)" using sorted by (simp add: sorted_wrt_map sorted_wrt_filter)
  from less.prems(1) show ?case
  proof (cases rule: vanished_loop_Inr)
    case stop
    with less.prems(4) env fail show ?thesis by (intro exI [of _ "[]"] exI [of _ "doomed E pr ?xs"]) auto
  next
    case empty
    with less.prems(2,4) env show ?thesis by (intro exI [of _ "[]"]) (auto simp: doomed_def)
  next
    case (page pg e acc1 err1 w1)
    obtain s1 n1 b1 where acc1: "acc1 = (s1, n1, b1)" by (metis prod_cases3)
    have pg: "pg = take 1000 ?xs" using page(1) less.prems(2) by simp
    have nonempty: "take 1000 ?xs \<noteq> []" using page(2) pg by simp
    have tail: "filter (\<lambda>v. fst (last (take 1000 ?xs)) < fst v) ?xs = drop 1000 ?xs" by (rule sorted_page [OF sorted' nonempty])
    have beyond: "after < fst (last (take 1000 ?xs))" using last_in_set [OF nonempty] in_set_takeD by fastforce
    have later: "filter (\<lambda>v. fst (last (take 1000 ?xs)) < fst v) (filter (\<lambda>v. after < fst v) ys) =
        filter (\<lambda>v. fst (last (take 1000 ?xs)) < fst v) ys" for ys :: "(string \<times> int) list"
      using beyond by (auto intro!: filter_cong)
    have "filter (\<lambda>v. fst (last (take 1000 ?xs)) < fst v) (vanished_rows (pair_ID pr) (w\<lparr>env := e\<rparr>)) = drop 1000 ?xs"
      using later [of "vanished_rows (pair_ID pr) w", symmetric] unfolding vanished_rows_env less.prems(2) tail .
    from vanished_page_run [where I = I and seen = seen, OF page(3) [unfolded pg acc1] sorted' nonempty this env [OF less.prems(4)]] step
    obtain ds rest where ds: "doomed E pr (take 1000 ?xs) = ds @ rest" "n1 = n + int (length ds)" "b1 = b + sum_list (map snd ds)"
        "err1 = None \<longrightarrow> rest = []" "I (seen @ ds) s1 err1 w1"
      and now: "filter (\<lambda>v. fst (last (take 1000 ?xs)) < fst v) (vanished_rows (pair_ID pr) w1) = drop 1000 ?xs" by auto
    have all: "doomed E pr ?xs = doomed E pr (take 1000 ?xs) @ doomed E pr (drop 1000 ?xs)"
      unfolding doomed_def by (simp only: filter_append [symmetric] append_take_drop_id)
    show ?thesis
    proof (cases err1)
      case (Some x)
      with page(4) acc1 have "err = Some x" "(s', n', b') = (s1, n1, b1)" "w' = w1" by (auto elim!: returnE_InrE)
      with ds all Some show ?thesis by (intro exI [of _ ds] exI [of _ "rest @ doomed E pr (drop 1000 ?xs)"]) simp
    next
      case None
      have "?xs \<noteq> []" using nonempty by auto
      with less.prems(3) obtain k where fuel: "fuel = Suc k" by (cases fuel) auto
      have next_rows: "filter (\<lambda>v. fst (last pg) < fst v) rows = drop 1000 ?xs" using later [of rows] tail pg by simp
      from page(4) None fuel acc1 have run: "vanished_loop k E pr fn (fst (last pg)) (s1, n1, b1) w1 = (Inr ((s', n', b'), err), w')" by simp
      have short: "length (filter (\<lambda>v. fst (last pg) < fst v) rows) \<le> k"
        unfolding next_rows using less.prems(3) fuel nonempty by simp
      have "filter (\<lambda>v. fst (last pg) < fst v) (vanished_rows (pair_ID pr) w1) = filter (\<lambda>v. fst (last pg) < fst v) rows"
        unfolding next_rows using now pg by simp
      from less.IH [OF _ run this short ds(5) [unfolded None]] fuel obtain ds2 rest2 where
        "doomed E pr (drop 1000 ?xs) = ds2 @ rest2" "n' = n1 + int (length ds2)" "b' = b1 + sum_list (map snd ds2)"
        "err = None \<longrightarrow> rest2 = []" "I ((seen @ ds) @ ds2) s' err w'" unfolding next_rows by auto
      with ds all None show ?thesis by (intro exI [of _ "ds @ ds2"] exI [of _ rest2]) auto
    qed
  qed
qed

text \<open>Local truth holds no empty path.\<close>

definition paths_named :: "int \<Rightarrow> world \<Rightarrow> bool" where
  "paths_named pid w = list_all (\<lambda>f. f_PairID f = pid \<longrightarrow> f_Path f \<noteq> []) (files w)"

lemma Nil_less: "([]::string) < p \<longleftrightarrow> p \<noteq> []"
  by (cases p) auto

lemma vanished_start:
  assumes "paths_named pid w"
  shows "filter (\<lambda>v. [] < fst v) (vanished_rows pid w) = vanished_rows pid w"
  using assms by (auto simp: filter_id_conv Nil_less vanished_rows_def vanishedFrom_def paths_named_def list_all_iff)

lemma vanished_run:
  assumes run: "vanished E pr fn s w0 = (Inr ((s', n, b), err), w')" and wf: "files_wf w0" "paths_named (pair_ID pr) w0" and "I [] s None w0"
    and env: "\<And>seen s w e. I seen s None w \<Longrightarrow> I seen s None (w\<lparr>env := e\<rparr>)"
    and fail: "\<And>seen s w e x. I seen s None w \<Longrightarrow> I seen s (Some x) w"
    and step: "\<And>seen v s w s' err w'. v \<in> set (vanished_rows (pair_ID pr) w0) \<Longrightarrow> I seen s None w \<Longrightarrow> fn (fst v) (snd v) s w = (Inr (s', err), w') \<Longrightarrow>
      I (seen @ [v]) s' err w' \<and> filter (\<lambda>x. fst v < fst x) (vanished_rows (pair_ID pr) w') =
        filter (\<lambda>x. fst v < fst x) (vanished_rows (pair_ID pr) w)"
  shows "\<exists>ds rest. doomed E pr (vanished_rows (pair_ID pr) w0) = ds @ rest \<and> n = int (length ds) \<and>
    b = sum_list (map snd ds) \<and> (err = None \<longrightarrow> rest = []) \<and> I ds s' err w'"
proof -
  have "length (vanished_rows (pair_ID pr) w0) \<le> length (files w0)" by (simp add: vanished_rows_def)
  then have "length (filter (\<lambda>v. [] < fst v) (vanished_rows (pair_ID pr) w0)) \<le> length (files w0)"
    by (simp add: vanished_start [OF wf(2)])
  from vanished_loop_run [where I = I and seen = "[]" and rows = "vanished_rows (pair_ID pr) w0", OF run [unfolded vanished_def]
      vanished_rows_sorted [OF wf(1)] refl this assms(4) env fail step]
  show ?thesis by (simp add: vanished_start [OF wf(2)])
qed

lemma sql_count_length: "sql_count q rows = int (length (filter q rows))"
  by (simp add: sql_count_def)

text \<open>
  (C27) What the deletion phase counts for its guards, page after page, is what the plan streams and
  shows: as many files and as many bytes, and counting changes no table and no file.
\<close>

theorem vanished_is_plan:
  assumes "files_wf w" and "paths_named (pair_ID pr) w" and "Plan E pr sample w = (Inr p, w1)"
    and "vanished E pr (\<lambda>_ _ s. returnE (s, None)) () w = (Inr (((), n, b), None), w')"
  shows "n = pl_Vanished p \<and> b = pl_VanishedBytes p \<and> (\<exists>e. w' = w\<lparr>env := e\<rparr>)"
proof -
  let ?I = "\<lambda>(seen :: (string \<times> int) list) (s :: unit) (x :: error option) v. \<exists>e. v = w\<lparr>env := e\<rparr>"
  have "?I [] () None w" by (rule exI [of _ "env w"]) simp
  then have "\<exists>ds rest. doomed E pr (vanished_rows (pair_ID pr) w) = ds @ rest \<and> n = int (length ds) \<and>
      b = sum_list (map snd ds) \<and> ((None :: error option) = None \<longrightarrow> rest = []) \<and> ?I ds () None w'"
    by (rule vanished_run [OF assms(4) assms(1,2), where I = ?I]) (auto simp: returnE_run)
  then have n: "n = int (length (doomed E pr (vanished_rows (pair_ID pr) w)))"
    and b: "b = sum_list (map snd (doomed E pr (vanished_rows (pair_ID pr) w)))" and env: "\<exists>e. w' = w\<lparr>env := e\<rparr>"
    by auto
  have "keeps (\<lambda>w w'. truth w' = truth w) (returnE False)" by (rule truth.frame.keeps_return)
  from plan_run_counts [OF this assms(3) [unfolded Plan_def]] n b env show ?thesis
    by (simp add: counts_vanished_def doomed_def sql_count_length sql_sum_def)
qed

end
