(* ===== verification/Quarantine.thy ===== *)
theory Quarantine
  imports ReapSpec
begin

text \<open>
  The removal of what vanished (\<open>remove\<close>, \<open>removeOne\<close>, \<open>pruneEmptyDirs\<close>) never loses a file of a
  guarded pair: every file there was is where it was or below the quarantine, with its contents
  and its time, and no two of them became one.
\<close>

section \<open>Nothing is lost\<close>

definition conserve :: "string set \<Rightarrow> string \<Rightarrow> world \<Rightarrow> world \<Rightarrow> bool" where
  "conserve V T w w' \<longleftrightarrow> (\<exists>g. inj_on g (dom (file_at w)) \<and>
     (\<forall>p \<in> dom (file_at w). file_at w' (g p) = file_at w p \<and> (g p = p \<or> p \<in> V \<and> \<not> below T p \<and> below T (g p))))"

lemma conserve_same: "file_at w' = file_at w \<Longrightarrow> conserve V T w w'"
  unfolding conserve_def by (intro exI [of _ id]) simp

lemma conserve_trans:
  assumes "conserve V T w w1" and "conserve V T w1 w2"
  shows "conserve V T w w2"
proof -
  from assms obtain g h where g: "inj_on g (dom (file_at w))"
      "\<forall>p \<in> dom (file_at w). file_at w1 (g p) = file_at w p \<and> (g p = p \<or> p \<in> V \<and> \<not> below T p \<and> below T (g p))"
    and h: "inj_on h (dom (file_at w1))"
      "\<forall>p \<in> dom (file_at w1). file_at w2 (h p) = file_at w1 p \<and> (h p = p \<or> p \<in> V \<and> \<not> below T p \<and> below T (h p))"
    unfolding conserve_def by blast
  have dom: "g ` dom (file_at w) \<subseteq> dom (file_at w1)" using g(2) by (auto simp: dom_def)
  have "inj_on (h \<circ> g) (dom (file_at w))" using g(1) h(1) dom by (blast intro: comp_inj_on inj_on_subset)
  moreover have "file_at w2 ((h \<circ> g) p) = file_at w p \<and> ((h \<circ> g) p = p \<or> p \<in> V \<and> \<not> below T p \<and> below T ((h \<circ> g) p))"
    if "p \<in> dom (file_at w)" for p
  proof -
    have "g p \<in> dom (file_at w1)" using dom that by blast
    with g(2) h(2) that have "file_at w2 (h (g p)) = file_at w p" "g p = p \<or> p \<in> V \<and> \<not> below T p \<and> below T (g p)"
      "h (g p) = g p \<or> g p \<in> V \<and> \<not> below T (g p) \<and> below T (h (g p))" by simp_all
    then show ?thesis by (cases "h (g p) = g p") auto
  qed
  ultimately show ?thesis unfolding conserve_def by blast
qed

interpretation conserve: step_rel "conserve V T" for V T
  by unfold_locales (auto intro: conserve_same conserve_trans)

section \<open>Moving a directory\<close>

lemma move_path_inj:
  assumes "\<And>k. k \<in> K \<Longrightarrow> k \<noteq> dst \<and> \<not> below dst k"
  shows "inj_on (move_path src dst) K"
proof (rule inj_onI)
  fix a b
  assume ab: "a \<in> K" "b \<in> K" and eq: "move_path src dst a = move_path src dst b"
  have shape: "\<exists>r. move_path src dst k = dst @ r \<and> k = src @ r \<and> (r = [] \<or> hd r = slash)" if "k = src \<or> below src k" for k
    using that by (auto simp: move_path_def below_def HasPrefix_iff)
  have out: "dst @ r \<noteq> k" if "k \<in> K" "r = [] \<or> hd r = slash" for k r
    using assms [OF that(1)] that(2) by (cases r) (auto simp: below_def HasPrefix_iff)
  have stay: "move_path src dst k = k" if "\<not> (k = src \<or> below src k)" for k
    using that by (simp add: move_path_def)
  show "a = b"
  proof (cases "a = src \<or> below src a"; cases "b = src \<or> below src b")
    assume a: "a = src \<or> below src a" and b: "b = src \<or> below src b"
    from shape [OF a] obtain r where r: "move_path src dst a = dst @ r" "a = src @ r" by blast
    from shape [OF b] obtain r' where r': "move_path src dst b = dst @ r'" "b = src @ r'" by blast
    from eq have "dst @ r = dst @ r'" unfolding r(1) r'(1) .
    then have rr: "r = r'" by simp
    show ?thesis unfolding r(2) r'(2) rr by (rule refl)
  next
    assume a: "a = src \<or> below src a" and b: "\<not> (b = src \<or> below src b)"
    from shape [OF a] stay [OF b] out [OF ab(2)] eq show ?thesis by metis
  next
    assume a: "\<not> (a = src \<or> below src a)" and b: "b = src \<or> below src b"
    from shape [OF b] stay [OF a] out [OF ab(1)] eq show ?thesis by metis
  next
    assume a: "\<not> (a = src \<or> below src a)" and b: "\<not> (b = src \<or> below src b)"
    from eq show ?thesis unfolding stay [OF a] stay [OF b] .
  qed
qed

lemma map_of_inj:
  assumes "inj_on g (insert p (fst ` set d))"
  shows "map_of (map (\<lambda>e. (g (fst e), snd e)) d) (g p) = map_of d p"
  using assms by (induction d) (auto simp: inj_on_def)

lemma keys_after_del: "\<not> has_child d dst \<Longrightarrow> k \<in> fst ` set (fs_del dst d) \<Longrightarrow> k \<noteq> dst \<and> \<not> below dst k"
  by (auto simp: fs_del_def has_child_def list_ex_iff)

lemma map_of_fs_del: "p \<noteq> dst \<Longrightarrow> map_of (fs_del dst d) p = map_of d p"
  by (induction d) (auto simp: fs_del_def)

text \<open>A path that is there moves with everything it holds.\<close>

lemma node_moved:
  assumes child: "\<not> has_child d dst" and p: "p \<noteq> dst" "\<not> below dst p" "p \<noteq> ''/''" and dst: "move_path src dst p \<noteq> ''/''"
  shows "node (fs_move src dst d) (move_path src dst p) = node d p"
proof -
  have "inj_on (move_path src dst) (insert p (fst ` set (fs_del dst d)))"
    using keys_after_del [OF child] p by (intro move_path_inj) auto
  from map_of_inj [OF this] p dst show ?thesis
    by (simp add: node_def fs_move_def map_of_fs_del)
qed

lemma conserve_dir:
  assumes child: "\<not> has_child (fs w) dst" and dst: "file_at w dst = None" "dst \<noteq> []" "dst \<noteq> ''/''" "below T dst"
    and fs: "fs w' = fs_move src dst (fs w)" and may: "\<And>p. p = src \<or> below src p \<Longrightarrow> p \<in> V \<and> \<not> below T p"
  shows "conserve V T w w'"
proof -
  have keys: "p \<noteq> dst \<and> \<not> below dst p \<and> p \<noteq> ''/''" if "p \<in> dom (file_at w)" for p
  proof -
    from that obtain b t where "node (fs w) p = Some (FFile b t)" by (auto simp: dom_def file_at_Some)
    then have "p \<noteq> ''/''" "p \<in> fst ` set (fs w)" by (auto simp: node_def split: if_splits dest!: map_of_SomeD intro: rev_image_eqI)
    with child that dst(1) show ?thesis by (auto simp: has_child_def list_ex_iff)
  qed
  have go: "file_at w' (move_path src dst p) = file_at w p \<and> (move_path src dst p = p \<or> p \<in> V \<and> \<not> below T p \<and> below T (move_path src dst p))"
    if "p \<in> dom (file_at w)" for p
  proof -
    have "move_path src dst p \<noteq> ''/''"
      using keys [OF that] dst(2,3) by (auto simp: move_path_def below_def HasPrefix_iff append_eq_Cons_conv)
    with node_moved [OF child] keys [OF that] have "node (fs w') (move_path src dst p) = node (fs w) p" by (simp add: fs)
    moreover have "move_path src dst p = p \<or> p \<in> V \<and> \<not> below T p \<and> below T (move_path src dst p)"
    proof (cases "p = src \<or> below src p")
      case True
      moreover have "below T (dst @ drop (length src) p)" "below T dst" using dst(4) by (auto simp: below_def HasPrefix_iff)
      ultimately show ?thesis using may by (auto simp: move_path_def)
    qed (simp add: move_path_def)
    ultimately show ?thesis by (simp add: file_at_def)
  qed
  have "inj_on (move_path src dst) (dom (file_at w))" using keys by (intro move_path_inj) blast
  with go show ?thesis unfolding conserve_def by blast
qed

lemma conserve_file:
  assumes "file_at w dst = None" and "below T dst" and "file_at w src = Some x"
    and "file_at w' = (file_at w)(src := None, dst := Some x)" and "src \<in> V" and "\<not> below T src"
  shows "conserve V T w w'"
proof -
  have "src \<noteq> dst" using assms(1,3) by auto
  then show ?thesis
    unfolding conserve_def using assms
    by (intro exI [of _ "id(src := dst)"]) (auto simp: inj_on_def dom_def)
qed

text \<open>A directory that holds part of the quarantine, or is part of it, cannot be moved into it from outside.\<close>

lemma below_cmp:
  assumes "below T dst" and "\<not> below src dst" and "\<not> below T src" and "p = src \<or> below src p"
  shows "\<not> below T p"
proof
  assume "below T p"
  with assms(3,4) obtain u v where p: "p = src @ slash # u" "p = T @ slash # v" by (auto simp: below_def HasPrefix_iff)
  from assms(1) obtain x where x: "dst = T @ slash # x" by (auto simp: below_def HasPrefix_iff)
  from p have "src @ slash # u = T @ slash # v" by simp
  then obtain us where "src = T @ us \<and> us @ slash # u = slash # v \<or> src @ us = T \<and> slash # u = us @ slash # v"
    by (auto simp: append_eq_append_conv2)
  then show False
  proof
    assume a: "src = T @ us \<and> us @ slash # u = slash # v"
    show False
    proof (cases us)
      case Nil
      with a x assms(2) show False by (simp add: below_def HasPrefix_iff)
    next
      case (Cons c cs)
      with a assms(3) show False by (simp add: below_def HasPrefix_iff)
    qed
  next
    assume a: "src @ us = T \<and> slash # u = us @ slash # v"
    show False
    proof (cases us)
      case Nil
      with a x assms(2) show False by (simp add: below_def HasPrefix_iff)
    next
      case (Cons c cs)
      with a have "dst = src @ slash # cs @ slash # x" using x by auto
      with assms(2) show False by (simp add: below_def HasPrefix_iff)
    qed
  qed
qed

text \<open>A rename onto a name no file has.\<close>

lemma os_Rename_conserve:
  assumes run: "os_Rename src dst w = (r, w')" and dst: "file_at w dst = None" "below T dst" "dst \<noteq> []"
    and below: "q \<noteq> src" "\<not> below src q" "q \<noteq> dst" "\<not> below dst q"
    and src: "\<And>p. p = src \<or> below src p \<Longrightarrow> p \<in> V" "\<not> below T src"
  shows "conserve V T w w'" and "r = Inr () \<Longrightarrow> q = path_Dir src \<Longrightarrow> file_at w' q = None"
proof -
  consider (regular) b t where "node (fs w) src = Some (FFile b t)" | (dir) "node (fs w) src = Some FDir" | (none) "node (fs w) src = None"
    by (cases "node (fs w) src") (auto intro: fnode.exhaust)
  then have "conserve V T w w' \<and> (r = Inr () \<longrightarrow> q = path_Dir src \<longrightarrow> file_at w' q = None)"
  proof cases
    case none
    with run have "r \<noteq> Inr ()" "w' = used w" unfolding os_Rename_def by (auto dest!: exec_cases)
    then show ?thesis by (auto intro: conserve_same)
  next
    case regular
    then have at: "file_at w src = Some (b, t)" by (simp add: file_at_Some)
    with dst(1) have ne: "src \<noteq> dst" by auto
    have "r = Inr () \<Longrightarrow> node (fs w) (path_Dir src) = Some FDir"
      using run regular unfolding os_Rename_def by (auto dest!: exec_cases simp: Let_def split: if_splits)
    then have par: "r = Inr () \<Longrightarrow> file_at w (path_Dir src) = None" by (simp add: file_at_def)
    show ?thesis
    proof (cases r)
      case (Inl e)
      with os_Rename_file [OF run at] have "file_at w' = file_at w" by simp
      with Inl show ?thesis by (auto intro: conserve_same)
    next
      case (Inr u)
      with os_Rename_file [OF run at] ne have f: "file_at w' = (file_at w)(src := None, dst := Some (b, t))" by simp
      have "conserve V T w w'" by (rule conserve_file [OF dst(1,2) at f]) (use src in auto)
      with f par Inr below(3) show ?thesis by auto
    qed
  next
    case dir
    from run dir consider "\<exists>e. r = Inl e" "w' = used w" | "r = Inr ()" "src = dst" "w' = used w" "node (fs w) (path_Dir src) = Some FDir"
      | "r = Inr ()" "src \<noteq> dst" "src \<noteq> ''/''" "dst \<noteq> ''/''" "\<not> has_child (fs w) dst" "node (fs w) (path_Dir src) = Some FDir"
        "w' = (used w)\<lparr>fs := fs_move src dst (fs w)\<rparr>" "\<not> below src dst"
      unfolding os_Rename_def by (auto dest!: exec_cases simp: Let_def split: if_splits)
    then show ?thesis
    proof cases
      case 3
      have "conserve V T w w'"
        by (rule conserve_dir [OF 3(5) dst(1,3) 3(4) dst(2), of _ src])
           (use 3(7) src(1) below_cmp [OF dst(2) 3(8) src(2)] in auto)
      moreover have "file_at w' q = None" if q: "q = path_Dir src"
      proof (cases "q = ''/''")
        case False
        have "move_path src dst q = q" using below by (simp add: move_path_def)
        with node_moved [OF 3(5) below(3,4) False, of src] False have "node (fs_move src dst (fs w)) q = node (fs w) q" by simp
        with 3(6,7) q show ?thesis by (simp add: file_at_def)
      qed (simp add: file_not_root)
      ultimately show ?thesis by blast
    qed (auto intro: conserve_same simp: file_at_def)
  qed
  then show "conserve V T w w'" and "r = Inr () \<Longrightarrow> q = path_Dir src \<Longrightarrow> file_at w' q = None" by auto
qed

section \<open>Paths of one removal\<close>

lemma path_Dir_shorter:
  assumes "abs_ok p"
  shows "length (path_Dir p) < length p"
proof -
  from assms obtain ss where ss: "ss \<noteq> []" "list_all seg_ok ss" "p = slash # join_on slash ss" by (rule abs_okE)
  then obtain ts t where ts: "ss = ts @ [t]" "list_all seg_ok ts" "seg_ok t" by (cases ss rule: rev_cases) auto
  show ?thesis
  proof (cases "ts = []")
    case True
    with ss(3) ts have p: "p = [] @ slash # t" by simp
    have "path_Dir p = ''/''" unfolding p path_Dir_def using ts(3) by (simp add: path_Split_snoc(1) [of t "[]", simplified] seg_ok_def path_Clean_def)
    with p ts(3) show ?thesis by (simp add: seg_ok_def)
  next
    case False
    with ss(3) ts have p: "p = (slash # join_on slash ts) @ slash # t" by (simp add: join_append)
    have "slash \<notin> set t" using ts(3) by (simp add: seg_ok_def)
    from path_Split_snoc(1) [OF this] have "path_Dir p = path_Clean ((slash # join_on slash ts) @ [slash])"
      unfolding p path_Dir_def by (simp only: fst_conv)
    also have "\<dots> = slash # join_on slash ts"
      using split_append_sep [of slash "[]" "join_on slash ts @ [slash]"] split_append_sep [of slash "join_on slash ts" "[]"] ts False
      by (simp add: path_Clean_def rel_ok_join clean_segs_append)
    finally show ?thesis by (simp add: p)
  qed
qed

lemma localPath_eq:
  assumes "abs_ok (pair_LocalPath pr)" and "rel_ok rel"
  shows "localPath pr rel = pair_LocalPath pr @ slash # rel" and "abs_ok (localPath pr rel)"
  unfolding localPath_def using path_Join_abs [OF assms] by simp_all

lemma free_name_run:
  assumes "free_name k i base w = (Inr dst, w')"
  shows "\<exists>e sfx. w' = w\<lparr>env := e\<rparr> \<and> dst = base @ sfx \<and> node (fs w) dst = None"
  using assms
proof (induction k arbitrary: i w)
  case 0
  then show ?case by (auto elim!: throwE_InrE)
next
  case (Suc k)
  then obtain r w1 where st: "os_Stat (candidate base i) w = (r, w1)"
    and rest: "(case r of Inr _ \<Rightarrow> free_name k (Suc i) base
       | Inl e \<Rightarrow> if errors_Is e ENotExist then returnE (candidate base i) else throwE (EWrap ''check the quarantine path'' e)) w1 = (Inr dst, w')"
    by (auto elim!: bindE_InrE tryE_InrE)
  from os_Stat_cases [OF st] have w1: "w1 = used w" by simp
  show ?case
  proof (cases r)
    case (Inr n)
    with Suc.IH rest have "\<exists>e sfx. w' = w1\<lparr>env := e\<rparr> \<and> dst = base @ sfx \<and> node (fs w1) dst = None" by simp
    with w1 show ?thesis by (auto simp: used_def)
  next
    case (Inl e)
    with rest have "errors_Is e ENotExist" "dst = candidate base i" "w' = w1" by (auto split: if_splits elim!: returnE_InrE throwE_InrE)
    with st Inl os_Stat_gone w1 show ?thesis by (auto simp: candidate_def used_def intro!: exI [of _ "env (used w)"])
  qed
qed

lemma free_name_env: "keeps (\<lambda>w w'. \<exists>e. w' = w\<lparr>env := e\<rparr>) (free_name k i base)"
  by (induction k arbitrary: i) (auto intro!: env_step.keeps_rules env_step.keeps_Stat)

text \<open>The quarantine of a day, and what is moved into it.\<close>

definition day_dir :: "pair \<Rightarrow> string \<Rightarrow> bool" where
  "day_dir pr dir \<longleftrightarrow> abs_ok dir \<and> below (trashRoot pr) dir"

lemma removeOne_conserve:
  assumes root: "abs_ok (pair_LocalPath pr)" and rel: "rel_ok rel" and dir: "day_dir pr dir"
    and run: "removeOne pr dir (localPath pr rel) rel w = (r, w')"
    and src: "\<And>p. p = localPath pr rel \<or> below (localPath pr rel) p \<Longrightarrow> p \<in> V" "\<not> below (trashRoot pr) (localPath pr rel)"
  shows "conserve V (trashRoot pr) w w' \<and> (r = Inr () \<longrightarrow> file_at w' (path_Dir (localPath pr rel)) = None)"
proof -
  let ?T = "trashRoot pr" and ?src = "localPath pr rel" and ?base = "dir @ slash # rel"
  have ne: "dir \<noteq> []" using dir by (simp add: day_dir_def abs_ok_def)
  have base: "path_Join [dir, rel] = ?base" using path_Join_abs(1) dir rel by (simp add: day_dir_def)
  obtain x w1 where name: "free_name 100 0 ?base w = (x, w1)" by (rule prod.exhaust)
  show ?thesis
  proof (cases x)
    case (Inl e)
    with run name ne base have "r = Inl e" "w' = w1" by (auto simp: removeOne_def trashPath_def bindE_def)
    moreover have "file_at w1 = file_at w" using keepsD [OF free_name_env name] by auto
    ultimately show ?thesis by (auto intro: conserve_same)
  next
    case (Inr dst)
    from free_name_run [OF name [unfolded Inr]] obtain e sfx where w1: "w1 = w\<lparr>env := e\<rparr>" and dst: "dst = ?base @ sfx"
      and gone: "node (fs w) dst = None" by blast
    from run name Inr ne base have rest: "bindE (makeDir pr (path_Dir dst)) (\<lambda>_. os_Rename ?src dst) w1 = (r, w')"
      by (simp add: removeOne_def trashPath_def bindE_def)
    obtain y w2 where mk: "makeDir pr (path_Dir dst) w1 = (y, w2)" by (rule prod.exhaust)
    have same: "file_at w2 = file_at w" using keepsD [OF tree_makeDir mk] w1 by simp
    show ?thesis
    proof (cases y)
      case (Inl e)
      with rest mk have "r = Inl e" "w' = w2" by (auto simp: bindE_def)
      with same show ?thesis by (auto intro: conserve_same)
    next
      case (Inr u)
      with rest mk have ren: "os_Rename ?src dst w2 = (r, w')" by (simp add: bindE_def)
      have free: "file_at w2 dst = None" using gone same by (simp add: file_at_def)
      have inside: "below ?T dst" using dir by (auto simp: day_dir_def dst below_def HasPrefix_iff)
      have len: "length (path_Dir ?src) < length ?src" by (rule path_Dir_shorter [OF localPath_eq(2) [OF root rel]])
      obtain u where u: "dir = ?T @ ''/'' @ u" using dir by (auto simp: day_dir_def below_def HasPrefix_iff)
      have "length ?src < length dst" unfolding dst u localPath_eq(1) [OF root rel] trashRoot_eq(1) [OF root] by simp
      with len have far: "path_Dir ?src \<noteq> ?src" "\<not> below ?src (path_Dir ?src)" "path_Dir ?src \<noteq> dst" "\<not> below dst (path_Dir ?src)"
        by (auto simp: below_def HasPrefix_iff)
      have "dst \<noteq> []" by (simp add: dst)
      from os_Rename_conserve [OF ren free inside this far src] conserve_same [OF same]
      show ?thesis using conserve_trans by blast
    qed
  qed
qed

lemma prune_up_same:
  "file_at w dir = None \<Longrightarrow> prune_up fuel root part dir w = (r, w') \<Longrightarrow> file_at w' = file_at w"
proof (induction fuel arbitrary: dir w rule: less_induct)
  case (less fuel)
  obtain x w1 where rm: "os_Remove dir w = (x, w1)" by (rule prod.exhaust)
  have same: "file_at w1 = file_at w" by (rule tree_Remove_dir [OF rm less.prems(1)])
  show ?case
  proof (cases "dir \<noteq> root \<and> HasPrefix dir (root @ ''/'') \<and> dir \<noteq> part")
    case False
    with less.prems(2) show ?thesis by (subst (asm) prune_up.simps) (auto simp: returnE_run split: if_splits)
  next
    case True
    with less.prems(2) rm have rest: "(case x of Inl _ \<Rightarrow> returnE ()
        | Inr _ \<Rightarrow> (case fuel of 0 \<Rightarrow> returnE () | Suc k \<Rightarrow> prune_up k root part (path_Dir dir))) w1 = (r, w')"
      by (subst (asm) prune_up.simps) (auto simp: bindE_def tryE_def)
    show ?thesis
    proof (cases x)
      case (Inr u)
      have "file_at w1 (path_Dir dir) = None"
        using rm Inr same by (cases rule: os_Remove_cases) (auto simp: file_at_def [of w])
      note parent = this
      show ?thesis
      proof (cases fuel)
        case (Suc k)
        with rest Inr have "prune_up k root part (path_Dir dir) w1 = (r, w')" by simp
        from less.IH [OF _ parent this] Suc same show ?thesis by simp
      qed (use rest Inr same in \<open>auto simp: returnE_run\<close>)
    qed (use rest same in \<open>auto simp: returnE_run\<close>)
  qed
qed

section \<open>The removal of one file\<close>

lemma conserve_carry:
  "keeps (conserve V T) m \<Longrightarrow> triple (conserve V T w0) m (\<lambda>_. conserve V T w0) (conserve V T w0)"
  by (rule triple_keeps [where R = "conserve V T"]) (auto intro: conserve_trans)

lemma conserve_of_tree: "keeps (\<lambda>w w'. file_at w' = file_at w) m \<Longrightarrow> keeps (conserve V T) m"
  unfolding keeps_def by (blast intro: conserve_same)

lemma tree_forget: "keeps (\<lambda>w w'. file_at w' = file_at w) (forget pr rel n t)"
  unfolding forget_def by (intro tree.frame.keeps_rules tree_keeps)

lemma pruneEmptyDirs_carry:
  "triple (\<lambda>w. conserve V T w0 w \<and> file_at w (path_Dir (localPath pr rel)) = None) (pruneEmptyDirs pr rel)
     (\<lambda>_. conserve V T w0) (conserve V T w0)"
  unfolding pruneEmptyDirs_def Let_def
  by (rule tripleI; blast dest: prune_up_same intro: conserve_trans conserve_same)

lemma removeOne_carry:
  assumes "abs_ok (pair_LocalPath pr)" and "rel_ok rel" and "day_dir pr dir"
    and "\<And>p. p = localPath pr rel \<or> below (localPath pr rel) p \<Longrightarrow> p \<in> V" and "\<not> below (trashRoot pr) (localPath pr rel)"
  shows "triple (conserve V (trashRoot pr) w0) (tryE (removeOne pr dir (localPath pr rel) rel))
    (\<lambda>r w. conserve V (trashRoot pr) w0 w \<and> (r = Inr () \<longrightarrow> file_at w (path_Dir (localPath pr rel)) = None)) X"
proof (rule tripleI)
  fix w a w'
  assume w0: "conserve V (trashRoot pr) w0 w" and "tryE (removeOne pr dir (localPath pr rel) rel) w = (Inr a, w')"
  then have "removeOne pr dir (localPath pr rel) rel w = (a, w')" by (auto elim!: tryE_InrE)
  from removeOne_conserve [OF assms(1-3) this assms(4,5)] w0 show "conserve V (trashRoot pr) w0 w' \<and>
      (a = Inr () \<longrightarrow> file_at w' (path_Dir (localPath pr rel)) = None)"
    using conserve_trans by blast
qed simp

lemma remove_file_conserve:
  assumes "abs_ok (pair_LocalPath pr)" and "rel_ok rel" and "day_dir pr dir"
    and "\<And>p. p = localPath pr rel \<or> below (localPath pr rel) p \<Longrightarrow> p \<in> V" and "\<not> below (trashRoot pr) (localPath pr rel)"
  shows "keeps (conserve V (trashRoot pr)) (remove_file pr dir rel n t)"
proof -
  let ?T = "trashRoot pr"
  have forget: "triple (conserve V ?T w0) (forget pr rel n t) (\<lambda>_. conserve V ?T w0) (conserve V ?T w0)" for w0 t
    by (rule conserve_carry [OF conserve_of_tree [OF tree_forget]])
  have gone: "triple (\<lambda>w. conserve V ?T w0 w \<and> (r = Inr () \<longrightarrow> file_at w (path_Dir (localPath pr rel)) = None))
      (case r of Inl _ \<Rightarrow> returnE (t\<lparr>ta_Failed := ta_Failed t + 1\<rparr>, None)
       | Inr _ \<Rightarrow> bindE (pruneEmptyDirs pr rel) (\<lambda>_. forget pr rel n (t\<lparr>ta_Deleted := ta_Deleted t + 1, ta_Bytes := ta_Bytes t + n\<rparr>)))
      (\<lambda>_. conserve V ?T w0) (conserve V ?T w0)" for w0 and r :: "error + unit"
  proof (cases r)
    case (Inr u)
    then show ?thesis
      using triple_bind [OF pruneEmptyDirs_carry [of V ?T w0 pr rel] forget] by (simp add: triple_def)
  qed (auto intro: triple_return)
  have "triple (conserve V ?T w0) (remove_file pr dir rel n t) (\<lambda>_. conserve V ?T w0) (conserve V ?T w0)" for w0
    unfolding remove_file_def Let_def
  proof (rule triple_bind [OF conserve_carry [OF conserve.keeps_ctx]])
    fix c
    show "triple (conserve V ?T w0) (case c of Some e \<Rightarrow> returnE (t, Some e) | None \<Rightarrow>
        bindE (tryE (os_Lstat (localPath pr rel))) (\<lambda>st. case st of
          Inl e \<Rightarrow> if errors_Is e ENotExist then forget pr rel n (t\<lparr>ta_Missing := ta_Missing t + 1\<rparr>)
                   else returnE (t\<lparr>ta_Failed := ta_Failed t + 1\<rparr>, None)
        | Inr _ \<Rightarrow> bindE (tryE (removeOne pr dir (localPath pr rel) rel)) (\<lambda>r. case r of
              Inl _ \<Rightarrow> returnE (t\<lparr>ta_Failed := ta_Failed t + 1\<rparr>, None)
            | Inr _ \<Rightarrow> bindE (pruneEmptyDirs pr rel) (\<lambda>_.
                forget pr rel n (t\<lparr>ta_Deleted := ta_Deleted t + 1, ta_Bytes := ta_Bytes t + n\<rparr>))))) (\<lambda>_. conserve V ?T w0) (conserve V ?T w0)"
    proof (cases c)
      case None
      have "triple (conserve V ?T w0) (case st of
          Inl e \<Rightarrow> if errors_Is e ENotExist then forget pr rel n (t\<lparr>ta_Missing := ta_Missing t + 1\<rparr>)
                   else returnE (t\<lparr>ta_Failed := ta_Failed t + 1\<rparr>, None)
        | Inr _ \<Rightarrow> bindE (tryE (removeOne pr dir (localPath pr rel) rel)) (\<lambda>r. case r of
              Inl _ \<Rightarrow> returnE (t\<lparr>ta_Failed := ta_Failed t + 1\<rparr>, None)
            | Inr _ \<Rightarrow> bindE (pruneEmptyDirs pr rel) (\<lambda>_.
                forget pr rel n (t\<lparr>ta_Deleted := ta_Deleted t + 1, ta_Bytes := ta_Bytes t + n\<rparr>)))) (\<lambda>_. conserve V ?T w0) (conserve V ?T w0)"
        for st :: "error + fnode"
        using forget triple_bind [OF removeOne_carry [OF assms] gone]
        by (cases st) (auto intro: triple_return)
      with None show ?thesis
        by (simp add: triple_bind [OF conserve_carry [OF conserve.keeps_try [OF conserve.keeps_Stat]]])
    qed (auto intro: triple_return)
  qed
  from tripleD [OF this] tripleD_Inl [OF this] conserve.R_refl show ?thesis
    by (intro keepsI) (metis sum.exhaust)
qed

section \<open>What the removal does to local truth\<close>

lemma store_prune_up: "keeps (\<lambda>w w'. tables w' = tables w) (prune_up fuel root part dir)"
proof (induction fuel arbitrary: dir)
  case 0
  show ?case by (subst prune_up.simps) (intro store.frame.keeps_rules keeps_nat store_os, simp)
next
  case (Suc k)
  show ?case by (subst prune_up.simps) (intro store.frame.keeps_rules keeps_nat store_os, auto intro: Suc)
qed

lemma store_free_name: "keeps (\<lambda>w w'. tables w' = tables w) (free_name k i base)"
  by (induction k arbitrary: i) (auto intro!: store.frame.keeps_rules store_os)

lemma store_removeOne: "keeps (\<lambda>w w'. tables w' = tables w) (removeOne pr dir src rel)"
  unfolding removeOne_def trashPath_def by (intro store.frame.keeps_rules store_free_name store_keeps)

lemma store_pruneEmptyDirs: "keeps (\<lambda>w w'. tables w' = tables w) (pruneEmptyDirs pr rel)"
  unfolding pruneEmptyDirs_def Let_def by (rule store_prune_up)

definition forgotten :: "int \<Rightarrow> string \<Rightarrow> frow list \<Rightarrow> frow list" where
  "forgotten pid rel = sql_delete (\<lambda>f. f_key f = (pid, rel))"

lemma forget_run:
  assumes "forget pr rel n t w = (Inr (t', err), w')"
  shows "t' = t \<and> manifest w' = manifest w \<and> files w' = (if err = None then forgotten (pair_ID pr) rel (files w) else files w)"
proof -
  obtain r w1 where f: "ForgetFile (pair_ID pr) rel w = (r, w1)" by (rule prod.exhaust)
  show ?thesis
  proof (cases r)
    case (Inl e)
    from f Inl have "files w1 = files w" "manifest w1 = manifest w"
      unfolding ForgetFile_def put_files_def wrapE_def
      by (auto dest!: exec_cases split: prod.splits sum.splits)
    with assms f Inl show ?thesis unfolding forget_def by (auto simp: bindE_def tryE_def returnE_def)
  next
    case (Inr u)
    with f have "ForgetFile (pair_ID pr) rel w = (Inr (), w1)" by simp
    from ForgetFile_Inr [OF this] obtain e where w1: "w1 = w\<lparr>files := forgotten (pair_ID pr) rel (files w), env := e\<rparr>"
      unfolding forgotten_def by blast
    from assms f Inr have "t' = t" "err = None"
      and ch: "\<exists>u. change (change_of (pair_ID pr) rel ChangeDelete (Some n) None None) w1 = (Inr u, w')"
      unfolding forget_def by (auto simp: bindE_def tryE_def returnE_def split: prod.splits sum.splits)
    moreover from ch have "files w' = files w1" "manifest w' = manifest w1" by (auto elim!: change_InrE)
    ultimately show ?thesis by (simp add: w1)
  qed
qed

lemma remove_file_run:
  assumes "remove_file pr dir rel n t w = (Inr (t', err), w')"
  shows "manifest w' = manifest w \<and>
    (err \<noteq> None \<and> files w' = files w \<or>
     err = None \<and> t' = t\<lparr>ta_Failed := ta_Failed t + 1\<rparr> \<and> files w' = files w \<or>
     err = None \<and> ta_Deleted t' + ta_Missing t' = ta_Deleted t + ta_Missing t + 1 \<and> ta_Failed t' = ta_Failed t \<and>
       files w' = forgotten (pair_ID pr) rel (files w))"
proof -
  from assms obtain c w1 where ctx: "ctx_Err w = (Inr c, w1)"
    and rest: "(case c of Some e \<Rightarrow> returnE (t, Some e) | None \<Rightarrow>
        bindE (tryE (os_Lstat (localPath pr rel))) (\<lambda>st. case st of
          Inl e \<Rightarrow> if errors_Is e ENotExist then forget pr rel n (t\<lparr>ta_Missing := ta_Missing t + 1\<rparr>)
                   else returnE (t\<lparr>ta_Failed := ta_Failed t + 1\<rparr>, None)
        | Inr _ \<Rightarrow> bindE (tryE (removeOne pr dir (localPath pr rel) rel)) (\<lambda>r. case r of
              Inl _ \<Rightarrow> returnE (t\<lparr>ta_Failed := ta_Failed t + 1\<rparr>, None)
            | Inr _ \<Rightarrow> bindE (pruneEmptyDirs pr rel) (\<lambda>_.
                forget pr rel n (t\<lparr>ta_Deleted := ta_Deleted t + 1, ta_Bytes := ta_Bytes t + n\<rparr>))))) w1 = (Inr (t', err), w')"
    unfolding remove_file_def Let_def by (auto elim!: bindE_InrE)
  have one: "tables w1 = tables w" using keepsD [OF store.frame.keeps_ctx ctx] .
  show ?thesis
  proof (cases c)
    case (Some e)
    with rest have "err \<noteq> None" "w' = w1" by (auto simp: returnE_run)
    with tables_eq [OF one] show ?thesis by simp
  next
    case None
    with rest obtain st w2 where st: "os_Lstat (localPath pr rel) w1 = (st, w2)"
      and rest: "(case st of
          Inl e \<Rightarrow> if errors_Is e ENotExist then forget pr rel n (t\<lparr>ta_Missing := ta_Missing t + 1\<rparr>)
                   else returnE (t\<lparr>ta_Failed := ta_Failed t + 1\<rparr>, None)
        | Inr _ \<Rightarrow> bindE (tryE (removeOne pr dir (localPath pr rel) rel)) (\<lambda>r. case r of
              Inl _ \<Rightarrow> returnE (t\<lparr>ta_Failed := ta_Failed t + 1\<rparr>, None)
            | Inr _ \<Rightarrow> bindE (pruneEmptyDirs pr rel) (\<lambda>_.
                forget pr rel n (t\<lparr>ta_Deleted := ta_Deleted t + 1, ta_Bytes := ta_Bytes t + n\<rparr>)))) w2 = (Inr (t', err), w')"
      by (auto elim!: bindE_InrE tryE_InrE)
    have two: "tables w2 = tables w" using keepsD [OF store_os(1) st] one by simp
    show ?thesis
    proof (cases st)
      case (Inl e)
      show ?thesis
      proof (cases "errors_Is e ENotExist")
        case True
        with Inl rest have "forget pr rel n (t\<lparr>ta_Missing := ta_Missing t + 1\<rparr>) w2 = (Inr (t', err), w')" by simp
        from forget_run [OF this] tables_eq [OF two] show ?thesis by (cases err) auto
      next
        case False
        with Inl rest tables_eq [OF two] show ?thesis by (auto simp: returnE_run)
      qed
    next
      case (Inr nd)
      with rest obtain r w3 where rm: "removeOne pr dir (localPath pr rel) rel w2 = (r, w3)"
        and rest: "(case r of Inl _ \<Rightarrow> returnE (t\<lparr>ta_Failed := ta_Failed t + 1\<rparr>, None)
            | Inr _ \<Rightarrow> bindE (pruneEmptyDirs pr rel) (\<lambda>_.
                forget pr rel n (t\<lparr>ta_Deleted := ta_Deleted t + 1, ta_Bytes := ta_Bytes t + n\<rparr>))) w3 = (Inr (t', err), w')"
        by (auto elim!: bindE_InrE tryE_InrE)
      have three: "tables w3 = tables w" using keepsD [OF store_removeOne rm] two by simp
      show ?thesis
      proof (cases r)
        case (Inl e)
        with rest tables_eq [OF three] show ?thesis by (auto simp: returnE_run)
      next
        case (Inr u)
        with rest obtain v w4 where pe: "pruneEmptyDirs pr rel w3 = (Inr v, w4)"
          and fg: "forget pr rel n (t\<lparr>ta_Deleted := ta_Deleted t + 1, ta_Bytes := ta_Bytes t + n\<rparr>) w4 = (Inr (t', err), w')"
          by (auto elim!: bindE_InrE)
        have "tables w4 = tables w" using keepsD [OF store_pruneEmptyDirs pe] three by simp
        from tables_eq [OF this] forget_run [OF fg] show ?thesis by (cases err) auto
      qed
    qed
  qed
qed

text \<open>Forgetting a path leaves the rows after it where they are.\<close>

lemma later_rows:
  assumes "manifest w' = manifest w" and "files w' = files w \<or> files w' = forgotten pid rel (files w)"
  shows "filter (\<lambda>x. rel < fst x) (vanished_rows pid w') = filter (\<lambda>x. rel < fst x) (vanished_rows pid w)"
proof -
  have push: "filter (\<lambda>x. rel < fst x) (vanished_rows pid v) = map (\<lambda>f. (f_Path f, f_Size f))
      (sort_key f_Path (filter (\<lambda>f. vanishedFrom pid (manifest v) f \<and> rel < f_Path f) (files v)))" for v
    by (simp add: vanished_rows_def filter_map comp_def filter_sort)
  have "filter (\<lambda>f. vanishedFrom pid (manifest w) f \<and> rel < f_Path f) (forgotten pid rel (files w)) =
      filter (\<lambda>f. vanishedFrom pid (manifest w) f \<and> rel < f_Path f) (files w)"
    by (auto simp: forgotten_def sql_delete_def f_key_def intro!: filter_cong)
  with assms show ?thesis unfolding push by auto
qed

text \<open>The state of a removal after the rows \<open>seen\<close>: \<open>gone\<close> are those whose row is gone.\<close>

definition removal :: "int \<Rightarrow> world \<Rightarrow> (string \<times> int) list \<Rightarrow> tally \<Rightarrow> error option \<Rightarrow> world \<Rightarrow> bool" where
  "removal pid w seen t err v \<longleftrightarrow> manifest v = manifest w \<and> (\<exists>gone. subseq gone seen \<and>
     files v = filter (\<lambda>f. \<not> (f_PairID f = pid \<and> f_Path f \<in> fst ` set gone)) (files w) \<and>
     (err = None \<longrightarrow> int (length gone) = ta_Deleted t + ta_Missing t \<and>
        int (length seen) = ta_Deleted t + ta_Missing t + ta_Failed t))"

lemma removal_step:
  assumes I: "removal (pair_ID pr) w seen t None v" and run: "remove_file pr dir (fst r) (snd r) t v = (Inr (t', err), v')"
  shows "removal (pair_ID pr) w (seen @ [r]) t' err v'"
proof -
  from I obtain gone where m: "manifest v = manifest w" and g: "subseq gone seen"
    and f: "files v = filter (\<lambda>f. \<not> (f_PairID f = pair_ID pr \<and> f_Path f \<in> fst ` set gone)) (files w)"
    and n: "int (length gone) = ta_Deleted t + ta_Missing t" "int (length seen) = ta_Deleted t + ta_Missing t + ta_Failed t"
    unfolding removal_def by auto
  have same: "subseq gone (seen @ [r])" using g by (rule subseq_rev_drop_many)
  from remove_file_run [OF run] consider
      "manifest v' = manifest w" "err \<noteq> None" "files v' = files v"
    | "manifest v' = manifest w" "err = None" "t' = t\<lparr>ta_Failed := ta_Failed t + 1\<rparr>" "files v' = files v"
    | "manifest v' = manifest w" "err = None" "ta_Deleted t' + ta_Missing t' = ta_Deleted t + ta_Missing t + 1"
      "ta_Failed t' = ta_Failed t" "files v' = forgotten (pair_ID pr) (fst r) (files v)"
    using m by auto
  then show ?thesis
  proof cases
    case 3
    have "files v' = filter (\<lambda>f. \<not> (f_PairID f = pair_ID pr \<and> f_Path f \<in> fst ` set (gone @ [r]))) (files w)"
      unfolding 3(5) f by (auto simp: forgotten_def sql_delete_def f_key_def intro!: filter_cong)
    moreover have "subseq (gone @ [r]) (seen @ [r])" using g by (simp add: list_emb_append_mono)
    ultimately show ?thesis using 3 n unfolding removal_def by (intro conjI exI [of _ "gone @ [r]"]) auto
  qed (use f n same in \<open>auto simp: removal_def\<close>)
qed

text \<open>The paths of local truth are clean relative paths.\<close>

definition paths_ok :: "int \<Rightarrow> world \<Rightarrow> bool" where
  "paths_ok pid w = list_all (\<lambda>f. f_PairID f = pid \<longrightarrow> rel_ok (f_Path f)) (files w)"

lemma paths_ok_named: "paths_ok pid w \<Longrightarrow> paths_named pid w"
  by (auto simp: paths_ok_def paths_named_def list_all_iff rel_ok_def seg_ok_def)

lemma vanished_rel_ok: "paths_ok pid w \<Longrightarrow> v \<in> set (vanished_rows pid w) \<Longrightarrow> rel_ok (fst v)"
  by (auto simp: paths_ok_def list_all_iff vanished_rows_def vanishedFrom_def)

lemma remove_Inr:
  assumes "remove l E pr w = (Inr (t, err), w')"
  obtains dir w1 n b where "vanished E pr (remove_file pr dir) no_tally w1 = (Inr ((t, n, b), err), w')"
    "file_at w1 = file_at w" "tables w1 = tables w"
    "pair_Mode pr = ModeGuarded \<Longrightarrow> \<exists>at. dir = trashDirFor l pr at"
proof (cases "pair_Mode pr = ModeGuarded")
  case True
  with assms obtain at w0 u w1 n b where now: "now w = (Inr at, w0)" and mk: "makeDir pr (trashDirFor l pr at) w0 = (Inr u, w1)"
    and van: "vanished E pr (remove_file pr (trashDirFor l pr at)) no_tally w1 = (Inr ((t, n, b), err), w')"
    unfolding remove_def Let_def by (auto elim!: bindE_InrE wrapE_InrE returnE_InrE split: prod.splits)
  have "file_at w1 = file_at w" "tables w1 = tables w"
    using keepsD [OF tree.frame.keeps_now now] keepsD [OF tree_makeDir mk]
      keepsD [OF store.frame.keeps_now now] keepsD [OF store_makeDir mk] by simp_all
  from that [OF van this] show thesis by blast
next
  case False
  with assms obtain n b where "vanished E pr (remove_file pr []) no_tally w = (Inr ((t, n, b), err), w')"
    unfolding remove_def by (auto elim!: bindE_InrE returnE_InrE split: prod.splits)
  from that [OF this] False show thesis by blast
qed

text \<open>
  The deletion pass accounts for every row it meets. When it comes to its end, the rows of
  local truth that are gone are rows the publisher no longer has, the filter covers and the gate
  does not hold, as many as were deleted or found missing; every other row is still there, and
  with those that could not be removed they make up all that vanished.
\<close>

theorem remove_accounts:
  assumes "files_wf w" and "paths_ok (pair_ID pr) w" and "remove l E pr w = (Inr (t, None), w')"
  shows "manifest w' = manifest w \<and>
    (\<exists>gone. subseq gone (doomed E pr (vanished_rows (pair_ID pr) w)) \<and>
       files w' = filter (\<lambda>f. \<not> (f_PairID f = pair_ID pr \<and> f_Path f \<in> fst ` set gone)) (files w) \<and>
       int (length gone) = ta_Deleted t + ta_Missing t \<and>
       int (length (doomed E pr (vanished_rows (pair_ID pr) w))) = ta_Deleted t + ta_Missing t + ta_Failed t)"
  using assms(3)
proof (rule remove_Inr)
  fix dir w1 n b
  assume van: "vanished E pr (remove_file pr dir) no_tally w1 = (Inr ((t, n, b), None), w')" and tab: "tables w1 = tables w"
  have eq: "files w1 = files w" "manifest w1 = manifest w" "pairs w1 = pairs w" by (simp_all only: tables_eq [OF tab])
  have wf: "files_wf w1" "paths_named (pair_ID pr) w1"
    using assms(1) paths_ok_named [OF assms(2)] by (simp_all add: files_wf_def paths_named_def eq has_pair_def)
  have "\<exists>ds rest. doomed E pr (vanished_rows (pair_ID pr) w1) = ds @ rest \<and> n = int (length ds) \<and>
      b = sum_list (map snd ds) \<and> ((None :: error option) = None \<longrightarrow> rest = []) \<and> removal (pair_ID pr) w ds t None w'"
  proof (rule vanished_run [OF van wf, where I = "removal (pair_ID pr) w"])
    show "removal (pair_ID pr) w [] no_tally None w1"
      by (auto simp: removal_def eq no_tally_def intro!: exI [of _ "[]"])
  next
    fix seen v s u s' err u'
    assume I: "removal (pair_ID pr) w seen s None u" and run: "remove_file pr dir (fst v) (snd v) s u = (Inr (s', err), u')"
    have "filter (\<lambda>x. fst v < fst x) (vanished_rows (pair_ID pr) u') = filter (\<lambda>x. fst v < fst x) (vanished_rows (pair_ID pr) u)"
      using remove_file_run [OF run] by (intro later_rows) auto
    with removal_step [OF I run] show "removal (pair_ID pr) w (seen @ [v]) s' err u' \<and>
      filter (\<lambda>x. fst v < fst x) (vanished_rows (pair_ID pr) u') = filter (\<lambda>x. fst v < fst x) (vanished_rows (pair_ID pr) u)" by blast
  qed (auto simp: removal_def)
  moreover have "vanished_rows (pair_ID pr) w1 = vanished_rows (pair_ID pr) w" by (simp add: vanished_rows_def eq)
  ultimately show ?thesis by (auto simp: removal_def)
qed

text \<open>The paths at or below those of the rows the publisher has no file for any more.\<close>

definition vanished_paths :: "pair \<Rightarrow> world \<Rightarrow> string set" where
  "vanished_paths pr w = {p. \<exists>v \<in> set (vanished_rows (pair_ID pr) w). p = localPath pr (fst v) \<or> below (localPath pr (fst v)) p}"

text \<open>
  (C4) Quarantining loses nothing. Where no file of local truth lies in the quarantine itself, whatever the deletion phase
  of a guarded pair meets: every file there was is still there with its contents and its time, different files are
  still different files, and each is where it was, but for files at or below the path of a row that the publisher no
  longer has, which were outside the quarantine and may be inside it now. What was in the quarantine has not moved.
\<close>

theorem quarantine_conserves:
  assumes "abs_ok (pair_LocalPath pr)" and "files_wf w" and "paths_ok (pair_ID pr) w" and "pair_Mode pr = ModeGuarded"
    and out: "\<forall>f \<in> set (files w). f_PairID f = pair_ID pr \<longrightarrow> \<not> below (trashRoot pr) (localPath pr (f_Path f))"
    and "remove l E pr w = (Inr (t, err), w')"
  shows "conserve (vanished_paths pr w) (trashRoot pr) w w'"
  using assms(6)
proof (rule remove_Inr)
  let ?C = "conserve (vanished_paths pr w) (trashRoot pr)"
  fix dir w1 n b
  assume van: "vanished E pr (remove_file pr dir) no_tally w1 = (Inr ((t, n, b), err), w')" and tab: "tables w1 = tables w"
    and same: "file_at w1 = file_at w" and day: "pair_Mode pr = ModeGuarded \<Longrightarrow> \<exists>at. dir = trashDirFor l pr at"
  from day [OF assms(4)] obtain at where "dir = trashDirFor l pr at" ..
  then have dir: "day_dir pr dir"
    using trashDirFor_eq [OF assms(1), of l at] by (simp add: day_dir_def below_join)
  have eq: "files w1 = files w" "manifest w1 = manifest w" "pairs w1 = pairs w" by (simp_all only: tables_eq [OF tab])
  have wf: "files_wf w1" "paths_named (pair_ID pr) w1"
    using assms(2) paths_ok_named [OF assms(3)] by (simp_all add: files_wf_def paths_named_def eq has_pair_def)
  have rows: "vanished_rows (pair_ID pr) w1 = vanished_rows (pair_ID pr) w" by (simp add: vanished_rows_def eq)
  have away: "\<not> below (trashRoot pr) (localPath pr (fst v))" if "v \<in> set (vanished_rows (pair_ID pr) w)" for v
    using that out by (auto simp: vanished_rows_def vanishedFrom_def)
  let ?I = "\<lambda>(seen :: (string \<times> int) list) (s :: tally) (x :: error option) v. ?C w v"
  have "\<exists>ds rest. doomed E pr (vanished_rows (pair_ID pr) w1) = ds @ rest \<and> n = int (length ds) \<and>
      b = sum_list (map snd ds) \<and> (err = None \<longrightarrow> rest = []) \<and> ?I ds t err w'"
  proof (rule vanished_run [OF van wf, where I = ?I])
    fix seen v s u s' err u'
    assume v: "v \<in> set (vanished_rows (pair_ID pr) w1)" and I: "?C w u"
      and run: "remove_file pr dir (fst v) (snd v) s u = (Inr (s', err), u')"
    have v': "v \<in> set (vanished_rows (pair_ID pr) w)" using v unfolding rows .
    have "keeps ?C (remove_file pr dir (fst v) (snd v) s)"
      by (rule remove_file_conserve [OF assms(1) vanished_rel_ok [OF assms(3) v'] dir _ away [OF v']])
         (use v' in \<open>auto simp: vanished_paths_def\<close>)
    from keepsD [OF this run] have "?C u u'" .
    moreover have "filter (\<lambda>x. fst v < fst x) (vanished_rows (pair_ID pr) u') = filter (\<lambda>x. fst v < fst x) (vanished_rows (pair_ID pr) u)"
      using remove_file_run [OF run] by (intro later_rows) auto
    ultimately show "?C w u' \<and>
      filter (\<lambda>x. fst v < fst x) (vanished_rows (pair_ID pr) u') = filter (\<lambda>x. fst v < fst x) (vanished_rows (pair_ID pr) u)"
      using I conserve_trans by blast
  qed (use same in \<open>auto intro: conserve_same conserve_trans conserve.R_env\<close>)
  then show ?thesis by blast
qed

end
