(* ===== verification/ReapGuard.thy ===== *)
theory ReapGuard
  imports Quarantine
begin

text \<open>
  The guards in front of the deletion phase: what has to hold of the tables before \<open>Reap\<close> takes
  anything away.
\<close>

lemma bindE_cases:
  assumes "bindE m f w = (r, w')"
  obtains e where "m w = (Inl e, w')" "r = Inl e" | a w1 where "m w = (Inr a, w1)" "f a w1 = (r, w')"
  using assms by (cases "m w"; cases "fst (m w)") (auto simp: bindE_def)

text \<open>Local truth and the disk.\<close>

definition still :: "world \<Rightarrow> frow list \<times> disk" where
  "still w = (files w, fs w)"

interpretation still: world_frame still
  by unfold_locales (simp add: still_def)

lemma still_event: "keeps (\<lambda>w w'. still w' = still w) (event lv kd pid)"
proof (rule keepsI)
  fix w r w'
  assume "event lv kd pid w = (r, w')"
  from keepsD [OF telemetry_event this] show "still w' = still w" by (auto simp: still_def)
qed

lemma still_approvals: "keeps (\<lambda>w w'. still w' = still w) (put_approvals g)"
  unfolding put_approvals_def by (rule still.frame.keeps_exec) (auto simp: still_def Let_def split: prod.splits if_splits)

lemma still_Request: "keeps (\<lambda>w w'. still w' = still w) (RequestDeleteApproval pid sid n b reason)"
  unfolding RequestDeleteApproval_def openApprovalTx_def by (intro still.frame.keeps_rules still_approvals)

lemma still_reads:
  "keeps (\<lambda>w w'. still w' = still w) (LastCompletedScan pid)"
  "keeps (\<lambda>w w'. still w' = still w) (ManifestStats pid)"
  "keeps (\<lambda>w w'. still w' = still w) (Queue pid)"
  "keeps (\<lambda>w w'. still w' = still w) (FileStats pid)"
  "keeps (\<lambda>w w'. still w' = still w) (LatestApproval pid)"
  unfolding LastCompletedScan_def ManifestStats_def Queue_def FileStats_def LatestApproval_def
  by (intro still.frame.keeps_rules)+

section \<open>The decision\<close>

text \<open>What the deletion phase needs of the tables.\<close>

definition reap_passes :: "engine \<Rightarrow> pair \<Rightarrow> world \<Rightarrow> bool" where
  "reap_passes E pr w \<longleftrightarrow> pair_Mode pr \<noteq> ModeAdditive \<and>
     (case sql_last scan_ID (\<lambda>s. scan_PairID s = pair_ID pr \<and> scan_State s = ScanDone) (scans w) of
        None \<Rightarrow> False
      | Some sc \<Rightarrow>
         list_ex (\<lambda>m. m_PairID m = pair_ID pr \<and> \<not> m_IsDir m) (manifest w) \<and>
         list_all (\<lambda>j. job_PairID j = pair_ID pr \<longrightarrow> \<not> job_open j) (jobs w) \<and>
         (pair_Mode pr = ModeGuarded \<longrightarrow>
            (let n = int (length (doomed E pr (vanished_rows (pair_ID pr) w)));
                 held = sql_count (\<lambda>f. f_PairID f = pair_ID pr) (files w) in
             guardTrip pr (opt_DeletePercent (en_opts E)) n held = '''' \<or>
             (case sql_last a_ID (\<lambda>a. a_PairID a = pair_ID pr) (approvals w) of
                None \<Rightarrow> False | Some a \<Rightarrow> Covers a (scan_ID sc) n))))"

lemma hold_still: "keeps (\<lambda>w w'. still w' = still w) (hold pr sid n b reason res)"
  unfolding hold_def Let_def by (intro still.frame.keeps_rules still_reads still_Request still_event)

lemma hold_Inr:
  assumes "hold pr sid n b reason res w = (Inr (res', ahead), w')"
  shows "rr_Deleted res' = rr_Deleted res"
    and "ahead \<Longrightarrow> \<exists>a. sql_last a_ID (\<lambda>a. a_PairID a = pair_ID pr) (approvals w) = Some a \<and> Covers a sid n"
proof -
  from assms obtain latest w1 where la: "LatestApproval (pair_ID pr) w = (Inr latest, w1)" unfolding hold_def Let_def
    by (auto elim!: bindE_InrE)
  with LatestApproval_Inr have eq: "latest = sql_last a_ID (\<lambda>a. a_PairID a = pair_ID pr) (approvals w)" by blast
  have "rr_Deleted res' = rr_Deleted res \<and> (ahead \<longrightarrow> (\<exists>a. latest = Some a \<and> Covers a sid n))"
    using assms la unfolding hold_def Let_def
    by (auto simp: bindE_Inr returnE_run split: option.splits if_splits)
  with eq show "rr_Deleted res' = rr_Deleted res" "ahead \<Longrightarrow> \<exists>a. sql_last a_ID (\<lambda>a. a_PairID a = pair_ID pr) (approvals w) = Some a \<and> Covers a sid n"
    by auto
qed

lemma reap_guard_still: "keeps (\<lambda>w w'. still w' = still w) (reap_guard E pr sid n b res)"
  unfolding reap_guard_def Let_def by (intro still.frame.keeps_rules still_reads hold_still)

lemma reap_guard_Inr:
  assumes "reap_guard E pr sid n b res w = (Inr (res', ahead), w')"
  shows "rr_Deleted res' = rr_Deleted res"
    and "ahead \<Longrightarrow> pair_Mode pr = ModeGuarded \<Longrightarrow>
      guardTrip pr (opt_DeletePercent (en_opts E)) n (sql_count (\<lambda>f. f_PairID f = pair_ID pr) (files w)) = '''' \<or>
      (\<exists>a. sql_last a_ID (\<lambda>a. a_PairID a = pair_ID pr) (approvals w) = Some a \<and> Covers a sid n)"
proof -
  have "rr_Deleted res' = rr_Deleted res \<and> (ahead \<longrightarrow> pair_Mode pr = ModeGuarded \<longrightarrow>
      guardTrip pr (opt_DeletePercent (en_opts E)) n (sql_count (\<lambda>f. f_PairID f = pair_ID pr) (files w)) = '''' \<or>
      (\<exists>a. sql_last a_ID (\<lambda>a. a_PairID a = pair_ID pr) (approvals w) = Some a \<and> Covers a sid n))"
  proof (cases "pair_Mode pr = ModeGuarded")
    case False
    with assms show ?thesis by (auto simp: reap_guard_def returnE_run)
  next
    case True
    let ?held = "sql_count (\<lambda>f. f_PairID f = pair_ID pr) (files w)"
    from True assms obtain e where "(if guardTrip pr (opt_DeletePercent (en_opts E)) n ?held = '''' then returnE (res, True)
        else hold pr sid n b (guardTrip pr (opt_DeletePercent (en_opts E)) n ?held) res) (w\<lparr>env := e\<rparr>) = (Inr (res', ahead), w')"
      unfolding reap_guard_def FileStats_def Let_def by (auto elim!: bindE_InrE wrapE_InrE query_InrE cong: if_cong)
    then show ?thesis
      by (cases "guardTrip pr (opt_DeletePercent (en_opts E)) n ?held = ''''") (auto simp: returnE_run dest: hold_Inr)
  qed
  then show "rr_Deleted res' = rr_Deleted res" and "ahead \<Longrightarrow> pair_Mode pr = ModeGuarded \<Longrightarrow>
      guardTrip pr (opt_DeletePercent (en_opts E)) n (sql_count (\<lambda>f. f_PairID f = pair_ID pr) (files w)) = '''' \<or>
      (\<exists>a. sql_last a_ID (\<lambda>a. a_PairID a = pair_ID pr) (approvals w) = Some a \<and> Covers a sid n)" by auto
qed

text \<open>Counting for the guards moves nothing, and counts what the pass would act on.\<close>

lemma vanished_count:
  assumes "files_wf w" and "paths_named (pair_ID pr) w"
    and "vanished E pr (\<lambda>_ _ s. returnE (s, None)) () w = (Inr ((u, n, b), err), w')"
  shows "(\<exists>e. w' = w\<lparr>env := e\<rparr>) \<and> (err = None \<longrightarrow> n = int (length (doomed E pr (vanished_rows (pair_ID pr) w))))"
proof -
  let ?I = "\<lambda>(seen :: (string \<times> int) list) (s :: unit) (x :: error option) v. \<exists>e. v = w\<lparr>env := e\<rparr>"
  have "?I [] () None w" by (rule exI [of _ "env w"]) simp
  then have "\<exists>ds rest. doomed E pr (vanished_rows (pair_ID pr) w) = ds @ rest \<and> n = int (length ds) \<and>
      b = sum_list (map snd ds) \<and> (err = None \<longrightarrow> rest = []) \<and> ?I ds u err w'"
    by (rule vanished_run [OF assms(3) assms(1,2), where I = ?I]) (auto simp: returnE_run)
  then show ?thesis by auto
qed

lemma vanished_count_Inl: "vanished E pr (\<lambda>_ _ s. returnE (s, None)) () w \<noteq> (Inl x, w')"
proof -
  have each: "each_vanished f g (\<lambda>_ _ s. returnE (s, None)) vs (s, n, b) v \<noteq> (Inl x, v')" for f g vs s n b v v'
    by (induction vs arbitrary: n b) (auto simp: returnE_run bindE_Inl)
  have "vanished_loop k E pr (\<lambda>_ _ s. returnE (s, None)) after (s, n, b) v \<noteq> (Inl x, v')" for k after s n b v v'
  proof (induction k arbitrary: after s n b v)
    case 0
    show ?case by (subst vanished_loop.simps) (auto simp: bindE_Inl returnE_run each split: sum.splits option.splits if_splits prod.splits)
  next
    case (Suc k)
    show ?case
      by (subst vanished_loop.simps)
         (auto simp: bindE_Inl each Suc returnE_def split: sum.splits option.splits if_splits prod.splits)
  qed
  then show ?thesis unfolding vanished_def .
qed

lemma open_jobs_none:
  assumes "Queue pid w = (Inr q, w')" and "\<not> 0 < open_jobs q"
  shows "list_all (\<lambda>j. job_PairID j = pid \<longrightarrow> \<not> job_open j) (jobs w)"
proof -
  let ?n = "\<lambda>st. sql_count (\<lambda>j. job_State j = st) (filter (\<lambda>j. job_PairID j = pid) (jobs w))"
  have "0 \<le> ?n JobPending" "0 \<le> ?n JobRunning" "0 \<le> ?n JobVerifying" by simp_all
  with assms(2) have "?n JobPending = 0" "?n JobRunning = 0" "?n JobVerifying = 0"
    unfolding open_jobs_def Queue_Inr(1) [OF assms(1)] by linarith+
  then have "\<forall>j \<in> set (jobs w). job_PairID j = pid \<longrightarrow> job_State j \<notin> {JobPending, JobRunning, JobVerifying}"
    by (auto simp: sql_count_zero)
  moreover have "job_open j \<Longrightarrow> job_State j \<in> {JobPending, JobRunning, JobVerifying}" for j
    by (cases "job_State j") auto
  ultimately show ?thesis unfolding list_all_iff by blast
qed

lemma still_tables:
  assumes "\<exists>e. w' = w\<lparr>env := e\<rparr>"
  shows "still w' = still w" and "reap_passes E pr w' = reap_passes E pr w" and "files_wf w' = files_wf w" and "paths_named pid w' = paths_named pid w"
  using assms by (auto simp: still_def reap_passes_def vanished_rows_env files_wf_def paths_named_def cong: option.case_cong)

lemma env_reads:
  "env_only (LastCompletedScan pid)" "env_only (ManifestStats pid)" "env_only (Queue pid)"
  unfolding LastCompletedScan_def ManifestStats_def Queue_def by (intro env_step.keeps_rules)+

text \<open>What is left of the phase once a walk is known to have completed; \<open>sc\<close> is that walk.\<close>

definition reap_rest :: "location \<Rightarrow> engine \<Rightarrow> pair \<Rightarrow> reap_result \<Rightarrow> scan \<Rightarrow> (reap_result \<times> error option) op" where
  "reap_rest l E pr res sc =
     bindE (vanished E pr (\<lambda>_ _ s. returnE (s, None)) ()) (\<lambda>((_, n, bytes), err). case err of
       Some e \<Rightarrow> throwE e
     | None \<Rightarrow>
        if n = 0 then returnE (res\<lparr>rr_Skipped := ''the publisher still has everything we hold''\<rparr>, None)
        else bindE (reap_guard E pr (scan_ID sc) n bytes res) (\<lambda>(res, ahead).
             if \<not> ahead then returnE (res, None) else reap_act l E pr res))"

lemma reap_rest_cases:
  assumes run: "reap_rest l E pr res sc w = (r, w')" and wf: "files_wf w" "paths_named (pair_ID pr) w"
    and sc: "sql_last scan_ID (\<lambda>s. scan_PairID s = pair_ID pr \<and> scan_State s = ScanDone) (scans w) = Some sc"
    and "pair_Mode pr \<noteq> ModeAdditive" "list_ex (\<lambda>m. m_PairID m = pair_ID pr \<and> \<not> m_IsDir m) (manifest w)"
      "list_all (\<lambda>j. job_PairID j = pair_ID pr \<longrightarrow> \<not> job_open j) (jobs w)"
  shows "still w' = still w \<and> (\<forall>x. r = Inr x \<longrightarrow> rr_Deleted (fst x) = rr_Deleted res) \<or> reap_passes E pr w"
  using run unfolding reap_rest_def
proof (cases rule: bindE_cases)
  case (1 e)
  with vanished_count_Inl show ?thesis by blast
next
  case (2 a w1)
  obtain u n b err where a: "a = ((u, n, b), err)" by (metis prod.exhaust)
  from vanished_count [OF wf 2(1) [unfolded a]] have env: "\<exists>e. w1 = w\<lparr>env := e\<rparr>"
    and n: "err = None \<Longrightarrow> n = int (length (doomed E pr (vanished_rows (pair_ID pr) w)))" by auto
  note st = still_tables(1) [OF env]
  show ?thesis
  proof (cases "err = None \<and> n \<noteq> 0")
    case False
    with 2(2) a st show ?thesis by (auto simp: throwE_run returnE_run split: option.splits if_splits)
  next
    case True
    with 2(2) a have "bindE (reap_guard E pr (scan_ID sc) n b res) (\<lambda>(res, ahead).
        if \<not> ahead then returnE (res, None) else reap_act l E pr res) w1 = (r, w')" by simp
    then show ?thesis
    proof (cases rule: bindE_cases)
      case (1 e)
      with keepsD [OF reap_guard_still] st show ?thesis by auto
    next
      case (2 g w2)
      obtain res1 ahead where g: "g = (res1, ahead)" by (metis prod.exhaust)
      note guard = reap_guard_Inr [OF 2(1) [unfolded g]]
      show ?thesis
      proof (cases ahead)
        case False
        with 2(2) g have "r = Inr (res1, None)" "w' = w2" by (auto simp: returnE_run)
        with keepsD [OF reap_guard_still 2(1)] st guard(1) show ?thesis by auto
      next
        case ahead: True
        from env have "files w1 = files w" "approvals w1 = approvals w" by auto
        with guard(2) [OF ahead] n True sc assms(5-7) have "reap_passes E pr w"
          by (auto simp: reap_passes_def Let_def)
        then show ?thesis ..
      qed
    qed
  qed
qed

lemma reap_guarded_cases:
  assumes run: "reap_guarded l E pr res w = (r, w')" and wf: "files_wf w" "paths_named (pair_ID pr) w"
  shows "still w' = still w \<and> (\<forall>x. r = Inr x \<longrightarrow> rr_Deleted (fst x) = rr_Deleted res) \<or> reap_passes E pr w"
proof (cases "pair_Mode pr = ModeAdditive")
  case True
  with run show ?thesis by (auto simp: reap_guarded_def returnE_run)
next
  case mode: False
  with run have "bindE (LastCompletedScan (pair_ID pr)) (\<lambda>found. case found of
        None \<Rightarrow> throwE (EWrap ''pair'' ENoManifest)
      | Some sc \<Rightarrow>
         bindE (ManifestStats (pair_ID pr)) (\<lambda>(remoteFiles, _).
         if remoteFiles = 0 then throwE (EMsg ''the manifest holds no files at all'')
         else bindE (Queue (pair_ID pr)) (\<lambda>q.
         if open_jobs q > 0 then returnE (res\<lparr>rr_Skipped := ''transfers are still queued''\<rparr>, None)
         else reap_rest l E pr res sc))) w = (r, w')"
    unfolding reap_guarded_def reap_rest_def by simp
  then show ?thesis
  proof (cases rule: bindE_cases)
    case (1 e)
    with keepsD [OF still_reads(1)] show ?thesis by blast
  next
    case (2 found w1)
    from keepsD [OF env_reads(1) 2(1)] obtain e1 where w1: "w1 = w\<lparr>env := e1\<rparr>" by blast
    from 2(1) have found: "found = sql_last scan_ID (\<lambda>s. scan_PairID s = pair_ID pr \<and> scan_State s = ScanDone) (scans w)"
      unfolding LastCompletedScan_def by (auto elim!: query_InrE)
    show ?thesis
    proof (cases found)
      case None
      with 2(2) w1 show ?thesis by (auto simp: throwE_run still_def)
    next
      case (Some sc)
      with 2(2) have "bindE (ManifestStats (pair_ID pr)) (\<lambda>(remoteFiles, _).
         if remoteFiles = 0 then throwE (EMsg ''the manifest holds no files at all'')
         else bindE (Queue (pair_ID pr)) (\<lambda>q.
         if open_jobs q > 0 then returnE (res\<lparr>rr_Skipped := ''transfers are still queued''\<rparr>, None)
         else reap_rest l E pr res sc)) w1 = (r, w')" by simp
      then show ?thesis
      proof (cases rule: bindE_cases)
        case (1 e)
        with keepsD [OF still_reads(2)] w1 show ?thesis by (auto simp: still_def)
      next
        case (2 ms w2)
        from keepsD [OF env_reads(2) 2(1)] w1 obtain e2 where w2: "w2 = w\<lparr>env := e2\<rparr>" by auto
        have ms: "fst ms = sql_count (\<lambda>m. m_PairID m = pair_ID pr \<and> \<not> m_IsDir m) (manifest w)"
          using 2(1) w1 unfolding ManifestStats_def by (auto elim!: wrapE_InrE query_InrE)
        show ?thesis
        proof (cases "fst ms = 0")
          case True
          with 2(2) w2 show ?thesis by (auto simp: throwE_run still_def split: prod.splits)
        next
          case False
          then have files: "list_ex (\<lambda>m. m_PairID m = pair_ID pr \<and> \<not> m_IsDir m) (manifest w)"
            unfolding ms by (auto simp: sql_count_zero list_ex_iff)
          from False 2(2) have "bindE (Queue (pair_ID pr)) (\<lambda>q.
             if open_jobs q > 0 then returnE (res\<lparr>rr_Skipped := ''transfers are still queued''\<rparr>, None)
             else reap_rest l E pr res sc) w2 = (r, w')" by (auto split: prod.splits)
          then show ?thesis
          proof (cases rule: bindE_cases)
            case (1 e)
            with keepsD [OF still_reads(3)] w2 show ?thesis by (auto simp: still_def)
          next
            case (2 q w3)
            from keepsD [OF env_reads(3) 2(1)] w2 obtain e3 where w3: "w3 = w\<lparr>env := e3\<rparr>" by auto
            show ?thesis
            proof (cases "open_jobs q > 0")
              case True
              with 2(2) w3 show ?thesis by (auto simp: returnE_run still_def)
            next
              case none: False
              have "list_all (\<lambda>j. job_PairID j = pair_ID pr \<longrightarrow> \<not> job_open j) (jobs w)"
                using open_jobs_none [OF 2(1) none] w2 by simp
              moreover from none 2(2) have "reap_rest l E pr res sc w3 = (r, w')" by simp
              ultimately have "still w' = still w3 \<and> (\<forall>x. r = Inr x \<longrightarrow> rr_Deleted (fst x) = rr_Deleted res) \<or> reap_passes E pr w3"
                using found Some files mode wf still_tables(3,4) [of w3 w] w3 by (intro reap_rest_cases) auto
              moreover have "still w3 = still w" "reap_passes E pr w3 = reap_passes E pr w"
                using still_tables(1,2) [of w3 w] w3 by blast+
              ultimately show ?thesis by simp
            qed
          qed
        qed
      qed
    qed
  qed
qed

section \<open>The theorem\<close>

lemma still_tree: "still w' = still w \<Longrightarrow> file_at w' = file_at w"
  by (rule file_at_frame) (simp add: still_def)

text \<open>Emptying the quarantine changes no table but the events.\<close>

lemma store_RemoveAll: "keeps (\<lambda>w w'. tables w' = tables w) (os_RemoveAll p)"
  unfolding os_RemoveAll_def remove_gone_def by (intro store.frame.keeps_rules store_os)

lemma store_PruneTrash: "keeps (\<lambda>w w'. tables w' = tables w) (PruneTrash l pr r at)"
proof -
  have "keeps (\<lambda>w w'. tables w' = tables w) (prune_days at ds removed)" for ds removed
    by (induction ds arbitrary: removed) (auto intro!: store.frame.keeps_rules store_RemoveAll)
  then show ?thesis unfolding PruneTrash_def by (intro store.frame.keeps_rules store.frame.keeps_Trash)
qed

lemma pruneTrash_run:
  assumes "pruneTrash l E pr res w = (Inr res', w')" and "abs_ok (pair_LocalPath pr)"
  shows "rr_Deleted res' = rr_Deleted res \<and> (\<exists>es cs d e. w' = w\<lparr>events := es, changes := cs, fs := d, env := e\<rparr>) \<and>
    (\<forall>p. \<not> below (trashRoot pr) p \<longrightarrow> file_at w' p = file_at w p)"
proof -
  from assms(1) obtain at w1 removed err w2 where now: "now w = (Inr at, w1)"
    and pt: "PruneTrash l pr (opt_TrashRetention (en_opts E)) at w1 = (Inr (removed, err), w2)"
    and rest: "(if removed = [] then returnE res else bindE (event LevelInfo KindTrashPruned (pair_ID pr)) (\<lambda>_.
            returnE (res\<lparr>rr_Pruned := removed, rr_PrunedBytes := sum_list (map td_Bytes removed)\<rparr>))) w2 = (Inr res', w')"
    unfolding pruneTrash_def by (auto elim!: bindE_InrE)
  have tab: "tables w2 = tables w" using keepsD [OF store_PruneTrash pt] keepsD [OF store.frame.keeps_now now] by simp
  have w2: "w2 = w\<lparr>fs := fs w2, env := env w2\<rparr>"
  proof -
    have "w2 = (tables w2)\<lparr>fs := fs w2, env := env w2\<rparr>" by (simp add: tables_def)
    also have "\<dots> = (tables w)\<lparr>fs := fs w2, env := env w2\<rparr>" by (simp only: tab)
    finally show ?thesis by (simp add: tables_def)
  qed
  have out: "\<not> expired_path l pr r at p" if "\<not> below (trashRoot pr) p" for r p
  proof -
    have "CutPrefix p (trashRoot pr @ ''/'') = None"
      using that by (auto simp: below_def CutPrefix_def)
    then show ?thesis by (simp add: expired_path_def trash_day_of_def)
  qed
  have sp: "\<forall>p. \<not> below (trashRoot pr) p \<longrightarrow> file_at w2 p = file_at w p"
    using keepsD [OF PruneTrash_spares [OF assms(2)] pt] keepsD [OF tree.frame.keeps_now now] out by simp
  from rest have "rr_Deleted res' = rr_Deleted res" and ev: "\<exists>es cs e. w' = w2\<lparr>events := es, changes := cs, env := e\<rparr>"
  proof -
    show "rr_Deleted res' = rr_Deleted res" using rest by (auto simp: returnE_run bindE_Inr split: if_splits)
    show "\<exists>es cs e. w' = w2\<lparr>events := es, changes := cs, env := e\<rparr>"
    proof (cases "removed = []")
      case True
      with rest have "w' = w2\<lparr>events := events w2, changes := changes w2, env := env w2\<rparr>" by (simp add: returnE_run)
      then show ?thesis by blast
    qed (use rest in \<open>auto elim!: bindE_InrE returnE_InrE event_InrE\<close>)
  qed
  moreover from ev obtain es cs e where w': "w' = w2\<lparr>events := es, changes := cs, env := e\<rparr>" by blast
  then have "w' = w\<lparr>events := es, changes := cs, fs := fs w2, env := e\<rparr>" by (subst w', subst w2) simp
  moreover have "file_at w' = file_at w2" using w' by (intro file_at_frame) simp
  ultimately show ?thesis using sp by (auto simp: fun_eq_iff)
qed

text \<open>
  (C3) Nothing is deleted unless every guard lets it through: the pair is not additive, a walk has
  completed, the manifest holds a file, no transfer of the pair is queued or in flight, and on a
  guarded pair the deletion is below both limits or a person approved this many files of this
  walk. Otherwise local truth keeps every row, nothing is reported deleted, and no file outside
  the quarantine is touched.
\<close>

theorem reap_guards:
  assumes "abs_ok (pair_LocalPath pr)" and "files_wf w" and "paths_named (pair_ID pr) w"
    and "Reap l E pr w = (Inr (res, err), w')" and "\<not> reap_passes E pr w"
  shows "files w' = files w \<and> rr_Deleted res = 0 \<and> (\<forall>p. \<not> below (trashRoot pr) p \<longrightarrow> file_at w' p = file_at w p)"
proof -
  from assms(4) obtain started w1 res1 w2 r w3 t where now: "now w = (Inr started, w1)"
    and prune: "pruneTrash l E pr (new_reap pr) w1 = (Inr res1, w2)" and guarded: "reap_guarded l E pr res1 w2 = (r, w3)"
    and last: "now w3 = (Inr t, w')" "(res, err) = (case r of Inl e \<Rightarrow> (res1\<lparr>rr_Duration := t - started\<rparr>, Some e)
      | Inr (res, err) \<Rightarrow> (res\<lparr>rr_Duration := t - started\<rparr>, err))"
    unfolding Reap_def by (auto elim!: bindE_InrE tryE_InrE returnE_InrE)
  from now obtain e1 where w1: "w1 = w\<lparr>env := e1\<rparr>" by (auto elim!: run_elims)
  from pruneTrash_run [OF prune assms(1)] obtain es cs d e where del: "rr_Deleted res1 = 0"
    and w2: "w2 = w1\<lparr>events := es, changes := cs, fs := d, env := e\<rparr>"
    and out: "\<forall>p. \<not> below (trashRoot pr) p \<longrightarrow> file_at w2 p = file_at w1 p" by (auto simp: new_reap_def)
  have "reap_passes E pr w2 = reap_passes E pr w"
    unfolding reap_passes_def vanished_rows_def by (simp add: w2 w1 cong: option.case_cong)
  moreover have "files w2 = files w" "files_wf w2 = files_wf w" "paths_named (pair_ID pr) w2 = paths_named (pair_ID pr) w"
    by (simp_all add: w2 w1 files_wf_def has_pair_def paths_named_def)
  ultimately have "\<not> reap_passes E pr w2" "files_wf w2" "paths_named (pair_ID pr) w2" "files w2 = files w"
    using assms(2,3,5) by simp_all
  with reap_guarded_cases [OF guarded] have st: "still w3 = still w2" "\<forall>x. r = Inr x \<longrightarrow> rr_Deleted (fst x) = rr_Deleted res1" by auto
  have "still w' = still w3" using keepsD [OF still.frame.keeps_now last(1)] .
  with st have "still w' = still w2" by simp
  then have tree: "file_at w' = file_at w2" and "files w' = files w2"
    using still_tree by (blast, simp add: still_def)
  moreover have "rr_Deleted res = 0" using last(2) st(2) del by (auto split: sum.splits)
  ultimately show ?thesis using out \<open>files w2 = files w\<close> unfolding tree w1 by simp
qed

section \<open>Witnesses\<close>

text \<open>A pair with its root at \<open>/m\<close> that holds one file the publisher no longer has.\<close>

definition reap_pair :: pair where
  "reap_pair = demo_pair\<lparr>pair_LocalPath := ''/m'', pair_DeleteGuard := 5\<rparr>"

definition reap_row :: frow where
  "reap_row = \<lparr>f_PairID = 1, f_Path = ''b'', f_Size = 2, f_MTime = 7000, f_Hash = [], f_State = FileSynced, f_VerifiedAt = 0\<rparr>"

definition reap_world :: world where
  "reap_world = empty_world\<lparr>pairs := [reap_pair],
     scans := [\<lparr>scan_ID = 1, scan_PairID = 1, scan_StartedAt = 5000, scan_FinishedAt = Some 5000, scan_Dirs = 1,
       scan_Files = 1, scan_Bytes = 3, scan_State = ScanDone, scan_Error = ''''\<rparr>],
     manifest := [\<lparr>m_PairID = 1, m_Path = ''k'', m_Size = 3, m_MTime = 7000, m_IsDir = False, m_Listed = False,
       m_ScanID = 1, m_SeenAt = 0\<rparr>],
     files := [reap_row], fs := [(''/m'', FDir), (''/m/b'', FFile ''hi'' 7000000000)]\<rparr>"

lemma reap_world_ok:
  "abs_ok (pair_LocalPath reap_pair)" "files_wf reap_world" "paths_ok (pair_ID reap_pair) reap_world"
  "paths_named (pair_ID reap_pair) reap_world" "pair_Mode reap_pair = ModeGuarded"
  by code_simp+

lemma run_ok: "isl (fst (m w)) = False \<Longrightarrow> \<exists>a. m w = (Inr a, snd (m w))"
  by (cases "m w"; cases "fst (m w)") auto

lemma reap_refused: "\<not> reap_passes demo_engine reap_pair reap_world"
  by code_simp

lemma reap_world_outside: "\<not> below (trashRoot reap_pair) ''/m/b''"
  by code_simp

definition reap_once :: "(error + reap_result \<times> error option) \<times> world" where
  "reap_once = Reap UTC demo_engine reap_pair reap_world"

lemma reap_once_run: "\<exists>res err. Reap UTC demo_engine reap_pair reap_world = (Inr (res, err), snd reap_once)"
proof -
  have "isl (fst (Reap UTC demo_engine reap_pair reap_world)) = False" by code_simp
  from run_ok [where m = "Reap UTC demo_engine reap_pair" and w = reap_world, OF this] show ?thesis by (auto simp: reap_once_def)
qed

theorem reap_guards_witness:
  "files (snd reap_once) = [reap_row] \<and> file_at (snd reap_once) ''/m/b'' = Some (''hi'', 7000000000)"
proof -
  from reap_once_run obtain res err where "Reap UTC demo_engine reap_pair reap_world = (Inr (res, err), snd reap_once)" by blast
  from reap_guards [OF reap_world_ok(1,2,4) this reap_refused] reap_world_outside
  have "files (snd reap_once) = files reap_world" "file_at (snd reap_once) ''/m/b'' = file_at reap_world ''/m/b''" by blast+
  moreover have "files reap_world = [reap_row]" "file_at reap_world ''/m/b'' = Some (''hi'', 7000000000)" by code_simp+
  ultimately show ?thesis by simp
qed

text \<open>The same pair with the quarantine directory of the day in place, so the pass has one move to make.\<close>

definition trash_world :: world where
  "trash_world = reap_world\<lparr>fs := [(''/m'', FDir), (''/m/b'', FFile ''hi'' 7000000000), (''/m/.jccmirror'', FDir),
     (''/m/.jccmirror/trash'', FDir), (''/m/.jccmirror/trash/1970-01-01'', FDir)]\<rparr>"

lemma trash_world_ok: "files_wf trash_world" "paths_ok (pair_ID reap_pair) trash_world"
  by code_simp+

definition reap_removed :: "(error + tally \<times> error option) \<times> world" where
  "reap_removed = remove UTC demo_engine reap_pair trash_world"

definition reap_tally :: tally where
  "reap_tally = no_tally\<lparr>ta_Deleted := 1, ta_Bytes := 2\<rparr>"

lemma reap_removed_eval:
  "(case reap_removed of (r, w) \<Rightarrow> r = Inr (reap_tally, None) \<and> file_at w ''/m/b'' = None)"
  by code_simp

lemma reap_removed_run: "remove UTC demo_engine reap_pair trash_world = (Inr (reap_tally, None), snd reap_removed)"
  using reap_removed_eval by (cases reap_removed) (simp add: reap_removed_def)

theorem remove_accounts_witness:
  "doomed demo_engine reap_pair (vanished_rows 1 trash_world) = [(''b'', 2)] \<and> manifest (snd reap_removed) = manifest trash_world"
proof -
  have "doomed demo_engine reap_pair (vanished_rows 1 trash_world) = [(''b'', 2)]" by code_simp
  with remove_accounts [OF trash_world_ok reap_removed_run] show ?thesis by simp
qed

theorem quarantine_conserves_witness:
  "conserve (vanished_paths reap_pair trash_world) ''/m/.jccmirror/trash'' trash_world (snd reap_removed) \<and> file_at (snd reap_removed) ''/m/b'' = None"
proof -
  have "trashRoot reap_pair = ''/m/.jccmirror/trash''" by code_simp
  moreover have "file_at (snd reap_removed) ''/m/b'' = None"
    using reap_removed_eval unfolding case_prod_unfold by (rule conjunct2)
  moreover have "\<forall>f \<in> set (files trash_world). f_PairID f = pair_ID reap_pair \<longrightarrow> \<not> below (trashRoot reap_pair) (localPath reap_pair (f_Path f))"
    by code_simp
  ultimately show ?thesis
    using quarantine_conserves [OF reap_world_ok(1) trash_world_ok reap_world_ok(5) _ reap_removed_run] by simp
qed

definition kept_world :: world where
  "kept_world = empty_world\<lparr>fs := [(''/m'', FDir), (''/m/.jccmirror'', FDir), (''/m/.jccmirror/trash'', FDir),
     (''/m/.jccmirror/trash/1970-01-01'', FDir), (''/m/.jccmirror/trash/1970-01-01/b'', FFile ''hi'' 7)]\<rparr>"

theorem quarantine_retention_witness:
  "file_at (snd (PruneTrash UTC reap_pair (48 * Hour) (20 * Hour) kept_world)) ''/m/.jccmirror/trash/1970-01-01/b'' = Some (''hi'', 7)"
proof -
  obtain res w' where run: "PruneTrash UTC reap_pair (48 * Hour) (20 * Hour) kept_world = (res, w')" by (rule prod.exhaust)
  have ok: "fixed UTC" "0 \<le> fst (Date UTC 5)" "fst (Date UTC 5) \<le> 9999"
    "below (trashDirFor UTC reap_pair 5) ''/m/.jccmirror/trash/1970-01-01/b''" "20 * Hour \<le> 5 + 48 * Hour - 24 * Hour"
    by (auto simp: fixed_def UTC_def duration_defs, code_simp+)
  have "file_at kept_world ''/m/.jccmirror/trash/1970-01-01/b'' = Some (''hi'', 7)" by code_simp
  with quarantine_retention [OF reap_world_ok(1) ok run] run show ?thesis by simp
qed

theorem vanished_is_plan_witness:
  "(case fst (Plan demo_engine reap_pair 5 reap_world) of Inr p \<Rightarrow> pl_Vanished p | Inl _ \<Rightarrow> 0) = 1"
proof -
  have "isl (fst (Plan demo_engine reap_pair 5 reap_world)) = False" by code_simp
  from run_ok [where m = "Plan demo_engine reap_pair 5" and w = reap_world, OF this] obtain p where p: "Plan demo_engine reap_pair 5 reap_world = (Inr p, snd (Plan demo_engine reap_pair 5 reap_world))" by blast
  have v: "vanished demo_engine reap_pair (\<lambda>_ _ s. returnE (s, None)) () reap_world =
      (Inr (((), 1, 2), None), snd (vanished demo_engine reap_pair (\<lambda>_ _ s. returnE (s, None)) () reap_world))"
    by (rule run_snd) code_simp
  from vanished_is_plan [OF reap_world_ok(2,4) p v] p show ?thesis by (metis fst_conv sum.case(2))
qed

end
