(* ===== verification/GoText.thy ===== *)
theory GoText
  imports Calendar
begin

text \<open>
  More of package \<open>strings\<close>, for the settings an operator types: \<open>ToLower\<close>, \<open>TrimRight\<close>,
  \<open>TrimSuffix\<close>, \<open>Cut\<close>, \<open>FieldsFunc\<close> and \<open>Fields\<close>, and how they act on texts that are put
  together out of plain words. Case and white space are those of ASCII.
\<close>

section \<open>Operations\<close>

definition to_lower :: "char \<Rightarrow> char" where
  "to_lower c = (if 65 \<le> (of_char c :: int) \<and> (of_char c :: int) \<le> 90 then char_of ((of_char c :: int) + 32) else c)"

definition ToLower :: "string \<Rightarrow> string" where
  "ToLower = map to_lower"

definition TrimSuffix :: "string \<Rightarrow> string \<Rightarrow> string" where
  "TrimSuffix s p = (if HasSuffix s p then take (length s - length p) s else s)"

definition TrimRight :: "string \<Rightarrow> string \<Rightarrow> string" where
  "TrimRight s cutset = rev (dropWhile (\<lambda>c. c \<in> set cutset) (rev s))"

text \<open>\<open>strings.Cut\<close> around one character: what is before it, and what is after it when it is there.\<close>

definition Cut :: "string \<Rightarrow> char \<Rightarrow> string \<times> string option" where
  "Cut s c = (takeWhile (\<lambda>x. x \<noteq> c) s, case dropWhile (\<lambda>x. x \<noteq> c) s of [] \<Rightarrow> None | _ # r \<Rightarrow> Some r)"

fun split_by :: "(char \<Rightarrow> bool) \<Rightarrow> string \<Rightarrow> string list" where
  "split_by p [] = [[]]"
| "split_by p (x # xs) = (if p x then [] # split_by p xs
     else (case split_by p xs of [] \<Rightarrow> [[x]] | s # ss \<Rightarrow> (x # s) # ss))"

definition FieldsFunc :: "string \<Rightarrow> (char \<Rightarrow> bool) \<Rightarrow> string list" where
  "FieldsFunc s p = filter (\<lambda>f. f \<noteq> []) (split_by p s)"

definition Fields :: "string \<Rightarrow> string list" where
  "Fields s = FieldsFunc s is_space"

text \<open>\<open>strings.Join\<close> with any separator.\<close>

fun join_with :: "string \<Rightarrow> string list \<Rightarrow> string" where
  "join_with sep [] = []"
| "join_with sep [s] = s"
| "join_with sep (s # ss) = s @ sep @ join_with sep ss"

section \<open>Laws\<close>

lemma split_by_not_Nil [simp]: "split_by p xs \<noteq> []"
  by (induction xs) (auto split: list.splits)

lemma split_by_word: "list_all (\<lambda>c. \<not> p c) s \<Longrightarrow> split_by p s = [s]"
  by (induction s) auto

lemma split_by_append_sep: "p c \<Longrightarrow> split_by p (xs @ c # ys) = split_by p xs @ split_by p ys"
proof (induction xs)
  case (Cons x xs)
  then show ?case by (cases "split_by p xs") auto
qed simp

lemma FieldsFunc_append_sep: "p c \<Longrightarrow> FieldsFunc (xs @ c # ys) p = FieldsFunc xs p @ FieldsFunc ys p"
  by (simp add: FieldsFunc_def split_by_append_sep)

lemma FieldsFunc_word: "list_all (\<lambda>c. \<not> p c) s \<Longrightarrow> FieldsFunc s p = (if s = [] then [] else [s])"
  by (simp add: FieldsFunc_def split_by_word)

lemma FieldsFunc_Cons_sep: "p c \<Longrightarrow> FieldsFunc (c # xs) p = FieldsFunc xs p"
  by (simp add: FieldsFunc_def)

lemma Cut_found: "c \<notin> set a \<Longrightarrow> Cut (a @ c # b) c = (a, Some b)"
proof -
  assume "c \<notin> set a"
  then have "\<And>x. x \<in> set a \<Longrightarrow> x \<noteq> c" by auto
  then show ?thesis by (simp add: Cut_def takeWhile_append2 dropWhile_append2)
qed

lemma Cut_absent: "c \<notin> set a \<Longrightarrow> Cut a c = (a, None)"
proof -
  assume a: "c \<notin> set a"
  then have t: "takeWhile (\<lambda>x. x \<noteq> c) a = a" and d: "dropWhile (\<lambda>x. x \<noteq> c) a = []"
    by (auto simp: takeWhile_eq_all_conv dropWhile_eq_Nil_conv)
  show ?thesis unfolding Cut_def t d by simp
qed

text \<open>A text that starts and ends with a printing character.\<close>

definition tight :: "string \<Rightarrow> bool" where
  "tight s \<longleftrightarrow> s \<noteq> [] \<and> \<not> is_space (hd s) \<and> \<not> is_space (last s)"

lemma trim_with_tight:
  assumes "s \<noteq> []" and "\<not> p (hd s)" and "\<not> p (last s)"
  shows "trim_with p s = s"
proof -
  have "dropWhile p s = s" using assms(1,2) by (cases s) auto
  moreover have "dropWhile p (rev s) = rev s"
    using assms(1,3) by (cases s rule: rev_exhaust) auto
  ultimately show ?thesis by (simp add: trim_with_def)
qed

lemma TrimSpace_tight [simp]: "tight s \<Longrightarrow> TrimSpace s = s"
  unfolding TrimSpace_def tight_def by (intro trim_with_tight) auto

lemma TrimSpace_Nil [simp]: "TrimSpace [] = []"
  by (simp add: TrimSpace_def trim_with_def)

lemma TrimSpace_Cons_space [simp]: "TrimSpace (CHR '' '' # s) = TrimSpace s"
  by (simp add: TrimSpace_def trim_with_def is_space_def)

lemma tightI: "s \<noteq> [] \<Longrightarrow> list_all (\<lambda>c. \<not> is_space c) s \<Longrightarrow> tight s"
  by (simp add: tight_def list_all_iff)

lemma tight_append: "tight a \<Longrightarrow> tight b \<Longrightarrow> tight (a @ m @ b)"
  by (auto simp: tight_def last_append hd_append)

lemma HasSuffix_last: "HasSuffix s p \<Longrightarrow> p \<noteq> [] \<Longrightarrow> s \<noteq> [] \<and> last s = last p"
  by (auto simp: HasSuffix_iff)

lemma TrimSuffix_append [simp]: "TrimSuffix (s @ p) p = s"
proof -
  have "HasSuffix (s @ p) p" unfolding HasSuffix_iff by blast
  then show ?thesis by (simp add: TrimSuffix_def)
qed

lemma TrimSuffix_other: "p \<noteq> [] \<Longrightarrow> (s = [] \<or> last s \<noteq> last p) \<Longrightarrow> TrimSuffix s p = s"
  using HasSuffix_last [of s p] by (auto simp: TrimSuffix_def)

lemma TrimRight_append:
  assumes "list_all (\<lambda>c. c \<in> set cs) u" and "a = [] \<or> last a \<notin> set cs"
  shows "TrimRight (a @ u) cs = a"
proof -
  have "dropWhile (\<lambda>c. c \<in> set cs) (rev u @ rev a) = dropWhile (\<lambda>c. c \<in> set cs) (rev a)"
    using assms(1) by (subst dropWhile_append2) (auto simp: list_all_iff)
  also have "\<dots> = rev a" using assms(2) by (cases a rule: rev_exhaust) auto
  finally show ?thesis by (simp add: TrimRight_def)
qed

lemma TrimPrefix_append [simp]: "TrimPrefix (a @ u) a = u"
  by (auto simp: TrimPrefix_def HasPrefix_iff)

text \<open>Decimal numbers are printing characters that no case changes.\<close>

lemma is_digit_plain:
  "is_digit c \<Longrightarrow> \<not> is_space c \<and> to_lower c = c \<and> c \<notin> set ''kKmMgGtTiIbB ,-:;=ofnuyxsp/''"
  by (auto simp: is_digit_def is_space_def to_lower_def)

lemma dec_nonempty [simp]: "dec n \<noteq> []"
  using dec_digits by blast

lemma dec_char: "c \<in> set (dec n) \<Longrightarrow> is_digit c"
  using dec_digits [of n] by (simp add: list_all_iff)

lemma dec_avoids: "\<not> is_digit c \<Longrightarrow> c \<notin> set (dec n)"
  using dec_char by blast

lemma dec_tight [simp]: "tight (dec n)"
  using is_digit_plain dec_char by (intro tightI) (auto simp: list_all_iff)

lemma ToLower_append: "ToLower (a @ b) = ToLower a @ ToLower b"
  by (simp add: ToLower_def)

lemma ToLower_dec [simp]: "ToLower (dec n) = dec n"
  using is_digit_plain dec_char by (auto simp: ToLower_def intro!: map_idI)

end
