(* ===== verification/Format.thy ===== *)
theory Format
  imports GoText
begin

text \<open>
  Sizes as an operator types them, \<open>format/format.go\<close>: \<open>Size\<close> prints a byte count, \<open>ParseSize\<close>
  reads one with or without a binary suffix. The product with the suffix is taken at 64 bits.
\<close>

section \<open>Operations\<close>

definition units :: "string list" where
  "units = [''KiB'', ''MiB'', ''GiB'', ''TiB'']"

text \<open>One division per unit while the number is a multiple of 1024; the divisions are exact.\<close>

fun size_loop :: "string list \<Rightarrow> int \<Rightarrow> string \<Rightarrow> int \<times> string" where
  "size_loop [] out unit = (out, unit)"
| "size_loop (u # us) out unit = (if out mod 1024 \<noteq> 0 then (out, unit) else size_loop us (out div 1024) u)"

definition Size :: "int \<Rightarrow> string" where
  "Size n = (if n = 0 then ''0'' else let (out, unit) = size_loop units n '''' in Itoa out @ unit)"

definition size_mult :: "string \<Rightarrow> int option" where
  "size_mult sfx =
     (if sfx = '''' then Some 1
      else if sfx = ''k'' then Some (2 ^ 10)
      else if sfx = ''m'' then Some (2 ^ 20)
      else if sfx = ''g'' then Some (2 ^ 30)
      else if sfx = ''t'' then Some (2 ^ 40)
      else None)"

definition size_chars :: string where
  "size_chars = ''kKmMgGtTiIbB '' @ [CHR 0x09]"

definition ParseSize :: "string \<Rightarrow> error + int" where
  "ParseSize s0 =
     (let s = TrimSpace s0 in
      if s = [] then Inl (EMsg ''required'')
      else let digits = TrimRight s size_chars;
               sfx = ToLower (TrimSpace (TrimPrefix s digits));
               sfx = TrimSuffix (TrimSuffix sfx ''b'') ''i''
           in case Atoi (TrimSpace digits) of
                None \<Rightarrow> Inl (EMsg ''not a size'')
              | Some n \<Rightarrow>
                 (case size_mult sfx of
                    None \<Rightarrow> Inl (EMsg ''unknown size suffix'')
                  | Some k \<Rightarrow> if n \<le> 0 then Inl (EMsg ''must be positive'') else Inr (wrap64 (n * k))))"

section \<open>Reading back what was printed\<close>

text \<open>A printed size is a positive number and one of five units.\<close>

definition size_units :: "(string \<times> int) list" where
  "size_units = [('''', 1), (''KiB'', 2 ^ 10), (''MiB'', 2 ^ 20), (''GiB'', 2 ^ 30), (''TiB'', 2 ^ 40)]"

fun unit_chain :: "int \<Rightarrow> (string \<times> int) list \<Rightarrow> bool" where
  "unit_chain m [] = True"
| "unit_chain m ((u, k) # us) = (k = 1024 * m \<and> unit_chain k us)"

lemma size_loop_inv:
  assumes "0 < out" and "unit_chain m us" and "size_loop (map fst us) out u = (out', u')"
  shows "\<exists>m'. (u', m') \<in> set ((u, m) # us) \<and> 0 < out' \<and> out * m = out' * m'"
  using assms
proof (induction us arbitrary: out m u)
  case (Cons v us)
  obtain x k where v: "v = (x, k)" by force
  show ?case
  proof (cases "out mod 1024 = 0")
    case True
    with div_mult_mod_eq [of out 1024] have eq: "out = out div 1024 * 1024" by linarith
    with Cons.prems(1) have "0 < out div 1024" by linarith
    with Cons.IH [of "out div 1024" k x] Cons.prems(2,3) True v
    obtain m' where "(u', m') \<in> set ((x, k) # us)" "0 < out'" "out div 1024 * k = out' * m'" by auto
    moreover have "out * m = out div 1024 * 1024 * m" using eq by (rule arg_cong)
    then have "out * m = out div 1024 * k" using Cons.prems(2) v by simp
    ultimately show ?thesis by (auto simp: v)
  next
    case False
    with Cons.prems show ?thesis by auto
  qed
qed auto

lemma size_loop_cases:
  assumes "0 < n" and "size_loop units n '''' = (out, u)"
  shows "\<exists>m. (u, m) \<in> set size_units \<and> 0 < out \<and> n = out * m"
  using size_loop_inv [of n 1 "tl size_units" "''''" out u] assms by (simp add: size_units_def units_def)

lemma Size_form:
  assumes "0 < n"
  obtains k u m where "Size n = dec k @ u" and "(u, m) \<in> set size_units" and "0 < k" and "n = int k * m"
proof -
  obtain out u where run: "size_loop units n '''' = (out, u)" by (metis surj_pair)
  from size_loop_cases [OF assms this] obtain m where m: "(u, m) \<in> set size_units" "0 < out" "n = out * m" by blast
  have "Size n = Itoa out @ u" using assms run by (simp add: Size_def)
  with m(2) have "Size n = dec (nat out) @ u" by (simp add: Itoa_def)
  with m that [of "nat out" u m] show ?thesis by simp
qed

text \<open>What reading needs to know of a unit, in the case it is printed in and in lower case.\<close>

definition unit_reads :: "string \<Rightarrow> int \<Rightarrow> bool" where
  "unit_reads v m = ((v = [] \<or> tight v) \<and> list_all (\<lambda>c. c \<in> set size_chars) v \<and> 1 \<le> m \<and>
     size_mult (TrimSuffix (TrimSuffix (ToLower (TrimSpace v)) ''b'') ''i'') = Some m)"

lemma unit_reads_all: "list_all (\<lambda>(u, m). unit_reads u m \<and> unit_reads (ToLower u) m) size_units"
  by code_simp


lemma ParseSize_wrapped:
  assumes "(u, m) \<in> set size_units" and "v = u \<or> v = ToLower u" and "0 < k" and "int k < 2 ^ 63"
  shows "ParseSize (dec k @ v) = Inr (wrap64 (int k * m))"
proof -
  have v: "unit_reads v m" using unit_reads_all assms(1,2) by (auto simp: list_all_iff)
  then have "v = [] \<or> tight v" by (simp add: unit_reads_def)
  then have "tight (dec k @ v)" using tight_append [of "dec k" v "[]"] by auto
  moreover have "last (dec k) \<notin> set size_chars"
    using is_digit_plain [OF dec_char [of "last (dec k)" k]] by (auto simp: size_chars_def is_space_def)
  then have "TrimRight (dec k @ v) size_chars = dec k"
    using v by (intro TrimRight_append) (auto simp: unit_reads_def)
  moreover have "size_mult (TrimSuffix (TrimSuffix (ToLower (TrimSpace v)) ''b'') ''i'') = Some m"
    using v by (simp add: unit_reads_def)
  ultimately show ?thesis
    using assms(3,4) by (simp add: ParseSize_def Atoi_dec)
qed

lemma size_units_pos: "(u, m) \<in> set size_units \<Longrightarrow> 1 \<le> m"
  using unit_reads_all by (auto simp: list_all_iff unit_reads_def)

lemma ParseSize_plain:
  assumes "(u, m) \<in> set size_units" and "v = u \<or> v = ToLower u" and "0 < k" and "int k * m < 2 ^ 63"
  shows "ParseSize (dec k @ v) = Inr (int k * m)"
proof -
  have "1 \<le> m" using assms(1) by (rule size_units_pos)
  then have "int k * 1 \<le> int k * m" by (rule mult_left_mono) simp
  with assms(4) have "int k < 2 ^ 63" "wrap64 (int k * m) = int k * m" by (simp, intro wrap64_id) simp_all
  with ParseSize_wrapped [OF assms(1-3)] show ?thesis by simp
qed

text \<open>
  (C37) A size that is printed for a setting is read back unchanged, for every positive 64-bit number.
\<close>

theorem size_roundtrip:
  assumes "0 < n" and "n < 2 ^ 63"
  shows "ParseSize (Size n) = Inr n"
proof -
  from Size_form [OF assms(1)] obtain k u m where f: "Size n = dec k @ u" "(u, m) \<in> set size_units" "0 < k" "n = int k * m" .
  with assms(2) ParseSize_plain [OF f(2) _ f(3)] show ?thesis by simp
qed

theorem size_roundtrip_witness: "ParseSize (Size 5242880) = Inr 5242880 \<and> Size 5242880 = ''5MiB''"
  using size_roundtrip [of 5242880] by (simp, code_simp)




text \<open>The smallest numbers of tebibytes that are read as no limit at all and as a negative one.\<close>

lemma parse_size_overflow: "ParseSize ''16777216TiB'' = Inr 0 \<and> ParseSize ''8388608TiB'' = Inr (- (2 ^ 63))"
  by code_simp

end
