(* ===== verification/Schedule.thy ===== *)
theory Schedule
  imports Format
begin

text \<open>
  The weekly grid, \<open>schedule/schedule.go\<close>: one cell per weekday and hour that is closed, open
  without a limit or open at a rate; how it is read from the rules an operator types, how it is
  printed, and what it says about an instant in the location the instant carries.
\<close>

section \<open>The grid\<close>

definition Days :: nat where "Days = 7"
definition Hours :: nat where "Hours = 24"
definition Cells :: nat where "Cells = 168"

definition closed :: int where "closed = -1"
definition unlimited :: int where "unlimited = 0"

lemmas grid_consts = Days_def Hours_def Cells_def closed_def unlimited_def

record schedule =
  cells :: "int list"

definition zero_schedule :: schedule where
  "zero_schedule = \<lparr>cells = replicate Cells unlimited\<rparr>"

record window =
  w_Open :: bool
  w_Limit :: int
  w_Until :: time

definition cell_index :: "nat \<Rightarrow> nat \<Rightarrow> nat" where
  "cell_index d h = d * Hours + h"

section \<open>Reading\<close>

text \<open>\<open>dayNames\<close> is indexed by \<open>time.Weekday\<close>, Sunday first; \<open>displayOrder\<close> starts the week on Monday.\<close>

definition dayNames :: "string list" where
  "dayNames = [''sun'', ''mon'', ''tue'', ''wed'', ''thu'', ''fri'', ''sat'']"

definition displayOrder :: "nat list" where
  "displayOrder = [1, 2, 3, 4, 5, 6, 0]"

text \<open>An index into \<open>displayOrder\<close>.\<close>

definition parseDay :: "string \<Rightarrow> error + nat" where
  "parseDay name0 =
     (let name = take 3 (ToLower (TrimSpace name0)) in
      case find (\<lambda>i. dayNames ! (displayOrder ! i) = name) [0..<Days] of
        Some i \<Rightarrow> Inr i
      | None \<Rightarrow> Inl (EMsg ''not a weekday''))"

text \<open>From one day to another, over the end of the week where the second comes first.\<close>

fun day_span :: "nat \<Rightarrow> nat \<Rightarrow> nat \<Rightarrow> nat list" where
  "day_span fuel i e = displayOrder ! i #
     (if i = e then [] else case fuel of 0 \<Rightarrow> [] | Suc k \<Rightarrow> day_span k ((i + 1) mod Days) e)"

declare day_span.simps [simp del]

fun day_parts :: "string list \<Rightarrow> nat list \<Rightarrow> error + nat list" where
  "day_parts [] out = Inr out"
| "day_parts (part # parts) out =
     (let (from, rest) = Cut (TrimSpace part) (CHR ''-'') in
      case parseDay from of
        Inl e \<Rightarrow> Inl e
      | Inr start \<Rightarrow>
         (case rest of
            None \<Rightarrow> day_parts parts (out @ [displayOrder ! start])
          | Some to \<Rightarrow>
             (case parseDay to of
                Inl e \<Rightarrow> Inl e
              | Inr stop \<Rightarrow> day_parts parts (out @ day_span Days start stop))))"

definition parseDays :: "string \<Rightarrow> error + nat list" where
  "parseDays spec = (if spec = ''*'' then Inr displayOrder else day_parts (split_on (CHR '','') spec) [])"

definition parseHour :: "string \<Rightarrow> nat \<Rightarrow> error + nat" where
  "parseHour s0 most =
     (case Atoi (fst (Cut (TrimSpace s0) (CHR '':''))) of
        None \<Rightarrow> Inl (EMsg ''not an hour'')
      | Some n \<Rightarrow> if n < 0 \<or> int most < n then Inl (EMsg ''hour is outside'') else Inr (nat n))"

text \<open>The end is exclusive; an end before the start goes over midnight.\<close>

definition hour_span :: "nat \<Rightarrow> nat \<Rightarrow> nat list" where
  "hour_span start stop =
     (let span = (stop + Hours - start) mod Hours; span = (if span = 0 then Hours else span)
      in map (\<lambda>i. (start + i) mod Hours) [0..<span])"

fun hour_parts :: "string list \<Rightarrow> nat list \<Rightarrow> error + nat list" where
  "hour_parts [] out = Inr out"
| "hour_parts (part # parts) out =
     (let (from, rest) = Cut (TrimSpace part) (CHR ''-'') in
      case parseHour from (Hours - 1) of
        Inl e \<Rightarrow> Inl e
      | Inr start \<Rightarrow>
         (case rest of
            None \<Rightarrow> hour_parts parts (out @ [start])
          | Some to \<Rightarrow>
             (case parseHour to Hours of
                Inl e \<Rightarrow> Inl e
              | Inr stop \<Rightarrow>
                 if start = stop then Inl (EMsg ''spans no hours at all'')
                 else hour_parts parts (out @ hour_span start stop))))"

definition parseHours :: "string \<Rightarrow> error + nat list" where
  "parseHours spec = hour_parts (split_on (CHR '','') (if spec = ''*'' then ''0-24'' else spec)) []"

definition parseCap :: "string \<Rightarrow> bool \<Rightarrow> error + int" where
  "parseCap spec0 allowCaps =
     (let spec = TrimSpace (ToLower spec0);
          spec = TrimSuffix (TrimSuffix spec ''/s'') ''ps'';
          word = TrimSpace spec
      in if word = [] then Inl (EMsg ''nothing after the ='')
         else if word \<in> set [''off'', ''closed'', ''no'', ''false'', ''0''] then Inr closed
         else if word \<in> set [''full'', ''on'', ''yes'', ''true'', ''unlimited'', ''max''] then Inr unlimited
         else case ParseSize spec of
                Inl e \<Rightarrow> Inl (EWrap ''limit'' e)
              | Inr n \<Rightarrow> if \<not> allowCaps then Inl (EMsg ''this schedule only opens and closes'') else Inr n)"

definition parseRule :: "string \<Rightarrow> bool \<Rightarrow> error + nat list \<times> nat list \<times> int" where
  "parseRule rule allowCaps =
     (case Cut rule (CHR ''='') of
        (lhs, None) \<Rightarrow> Inl (EMsg ''expected days, hours and a limit'')
      | (lhs, Some rhs) \<Rightarrow>
         (let fields = Fields lhs in
          if length fields \<noteq> 2 then Inl (EMsg ''expected days and hours before the ='')
          else case parseDays (fields ! 0) of
                 Inl e \<Rightarrow> Inl e
               | Inr days \<Rightarrow>
                  (case parseHours (fields ! 1) of
                     Inl e \<Rightarrow> Inl e
                   | Inr hours \<Rightarrow>
                      (case parseCap rhs allowCaps of
                         Inl e \<Rightarrow> Inl e
                       | Inr limit \<Rightarrow> Inr (days, hours, limit)))))"

definition splitRules :: "string \<Rightarrow> string list" where
  "splitRules s = filter (\<lambda>p. p \<noteq> [] \<and> \<not> HasPrefix p ''#'')
     (map TrimSpace (FieldsFunc s (\<lambda>r. r = CHR '';'' \<or> r = CHR 0x0A)))"

definition set_cells :: "nat list \<Rightarrow> nat list \<Rightarrow> int \<Rightarrow> schedule \<Rightarrow> schedule" where
  "set_cells days hours limit = fold (\<lambda>d. fold (\<lambda>h s. s\<lparr>cells := (cells s)[cell_index d h := limit]\<rparr>) hours) days"

fun parse_rules :: "string list \<Rightarrow> bool \<Rightarrow> schedule \<Rightarrow> error + schedule" where
  "parse_rules [] allowCaps out = Inr out"
| "parse_rules (rule # rules) allowCaps out =
     (case parseRule rule allowCaps of
        Inl e \<Rightarrow> Inl (EWrap rule e)
      | Inr (days, hours, limit) \<Rightarrow> parse_rules rules allowCaps (set_cells days hours limit out))"

definition parse :: "string \<Rightarrow> bool \<Rightarrow> error + schedule" where
  "parse s allowCaps = parse_rules (splitRules s) allowCaps zero_schedule"

definition Parse :: "string \<Rightarrow> error + schedule" where
  "Parse s = parse s True"

definition ParseGate :: "string \<Rightarrow> error + schedule" where
  "ParseGate s = parse s False"

section \<open>Printing\<close>

definition day_row :: "schedule \<Rightarrow> nat \<Rightarrow> int list" where
  "day_row s i = map (\<lambda>h. cells s ! cell_index (displayOrder ! i) h) [0..<Hours]"

text \<open>Maximal runs of successive numbers, as their first and last.\<close>

fun run_end :: "nat \<Rightarrow> nat list \<Rightarrow> nat \<times> nat list" where
  "run_end a [] = (a, [])"
| "run_end a (b # bs) = (if b = a + 1 then run_end b bs else (a, b # bs))"

lemma run_end_shorter: "length (snd (run_end a xs)) \<le> length xs"
  by (induction a xs rule: run_end.induct) auto

function runs :: "nat list \<Rightarrow> (nat \<times> nat) list" where
  "runs [] = []"
| "runs (a # xs) = (a, fst (run_end a xs)) # runs (snd (run_end a xs))"
  by pat_completeness auto
termination
  by (relation "measure length") (auto simp: run_end_shorter less_Suc_eq_le)

definition day_name :: "nat \<Rightarrow> string" where
  "day_name i = dayNames ! (displayOrder ! i)"

definition renderDays :: "nat list \<Rightarrow> string" where
  "renderDays days = (if length days = Days then ''*''
     else join_on (CHR '','') (map (\<lambda>(i, j). if i = j then day_name i else day_name i @ ''-'' @ day_name j) (runs days)))"

definition renderHours :: "nat list \<Rightarrow> string" where
  "renderHours hours = (if length hours = Hours then ''*''
     else join_on (CHR '','') (map (\<lambda>(i, j). if i = j then dec i else dec i @ ''-'' @ dec (j + 1)) (runs hours)))"

definition renderCap :: "int \<Rightarrow> string" where
  "renderCap c = (if c = closed then ''off'' else if c = unlimited then ''full'' else Size c)"

definition render_rule :: "nat list \<Rightarrow> nat list \<Rightarrow> int \<Rightarrow> string" where
  "render_rule days hours limit = renderDays days @ '' '' @ renderHours hours @ '' = '' @ renderCap limit"

text \<open>One rule per distinct limit of the group, in the order the day first reaches it.\<close>

definition cap_step :: "int list \<Rightarrow> nat list \<Rightarrow> nat \<Rightarrow> int list \<times> (nat list \<times> nat list \<times> int) list \<Rightarrow>
    int list \<times> (nat list \<times> nat list \<times> int) list" where
  "cap_step row days h acc =
     (let limit = row ! h in
      if limit \<in> set (fst acc) then acc
      else (fst acc @ [limit], snd acc @ [(days, filter (\<lambda>k. row ! k = limit) [0..<Hours], limit)]))"

text \<open>The days not done yet that agree with this one are one group with it.\<close>

definition day_step :: "schedule \<Rightarrow> nat \<Rightarrow> nat list \<times> (nat list \<times> nat list \<times> int) list \<Rightarrow>
    nat list \<times> (nat list \<times> nat list \<times> int) list" where
  "day_step s i acc =
     (if i \<in> set (fst acc) then acc
      else let days = i # filter (\<lambda>j. j \<notin> set (fst acc) \<and> day_row s j = day_row s i) [i + 1..<Days]
           in (fst acc @ days, snd acc @ snd (fold (cap_step (day_row s i) days) [0..<Hours] ([], []))))"

definition rules_of :: "schedule \<Rightarrow> (nat list \<times> nat list \<times> int) list" where
  "rules_of s = snd (fold (day_step s) [0..<Days] ([], []))"

definition String :: "schedule \<Rightarrow> string" where
  "String s = join_with ''; '' (map (\<lambda>(days, hours, limit). render_rule days hours limit) (rules_of s))"

section \<open>Asking\<close>

definition cellAt :: "schedule \<Rightarrow> location \<Rightarrow> time \<Rightarrow> int" where
  "cellAt s l t = cells s ! cell_index (nat (Weekday l t)) (nat (HourOf l t))"

text \<open>The next hour of the calendar, or an hour later where the clocks went back.\<close>

definition hourAfter :: "location \<Rightarrow> time \<Rightarrow> time" where
  "hourAfter l t = (let n = time_Date l (Date l t) ((HourOf l t + 1) * 3600) in if \<not> t < n then t + Hour else n)"

fun until :: "nat \<Rightarrow> schedule \<Rightarrow> location \<Rightarrow> int \<Rightarrow> time \<Rightarrow> time" where
  "until 0 s l cur e = e"
| "until (Suc k) s l cur e = (if cellAt s l e = cur then until k s l cur (hourAfter l e) else e)"

definition At :: "schedule \<Rightarrow> location \<Rightarrow> time \<Rightarrow> window" where
  "At s l t = (let cur = cellAt s l t in
     \<lparr>w_Open = (cur \<noteq> closed), w_Limit = (if 0 < cur then cur else 0), w_Until = until Cells s l cur (hourAfter l t)\<rparr>)"

fun next_open :: "nat \<Rightarrow> schedule \<Rightarrow> location \<Rightarrow> time \<Rightarrow> time option" where
  "next_open 0 s l e = None"
| "next_open (Suc k) s l e = (if cellAt s l e \<noteq> closed then Some e else next_open k s l (hourAfter l e))"

definition NextOpen :: "schedule \<Rightarrow> location \<Rightarrow> time \<Rightarrow> time option" where
  "NextOpen s l t = (if cellAt s l t \<noteq> closed then Some t else next_open Cells s l (hourAfter l t))"

definition Cell :: "schedule \<Rightarrow> nat \<Rightarrow> nat \<Rightarrow> bool \<times> int" where
  "Cell s day hour = (let c = cells s ! cell_index day (hour mod Hours) in (c \<noteq> closed, if 0 < c then c else 0))"

definition Uniform :: "schedule \<Rightarrow> bool" where
  "Uniform s = list_all (\<lambda>c. c = cells s ! 0) (cells s)"

definition Equal :: "schedule \<Rightarrow> schedule \<Rightarrow> bool" where
  "Equal s o' = (cells s = cells o')"

end
