(* ===== verification/ScheduleSpec.thy ===== *)
theory ScheduleSpec
  imports Schedule
begin

text \<open>
  The laws of the weekly grid: what \<open>String\<close> prints \<open>Parse\<close> reads back, a gate only opens and
  closes, and in a location with one offset the window \<open>At\<close> reports and the instant \<open>NextOpen\<close>
  names are the ones the grid says.
\<close>

section \<open>The cells a list of rules writes\<close>

lemma length_set_cells [simp]: "length (cells (set_cells days hours limit s)) = length (cells s)"
proof -
  have inner: "length (cells (fold (\<lambda>h s. s\<lparr>cells := (cells s)[cell_index d h := limit]\<rparr>) hours s)) = length (cells s)" for d s
    by (induction hours arbitrary: s) auto
  show ?thesis unfolding set_cells_def by (induction days arbitrary: s) (auto simp: inner)
qed

text \<open>The cells at the given indices are those of the grid \<open>s\<close>.\<close>

definition agrees :: "schedule \<Rightarrow> nat set \<Rightarrow> schedule \<Rightarrow> bool" where
  "agrees s I out \<longleftrightarrow> length (cells out) = Cells \<and> (\<forall>k \<in> I. k < Cells \<longrightarrow> cells out ! k = cells s ! k)"

lemma agrees_write:
  "agrees s I out \<Longrightarrow> cells s ! k = v \<Longrightarrow> agrees s (insert k I) (out\<lparr>cells := (cells out)[k := v]\<rparr>)"
  unfolding agrees_def by (cases "k < Cells") (auto simp: nth_list_update)

lemma agrees_hours:
  assumes "agrees s I out" and "\<And>h. h \<in> set hours \<Longrightarrow> cells s ! cell_index d h = limit"
  shows "agrees s (I \<union> cell_index d ` set hours)
    (fold (\<lambda>h s. s\<lparr>cells := (cells s)[cell_index d h := limit]\<rparr>) hours out)"
  using assms
proof (induction hours arbitrary: I out)
  case (Cons h hours)
  have "cells s ! cell_index d h = limit" using Cons.prems(2) by simp
  from Cons.IH [OF agrees_write [OF Cons.prems(1) this]] Cons.prems(2) show ?case by simp
qed simp

lemma agrees_set_cells:
  assumes "agrees s I out" and "\<And>d h. d \<in> set days \<Longrightarrow> h \<in> set hours \<Longrightarrow> cells s ! cell_index d h = limit"
  shows "agrees s (I \<union> (\<Union>d \<in> set days. cell_index d ` set hours)) (set_cells days hours limit out)"
  using assms unfolding set_cells_def
proof (induction days arbitrary: I out)
  case (Cons d days)
  from Cons.IH [OF agrees_hours [OF Cons.prems(1)]] Cons.prems(2)
  show ?case by (simp add: Un_assoc)
qed simp

section \<open>The rules of a grid\<close>

lemma fold_inv:
  assumes "P [] x" and "\<And>ys y a. P ys a \<Longrightarrow> P (ys @ [y]) (f y a)"
  shows "P xs (fold f xs x)"
  by (induction xs rule: rev_induct) (simp_all add: assms)

definition rule_ok :: "schedule \<Rightarrow> nat list \<times> nat list \<times> int \<Rightarrow> bool" where
  "rule_ok s r = (case r of (days, hours, limit) \<Rightarrow>
     days \<noteq> [] \<and> sorted_wrt (<) days \<and> set days \<subseteq> {..<Days} \<and>
     hours \<noteq> [] \<and> sorted_wrt (<) hours \<and> set hours \<subseteq> {..<Hours} \<and>
     (\<forall>d \<in> set days. \<forall>h \<in> set hours. cells s ! cell_index (displayOrder ! d) h = limit))"

definition covers :: "(nat list \<times> nat list \<times> int) list \<Rightarrow> nat \<Rightarrow> nat \<Rightarrow> bool" where
  "covers rs d h \<longleftrightarrow> (\<exists>(days, hours, limit) \<in> set rs. d \<in> set days \<and> h \<in> set hours)"

lemma cap_rules:
  "\<forall>h \<in> set hs. row ! h \<in> set (fst (fold (cap_step row days) hs ([], []))) \<and>
     row ! h \<in> (\<lambda>(_, _, l). l) ` set (snd (fold (cap_step row days) hs ([], [])))"
  "\<forall>r \<in> set (snd (fold (cap_step row days) hs ([], []))).
     \<exists>h \<in> set hs. r = (days, filter (\<lambda>k. row ! k = row ! h) [0..<Hours], row ! h)"
proof -
  let ?P = "\<lambda>hs acc. set (fst acc) = (\<lambda>(_, _, l). l) ` set (snd acc) \<and> (\<forall>h \<in> set hs. row ! h \<in> set (fst acc)) \<and>
    (\<forall>r \<in> set (snd acc). \<exists>h \<in> set hs. r = (days, filter (\<lambda>k. row ! k = row ! h) [0..<Hours], row ! h))"
  have "?P hs (fold (cap_step row days) hs ([], []))"
    by (rule fold_inv [where P = ?P]) (auto simp: cap_step_def Let_def)
  then show "\<forall>h \<in> set hs. row ! h \<in> set (fst (fold (cap_step row days) hs ([], []))) \<and>
     row ! h \<in> (\<lambda>(_, _, l). l) ` set (snd (fold (cap_step row days) hs ([], [])))"
    and "\<forall>r \<in> set (snd (fold (cap_step row days) hs ([], []))).
     \<exists>h \<in> set hs. r = (days, filter (\<lambda>k. row ! k = row ! h) [0..<Hours], row ! h)" by blast+
qed

lemma sorted_upt_filter: "sorted_wrt (<) (filter p [a..<b])"
  by (intro sorted_wrt_filter sorted_wrt_upt)

lemma day_row_nth: "h < Hours \<Longrightarrow> day_row s i ! h = cells s ! cell_index (displayOrder ! i) h"
  by (simp add: day_row_def)

lemma day_group_ok:
  assumes "i < Days" and "days = i # filter (\<lambda>j. j \<notin> D \<and> day_row s j = day_row s i) [i + 1..<Days]"
    and "r \<in> set (snd (fold (cap_step (day_row s i) days) [0..<Hours] ([], [])))"
  shows "rule_ok s r"
proof -
  from cap_rules(2) assms(3) obtain h where h: "h \<in> set [0..<Hours]"
    and r: "r = (days, filter (\<lambda>k. day_row s i ! k = day_row s i ! h) [0..<Hours], day_row s i ! h)" by blast
  have "day_row s d = day_row s i" if "d \<in> set days" for d
    using that assms(2) by auto
  then have "cells s ! cell_index (displayOrder ! d) k = day_row s i ! h"
    if "d \<in> set days" "k < Hours" "day_row s i ! k = day_row s i ! h" for d k
    using that day_row_nth [of k s d] by simp
  moreover have "sorted_wrt (<) days" using sorted_upt_filter by (auto simp: assms(2))
  moreover have "set days \<subseteq> {..<Days}" "days \<noteq> []" using assms(1,2) by auto
  moreover have "filter (\<lambda>k. day_row s i ! k = day_row s i ! h) [0..<Hours] \<noteq> []"
    using h by (auto simp: filter_empty_conv)
  ultimately show ?thesis
    using sorted_upt_filter by (auto simp: rule_ok_def r)
qed

lemma day_group_covers:
  assumes "d \<in> set days" and "h < Hours"
  shows "covers (snd (fold (cap_step row days) [0..<Hours] ([], []))) d h"
proof -
  let ?out = "snd (fold (cap_step row days) [0..<Hours] ([], []))"
  have "h \<in> set [0..<Hours]" using assms(2) by simp
  with cap_rules(1) [of "[0..<Hours]" row days]
  have "row ! h \<in> (\<lambda>(_, _, l). l) ` set ?out" by blast
  then obtain r where r: "r \<in> set ?out" and l: "(case r of (_, _, l) \<Rightarrow> l) = row ! h" by (elim imageE) simp
  from cap_rules(2) [of row days "[0..<Hours]"] r obtain k where
    k: "r = (days, filter (\<lambda>j. row ! j = row ! k) [0..<Hours], row ! k)" by blast
  with l have "h \<in> set (filter (\<lambda>j. row ! j = row ! k) [0..<Hours])" using assms(2) by simp
  with r k assms(1) show ?thesis unfolding covers_def by blast
qed

lemma covers_append: "covers (xs @ ys) d h \<longleftrightarrow> covers xs d h \<or> covers ys d h"
  by (auto simp: covers_def)

lemma rules_of_ok:
  "\<forall>r \<in> set (rules_of s). rule_ok s r" and rules_of_covers: "d < Days \<Longrightarrow> h < Hours \<Longrightarrow> covers (rules_of s) d h"
proof -
  let ?P = "\<lambda>is acc. set is \<subseteq> {..<Days} \<longrightarrow> set is \<subseteq> set (fst acc) \<and> (\<forall>r \<in> set (snd acc). rule_ok s r) \<and>
    (\<forall>d \<in> set (fst acc). \<forall>h < Hours. covers (snd acc) d h)"
  have step: "?P (is @ [i]) (day_step s i acc)" if P: "?P is acc" for "is" i acc
  proof (intro impI)
    assume dom: "set (is @ [i]) \<subseteq> {..<Days}"
    then have i: "i < Days" and P': "set is \<subseteq> set (fst acc)" "\<forall>r \<in> set (snd acc). rule_ok s r"
      "\<forall>d \<in> set (fst acc). \<forall>h < Hours. covers (snd acc) d h" using P by auto
    show "set (is @ [i]) \<subseteq> set (fst (day_step s i acc)) \<and> (\<forall>r \<in> set (snd (day_step s i acc)). rule_ok s r) \<and>
      (\<forall>d \<in> set (fst (day_step s i acc)). \<forall>h < Hours. covers (snd (day_step s i acc)) d h)"
    proof (cases "i \<in> set (fst acc)")
      case True
      with P' show ?thesis by (simp add: day_step_def)
    next
      case False
      define days where "days = i # filter (\<lambda>j. j \<notin> set (fst acc) \<and> day_row s j = day_row s i) [i + 1..<Days]"
      let ?out = "snd (fold (cap_step (day_row s i) days) [0..<Hours] ([], []))"
      have st: "day_step s i acc = (fst acc @ days, snd acc @ ?out)"
        using False by (simp add: day_step_def days_def Let_def)
      have "i \<in> set days" by (simp add: days_def)
      moreover have "\<forall>r \<in> set ?out. rule_ok s r" using day_group_ok [OF i days_def] by blast
      moreover have "\<forall>d \<in> set days. \<forall>h < Hours. covers ?out d h" using day_group_covers by blast
      ultimately show ?thesis using P' unfolding st by (auto simp: covers_append)
    qed
  qed
  have "?P [0..<Days] (fold (day_step s) [0..<Days] ([], []))"
    by (rule fold_inv [where P = ?P]) (simp, rule step)
  then have all: "set [0..<Days] \<subseteq> set (fst (fold (day_step s) [0..<Days] ([], []))) \<and> (\<forall>r \<in> set (rules_of s). rule_ok s r) \<and>
    (\<forall>d \<in> set (fst (fold (day_step s) [0..<Days] ([], []))). \<forall>h < Hours. covers (rules_of s) d h)"
    unfolding rules_of_def by auto
  then show "\<forall>r \<in> set (rules_of s). rule_ok s r" by blast
  show "d < Days \<Longrightarrow> h < Hours \<Longrightarrow> covers (rules_of s) d h" using all by auto
qed

section \<open>Printed words\<close>

text \<open>The characters a printed rule is made of, apart from its blanks and its equals sign.\<close>

definition word_char :: "char \<Rightarrow> bool" where
  "word_char c \<longleftrightarrow> \<not> is_space c \<and> c \<notin> set '';=#''"

lemma word_chars_tight: "s \<noteq> [] \<Longrightarrow> list_all word_char s \<Longrightarrow> tight s"
  by (rule tightI) (auto simp: word_char_def list_all_iff)

lemma word_avoids: "list_all word_char s \<Longrightarrow> CHR '';'' \<notin> set s \<and> CHR 0x0A \<notin> set s"
  by (auto simp: list_all_iff word_char_def is_space_def)

lemma digit_word_char: "is_digit c \<Longrightarrow> word_char c"
  by (auto simp: word_char_def is_digit_def is_space_def)

lemma dec_word: "list_all word_char (dec n)"
  using dec_char digit_word_char by (auto simp: list_all_iff)

lemma join_word: "word_char c \<Longrightarrow> list_all (list_all word_char) ss \<Longrightarrow> list_all word_char (join_on c ss)"
  by (induction c ss rule: join_on.induct) auto

lemma hd_join: "ss \<noteq> [] \<Longrightarrow> hd ss \<noteq> [] \<Longrightarrow> join_on c ss \<noteq> [] \<and> hd (join_on c ss) = hd (hd ss)"
  by (cases ss; cases "tl ss") (auto simp: hd_append)

lemma expand_run_end:
  "run_end a xs = (b, rest) \<Longrightarrow> a \<le> b \<and> a # xs = [a..<Suc b] @ rest"
proof (induction a xs arbitrary: b rest rule: run_end.induct)
  case (2 a c cs)
  show ?case
  proof (cases "c = a + 1")
    case True
    with 2 have "c \<le> b" "c # cs = [c..<Suc b] @ rest" by auto
    with True show ?thesis by (auto simp: upt_conv_Cons)
  qed (use 2 in auto)
qed auto

definition expand :: "(nat \<times> nat) list \<Rightarrow> nat list" where
  "expand rs = concat (map (\<lambda>(i, j). [i..<Suc j]) rs)"

lemma expand_Cons: "expand ((i, j) # rs) = [i..<Suc j] @ expand rs"
  by (simp add: expand_def del: upt_Suc)

lemma expand_Nil [simp]: "expand [] = []"
  by (simp add: expand_def)

lemma expand_runs: "expand (runs xs) = xs \<and> list_all (\<lambda>(i, j). i \<le> j) (runs xs)"
proof (induction xs rule: runs.induct)
  case (2 a xs)
  obtain b rest where r: "run_end a xs = (b, rest)" by force
  then have eq: "runs (a # xs) = (a, b) # runs rest" by simp
  have IH: "expand (runs rest) = rest" "list_all (\<lambda>(i, j). i \<le> j) (runs rest)" using 2 r by simp_all
  note e = expand_run_end [OF r]
  have "expand (runs (a # xs)) = [a..<Suc b] @ rest" unfolding eq expand_Cons IH(1) ..
  also have "\<dots> = a # xs" using e by (rule conjunct2 [THEN sym])
  finally have "expand (runs (a # xs)) = a # xs" .
  moreover have "list_all (\<lambda>(i, j). i \<le> j) (runs (a # xs))" unfolding eq using e IH(2) by simp
  ultimately show ?case ..
qed simp

lemma runs_nonempty [simp]: "runs xs = [] \<longleftrightarrow> xs = []"
  by (cases xs) auto

lemma runs_bound:
  assumes "(i, j) \<in> set (runs xs)"
  shows "i \<le> j" and "i \<in> set xs" and "j \<in> set xs"
proof -
  from assms expand_runs [of xs] show "i \<le> j" by (auto simp: list_all_iff)
  moreover have "set [i..<Suc j] \<subseteq> set (expand (runs xs))" using assms by (auto simp: expand_def simp del: upt_Suc)
  then have "{i..j} \<subseteq> set xs" using expand_runs [of xs] by (simp add: atLeastLessThanSuc_atLeastAtMost del: upt_Suc)
  ultimately show "i \<in> set xs" "j \<in> set xs" by auto
qed

subsection \<open>Days\<close>

definition day_part :: "nat \<times> nat \<Rightarrow> string" where
  "day_part = (\<lambda>(i, j). if i = j then day_name i else day_name i @ ''-'' @ day_name j)"

lemma day_names:
  "list_all (\<lambda>i. list_all (\<lambda>c. word_char c \<and> c \<notin> set '',-*'') (day_name i) \<and> day_name i \<noteq> [] \<and>
     (case parseDay (day_name i) of Inr k \<Rightarrow> k = i | Inl _ \<Rightarrow> False)) [0..<7]"
  by code_simp

lemma day_name_ok:
  assumes "i < Days"
  shows "list_all word_char (day_name i)" "CHR '','' \<notin> set (day_name i)" "CHR ''-'' \<notin> set (day_name i)"
    "day_name i \<noteq> []" "hd (day_name i) \<noteq> CHR ''*''" "parseDay (day_name i) = Inr i" "tight (day_name i)"
proof -
  have *: "list_all (\<lambda>c. word_char c \<and> c \<notin> set '',-*'') (day_name i) \<and> day_name i \<noteq> [] \<and>
     (case parseDay (day_name i) of Inr k \<Rightarrow> k = i | Inl _ \<Rightarrow> False)"
    using day_names assms by (simp add: list_all_iff Days_def)
  then show w: "list_all word_char (day_name i)" and "CHR '','' \<notin> set (day_name i)" "CHR ''-'' \<notin> set (day_name i)"
    and ne: "day_name i \<noteq> []" by (auto simp: list_all_iff)
  show "hd (day_name i) \<noteq> CHR ''*''" using * by (cases "day_name i") auto
  show "parseDay (day_name i) = Inr i" using * by (cases "parseDay (day_name i)") auto
  show "tight (day_name i)" using ne w by (rule word_chars_tight)
qed

lemma day_spans:
  "list_all (\<lambda>i. list_all (\<lambda>j. i < j \<longrightarrow> day_span 7 i j = map (\<lambda>k. displayOrder ! k) [i..<Suc j]) [0..<7]) [0..<7]"
  by code_simp

lemma day_part_parse:
  assumes "i \<le> j" and "j < Days"
  shows "day_parts (day_part (i, j) # parts) out = day_parts parts (out @ map (\<lambda>k. displayOrder ! k) [i..<Suc j])"
proof (cases "i = j")
  case True
  with day_name_ok [OF assms(2)] show ?thesis by (simp add: day_part_def Cut_absent)
next
  case False
  with assms have i: "i < Days" by simp
  have "tight (day_part (i, j))"
    using False tight_append [OF day_name_ok(7) [OF i] day_name_ok(7) [OF assms(2)], of "''-''"] by (simp add: day_part_def)
  moreover have "Cut (day_part (i, j)) (CHR ''-'') = (day_name i, Some (day_name j))"
    using False Cut_found [OF day_name_ok(3) [OF i]] by (simp add: day_part_def)
  moreover have "day_span Days i j = map (\<lambda>k. displayOrder ! k) [i..<Suc j]"
    using day_spans False assms by (simp add: list_all_iff Days_def del: upt_Suc)
  ultimately show ?thesis
    using day_name_ok(6) [OF i] day_name_ok(6) [OF assms(2)] by (simp del: upt_Suc)
qed

lemma day_parts_runs:
  "list_all (\<lambda>(i, j). i \<le> j \<and> j < Days) rs \<Longrightarrow>
     day_parts (map day_part rs) out = Inr (out @ map (\<lambda>k. displayOrder ! k) (expand rs))"
proof (induction rs arbitrary: out)
  case (Cons r rs)
  obtain i j where r: "r = (i, j)" by force
  with Cons.prems have b: "i \<le> j" "j < Days" and rs: "list_all (\<lambda>(i, j). i \<le> j \<and> j < Days) rs" by auto
  show ?case unfolding r list.map(2) day_part_parse [OF b] expand_Cons Cons.IH [OF rs] map_append append_assoc ..
qed simp

lemma sorted_full:
  assumes "sorted_wrt (<) xs" and "set xs \<subseteq> {..<n}" and "length xs = n"
  shows "xs = [0..<n]"
proof -
  have "distinct xs" and "sorted xs" using assms(1) by (simp_all add: strict_sorted_iff)
  with assms(2,3) have "set xs = {..<n}"
    by (metis card_lessThan card_subset_eq distinct_card finite_lessThan)
  then have "set xs = set [0..<n]" by (simp add: atLeast0LessThan)
  with \<open>distinct xs\<close> \<open>sorted xs\<close> show ?thesis
    by (intro sorted_distinct_set_unique) simp_all
qed

lemma renderDays_word:
  assumes "days \<noteq> []" and "set days \<subseteq> {..<Days}"
  shows "renderDays days \<noteq> [] \<and> list_all word_char (renderDays days)"
proof (cases "length days = Days")
  case True
  then show ?thesis by (simp add: renderDays_def word_char_def is_space_def)
next
  case False
  have part: "day_part r \<noteq> [] \<and> list_all word_char (day_part r)" if "r \<in> set (runs days)" for r
  proof -
    obtain i j where r: "r = (i, j)" by force
    with runs_bound [of i j days] that assms(2) have "i < Days" "j < Days" by auto
    with day_name_ok show ?thesis by (auto simp: r day_part_def word_char_def is_space_def)
  qed
  have eq: "renderDays days = join_on (CHR '','') (map day_part (runs days))"
    using False by (simp add: renderDays_def day_part_def)
  have "list_all word_char (renderDays days)"
    unfolding eq using part by (intro join_word) (auto simp: list_all_iff word_char_def is_space_def)
  moreover have "renderDays days \<noteq> []"
    unfolding eq using hd_join [of "map day_part (runs days)"] part assms(1) by (auto simp: hd_map)
  ultimately show ?thesis by blast
qed

lemma parse_renderDays:
  assumes "days \<noteq> []" and "sorted_wrt (<) days" and "set days \<subseteq> {..<Days}"
  shows "parseDays (renderDays days) = Inr (map (\<lambda>k. displayOrder ! k) days)"
proof (cases "length days = Days")
  case True
  with assms have "days = [0..<Days]" by (intro sorted_full)
  then show ?thesis by (simp add: renderDays_def parseDays_def Days_def displayOrder_def upt_rec)
next
  case False
  have eq: "renderDays days = join_on (CHR '','') (map day_part (runs days))"
    using False by (simp add: renderDays_def day_part_def)
  have bounds: "i \<le> j \<and> i < Days \<and> j < Days" if "(i, j) \<in> set (runs days)" for i j
    using runs_bound [OF that] assms(3) by auto
  obtain i j rs where r: "runs days = (i, j) # rs" using assms(1) by (metis runs_nonempty neq_Nil_conv surj_pair)
  have "hd (renderDays days) = hd (day_name i)"
    using hd_join [of "map day_part (runs days)"] day_name_ok(4) [of i] bounds [of i j]
    by (auto simp: eq r day_part_def hd_append)
  with day_name_ok(5) [of i] bounds [of i j] r have "renderDays days \<noteq> ''*''" by auto
  moreover have "CHR '','' \<notin> set (day_part r)" if "r \<in> set (runs days)" for r
    using that bounds [of "fst r" "snd r"] day_name_ok(2) by (auto simp: day_part_def split: prod.splits)
  then have "split_on (CHR '','') (renderDays days) = map day_part (runs days)"
    unfolding eq using assms(1) by (intro split_join) auto
  moreover have "list_all (\<lambda>(i, j). i \<le> j \<and> j < Days) (runs days)" using bounds by (auto simp: list_all_iff)
  ultimately show ?thesis using day_parts_runs [of "runs days" "[]"] expand_runs [of days] by (simp add: parseDays_def)
qed

subsection \<open>Hours\<close>

definition hour_part :: "nat \<times> nat \<Rightarrow> string" where
  "hour_part = (\<lambda>(i, j). if i = j then dec i else dec i @ ''-'' @ dec (j + 1))"

lemma not_digit: "\<not> is_digit (CHR ''-'')" "\<not> is_digit (CHR '','')" "\<not> is_digit (CHR '':'')" "\<not> is_digit (CHR ''*'')"
  by (simp_all add: is_digit_def)

lemma parseHour_dec: "n \<le> most \<Longrightarrow> most \<le> Hours \<Longrightarrow> parseHour (dec n) most = Inr n"
  by (simp add: parseHour_def Cut_absent dec_avoids not_digit Atoi_dec Hours_def)

lemma hour_span_upt:
  assumes "i < j" and "j \<le> Hours"
  shows "hour_span i j = [i..<j]"
proof -
  define n where "n = j - i"
  have n: "0 < n" "n \<le> Hours" "i + n = j" "j + Hours - i = n + Hours" using assms by (simp_all add: n_def)
  have "(if n mod Hours = 0 then Hours else n mod Hours) = n"
    using n(1,2) by (cases "n = Hours") (auto simp: Hours_def)
  then have "hour_span i j = map (\<lambda>k. (i + k) mod Hours) [0..<n]"
    by (simp add: hour_span_def n(4))
  also have "\<dots> = [i..<j]" using n assms by (intro nth_equalityI) auto
  finally show ?thesis .
qed

lemma hour_part_tight: "tight (hour_part r)"
  using tight_append [OF dec_tight dec_tight, of _ "''-''"] by (auto simp: hour_part_def split: prod.splits)

lemma hour_part_parse:
  assumes "i \<le> j" and "j < Hours"
  shows "hour_parts (hour_part (i, j) # parts) out = hour_parts parts (out @ [i..<Suc j])"
proof -
  have i: "parseHour (dec i) (Hours - 1) = Inr i" using assms by (intro parseHour_dec) auto
  have j: "parseHour (dec (Suc j)) Hours = Inr (Suc j)" using assms by (intro parseHour_dec) auto
  have "Cut (hour_part (i, j)) (CHR ''-'') = (dec i, if i = j then None else Some (dec (Suc j)))"
    using Cut_absent [of "CHR ''-''" "dec i"] Cut_found [of "CHR ''-''" "dec i" "dec (Suc j)"] dec_avoids [OF not_digit(1)]
    by (auto simp: hour_part_def)
  moreover have "i = j \<Longrightarrow> [i..<Suc j] = [j]" by simp
  ultimately show ?thesis
    using i j assms hour_span_upt [of i "Suc j"] by (cases "i = j") (simp_all add: hour_part_tight del: upt_Suc)
qed

lemma hour_parts_runs:
  "list_all (\<lambda>(i, j). i \<le> j \<and> j < Hours) rs \<Longrightarrow> hour_parts (map hour_part rs) out = Inr (out @ expand rs)"
proof (induction rs arbitrary: out)
  case (Cons r rs)
  obtain i j where r: "r = (i, j)" by force
  with Cons.prems have b: "i \<le> j" "j < Hours" and rs: "list_all (\<lambda>(i, j). i \<le> j \<and> j < Hours) rs" by auto
  show ?case unfolding r list.map(2) hour_part_parse [OF b] expand_Cons Cons.IH [OF rs] append_assoc ..
qed simp

lemma hour_part_word:
  "hour_part r \<noteq> [] \<and> list_all word_char (hour_part r) \<and> CHR '','' \<notin> set (hour_part r) \<and> hd (hour_part r) \<noteq> CHR ''*''"
proof -
  have "hd (dec n) \<noteq> CHR ''*''" for n using dec_avoids [OF not_digit(4)] by (metis dec_nonempty hd_in_set)
  then show ?thesis
    using dec_word dec_avoids [OF not_digit(2)]
    by (auto simp: hour_part_def word_char_def is_space_def split: prod.splits)
qed

lemma renderHours_word:
  assumes "hours \<noteq> []"
  shows "renderHours hours \<noteq> [] \<and> list_all word_char (renderHours hours)"
proof (cases "length hours = Hours")
  case True
  then show ?thesis by (simp add: renderHours_def word_char_def is_space_def)
next
  case False
  have eq: "renderHours hours = join_on (CHR '','') (map hour_part (runs hours))"
    using False by (simp add: renderHours_def hour_part_def)
  have "list_all word_char (renderHours hours)"
    unfolding eq using hour_part_word by (intro join_word) (auto simp: list_all_iff word_char_def is_space_def)
  moreover have "renderHours hours \<noteq> []"
    unfolding eq using hd_join [of "map hour_part (runs hours)"] hour_part_word assms by (auto simp: hd_map)
  ultimately show ?thesis by blast
qed

lemma parse_renderHours:
  assumes "hours \<noteq> []" and "sorted_wrt (<) hours" and "set hours \<subseteq> {..<Hours}"
  shows "parseHours (renderHours hours) = Inr hours"
proof (cases "length hours = Hours")
  case True
  with assms have "hours = [0..<24]" using sorted_full [of hours Hours] by (simp add: Hours_def)
  moreover have "parseHours ''*'' = Inr [0..<24]" by code_simp
  ultimately show ?thesis by (simp add: renderHours_def Hours_def)
next
  case False
  have eq: "renderHours hours = join_on (CHR '','') (map hour_part (runs hours))"
    using False by (simp add: renderHours_def hour_part_def)
  have "hd (renderHours hours) \<noteq> CHR ''*''"
    unfolding eq using hd_join [of "map hour_part (runs hours)"] hour_part_word assms(1) by (auto simp: hd_map)
  then have "renderHours hours \<noteq> ''*''" by auto
  moreover have "split_on (CHR '','') (renderHours hours) = map hour_part (runs hours)"
    unfolding eq using assms(1) hour_part_word by (intro split_join) auto
  moreover have "list_all (\<lambda>(i, j). i \<le> j \<and> j < Hours) (runs hours)"
    using runs_bound [of _ _ hours] assms(3) by (force simp: list_all_iff)
  ultimately show ?thesis using hour_parts_runs [of "runs hours" "[]"] expand_runs [of hours] by (simp add: parseHours_def)
qed

subsection \<open>Limits\<close>

lemma size_units_lower: "list_all (\<lambda>(u, m). list_all word_char u \<and> (ToLower u = [] \<or> tight (ToLower u) \<and> last (ToLower u) = CHR ''b'')) size_units"
  by code_simp

lemma dec_zero: "dec k = ''0'' \<Longrightarrow> k = 0"
proof -
  assume "dec k = ''0''"
  then have "digits_val (dec k) = digits_val ''0''" by simp
  moreover have "digits_val ''0'' = 0" by (simp add: digits_val_def)
  ultimately show ?thesis by (simp add: digits_val_dec)
qed

lemma parse_Size_cap:
  assumes "0 < c" and "c < 2 ^ 63"
  shows "parseCap (CHR '' '' # Size c) True = Inr c" and "list_all word_char (Size c) \<and> Size c \<noteq> []"
proof -
  from Size_form [OF assms(1)] obtain k u m where f: "Size c = dec k @ u" "(u, m) \<in> set size_units" "0 < k" "c = int k * m" .
  define v where "v = ToLower u"
  from size_units_lower f(2) have u: "list_all word_char u" and v: "v = [] \<or> tight v \<and> last v = CHR ''b''"
    by (auto simp: list_all_iff v_def)
  show "list_all word_char (Size c) \<and> Size c \<noteq> []" using u dec_word by (simp add: f(1))
  have "ToLower (Size c) = dec k @ v" by (simp add: f(1) v_def ToLower_append)
  then have low: "ToLower (CHR '' '' # Size c) = CHR '' '' # (dec k @ v)"
    by (simp add: ToLower_def to_lower_def)
  have t: "tight (dec k @ v)" using v tight_append [of "dec k" v "[]"] by auto
  obtain x xs where d: "dec k = x # xs" "is_digit x" using dec_char [of _ k] by (cases "dec k") auto
  have lst: "last (dec k @ v) \<noteq> CHR ''s''"
    using v is_digit_plain [OF dec_char [of "last (dec k)" k]] by (cases "v = []") auto
  then have sfx: "TrimSuffix (dec k @ v) ''/s'' = dec k @ v" "TrimSuffix (dec k @ v) ''ps'' = dec k @ v"
    by (simp_all add: TrimSuffix_other)
  have x: "x \<notin> set ''ofcnuytm''" using d(2) by (auto simp: is_digit_def)
  have "dec k @ v \<noteq> ''0''"
  proof
    assume eq: "dec k @ v = ''0''"
    then have "dec k = ''0''" using d(1) by auto
    from dec_zero [OF this] f(3) show False by simp
  qed
  with x have w: "dec k @ v \<notin> set [''off'', ''closed'', ''no'', ''false'', ''0'']"
    "dec k @ v \<notin> set [''full'', ''on'', ''yes'', ''true'', ''unlimited'', ''max'']" by (auto simp: d(1))
  have "ParseSize (dec k @ v) = Inr c"
    unfolding f(4) using f(4) assms(2) by (intro ParseSize_plain [OF f(2) _ f(3)]) (simp_all add: v_def)
  then show "parseCap (CHR '' '' # Size c) True = Inr c"
    using w by (simp add: parseCap_def low t sfx)
qed

lemma parse_renderCap:
  assumes "-1 \<le> c" and "c < 2 ^ 63"
  shows "parseCap (CHR '' '' # renderCap c) True = Inr c" and "list_all word_char (renderCap c) \<and> renderCap c \<noteq> []"
proof -
  consider "c = -1" | "c = 0" | "0 < c" using assms(1) by linarith
  then have "parseCap (CHR '' '' # renderCap c) True = Inr c \<and> list_all word_char (renderCap c) \<and> renderCap c \<noteq> []"
  proof cases
    case 1
    have "parseCap (CHR '' '' # renderCap (-1)) True = Inr (-1) \<and> list_all word_char (renderCap (-1)) \<and> renderCap (-1) \<noteq> []"
      by code_simp
    with 1 show ?thesis by simp
  next
    case 2
    have "parseCap (CHR '' '' # renderCap 0) True = Inr 0 \<and> list_all word_char (renderCap 0) \<and> renderCap 0 \<noteq> []"
      by code_simp
    with 2 show ?thesis by simp
  next
    case 3
    then show ?thesis using parse_Size_cap [OF 3 assms(2)] by (simp add: renderCap_def closed_def unlimited_def)
  qed
  then show "parseCap (CHR '' '' # renderCap c) True = Inr c" and "list_all word_char (renderCap c) \<and> renderCap c \<noteq> []" by auto
qed

section \<open>Reading back a printed grid\<close>

definition grid_ok :: "schedule \<Rightarrow> bool" where
  "grid_ok s \<longleftrightarrow> length (cells s) = Cells \<and> list_all (\<lambda>c. -1 \<le> c \<and> c < 2 ^ 63) (cells s)"

lemma displayOrder_less: "d < Days \<Longrightarrow> displayOrder ! d < Days"
proof -
  have "list_all (\<lambda>d. displayOrder ! d < 7) [0..<7]" by code_simp
  moreover assume "d < Days"
  ultimately show ?thesis by (simp add: list_all_iff Days_def)
qed

lemma cell_index_less: "d < Days \<Longrightarrow> h < Hours \<Longrightarrow> cell_index d h < Cells"
  by (simp add: cell_index_def Days_def Hours_def Cells_def)

lemma cell_index_onto:
  assumes "k < Cells"
  obtains d h where "d < Days" and "h < Hours" and "k = cell_index (displayOrder ! d) h"
proof -
  have "list_all (\<lambda>w. (w + 6) mod 7 < 7 \<and> displayOrder ! ((w + 6) mod 7) = w) [0..<7]" by code_simp
  moreover have "k div 24 < 7" using assms by (simp add: Cells_def)
  ultimately have "(k div 24 + 6) mod 7 < 7" "displayOrder ! ((k div 24 + 6) mod 7) = k div 24"
    by (simp_all add: list_all_iff)
  then show ?thesis using that [of "(k div 24 + 6) mod 7" "k mod 24"] by (simp add: Days_def Hours_def cell_index_def)
qed

lemma rule_limit:
  assumes "grid_ok s" and "rule_ok s (days, hours, limit)"
  shows "-1 \<le> limit" and "limit < 2 ^ 63"
proof -
  define d h where "d = hd days" and "h = hd hours"
  have "d \<in> set days" "h \<in> set hours" and sub: "set days \<subseteq> {..<Days}" "set hours \<subseteq> {..<Hours}"
    using assms(2) by (auto simp: rule_ok_def d_def h_def)
  moreover from this have "d < Days" "h < Hours" by auto
  ultimately have dh: "d \<in> set days" "h \<in> set hours" "d < Days" "h < Hours" by auto
  then have "limit = cells s ! cell_index (displayOrder ! d) h" using assms(2) by (auto simp: rule_ok_def)
  moreover have "cell_index (displayOrder ! d) h < length (cells s)"
    using dh assms(1) cell_index_less displayOrder_less by (simp add: grid_ok_def)
  ultimately show "-1 \<le> limit" "limit < 2 ^ 63"
    using assms(1) by (auto simp: grid_ok_def list_all_length)
qed

abbreviation render :: "nat list \<times> nat list \<times> int \<Rightarrow> string" where
  "render \<equiv> \<lambda>(days, hours, limit). render_rule days hours limit"

text \<open>The three words of a rule.\<close>

lemma rule_words:
  assumes "grid_ok s" and "rule_ok s (days, hours, limit)"
  shows "renderDays days \<noteq> [] \<and> list_all word_char (renderDays days)"
    and "renderHours hours \<noteq> [] \<and> list_all word_char (renderHours hours)"
    and "list_all word_char (renderCap limit) \<and> renderCap limit \<noteq> []"
  using assms(2) renderDays_word renderHours_word parse_renderCap(2) [OF rule_limit [OF assms]]
  by (auto simp: rule_ok_def)

lemma parse_render_rule:
  assumes "grid_ok s" and "rule_ok s (days, hours, limit)"
  shows "parseRule (render_rule days hours limit) True = Inr (map (\<lambda>k. displayOrder ! k) days, hours, limit)"
proof -
  let ?D = "renderDays days" and ?H = "renderHours hours" and ?C = "renderCap limit"
  note w = rule_words [OF assms]
  have eq: "render_rule days hours limit = (?D @ CHR '' '' # ?H @ '' '') @ CHR ''='' # CHR '' '' # ?C"
    by (simp add: render_rule_def)
  have "CHR ''='' \<notin> set (?D @ CHR '' '' # ?H @ '' '')"
    using w(1,2) by (auto simp: list_all_iff word_char_def)
  then have cut: "Cut (render_rule days hours limit) (CHR ''='') = (?D @ CHR '' '' # ?H @ '' '', Some (CHR '' '' # ?C))"
    unfolding eq by (rule Cut_found)
  have sp: "is_space (CHR '' '')" by (simp add: is_space_def)
  have "list_all (\<lambda>c. \<not> is_space c) ?D" "list_all (\<lambda>c. \<not> is_space c) ?H"
    using w(1,2) by (auto simp: list_all_iff word_char_def)
  then have "Fields (?D @ CHR '' '' # ?H @ CHR '' '' # []) = [?D, ?H]"
    unfolding Fields_def FieldsFunc_append_sep [where p = is_space and c = "CHR '' ''", OF sp] using w(1,2) by (simp add: FieldsFunc_word)
  moreover have "parseDays ?D = Inr (map (\<lambda>k. displayOrder ! k) days)" "parseHours ?H = Inr hours"
    using assms(2) by (auto simp: rule_ok_def intro!: parse_renderDays parse_renderHours)
  ultimately show ?thesis
    using parse_renderCap(1) [OF rule_limit [OF assms]] by (simp add: parseRule_def cut)
qed

lemma render_rule_text:
  assumes "grid_ok s" and "rule_ok s r"
  shows "tight (render r)" and "CHR '';'' \<notin> set (render r) \<and> CHR 0x0A \<notin> set (render r)" and "hd (render r) \<noteq> CHR ''#''"
proof -
  obtain days hours limit where r: "r = (days, hours, limit)" by (metis prod_cases3)
  note w = rule_words [OF assms(1) assms(2) [unfolded r]]
  have eq: "render r = renderDays days @ ('' '' @ renderHours hours @ '' = '') @ renderCap limit"
    by (simp add: r render_rule_def)
  show "tight (render r)" unfolding eq using w word_chars_tight by (intro tight_append) auto
  show "CHR '';'' \<notin> set (render r) \<and> CHR 0x0A \<notin> set (render r)"
    unfolding eq using w(1,2) [THEN conjunct2, THEN word_avoids] w(3) [THEN conjunct1, THEN word_avoids] by simp
  show "hd (render r) \<noteq> CHR ''#''"
  proof -
    have "word_char (hd (renderDays days))" using w(1) by (simp add: list_all_iff)
    then have "hd (renderDays days) \<noteq> CHR ''#''" by (auto simp: word_char_def)
    with w(1) show ?thesis unfolding eq by simp
  qed
qed

lemma split_printed:
  assumes "rs \<noteq> []" and "list_all (\<lambda>x. tight x \<and> CHR '';'' \<notin> set x \<and> CHR 0x0A \<notin> set x) rs" and "pre = [] \<or> pre = '' ''"
  shows "map TrimSpace (FieldsFunc (pre @ join_with ''; '' rs) (\<lambda>r. r = CHR '';'' \<or> r = CHR 0x0A)) = rs"
  using assms
proof (induction rs arbitrary: pre)
  case (Cons x rs)
  let ?p = "\<lambda>r. r = CHR '';'' \<or> r = CHR 0x0A"
  have x: "tight x" "list_all (\<lambda>c. \<not> ?p c) (pre @ x)" "pre @ x \<noteq> []" "TrimSpace (pre @ x) = x"
    using Cons.prems(2,3) by (auto simp: list_all_iff tight_def [of x])
  show ?case
  proof (cases "rs = []")
    case True
    then show ?thesis using x by (simp add: FieldsFunc_word)
  next
    case False
    then have "pre @ join_with ''; '' (x # rs) = (pre @ x) @ CHR '';'' # ('' '' @ join_with ''; '' rs)"
      by (cases rs) auto
    moreover have "FieldsFunc ((pre @ x) @ CHR '';'' # ('' '' @ join_with ''; '' rs)) ?p =
        FieldsFunc (pre @ x) ?p @ FieldsFunc ('' '' @ join_with ''; '' rs) ?p"
      by (rule FieldsFunc_append_sep) simp
    ultimately show ?thesis
      using Cons.IH [of "'' ''"] False Cons.prems(2) x by (simp add: FieldsFunc_word)
  qed
qed simp

lemma splitRules_String:
  assumes "grid_ok s"
  shows "splitRules (String s) = map render (rules_of s)"
proof -
  have r: "rule_ok s r" if "r \<in> set (rules_of s)" for r using rules_of_ok that by blast
  have "covers (rules_of s) 0 0" by (rule rules_of_covers) (simp_all add: Days_def Hours_def)
  then have "rules_of s \<noteq> []" by (auto simp: covers_def)
  moreover have "list_all (\<lambda>x. tight x \<and> CHR '';'' \<notin> set x \<and> CHR 0x0A \<notin> set x) (map render (rules_of s))"
    using render_rule_text(1,2) [OF assms r] unfolding list_all_iff set_map by blast
  ultimately have split: "map TrimSpace (FieldsFunc (String s) (\<lambda>r. r = CHR '';'' \<or> r = CHR 0x0A)) = map render (rules_of s)"
    using split_printed [of "map render (rules_of s)" "[]"] by (simp add: String_def)
  have plain: "x \<noteq> [] \<and> \<not> HasPrefix x ''#''" if "x \<in> set (map render (rules_of s))" for x
  proof -
    from that obtain r0 where "r0 \<in> set (rules_of s)" and x: "x = render r0" by auto
    from render_rule_text(1,3) [OF assms r [OF this(1)]] have "tight x" "hd x \<noteq> CHR ''#''" unfolding x by blast+
    then show ?thesis by (cases x) (auto simp: tight_def HasPrefix_def)
  qed
  show ?thesis unfolding splitRules_def split using plain by (intro filter_True) blast
qed

definition cells_of :: "nat list \<times> nat list \<times> int \<Rightarrow> nat set" where
  "cells_of r = (case r of (days, hours, _) \<Rightarrow> \<Union>d \<in> set days. cell_index (displayOrder ! d) ` set hours)"

lemma parse_printed_rules:
  assumes "grid_ok s" and "agrees s I out" and "\<And>r. r \<in> set rs \<Longrightarrow> rule_ok s r"
  shows "\<exists>g. parse_rules (map render rs) True out = Inr g \<and> agrees s (I \<union> (\<Union>r \<in> set rs. cells_of r)) g"
  using assms(2,3)
proof (induction rs arbitrary: I out)
  case (Cons r rs)
  obtain days hours limit where r: "r = (days, hours, limit)" by (metis prod_cases3)
  have ok: "rule_ok s (days, hours, limit)" using Cons.prems(2) r by simp
  let ?days = "map (\<lambda>k. displayOrder ! k) days"
  have "agrees s (I \<union> (\<Union>d \<in> set ?days. cell_index d ` set hours)) (set_cells ?days hours limit out)"
    using ok by (intro agrees_set_cells Cons.prems(1)) (auto simp: rule_ok_def)
  then have step: "agrees s (I \<union> cells_of r) (set_cells ?days hours limit out)" by (simp add: r cells_of_def)
  have "parse_rules (map render (r # rs)) True out = parse_rules (map render rs) True (set_cells ?days hours limit out)"
    using parse_render_rule [OF assms(1) ok] by (simp add: r)
  with Cons.IH [OF step] Cons.prems(2) show ?case by (simp add: Un_assoc)
qed simp

text \<open>
  (C20) The canonical form of a schedule is read back as the schedule it was printed from, whatever
  the grid: rules for the days that agree, runs of hours, limits in any unit.
\<close>

theorem schedule_roundtrip:
  assumes "length (cells s) = Cells" and "list_all (\<lambda>c. -1 \<le> c \<and> c < 2 ^ 63) (cells s)"
  shows "Parse (String s) = Inr s"
proof -
  have ok: "grid_ok s" using assms by (simp add: grid_ok_def)
  have "agrees s {} zero_schedule" by (simp add: agrees_def zero_schedule_def)
  from parse_printed_rules [OF ok this, of "rules_of s"] bspec [OF rules_of_ok] obtain g
    where g: "parse_rules (map render (rules_of s)) True zero_schedule = Inr g"
      and ag: "agrees s (\<Union>r \<in> set (rules_of s). cells_of r) g" by (metis Un_empty_left)
  have "cells g ! k = cells s ! k" if "k < Cells" for k
  proof -
    from cell_index_onto [OF that] obtain d h where k: "d < Days" "h < Hours" "k = cell_index (displayOrder ! d) h" .
    from rules_of_covers [OF k(1,2)] obtain days hours limit
      where "(days, hours, limit) \<in> set (rules_of s)" "d \<in> set days" "h \<in> set hours" unfolding covers_def by blast
    moreover from this have "k \<in> cells_of (days, hours, limit)" unfolding cells_of_def k(3) by auto
    ultimately have "k \<in> (\<Union>r \<in> set (rules_of s). cells_of r)" by blast
    with ag that show ?thesis unfolding agrees_def by blast
  qed
  then have "cells g = cells s" using ag assms(1) by (intro nth_equalityI) (auto simp: agrees_def)
  then have "g = s" by simp
  with g splitRules_String [OF ok] show ?thesis by (simp add: Parse_def parse_def)
qed

definition demo_schedule :: schedule where
  "demo_schedule = set_cells [1, 2, 3, 4, 5, 6, 0] (hour_span 0 24) 5242880 (zero_schedule)"

theorem schedule_roundtrip_witness:
  "Parse (String demo_schedule) = Inr demo_schedule \<and> String demo_schedule = ''* * = 5MiB''"
proof -
  have "length (cells demo_schedule) = Cells" "list_all (\<lambda>c. -1 \<le> c \<and> c < 2 ^ 63) (cells demo_schedule)"
    "String demo_schedule = ''* * = 5MiB''" by code_simp+
  with schedule_roundtrip [of demo_schedule] show ?thesis by simp
qed

end
