(* ===== verification/ScheduleTime.thy ===== *)
theory ScheduleTime
  imports ScheduleSpec
begin

text \<open>
  The grid over time: what a gate can hold, the window around an instant and the next opening. A
  location with one offset is the case where the hours of the calendar are the hours that pass;
  where the clocks go back, the calendar skips the first of the two equal hours, and so does the
  end of the window.
\<close>

section \<open>Gates\<close>

lemma parseCap_gate: "parseCap spec False = Inr n \<Longrightarrow> n = closed \<or> n = unlimited"
  by (auto simp: parseCap_def Let_def split: if_splits sum.splits)

lemma parseRule_gate: "parseRule rule False = Inr (days, hours, n) \<Longrightarrow> n = closed \<or> n = unlimited"
  using parseCap_gate by (auto simp: parseRule_def Let_def split: prod.splits option.splits if_splits sum.splits)

lemma set_set_cells: "set (cells (set_cells days hours limit s)) \<subseteq> insert limit (set (cells s))"
proof -
  have inner: "set (cells (fold (\<lambda>h s. s\<lparr>cells := (cells s)[cell_index d h := limit]\<rparr>) hours s)) \<subseteq> insert limit (set (cells s))" for d s
  proof (induction hours arbitrary: s)
    case (Cons h hours)
    have "set ((cells s)[cell_index d h := limit]) \<subseteq> insert limit (set (cells s))" by (rule set_update_subset_insert)
    with Cons.IH [of "s\<lparr>cells := (cells s)[cell_index d h := limit]\<rparr>"] show ?case by auto
  qed auto
  show ?thesis unfolding set_cells_def
  proof (induction days arbitrary: s)
    case (Cons d days)
    let ?s = "fold (\<lambda>h s. s\<lparr>cells := (cells s)[cell_index d h := limit]\<rparr>) hours s"
    from Cons.IH [of ?s] inner [of d s] show ?case by auto
  qed auto
qed

lemma parse_rules_gate:
  assumes "parse_rules rs False s = Inr g" and "length (cells s) = Cells" and "set (cells s) \<subseteq> {closed, unlimited}"
  shows "length (cells g) = Cells \<and> set (cells g) \<subseteq> {closed, unlimited}"
  using assms
proof (induction rs arbitrary: s)
  case (Cons r rs)
  from Cons.prems(1) obtain days hours limit where r: "parseRule r False = Inr (days, hours, limit)"
    and run: "parse_rules rs False (set_cells days hours limit s) = Inr g" by (auto split: sum.splits)
  show ?case
    using Cons.IH [OF run] parseRule_gate [OF r] set_set_cells [of days hours limit s] Cons.prems(2,3) by auto
qed simp

text \<open>
  (C36) A scan schedule only opens and closes: whatever is typed, a gate that is accepted has its
  168 cells, and none of them carries a rate.
\<close>

theorem gate_only_opens_and_closes:
  assumes "ParseGate s = Inr g"
  shows "length (cells g) = Cells \<and> set (cells g) \<subseteq> {closed, unlimited}"
  using assms unfolding ParseGate_def parse_def
  by (rule parse_rules_gate) (auto simp: zero_schedule_def)

theorem gate_only_opens_and_closes_witness:
  "(case ParseGate ''mon 3 = off'' of Inr g \<Rightarrow> length (cells g) = 168 | Inl _ \<Rightarrow> False)"
proof -
  have "isl (ParseGate ''mon 3 = off'') = False" by code_simp
  then obtain g where g: "ParseGate ''mon 3 = off'' = Inr g"
    by (cases "ParseGate ''mon 3 = off''") auto
  from gate_only_opens_and_closes [OF this] show ?thesis by (simp add: g Cells_def)
qed

section \<open>Hours that pass\<close>

text \<open>The hours of a location with one offset are numbered; the number decides the cell.\<close>

definition hour_no :: "location \<Rightarrow> time \<Rightarrow> int" where
  "hour_no l t = local_sec l t div 3600"

definition cell_no :: "schedule \<Rightarrow> int \<Rightarrow> int" where
  "cell_no s n = cells s ! cell_index (nat ((n div 24 + 4) mod 7)) (nat (n mod 24))"

lemma cellAt_no: "cellAt s l t = cell_no s (hour_no l t)"
proof -
  have "local_sec l t div 86400 = local_sec l t div 3600 div 24"
    by (simp flip: zdiv_zmult2_eq)
  moreover have "local_sec l t mod 86400 div 3600 = local_sec l t div 3600 mod 24"
  proof -
    have "local_sec l t mod 86400 = 3600 * (local_sec l t div 3600 mod 24) + local_sec l t mod 3600"
      using zmod_zmult2_eq [of 24 "local_sec l t" 3600] by simp
    then show ?thesis by (simp only:) (simp add: div_add1_eq)
  qed
  ultimately show ?thesis by (simp only: cellAt_def cell_no_def hour_no_def Weekday_def HourOf_def)
qed

definition hour_start :: "location \<Rightarrow> int \<Rightarrow> time" where
  "hour_start l n = (n * 3600 - loc_first l) * 1000000000"

lemma hour_no_bounds:
  assumes "fixed l"
  shows "hour_no l t = n \<longleftrightarrow> hour_start l n \<le> t \<and> t < hour_start l (n + 1)"
proof -
  define u where "u = unix_sec t"
  have u: "u * 1000000000 \<le> t" "t < u * 1000000000 + 1000000000" unfolding u_def unix_sec_def by linarith+
  have no: "hour_no l t = (u + loc_first l) div 3600" using assms by (simp add: hour_no_def local_sec_def u_def)
  define q where "q = (u + loc_first l) div 3600"
  have q: "q * 3600 \<le> u + loc_first l" "u + loc_first l < q * 3600 + 3600" unfolding q_def by linarith+
  have "hour_start l q \<le> t" "t < hour_start l (q + 1)" using u q by (simp_all add: hour_start_def)
  moreover have "n = q" if "hour_start l n \<le> t" "t < hour_start l (n + 1)"
  proof -
    define a b where "a = n * 3600 - loc_first l" and "b = (n + 1) * 3600 - loc_first l"
    have "a * 1000000000 \<le> t" "t < b * 1000000000" using that by (simp_all add: hour_start_def a_def b_def)
    with u have "a * 1000000000 < (u + 1) * 1000000000" "u * 1000000000 < b * 1000000000" by (simp_all add: algebra_simps)
    then have "a \<le> u" "u < b" by simp_all
    with q have "n * 3600 < (q + 1) * 3600" "q * 3600 < (n + 1) * 3600" by (simp_all add: a_def b_def)
    then have "n < q + 1" "q < n + 1" by (simp_all only: mult_less_cancel_right)
    then show ?thesis by simp
  qed
  ultimately show ?thesis unfolding no q_def [symmetric] by blast
qed

lemma hour_start_mono: "m \<le> n \<Longrightarrow> hour_start l m \<le> hour_start l n"
  by (simp add: hour_start_def)

lemma hourAfter_fixed:
  assumes "fixed l"
  shows "hourAfter l t = hour_start l (hour_no l t + 1)" and "t < hourAfter l t" and "hour_no l (hourAfter l t) = hour_no l t + 1"
proof -
  define L where "L = local_sec l t"
  have "L = L mod 86400 + (24 * (L div 86400)) * 3600" by (simp add: mod_mult_div_eq [symmetric])
  then have "L div 3600 = (L mod 86400 + (24 * (L div 86400)) * 3600) div 3600" by (rule arg_cong)
  also have "\<dots> = 24 * (L div 86400) + L mod 86400 div 3600" by (rule div_mult_self1) simp
  finally have "L div 3600 = 24 * (L div 86400) + L mod 86400 div 3600" .
  then have "L div 86400 * 86400 + (L mod 86400 div 3600 + 1) * 3600 = (L div 3600 + 1) * 3600" by algebra
  then have "time_Date l (Date l t) ((HourOf l t + 1) * 3600) = hour_start l (hour_no l t + 1)"
    using time_Date_Date [OF assms, of t "(HourOf l t + 1) * 3600"] by (simp add: HourOf_def L_def hour_start_def hour_no_def)
  moreover have "t < hour_start l (hour_no l t + 1)" using hour_no_bounds [OF assms] by blast
  ultimately show eq: "hourAfter l t = hour_start l (hour_no l t + 1)" and "t < hourAfter l t"
    by (simp_all add: hourAfter_def)
  show "hour_no l (hourAfter l t) = hour_no l t + 1"
    unfolding eq hour_no_bounds [OF assms] by (simp add: hour_start_def)
qed

lemma hour_no_start: "fixed l \<Longrightarrow> hour_no l (hour_start l n) = n"
  by (simp add: hour_no_bounds) (simp add: hour_start_def)

lemma cellAt_start: "fixed l \<Longrightarrow> cellAt s l (hour_start l n) = cell_no s n"
  by (simp add: cellAt_no hour_no_start)

lemma hourAfter_start: "fixed l \<Longrightarrow> hourAfter l (hour_start l n) = hour_start l (n + 1)"
  by (simp add: hourAfter_fixed hour_no_start)

text \<open>A run of hours with the same answer.\<close>

lemma same_hours:
  assumes "fixed l" and "\<forall>i < m. cell_no s (hour_no l t + 1 + int i) = cell_no s (hour_no l t)"
    and "t \<le> u" and "u < hour_start l (hour_no l t + 1 + int m)"
  shows "cellAt s l u = cellAt s l t"
proof -
  have "hour_start l (hour_no l t) \<le> u" using hour_no_bounds [OF assms(1), of t] assms(3) by force
  moreover have "hour_start l (hour_no l u) \<le> u" "u < hour_start l (hour_no l u + 1)"
    using hour_no_bounds [OF assms(1), of u] by blast+
  ultimately have "hour_no l t < hour_no l u + 1" "hour_no l u < hour_no l t + 1 + int m"
    using assms(4) hour_start_mono [of "hour_no l u + 1" "hour_no l t" l] hour_start_mono [of "hour_no l t + 1 + int m" "hour_no l u" l]
    by linarith+
  show ?thesis
  proof (cases "hour_no l u = hour_no l t")
    case True
    then show ?thesis by (simp add: cellAt_no)
  next
    case False
    define i where "i = nat (hour_no l u - hour_no l t - 1)"
    have "i < m" "hour_no l u = hour_no l t + 1 + int i"
      using False \<open>hour_no l t < hour_no l u + 1\<close> \<open>hour_no l u < hour_no l t + 1 + int m\<close> by (simp_all add: i_def)
    then show ?thesis using assms(2) by (simp add: cellAt_no)
  qed
qed

lemma until_fixed:
  assumes "fixed l"
  shows "\<exists>m \<le> k. until k s l cur (hour_start l n) = hour_start l (n + int m) \<and> (\<forall>i < m. cell_no s (n + int i) = cur) \<and>
    (m < k \<longrightarrow> cell_no s (n + int m) \<noteq> cur)"
proof (induction k arbitrary: n)
  case (Suc k)
  show ?case
  proof (cases "cell_no s n = cur")
    case True
    from Suc.IH [of "n + 1"] obtain m where m: "m \<le> k" "until k s l cur (hour_start l (n + 1)) = hour_start l (n + 1 + int m)"
      "\<forall>i < m. cell_no s (n + 1 + int i) = cur" "m < k \<longrightarrow> cell_no s (n + 1 + int m) \<noteq> cur" by blast
    have "\<forall>i < Suc m. cell_no s (n + int i) = cur"
    proof (intro allI impI)
      fix i assume "i < Suc m"
      then show "cell_no s (n + int i) = cur" using True m(3) by (cases i) (auto simp: add.assoc)
    qed
    with m True show ?thesis
      by (intro exI [of _ "Suc m"]) (simp add: cellAt_start [OF assms] hourAfter_start [OF assms] add.assoc)
  next
    case False
    then show ?thesis by (intro exI [of _ 0]) (simp add: cellAt_start [OF assms])
  qed
qed simp


text \<open>A week of successive hours meets every cell.\<close>

lemma cell_no_onto:
  assumes "k < Cells"
  obtains i where "i < Cells" and "cell_no s (n + int i) = cells s ! k"
proof -
  define d h where "d = int (k div 24)" and "h = int (k mod 24)"
  define N where "N = 24 * ((d + 3) mod 7) + h"
  define i where "i = nat ((N - n) mod 168)"
  have dh: "0 \<le> d" "d < 7" "0 \<le> h" "h < 24" using assms by (simp_all add: d_def h_def Cells_def)
  have i: "int i = (N - n) mod 168" by (simp add: i_def)
  define q where "q = - ((N - n) div 168)"
  have "(N - n) div 168 * 168 + (N - n) mod 168 = N - n" by (rule div_mult_mod_eq)
  then have eq: "n + int i = N + 168 * q" unfolding q_def i by linarith
  have split: "n + int i = h + ((d + 3) mod 7 + 7 * q) * 24" unfolding eq N_def by algebra
  have "(n + int i) mod 24 = h" unfolding split mod_mult_self1 using dh by simp
  moreover have "(n + int i) div 24 = (d + 3) mod 7 + 7 * q"
    unfolding split using dh by (subst div_mult_self1) simp_all
  then have "((n + int i) div 24 + 4) mod 7 = ((d + 3) mod 7 + 4 + 7 * q) mod 7" by (simp add: algebra_simps)
  then have "((n + int i) div 24 + 4) mod 7 = d" using dh by (simp add: mod_add_left_eq)
  ultimately have "cell_no s (n + int i) = cells s ! k"
    by (simp add: cell_no_def d_def h_def cell_index_def Hours_def)
  moreover have "i < Cells" using i pos_mod_bound [of 168 "N - n"] by (simp add: Cells_def)
  ultimately show ?thesis using that by blast
qed

section \<open>What the grid says\<close>

text \<open>
  (C35) The window around an instant: it holds the instant, the answer is the same from the instant
  until its end, and where the grid has more than one answer the answer changes at its end.
\<close>

theorem at_window:
  assumes "fixed l" and "length (cells s) = Cells"
  shows "let w = At s l t in t < w_Until w \<and> (\<forall>u. t \<le> u \<and> u < w_Until w \<longrightarrow> cellAt s l u = cellAt s l t) \<and>
    (\<not> Uniform s \<longrightarrow> cellAt s l (w_Until w) \<noteq> cellAt s l t) \<and>
    w_Open w = (cellAt s l t \<noteq> closed) \<and> w_Limit w = max 0 (cellAt s l t)"
proof -
  let ?n = "hour_no l t" and ?cur = "cellAt s l t"
  from until_fixed [OF assms(1), of Cells s ?cur "?n + 1"] obtain m where m: "m \<le> Cells"
    "until Cells s l ?cur (hour_start l (?n + 1)) = hour_start l (?n + 1 + int m)"
    "\<forall>i < m. cell_no s (?n + 1 + int i) = ?cur" "m < Cells \<longrightarrow> cell_no s (?n + 1 + int m) \<noteq> ?cur" by blast
  have W: "w_Until (At s l t) = hour_start l (?n + 1 + int m)"
    using m(2) by (simp add: At_def Let_def hourAfter_fixed(1) [OF assms(1)])
  have "t < hour_start l (?n + 1)" using hourAfter_fixed(1,2) [OF assms(1), of t] by simp
  also have "\<dots> \<le> w_Until (At s l t)" unfolding W by (rule hour_start_mono) simp
  finally have after: "t < w_Until (At s l t)" .
  have same: "cellAt s l u = ?cur" if "t \<le> u" "u < w_Until (At s l t)" for u
    using that m(3) same_hours [OF assms(1), of m s t u] by (simp add: W cellAt_no [of s l t])
  have change: "cellAt s l (w_Until (At s l t)) \<noteq> ?cur" if "\<not> Uniform s"
  proof -
    have "m < Cells"
    proof (rule ccontr)
      assume "\<not> m < Cells"
      with m(1,3) have all: "cell_no s (?n + 1 + int i) = ?cur" if "i < Cells" for i using that by simp
      have "cells s ! k = ?cur" if "k < Cells" for k
      proof -
        from cell_no_onto [OF that, where n = "?n + 1" and s = s] obtain i where "i < Cells" "cell_no s (?n + 1 + int i) = cells s ! k" .
        with all show ?thesis by simp
      qed
      then have "Uniform s" using assms(2) by (simp add: Uniform_def list_all_length Cells_def)
      with that show False by simp
    qed
    with m(4) show ?thesis by (simp add: W cellAt_start [OF assms(1)])
  qed
  have "w_Open (At s l t) = (?cur \<noteq> closed)" "w_Limit (At s l t) = max 0 ?cur" by (simp_all add: At_def Let_def max_def)
  with after same change show ?thesis unfolding Let_def by blast
qed

definition one_closed :: schedule where
  "one_closed = zero_schedule\<lparr>cells := (cells zero_schedule)[cell_index 0 2 := closed]\<rparr>"

lemma one_closed_ok: "fixed UTC" "length (cells one_closed) = Cells" "\<not> Uniform one_closed"
  by (simp add: fixed_def UTC_def, code_simp+)

theorem at_window_witness:
  "0 < w_Until (At one_closed UTC 0) \<and> cellAt one_closed UTC (w_Until (At one_closed UTC 0)) \<noteq> cellAt one_closed UTC 0"
  using at_window [OF one_closed_ok(1,2), of 0] one_closed_ok(3) unfolding Let_def by blast



section \<open>Where the clocks go back\<close>

text \<open>Central European time in 2026: an hour ahead, two from 29 March to 25 October.\<close>

definition berlin :: location where
  "berlin = \<lparr>loc_first = 3600, loc_changes = [(1774746000, 7200), (1792890000, 3600)]\<rparr>"

text \<open>
  On the night the clocks go back, the window can end an hour late: two o'clock comes twice,
  \<open>time.Date\<close> answers with the second, and the hour after half past one is taken to start there.
  With one closed hour, Sunday from two to three, the window that is open at half past one is
  said to last until the second two o'clock, with the grid closed half an hour before.
\<close>

theorem window_skips_repeated_hour:
  "let t = 1792884600 * Second; u = 1792888200 * Second; w = At one_closed berlin t in
     w_Open w \<and> t < u \<and> u < w_Until w \<and> cellAt one_closed berlin u = closed"
  by code_simp

end
