(* ===== verification/Backups.thy ===== *)
theory Backups
  imports Engine
begin

text \<open>
  The copies kept of a jcc pair's database, \<open>store/backups.go\<close>: one row per copy, newest first by
  time and then by id. A row's times are the milliseconds its columns hold.
\<close>

section \<open>Operations\<close>

definition put_backups :: "(backup list \<Rightarrow> 'a \<times> backup list) \<Rightarrow> 'a op" where
  "put_backups f = exec (\<lambda>w. let (a, rows) = f (backups w) in
     if list_all (\<lambda>b. has_pair (b_PairID b) w) rows then Inr (a, w\<lparr>backups := rows\<rparr>) else Inl EConstraint)"

text \<open>
  What the caller fills in; the id is the row's. A zero time is now, an empty reason a replacement,
  and the row comes back with both.
\<close>

record backup_in =
  bi_PairID :: int
  bi_TS :: "time option"
  bi_Path :: string
  bi_RelDB :: string
  bi_Size :: int
  bi_MTime :: time
  bi_Hash :: string
  bi_Reason :: "backup_reason option"

definition backup_row :: "backup_in \<Rightarrow> time \<Rightarrow> int \<Rightarrow> backup" where
  "backup_row b t i = \<lparr>b_ID = i, b_PairID = bi_PairID b, b_TS = UnixMilli t, b_Path = bi_Path b, b_RelDB = bi_RelDB b,
     b_Size = bi_Size b, b_MTime = UnixMilli (bi_MTime b), b_Hash = bi_Hash b,
     b_Reason = (case bi_Reason b of None \<Rightarrow> BackupReplace | Some r \<Rightarrow> r)\<rparr>"

definition AddDBBackup :: "backup_in \<Rightarrow> backup op" where
  "AddDBBackup b = bindE (case bi_TS b of Some t \<Rightarrow> returnE t | None \<Rightarrow> now) (\<lambda>t.
     wrapE ''record database backup'' (put_backups (\<lambda>rows.
       let r = backup_row b t (next_rowid (map b_ID rows)) in (r, rows @ [r]))))"

text \<open>\<open>ORDER BY ts DESC, id DESC\<close>\<close>

definition newest_first :: "int \<Rightarrow> backup list \<Rightarrow> backup list" where
  "newest_first pid rows = rev (sort_key (\<lambda>b. (b_TS b, b_ID b)) (filter (\<lambda>b. b_PairID b = pid) rows))"

definition DBBackups :: "int \<Rightarrow> int \<Rightarrow> backup list op" where
  "DBBackups pid limit = wrapE ''read database backups'' (query (\<lambda>w.
     take (nat (if limit \<le> 0 then 25 else limit)) (newest_first pid (backups w))))"

definition DBBackupByID :: "int \<Rightarrow> backup op" where
  "DBBackupByID i = bindE (query (\<lambda>w. find (\<lambda>b. b_ID b = i) (backups w))) (\<lambda>r. case r of
     None \<Rightarrow> throwE (EWrap ''with id'' ENoBackup) | Some b \<Rightarrow> returnE b)"

definition ExcessDBBackups :: "int \<Rightarrow> int \<Rightarrow> backup list op" where
  "ExcessDBBackups pid keep = wrapE ''read database backups'' (query (\<lambda>w.
     drop (nat (if keep < 1 then 1 else keep)) (newest_first pid (backups w))))"

definition DeleteDBBackup :: "int \<Rightarrow> unit op" where
  "DeleteDBBackup i = wrapE ''forget database backup'' (put_backups (\<lambda>rows. ((), sql_delete (\<lambda>b. b_ID b = i) rows)))"

section \<open>The table\<close>

lemma set_newest_first [simp]: "set (newest_first pid rows) = {b \<in> set rows. b_PairID b = pid}"
  by (auto simp: newest_first_def)

lemma put_backups_Inr:
  "put_backups f w = (Inr a, w') \<Longrightarrow> \<exists>rows e. f (backups w) = (a, rows) \<and> w' = w\<lparr>backups := rows, env := e\<rparr>"
  unfolding put_backups_def
  by (drule exec_Inr) (auto simp: Let_def used_table split: prod.splits if_splits)

end
