(* ===== verification/Database.thy ===== *)
theory Database
  imports Backups Trash Planning Copying
begin

text \<open>
  The lock gate in front of a jcc pair's database, \<open>engine/jcc.go\<close>: what both sides hold, the two
  locks, the copy into a staging file, the locks again, the kept copy of what is replaced, the
  move, and the way back.

  \<open>time.Local\<close> is the argument \<open>l\<close>. The texts of events are not modelled; whether the text of the
  last event of the gate equals the new one is the argument \<open>same\<close>, over which every
  theorem quantifies. The remotes of the program all answer \<open>Exists\<close>, so the error of \<open>prober\<close>
  for one that does not is not part of the model. A directory has no time in the model; one in
  the place of a lock counts as old, which changes what is reported and nothing else.
\<close>

section \<open>Locks\<close>

datatype side = SidePublisher | SideHere

record lock_state =
  lk_Side :: side
  lk_Path :: string
  lk_Held :: bool
  lk_MTime :: "time option"
  lk_Age :: duration
  lk_Stale :: bool

definition free_lock :: "side \<Rightarrow> string \<Rightarrow> lock_state" where
  "free_lock s p = \<lparr>lk_Side = s, lk_Path = p, lk_Held = False, lk_MTime = None, lk_Age = 0, lk_Stale = False\<rparr>"

text \<open>A lock that is there, with what its time says at \<open>t\<close>.\<close>

definition dated_lock :: "engine \<Rightarrow> lock_state \<Rightarrow> time \<Rightarrow> time \<Rightarrow> lock_state" where
  "dated_lock E l mtime t = (let stale = jcc_LockStale (opt_JCC (en_opts E)) in
     l\<lparr>lk_Held := True, lk_MTime := Some mtime, lk_Age := t - mtime, lk_Stale := (stale > 0 \<and> t - mtime > stale)\<rparr>)"

fun node_mtime :: "fnode \<Rightarrow> time" where
  "node_mtime FDir = 0"
| "node_mtime (FFile _ t) = t"

definition remoteLock :: "engine \<Rightarrow> pair \<Rightarrow> string \<Rightarrow> lock_state op" where
  "remoteLock E pr rel =
     (let p = remotePath pr rel; l = free_lock SidePublisher p in
      bindE (wrapE ''probe for'' (r_Exists (en_remote E) p)) (\<lambda>held.
      if \<not> held then returnE l
      else bindE (tryE (r_Stat (en_remote E) p)) (\<lambda>r. case r of
             Inl _ \<Rightarrow> returnE (l\<lparr>lk_Held := True\<rparr>)
           | Inr e \<Rightarrow> bindE now (\<lambda>t. returnE (dated_lock E l (re_MTime e) t)))))"

definition localLock :: "engine \<Rightarrow> pair \<Rightarrow> string \<Rightarrow> lock_state op" where
  "localLock E pr rel =
     (let p = localPath pr rel; l = free_lock SideHere p in
      bindE (tryE (os_Lstat p)) (\<lambda>r. case r of
        Inl e \<Rightarrow> if errors_Is e ENotExist then returnE l else throwE (EWrap ''probe for'' e)
      | Inr n \<Rightarrow> bindE now (\<lambda>t. returnE (dated_lock E l (node_mtime n) t))))"

definition probeLocks :: "engine \<Rightarrow> pair \<Rightarrow> lock_state list op" where
  "probeLocks E pr =
     (let rel = jcc_Lock (opt_JCC (en_opts E)) in
      bindE (remoteLock E pr rel) (\<lambda>there.
      bindE (localLock E pr rel) (\<lambda>here. returnE [there, here])))"

definition heldLocks :: "lock_state list \<Rightarrow> lock_state list" where
  "heldLocks locks = filter lk_Held locks"

section \<open>Both sides\<close>

record db_file =
  df_Size :: int
  df_MTime :: time

record db_status =
  ds_Path :: string
  ds_Remote :: "db_file option"
  ds_Local :: "db_file option"
  ds_Locks :: "lock_state list"
  ds_InSync :: bool
  ds_Backups :: "backup list"

definition in_sync :: "engine \<Rightarrow> db_file option \<Rightarrow> db_file option \<Rightarrow> bool" where
  "in_sync E r l = (case (r, l) of
     (Some a, Some b) \<Rightarrow> df_Size a = df_Size b \<and> within (df_MTime a) (df_MTime b) (opt_MTimeTolerance (en_opts E))
   | _ \<Rightarrow> False)"

definition DatabaseStatus :: "engine \<Rightarrow> pair \<Rightarrow> db_status op" where
  "DatabaseStatus E pr =
     (let rel = gated E pr in
      if rel = [] then throwE (EMsg ''not a jcc pair, so it has no database to gate'')
      else
        bindE (wrapE ''look for it on the publisher'' (r_Exists (en_remote E) (remotePath pr rel))) (\<lambda>there.
        bindE (if there
               then bindE (wrapE ''read it on the publisher'' (r_Stat (en_remote E) (remotePath pr rel))) (\<lambda>e.
                    returnE (Some \<lparr>df_Size = re_Size e, df_MTime = re_MTime e\<rparr>))
               else returnE None) (\<lambda>rem.
        bindE (tryE (os_Stat (localPath pr rel))) (\<lambda>st.
        bindE (case st of
                 Inr (FFile b t) \<Rightarrow> returnE (Some \<lparr>df_Size = int (length b), df_MTime = t\<rparr>)
               | Inr FDir \<Rightarrow> returnE None
               | Inl e \<Rightarrow> if errors_Is e ENotExist then returnE None else throwE (EWrap ''read it here'' e)) (\<lambda>loc.
        bindE (probeLocks E pr) (\<lambda>locks.
        bindE (DBBackups (pair_ID pr) 0) (\<lambda>bs.
        returnE \<lparr>ds_Path = rel, ds_Remote = rem, ds_Local = loc, ds_Locks = locks,
          ds_InSync = in_sync E rem loc, ds_Backups = bs\<rparr>)))))))"

section \<open>What the gate records\<close>

definition dbEventKinds :: "kind list" where
  "dbEventKinds = [KindDBReplaced, KindDBSkipped, KindLockStale, KindDBRollback]"

definition noteDB :: "(event \<Rightarrow> bool) \<Rightarrow> pair \<Rightarrow> level \<Rightarrow> kind \<Rightarrow> unit op" where
  "noteDB same pr lv kd =
     bindE (tryE (query (\<lambda>w. sql_last e_ID (\<lambda>e. e_Kind e \<in> set dbEventKinds \<and> e_PairID e = Some (pair_ID pr)) (events w)))) (\<lambda>r.
       case r of
         Inr (Some e) \<Rightarrow> if e_Kind e = kd \<and> same e then returnE () else event lv kd (pair_ID pr)
       | _ \<Rightarrow> event lv kd (pair_ID pr))"

definition noteDeferred :: "(event \<Rightarrow> bool) \<Rightarrow> pair \<Rightarrow> lock_state list \<Rightarrow> unit op" where
  "noteDeferred same pr held =
     (if list_ex lk_Stale held then noteDB same pr LevelWarn KindLockStale else noteDB same pr LevelInfo KindDBSkipped)"

section \<open>Files\<close>

definition incomingPath :: "pair \<Rightarrow> string \<Rightarrow> string" where
  "incomingPath pr rel = localPath pr (path_Join [fst (path_Split rel), ''.'' @ snd (path_Split rel) @ incomingSuffix])"

text \<open>\<open>OpenFile\<close> with \<open>O_CREATE|O_TRUNC\<close>, on a file the caller goes on to use by its path.\<close>

definition os_OpenTrunc :: "string \<Rightarrow> unit op" where
  "os_OpenTrunc p = exec (\<lambda>w. case node (fs w) p of
     Some FDir \<Rightarrow> Inl (EOS 21)
   | Some (FFile _ _) \<Rightarrow> Inr ((), w\<lparr>fs := fs_put p (FFile [] (clock (env w))) (fs w)\<rparr>)
   | None \<Rightarrow> if node (fs w) (path_Dir p) \<noteq> Some FDir then Inl ENotExist
             else Inr ((), w\<lparr>fs := fs_put p (FFile [] (clock (env w))) (fs w)\<rparr>))"

text \<open>\<open>os.MkdirAll\<close> is \<open>makeDir\<close> with nothing to hand over.\<close>

definition bare_pair :: pair where
  "bare_pair = \<lparr>pair_ID = 0, pair_Name = [], pair_Type = PairRaw, pair_RemoteID = 0, pair_RemotePath = [], pair_LocalPath = [],
     pair_Mode = ModeAdditive, pair_Includes = [], pair_Excludes = [], pair_DeleteGuard = 0, pair_Priority = 0, pair_Owner = [],
     pair_FileMode = [], pair_DirMode = [], pair_Enabled = False, pair_CreatedAt = 0, pair_UpdatedAt = 0\<rparr>"

definition os_MkdirAll :: "string \<Rightarrow> unit op" where
  "os_MkdirAll = makeDir bare_pair"

definition fetchDatabase :: "engine \<Rightarrow> pair \<Rightarrow> string \<Rightarrow> string \<Rightarrow> int op" where
  "fetchDatabase E pr rel dst =
     bindE (wrapE ''create'' (makeDir pr (path_Dir dst))) (\<lambda>_.
     bindE (wrapE ''open the staging file'' (os_OpenTrunc dst)) (\<lambda>_.
     bindE (r_OpenRange (en_remote E) (remotePath pr rel) 0 0) (\<lambda>(body, err).
     bindE (wrapE ''copy'' (copy_at dst 0 body)) (\<lambda>n.
     case err of
       Some e \<Rightarrow> throwE (EWrap ''copy'' e)
     | None \<Rightarrow> bindE (wrapE ''flush the staging file'' (os_touch dst)) (\<lambda>_. returnE n)))))"

text \<open>\<open>io.Copy\<close> between two files: one buffer after the other.\<close>

definition copy_buffer :: nat where "copy_buffer = 32768"

fun buffers :: "nat \<Rightarrow> string \<Rightarrow> string list" where
  "buffers fuel b = (if b = [] then [] else case fuel of
     0 \<Rightarrow> [b] | Suc k \<Rightarrow> take copy_buffer b # buffers k (drop copy_buffer b))"

declare buffers.simps [simp del]

text \<open>The size and the digest of what was written.\<close>

definition copyFile :: "engine \<Rightarrow> string \<Rightarrow> string \<Rightarrow> (int \<times> string) op" where
  "copyFile E src dst =
     bindE (wrapE ''read'' (os_Stat src)) (\<lambda>_.
     bindE (wrapE ''create'' (os_MkdirAll (path_Dir dst))) (\<lambda>_.
     bindE (wrapE ''write'' (os_OpenTrunc dst)) (\<lambda>_.
     bindE (wrapE ''copy'' (os_ReadFile src)) (\<lambda>b.
     bindE (wrapE ''copy'' (copy_at dst 0 (buffers (length b) b))) (\<lambda>n.
     bindE (wrapE ''flush'' (os_touch dst)) (\<lambda>_.
     returnE (n, en_sha256 E b)))))))"

definition dbBackupDir :: string where "dbBackupDir = ''db-backups''"

definition backupDir :: "engine \<Rightarrow> pair \<Rightarrow> string" where
  "backupDir E pr =
     (let root = (if opt_DataDir (en_opts E) = [] then path_Join [pair_LocalPath pr, PartDir] else opt_DataDir (en_opts E))
      in path_Join [root, dbBackupDir, Itoa (pair_ID pr)])"

definition backupName :: "location \<Rightarrow> string \<Rightarrow> string \<Rightarrow> time \<Rightarrow> string op" where
  "backupName l dir base at = free_name 100 0 (path_Join [dir, base @ ''.'' @ format_stamp l at])"

definition backupDatabase :: "location \<Rightarrow> engine \<Rightarrow> pair \<Rightarrow> string \<Rightarrow> backup_reason \<Rightarrow> backup option op" where
  "backupDatabase l E pr rel reason =
     (let src = localPath pr rel; dir = backupDir E pr in
      bindE (tryE (os_Stat src)) (\<lambda>st. case st of
        Inl e \<Rightarrow> if errors_Is e ENotExist then returnE None else throwE (EWrap ''read it before replacing it'' e)
      | Inr info \<Rightarrow>
         bindE (wrapE ''create the backup directory'' (os_MkdirAll dir)) (\<lambda>_.
         bindE now (\<lambda>t.
         bindE (backupName l dir (path_Base rel) t) (\<lambda>dst.
         bindE (copyFile E src dst) (\<lambda>(sz, hash).
         bindE (wrapE ''stamp the backup'' (os_Chtimes dst (node_mtime info))) (\<lambda>_.
         bindE (AddDBBackup \<lparr>bi_PairID = pair_ID pr, bi_TS = None, bi_Path = dst, bi_RelDB = rel, bi_Size = sz,
                  bi_MTime = node_mtime info, bi_Hash = hash, bi_Reason = Some reason\<rparr>) (\<lambda>b.
         returnE (Some b)))))))))"

fun prune_rows :: "backup list \<Rightarrow> unit op" where
  "prune_rows [] = returnE ()"
| "prune_rows (b # bs) =
     bindE (tryE (os_Remove (b_Path b))) (\<lambda>r.
     bindE (case r of
              Inl e \<Rightarrow> if errors_Is e ENotExist then ignoreE (DeleteDBBackup (b_ID b)) else returnE ()
            | Inr _ \<Rightarrow> ignoreE (DeleteDBBackup (b_ID b))) (\<lambda>_. prune_rows bs))"

definition pruneBackups :: "engine \<Rightarrow> pair \<Rightarrow> unit op" where
  "pruneBackups E pr =
     bindE (tryE (ExcessDBBackups (pair_ID pr) (jcc_Backups (opt_JCC (en_opts E))))) (\<lambda>r. case r of
       Inl _ \<Rightarrow> returnE () | Inr excess \<Rightarrow> prune_rows excess)"

section \<open>The gate\<close>

record db_result =
  dr_Path :: string
  dr_Replaced :: bool
  dr_Bytes :: int
  dr_MTime :: "time option"
  dr_Backup :: "backup option"
  dr_Locks :: "lock_state list"
  dr_Forced :: bool
  dr_Deferred :: string
  dr_Skipped :: string

definition new_result :: "bool \<Rightarrow> db_result" where
  "new_result force = \<lparr>dr_Path = [], dr_Replaced = False, dr_Bytes = 0, dr_MTime = None, dr_Backup = None, dr_Locks = [],
     dr_Forced = force, dr_Deferred = [], dr_Skipped = []\<rparr>"

definition discard :: "string \<Rightarrow> unit op" where
  "discard incoming = ignoreE (os_Remove incoming)"

text \<open>An error that takes the staging file with it, and the result as it is.\<close>

definition give_up :: "string \<Rightarrow> 'r \<Rightarrow> error \<Rightarrow> ('r \<times> error option) op" where
  "give_up incoming res e = bindE (discard incoming) (\<lambda>_. returnE (res, Some e))"

text \<open>Steps 7 and 8: the copy of what is there, and the move.\<close>

definition install :: "location \<Rightarrow> (event \<Rightarrow> bool) \<Rightarrow> engine \<Rightarrow> pair \<Rightarrow> string \<Rightarrow> string \<Rightarrow> db_file \<Rightarrow> db_result \<Rightarrow> (db_result \<times> error option) op" where
  "install l same E pr incoming rel rem res =
     bindE (tryE (wrapE ''set the timestamp'' (os_Chtimes incoming (df_MTime rem)))) (\<lambda>r. case r of Inl e \<Rightarrow> give_up incoming res e | Inr _ \<Rightarrow>
     bindE (tryE (settleFile pr incoming)) (\<lambda>r. case r of Inl e \<Rightarrow> give_up incoming res e | Inr _ \<Rightarrow>
     bindE (tryE (backupDatabase l E pr rel BackupReplace)) (\<lambda>r. case r of Inl e \<Rightarrow> give_up incoming res e | Inr backup \<Rightarrow>
       let res = res\<lparr>dr_Backup := backup\<rparr> in
     bindE (tryE (wrapE ''move into place'' (os_Rename incoming (localPath pr rel)))) (\<lambda>r. case r of Inl e \<Rightarrow> give_up incoming res e | Inr _ \<Rightarrow>
     bindE (tryE (recordFile E pr rel (df_Size rem) (df_MTime rem) [] FileSynced)) (\<lambda>r. case r of
       Inl e \<Rightarrow> returnE (res, Some e)
     | Inr _ \<Rightarrow>
        bindE (pruneBackups E pr) (\<lambda>_.
        bindE (noteDB same pr LevelInfo KindDBReplaced) (\<lambda>_.
        returnE (res\<lparr>dr_Replaced := True, dr_Bytes := df_Size rem, dr_MTime := Some (df_MTime rem)\<rparr>, None))))))))"

text \<open>Steps 3 to 6: the copy into the staging file, its size, and the locks once more.\<close>

definition transfer_db :: "location \<Rightarrow> (event \<Rightarrow> bool) \<Rightarrow> engine \<Rightarrow> pair \<Rightarrow> string \<Rightarrow> db_file \<Rightarrow> bool \<Rightarrow> db_result \<Rightarrow> (db_result \<times> error option) op" where
  "transfer_db l same E pr rel rem force res =
     (let incoming = incomingPath pr rel in
      bindE (tryE (fetchDatabase E pr rel incoming)) (\<lambda>r. case r of Inl e \<Rightarrow> give_up incoming res e | Inr n \<Rightarrow>
      if n \<noteq> df_Size rem then give_up incoming res (EMsg ''short copy'')
      else bindE (tryE (probeLocks E pr)) (\<lambda>r. case r of Inl e \<Rightarrow> give_up incoming res e | Inr after \<Rightarrow>
        let res = res\<lparr>dr_Locks := after\<rparr> in
        if heldLocks after \<noteq> [] \<and> \<not> force
        then bindE (discard incoming) (\<lambda>_.
             bindE (noteDeferred same pr (heldLocks after)) (\<lambda>_.
             returnE (res\<lparr>dr_Deferred := ''a lock was taken while the database was being copied''\<rparr>, None)))
        else install l same E pr incoming rel rem res)))"

definition SyncDatabase :: "location \<Rightarrow> (event \<Rightarrow> bool) \<Rightarrow> engine \<Rightarrow> pair \<Rightarrow> bool \<Rightarrow> (db_result \<times> error option) op" where
  "SyncDatabase l same E pr force =
     (let res = new_result force in
      if pair_Type pr \<noteq> PairJCC then returnE (res\<lparr>dr_Skipped := ''the pair is not a jcc pair''\<rparr>, None)
      else bindE (tryE (DatabaseStatus E pr)) (\<lambda>r. case r of
        Inl e \<Rightarrow> returnE (res, Some e)
      | Inr st \<Rightarrow>
         let res = res\<lparr>dr_Path := ds_Path st, dr_Locks := ds_Locks st\<rparr> in
         case ds_Remote st of
           None \<Rightarrow> returnE (res\<lparr>dr_Skipped := ''the publisher has no database''\<rparr>, None)
         | Some rem \<Rightarrow>
            if ds_InSync st
            then bindE (tryE (recordFile E pr (ds_Path st) (df_Size rem) (df_MTime rem) [] FileAdopted)) (\<lambda>r. case r of
                   Inl e \<Rightarrow> returnE (res, Some e)
                 | Inr _ \<Rightarrow> returnE (res\<lparr>dr_Skipped := ''already the publisher's copy''\<rparr>, None))
            else if heldLocks (ds_Locks st) \<noteq> [] \<and> \<not> force
            then bindE (noteDeferred same pr (heldLocks (ds_Locks st))) (\<lambda>_.
                 returnE (res\<lparr>dr_Deferred := ''a lock is held''\<rparr>, None))
            else bindE (tryE (checkSpace (opt_Reserve (en_opts E)) pr (df_Size rem))) (\<lambda>r. case r of
                   Inl e \<Rightarrow> returnE (res, Some e)
                 | Inr _ \<Rightarrow> transfer_db l same E pr (ds_Path st) rem force res)))"

section \<open>The way back\<close>

record rollback_result =
  ro_Path :: string
  ro_Backup :: "backup option"
  ro_Replaced :: "backup option"

definition pickBackup :: "pair \<Rightarrow> int \<Rightarrow> backup op" where
  "pickBackup pr i =
     (if i > 0
      then bindE (DBBackupByID i) (\<lambda>b.
           if b_PairID b \<noteq> pair_ID pr then throwE (EMsg ''backup belongs to another pair'') else returnE b)
      else bindE (DBBackups (pair_ID pr) 1) (\<lambda>bs. case bs of
             [] \<Rightarrow> throwE (EWrap ''nothing has replaced its database yet'' ENoBackup)
           | b # _ \<Rightarrow> returnE b))"

definition verifyBackup :: "engine \<Rightarrow> backup \<Rightarrow> unit op" where
  "verifyBackup E b =
     bindE (wrapE ''read the backup'' (os_Stat (b_Path b))) (\<lambda>info.
     if node_size info \<noteq> b_Size b then throwE (EMsg ''the backup has not the size that was recorded'')
     else bindE (wrapE ''read the backup'' (os_ReadFile (b_Path b))) (\<lambda>bytes.
          if en_sha256 E bytes \<noteq> b_Hash b then throwE (EMsg ''the backup does not match its recorded hash'')
          else returnE ()))"

text \<open>After the copy is staged: the mirror image of \<open>install\<close>.\<close>

definition put_back :: "location \<Rightarrow> (event \<Rightarrow> bool) \<Rightarrow> engine \<Rightarrow> pair \<Rightarrow> string \<Rightarrow> string \<Rightarrow> backup \<Rightarrow> rollback_result \<Rightarrow> (rollback_result \<times> error option) op" where
  "put_back l same E pr incoming rel b res =
     bindE (tryE (wrapE ''set the timestamp'' (os_Chtimes incoming (ofMilli (b_MTime b))))) (\<lambda>r. case r of Inl e \<Rightarrow> give_up incoming res e | Inr _ \<Rightarrow>
     bindE (tryE (settleFile pr incoming)) (\<lambda>r. case r of Inl e \<Rightarrow> give_up incoming res e | Inr _ \<Rightarrow>
     bindE (tryE (backupDatabase l E pr rel BackupRollback)) (\<lambda>r. case r of Inl e \<Rightarrow> give_up incoming res e | Inr replaced \<Rightarrow>
       let res = res\<lparr>ro_Replaced := replaced\<rparr> in
     bindE (tryE (wrapE ''move into place'' (os_Rename incoming (localPath pr rel)))) (\<lambda>r. case r of Inl e \<Rightarrow> give_up incoming res e | Inr _ \<Rightarrow>
     bindE (tryE (recordFile E pr rel (b_Size b) (ofMilli (b_MTime b)) (b_Hash b) FileSynced)) (\<lambda>r. case r of
       Inl e \<Rightarrow> returnE (res, Some e)
     | Inr _ \<Rightarrow> bindE (noteDB same pr LevelWarn KindDBRollback) (\<lambda>_. returnE (res, None)))))))"

definition RollbackDatabase :: "location \<Rightarrow> (event \<Rightarrow> bool) \<Rightarrow> engine \<Rightarrow> pair \<Rightarrow> int \<Rightarrow> bool \<Rightarrow> (rollback_result \<times> error option) op" where
  "RollbackDatabase l same E pr i force =
     (let rel = gated E pr; res = \<lparr>ro_Path = rel, ro_Backup = None, ro_Replaced = None\<rparr>; incoming = incomingPath pr rel in
      if rel = [] then returnE (res, Some (EMsg ''not a jcc pair, so it has no database to roll back''))
      else bindE (tryE (pickBackup pr i)) (\<lambda>r. case r of Inl e \<Rightarrow> returnE (res, Some e) | Inr b \<Rightarrow>
        let res = res\<lparr>ro_Backup := Some b\<rparr> in
        bindE (tryE (localLock E pr (jcc_Lock (opt_JCC (en_opts E))))) (\<lambda>r. case r of Inl e \<Rightarrow> returnE (res, Some e) | Inr lock \<Rightarrow>
        if lk_Held lock \<and> \<not> force then returnE (res, Some (EMsg ''close jClipCorn here first, or override it''))
        else
          bindE (tryE (verifyBackup E b)) (\<lambda>r. case r of Inl e \<Rightarrow> returnE (res, Some e) | Inr _ \<Rightarrow>
          bindE (tryE (wrapE ''create'' (makeDir pr (path_Dir incoming)))) (\<lambda>r. case r of Inl e \<Rightarrow> returnE (res, Some e) | Inr _ \<Rightarrow>
          bindE (tryE (copyFile E (b_Path b) incoming)) (\<lambda>r. case r of Inl e \<Rightarrow> returnE (res, Some e) | Inr _ \<Rightarrow>
          put_back l same E pr incoming rel b res))))))"

end
