(* ===== verification/DatabaseSpec.thy ===== *)
theory DatabaseSpec
  imports Database CopySpec Quarantine
begin

text \<open>
  What the lock gate promises: whatever fails, the database in place is the one that was there
  or the publisher's whole one, it is only replaced with both locks gone (or the override
  given), what is replaced is kept as a copy, and a rollback puts back bytes that match the
  digest recorded of them.
\<close>

section \<open>Files and kept copies\<close>

text \<open>What the gate's predicates look at: the files of the disk and the rows of the kept copies.\<close>

definition view :: "world \<Rightarrow> (string \<Rightarrow> (string \<times> time) option) \<times> backup list" where
  "view w = (file_at w, backups w)"

interpretation vw: world_frame view
  by unfold_locales (simp add: view_def)

abbreviation viewless :: "'a op \<Rightarrow> bool" where
  "viewless m \<equiv> keeps (\<lambda>w w'. view w' = view w) m"

lemma viewless_os:
  assumes "keeps (\<lambda>w w'. file_at w' = file_at w) m" and "keeps (\<lambda>w w'. tables w' = tables w) m"
  shows "viewless m"
  using assms tables_eq(9) unfolding keeps_def view_def by metis

lemma viewless_env_only: "env_only m \<Longrightarrow> viewless m"
  by (rule vw.frame.keeps_env_only)

lemma viewless_put:
  "viewless (put_files f)" "viewless (put_changes g)" "viewless (put_events h)"
  unfolding put_files_def put_changes_def put_events_def
  by (intro vw.frame.keeps_exec; auto simp: view_def file_at_def fun_eq_iff Let_def split: prod.splits if_splits)+

lemma viewless_event: "viewless (event lv kd pid)"
  unfolding event_def AppendEvent_def by (intro vw.frame.keeps_rules viewless_put)

lemma viewless_recordFile: "viewless (recordFile E pr rel sz mt h st)"
  unfolding recordFile_def FileAt_def PutFile_def putFileTx_def change_def AppendChange_def Let_def
  by (intro vw.frame.keeps_rules viewless_put)

lemma viewless_noteDB: "viewless (noteDB same pr lv kd)"
  unfolding noteDB_def by (intro vw.frame.keeps_rules viewless_event)

lemma viewless_noteDeferred: "viewless (noteDeferred same pr held)"
  unfolding noteDeferred_def by (intro vw.frame.keeps_rules viewless_noteDB)

lemma viewless_Stat: "viewless (os_Stat p)"
  by (rule vw.frame.keeps_Stat)

lemma viewless_makeDir: "viewless (makeDir pr dir)"
  by (rule viewless_os [OF tree_makeDir store_makeDir])

lemma viewless_touch: "viewless (os_touch p)"
  by (rule viewless_os [OF tree_touch store_os(10)])

lemma viewless_ReadFile: "viewless (os_ReadFile p)"
  by (rule viewless_os [OF tree_ReadFile store_os(7)])

lemma viewless_settleFile: "viewless (settleFile pr p)"
  by (rule viewless_os [OF tree_of_disk [OF disk_settleFile] store_settleFile])

lemma viewless_checkSpace: "viewless (checkSpace rsv pr need)"
  by (rule viewless_os [OF tree_checkSpace store_checkSpace])

lemma viewless_localLock: "viewless (localLock E pr rel)"
  unfolding localLock_def Let_def by (intro vw.frame.keeps_rules viewless_Stat)

lemma viewless_remoteLock:
  assumes "remote_ok (en_remote E)"
  shows "viewless (remoteLock E pr rel)"
  unfolding remoteLock_def Let_def
  by (intro vw.frame.keeps_rules viewless_env_only remote_okD assms)

lemma viewless_probeLocks:
  assumes "remote_ok (en_remote E)"
  shows "viewless (probeLocks E pr)"
  unfolding probeLocks_def Let_def
  by (intro vw.frame.keeps_rules viewless_localLock viewless_remoteLock assms)

lemma viewless_free_name: "viewless (free_name k i base)"
  by (rule viewless_env_only [OF free_name_env])

lemma keeps_node:
  "(\<And>b t. n = FFile b t \<Longrightarrow> keeps R (f b t)) \<Longrightarrow> (n = FDir \<Longrightarrow> keeps R g) \<Longrightarrow> keeps R (case n of FFile b t \<Rightarrow> f b t | FDir \<Rightarrow> g)"
  by (cases n) auto

lemma viewless_DatabaseStatus:
  assumes "remote_ok (en_remote E)"
  shows "viewless (DatabaseStatus E pr)"
  unfolding DatabaseStatus_def DBBackups_def Let_def
  by (intro vw.frame.keeps_rules viewless_env_only [OF remote_okD(2)] viewless_env_only [OF remote_okD(3)]
      viewless_Stat viewless_probeLocks keeps_node assms) 

lemmas viewless_ops = viewless_event viewless_recordFile viewless_noteDB viewless_noteDeferred viewless_Stat
  viewless_makeDir viewless_touch viewless_ReadFile viewless_settleFile viewless_checkSpace viewless_localLock
  viewless_probeLocks viewless_free_name viewless_DatabaseStatus

lemma triple_pre: "triple P m Q X \<Longrightarrow> (\<And>w. P' w \<Longrightarrow> P w) \<Longrightarrow> triple P' m Q X"
  by (erule triple_conseq) auto

lemma triple_prod:
  "(\<And>a b. triple (P a b) (f a b) Q X) \<Longrightarrow> triple (case x of (a, b) \<Rightarrow> P a b) (case x of (a, b) \<Rightarrow> f a b) Q X"
  by (cases x) auto

text \<open>A predicate on the view passes over an operation that leaves it alone.\<close>

lemma triple_view:
  assumes "viewless m"
  shows "triple (\<lambda>w. P (view w)) m (\<lambda>_ w. P (view w)) (\<lambda>w. P (view w))"
  by (rule triple_keeps [OF assms]) auto

section \<open>Copying whole files\<close>

lemma splice_end: "splice (length b) new b = b @ new"
  by (simp add: splice_def resize_def)

lemma copy_at_append:
  assumes "copy_at p (int (length b)) bs w = (r, w')" and "file_at w p = Some (b, t)"
  shows "\<exists>b' t'. file_at w' = (file_at w)(p := Some (b', t')) \<and> (\<forall>n. r = Inr n \<longrightarrow> b' = b @ concat bs \<and> n = int (length b'))"
  using assms
proof (induction bs arbitrary: b w t)
  case Nil
  then show ?case by (auto simp: returnE_run intro!: exI [of _ b] exI [of _ t] fun_upd_idem [symmetric])
next
  case (Cons x xs)
  obtain r1 w1 where s1: "os_WriteAt p (int (length b)) x w = (r1, w1)" by (rule prod.exhaust)
  from os_WriteAt_cases [OF s1 Cons.prems(2)] consider e where "r1 = Inl e" "file_at w1 = file_at w"
    | t1 where "r1 = Inr ()" "file_at w1 = (file_at w)(p := Some (b @ x, t1))" by (auto simp: splice_end)
  then show ?case
  proof cases
    case 1
    with Cons.prems s1 have "r = Inl e" "w' = w1" by (auto simp: bindE_def)
    with 1 Cons.prems(2) show ?thesis by (intro exI [of _ b] exI [of _ t]) (simp add: fun_upd_idem)
  next
    case 2
    have run: "copy_at p (int (length (b @ x))) xs w1 = (r, w')" using Cons.prems(1) s1 2(1) by (simp add: bindE_def)
    have "file_at w1 p = Some (b @ x, t1)" using 2(2) by simp
    from Cons.IH [OF run this] obtain b' t' where
      h: "file_at w' = (file_at w)(p := Some (b', t'))" "\<forall>n. r = Inr n \<longrightarrow> b' = (b @ x) @ concat xs \<and> n = int (length b')"
      unfolding 2(2) fun_upd_upd by blast
    from h(2) have "\<forall>n. r = Inr n \<longrightarrow> b' = b @ concat (x # xs) \<and> n = int (length b')" by (simp only: concat.simps append_assoc)
    with h(1) show ?thesis by blast
  qed
qed

lemma store_copy_at: "keeps (\<lambda>w w'. tables w' = tables w) (copy_at p off bs)"
  by (induction bs arbitrary: off) (auto intro!: store.frame.keeps_rules store_os)

lemma concat_buffers: "concat (buffers k b) = b"
proof (induction k arbitrary: b)
  case 0
  then show ?case by (subst buffers.simps) simp
next
  case (Suc k)
  then show ?case by (subst buffers.simps) simp
qed

lemma os_OpenTrunc_cases:
  assumes "os_OpenTrunc p w = (r, w')"
  shows "backups w' = backups w \<and>
    ((\<exists>x. r = Inl x) \<and> file_at w' = file_at w \<or> r = Inr () \<and> (\<exists>t. file_at w' = (file_at w)(p := Some ([], t))))"
proof -
  from assms consider x where "r = Inl x" "w' = used w"
    | "r = Inr ()" "p \<noteq> ''/''" "w' = (used w)\<lparr>fs := fs_put p (FFile [] (clock (env (used w)))) (fs w)\<rparr>"
    unfolding os_OpenTrunc_def
    by (cases "p = ''/''") (auto dest!: exec_cases split: option.splits fnode.splits if_splits)
  then show ?thesis
  proof cases
    case 2
    have "file_at ((used w)\<lparr>fs := fs w\<rparr>) = file_at w" by (rule file_at_frame) simp
    with 2 show ?thesis by (auto simp: file_at_put)
  qed simp
qed

lemma file_view: "view w' = view w \<Longrightarrow> file_at w' = file_at w \<and> backups w' = backups w"
  by (simp add: view_def)

text \<open>A copy of one file to another touches the other only, and is the whole when it succeeds.\<close>

lemma copyFile_run:
  assumes "copyFile E src dst w = (r, w')" and ne: "src \<noteq> dst"
  shows "backups w' = backups w \<and> (\<forall>p. p \<noteq> dst \<longrightarrow> file_at w' p = file_at w p) \<and>
    (\<forall>n h. r = Inr (n, h) \<longrightarrow> (\<exists>b t t'. file_at w src = Some (b, t) \<and> file_at w' dst = Some (b, t') \<and>
       n = int (length b) \<and> h = en_sha256 E b))"
proof -
  let ?Q = "\<lambda>w1. backups w1 = backups w \<and> (\<forall>p. p \<noteq> dst \<longrightarrow> file_at w1 p = file_at w p)"
  let ?P = "\<lambda>v. snd v = backups w \<and> fst v = file_at w"
  let ?X = "\<lambda>v. snd v = backups w \<and> (\<forall>p. p \<noteq> dst \<longrightarrow> fst v p = file_at w p)"
  let ?O = "\<lambda>v. ?X v \<and> (\<exists>t. fst v dst = Some ([], t))"
  let ?B = "\<lambda>b v. ?O v \<and> (\<exists>t. file_at w src = Some (b, t))"
  let ?D = "\<lambda>b v. ?X v \<and> (\<exists>t. file_at w src = Some (b, t)) \<and> (\<exists>t. fst v dst = Some (b, t))"
  have weak: "triple (\<lambda>w. P (view w)) m (\<lambda>_ w. P (view w)) (\<lambda>w. ?X (view w))"
    if "viewless m" "\<And>v. P v \<Longrightarrow> ?X v" for P and m :: "'z op"
    by (rule triple_conseq [OF triple_view [where P = P, OF that(1)]]) (use that(2) in blast)+
  have opened: "triple (\<lambda>w. ?P (view w)) (os_OpenTrunc dst) (\<lambda>_ w. ?O (view w)) (\<lambda>w. ?X (view w))"
    by (rule tripleI) (auto simp: view_def dest!: os_OpenTrunc_cases)
  have read: "triple (\<lambda>w. ?O (view w)) (os_ReadFile src) (\<lambda>b w. ?B b (view w)) (\<lambda>w. ?X (view w))"
  proof (rule tripleI)
    fix w1 b w2
    assume O: "?O (view w1)" and run: "os_ReadFile src w1 = (Inr b, w2)"
    from os_ReadFile_Inr [OF run] obtain t where "file_at w1 src = Some (b, t)" and w2: "w2 = used w1" by blast
    with O ne have "file_at w src = Some (b, t)" by (simp add: view_def)
    with O w2 show "?B b (view w2)" by (auto simp: view_def)
  qed (use keepsD [OF viewless_ReadFile] in metis)
  have copied: "triple (\<lambda>w. ?B b (view w)) (copy_at dst 0 (buffers (length b) b)) (\<lambda>n w. n = int (length b) \<and> ?D b (view w)) (\<lambda>w. ?X (view w))" for b
  proof (rule tripleI)
    fix w1 n w2
    assume B: "?B b (view w1)" and run: "copy_at dst 0 (buffers (length b) b) w1 = (Inr n, w2)"
    then obtain t where at: "file_at w1 dst = Some ([], t)" by (auto simp: view_def)
    from copy_at_append [of dst "[]", simplified, OF run at] obtain b' t' where
      "file_at w2 = (file_at w1)(dst := Some (b', t'))" "b' = b" "n = int (length b')" by (auto simp: concat_buffers)
    moreover have "backups w2 = backups w1" by (rule tables_eq(9) [OF keepsD [OF store_copy_at run]])
    ultimately show "n = int (length b) \<and> ?D b (view w2)" using B by (auto simp: view_def)
  next
    fix w1 e w2
    assume B: "?B b (view w1)" and run: "copy_at dst 0 (buffers (length b) b) w1 = (Inl e, w2)"
    then obtain t where at: "file_at w1 dst = Some ([], t)" by (auto simp: view_def)
    from copy_at_append [of dst "[]", simplified, OF run at] obtain b' t' where
      "file_at w2 = (file_at w1)(dst := Some (b', t'))" by auto
    moreover have "backups w2 = backups w1" by (rule tables_eq(9) [OF keepsD [OF store_copy_at run]])
    ultimately show "?X (view w2)" using B by (auto simp: view_def)
  qed
  have done_: "triple (\<lambda>w. n = int (length b) \<and> ?D b (view w)) (bindE (wrapE ''flush'' (os_touch dst)) (\<lambda>_. returnE (n, en_sha256 E b)))
      (\<lambda>(n, h) w. \<exists>b. n = int (length b) \<and> h = en_sha256 E b \<and> ?D b (view w)) (\<lambda>w. ?X (view w))" for n b
    by (rule triple_fact, rule triple_bind [OF triple_wrap [OF weak [OF viewless_touch]]]) (auto intro!: triple_return)
  have "triple (\<lambda>w. ?P (view w)) (copyFile E src dst)
      (\<lambda>(n, h) w. \<exists>b. n = int (length b) \<and> h = en_sha256 E b \<and> ?D b (view w)) (\<lambda>w. ?X (view w))"
    unfolding copyFile_def os_MkdirAll_def
    by (rule triple_bind [OF triple_wrap [OF weak [OF viewless_Stat]]], simp,
        rule triple_bind [OF triple_wrap [OF weak [OF viewless_makeDir]]], simp,
        rule triple_bind [OF triple_wrap [OF opened]], rule triple_bind [OF triple_wrap [OF read]],
        rule triple_bind [OF triple_wrap [OF copied]], rule done_)
  note t = this
  have P: "?P (view w)" by (simp add: view_def)
  show ?thesis
  proof (cases r)
    case (Inl e)
    with tripleD_Inl [OF t P] assms(1) show ?thesis by (auto simp: view_def)
  next
    case (Inr a)
    with tripleD [OF t P] assms(1) show ?thesis by (fastforce simp: view_def)
  qed
qed

section \<open>The kept copy\<close>

text \<open>Where the gate works: the copies in their own directory, the database and its staging file outside.\<close>

definition db_paths :: "engine \<Rightarrow> pair \<Rightarrow> string \<Rightarrow> bool" where
  "db_paths E pr rel \<longleftrightarrow> abs_ok (backupDir E pr) \<and> seg_ok (path_Base rel) \<and> incomingPath pr rel \<noteq> localPath pr rel \<and>
     \<not> below (backupDir E pr) (localPath pr rel) \<and> \<not> below (backupDir E pr) (incomingPath pr rel)"

lemma format_stamp_chars: "\<forall>c \<in> set (format_stamp l t). is_digit c \<or> c = CHR ''-''"
proof -
  obtain y m d where D: "Date l t = (y, m, d)" by (metis prod_cases3)
  have digits: "\<forall>c \<in> set (pad k n). is_digit c" "\<forall>c \<in> set (dec i). is_digit c" for k n i
    using pad_digits [of k n] dec_digits [of i] unfolding list_all_iff by blast+
  have "\<forall>c \<in> set (year_text y). is_digit c \<or> c = CHR ''-''"
    using digits by (auto simp: year_text_def Itoa_def)
  with digits show ?thesis by (auto simp: format_stamp_def D Let_def)
qed

lemma backup_seg: "seg_ok base \<Longrightarrow> rel_ok (base @ ''.'' @ format_stamp l t)"
proof (rule rel_ok_seg)
  assume b: "seg_ok base"
  have "\<not> is_digit slash" by code_simp
  then have "slash \<notin> set (format_stamp l t)" using format_stamp_chars [of l t] by auto
  moreover have "4 \<le> length (format_stamp l t)" by (simp add: format_stamp_def Let_def split: prod.splits)
  ultimately show "seg_ok (base @ ''.'' @ format_stamp l t)"
    using b by (auto simp: seg_ok_def append_eq_Cons_conv Cons_eq_append_conv)
qed

lemma backupName_run:
  assumes "abs_ok dir" and "seg_ok base" and "backupName l dir base t w = (Inr name, w')"
  shows "file_at w name = None" and "below dir name" and "view w' = view w"
proof -
  have "path_Join [dir, base @ ''.'' @ format_stamp l t] = dir @ slash # base @ ''.'' @ format_stamp l t"
    using path_Join_abs(1) [OF assms(1) backup_seg [OF assms(2)]] .
  with free_name_run [OF assms(3) [unfolded backupName_def]] obtain e sfx where
    n: "w' = w\<lparr>env := e\<rparr>" "name = (dir @ slash # base @ ''.'' @ format_stamp l t) @ sfx" "node (fs w) name = None" by auto
  then show "file_at w name = None" "below dir name" "view w' = view w"
    by (auto simp: file_at_def below_def HasPrefix_iff view_def)
qed

text \<open>A copy that was kept, and what it is a copy of.\<close>

definition kept_copy :: "engine \<Rightarrow> pair \<Rightarrow> string \<Rightarrow> backup_reason \<Rightarrow> string \<times> time \<Rightarrow> backup \<Rightarrow> bool" where
  "kept_copy E pr rel reason f bk \<longleftrightarrow> below (backupDir E pr) (b_Path bk) \<and> b_PairID bk = pair_ID pr \<and> b_RelDB bk = rel \<and>
     b_Size bk = int (length (fst f)) \<and> b_MTime bk = UnixMilli (snd f) \<and> b_Hash bk = en_sha256 E (fst f) \<and> b_Reason bk = reason"

lemma wrapE_Inl: "wrapE c m w = (Inl e, w') \<longleftrightarrow> (\<exists>x. e = EWrap c x \<and> m w = (Inl x, w'))"
  by (auto simp: wrapE_def split: prod.splits sum.splits)

lemma AddDBBackup_run:
  assumes "AddDBBackup b w = (r, w')"
  shows "file_at w' = file_at w \<and> (case r of Inl _ \<Rightarrow> backups w' = backups w
    | Inr bk \<Rightarrow> (\<exists>t. bk = backup_row b t (next_rowid (map b_ID (backups w)))) \<and> backups w' = backups w @ [bk])"
proof -
  have pre: "view w1 = view w" if "(case bi_TS b of Some t \<Rightarrow> returnE t | None \<Rightarrow> now) w = (x, w1)" for x w1
    using that by (cases "bi_TS b") (auto simp: returnE_run view_def dest!: now_cases)
  have put: "file_at w2 = file_at w1 \<and> (case r of Inl _ \<Rightarrow> backups w2 = backups w1
      | Inr bk \<Rightarrow> bk = backup_row b t (next_rowid (map b_ID (backups w1))) \<and> backups w2 = backups w1 @ [bk])"
    if "put_backups (\<lambda>rows. let r = backup_row b t (next_rowid (map b_ID rows)) in (r, rows @ [r])) w1 = (r, w2)" for t r w1 w2
  proof (cases r)
    case (Inl e)
    with that have "w2 = used w1" unfolding put_backups_def by (auto dest!: exec_cases)
    then show ?thesis by (simp add: Inl)
  next
    case (Inr bk)
    from put_backups_Inr [OF that [unfolded Inr]] show ?thesis
      by (auto simp: Inr Let_def file_at_def fun_eq_iff)
  qed
  show ?thesis
  proof (cases r)
    case (Inl e)
    from assms Inl consider "(case bi_TS b of Some t \<Rightarrow> returnE t | None \<Rightarrow> now) w = (Inl e, w')"
      | t w1 x where "(case bi_TS b of Some t \<Rightarrow> returnE t | None \<Rightarrow> now) w = (Inr t, w1)"
          "put_backups (\<lambda>rows. let r = backup_row b t (next_rowid (map b_ID rows)) in (r, rows @ [r])) w1 = (Inl x, w')"
      unfolding AddDBBackup_def by (auto simp: bindE_Inl wrapE_Inl)
    then show ?thesis
    proof cases
      case 1
      from pre [OF 1] show ?thesis by (simp add: Inl view_def)
    next
      case 2
      from pre [OF 2(1)] put [OF 2(2)] show ?thesis by (simp add: Inl view_def)
    qed
  next
    case (Inr bk)
    from assms obtain t w1 where s: "(case bi_TS b of Some t \<Rightarrow> returnE t | None \<Rightarrow> now) w = (Inr t, w1)"
      "put_backups (\<lambda>rows. let r = backup_row b t (next_rowid (map b_ID rows)) in (r, rows @ [r])) w1 = (Inr bk, w')"
      unfolding AddDBBackup_def Inr by (auto elim!: bindE_InrE)
    from pre [OF s(1)] put [OF s(2)] show ?thesis by (auto simp: Inr view_def)
  qed
qed

text \<open>
  Taking the copy: outside the directory of the copies nothing changes; where it succeeds, what is
  in place has been copied under a free name, with its time, and recorded with its size and digest.
\<close>

lemma backupDatabase_run:
  assumes paths: "db_paths E pr rel" and run: "backupDatabase l E pr rel reason w = (r, w')"
  shows "(\<forall>p. \<not> below (backupDir E pr) p \<longrightarrow> file_at w' p = file_at w p) \<and>
    (case r of
       Inl _ \<Rightarrow> backups w' = backups w
     | Inr None \<Rightarrow> file_at w (localPath pr rel) = None \<and> view w' = view w
     | Inr (Some bk) \<Rightarrow> (\<exists>f. file_at w (localPath pr rel) = Some f \<and> file_at w (b_Path bk) = None \<and>
          file_at w' = (file_at w)(b_Path bk := Some f) \<and> backups w' = backups w @ [bk] \<and>
          b_ID bk = next_rowid (map b_ID (backups w)) \<and> kept_copy E pr rel reason f bk))"
proof -
  let ?src = "localPath pr rel" and ?dir = "backupDir E pr"
  have dir: "abs_ok ?dir" and base: "seg_ok (path_Base rel)" and out: "\<not> below ?dir ?src" using paths by (auto simp: db_paths_def)
  let ?X = "\<lambda>w1. backups w1 = backups w \<and> (\<forall>p. \<not> below ?dir p \<longrightarrow> file_at w1 p = file_at w p)"
  let ?S = "\<lambda>w1. view w1 = view w"
  let ?N = "\<lambda>name w1. view w1 = view w \<and> file_at w name = None \<and> below ?dir name"
  let ?C = "\<lambda>name n h w1. \<exists>b t t'. file_at w ?src = Some (b, t) \<and> file_at w name = None \<and> below ?dir name \<and>
      file_at w1 = (file_at w)(name := Some (b, t')) \<and> backups w1 = backups w \<and> n = int (length b) \<and> h = en_sha256 E b"
  let ?T = "\<lambda>name n h w1. \<exists>b t. file_at w ?src = Some (b, t) \<and> file_at w name = None \<and> below ?dir name \<and>
      file_at w1 = (file_at w)(name := Some (b, t)) \<and> backups w1 = backups w \<and> n = int (length b) \<and> h = en_sha256 E b"
  let ?D = "\<lambda>bk w1. \<exists>f. file_at w ?src = Some f \<and> file_at w (b_Path bk) = None \<and>
      file_at w1 = (file_at w)(b_Path bk := Some f) \<and> backups w1 = backups w @ [bk] \<and>
      b_ID bk = next_rowid (map b_ID (backups w)) \<and> kept_copy E pr rel reason f bk"
  have S: "triple ?S m (\<lambda>_. ?S) ?X" if "viewless m" for m :: "'z op"
    by (rule triple_keeps [OF that]) (auto simp: view_def)
  have name: "triple ?S (backupName l ?dir (path_Base rel) t) ?N ?X" for t
  proof (rule tripleI)
    fix w1 n w2
    assume s: "?S w1" and run: "backupName l ?dir (path_Base rel) t w1 = (Inr n, w2)"
    from backupName_run [OF dir base run] s show "?N n w2" by (simp add: view_def)
  next
    fix w1 e w2
    assume s: "?S w1" and run: "backupName l ?dir (path_Base rel) t w1 = (Inl e, w2)"
    from keepsD [OF viewless_free_name run [unfolded backupName_def]] s show "?X w2" by (simp add: view_def)
  qed
  have copy: "triple (?N n) (copyFile E ?src n) (\<lambda>(sz, h). ?C n sz h) ?X" for n
  proof (rule tripleI)
    fix w1 a w2
    assume N: "?N n w1" and run: "copyFile E ?src n w1 = (Inr a, w2)"
    have "?src \<noteq> n" using N out by auto
    from copyFile_run [OF run this] N obtain b t t' where c: "file_at w ?src = Some (b, t)" "file_at w2 n = Some (b, t')"
        "\<forall>p. p \<noteq> n \<longrightarrow> file_at w2 p = file_at w p" "backups w2 = backups w" "a = (int (length b), en_sha256 E b)"
      by (cases a) (auto simp: view_def)
    then have "file_at w2 = (file_at w)(n := Some (b, t'))" by (auto simp: fun_eq_iff)
    with c N show "(case a of (sz, h) \<Rightarrow> ?C n sz h) w2" by auto
  next
    fix w1 e w2
    assume N: "?N n w1" and run: "copyFile E ?src n w1 = (Inl e, w2)"
    have "?src \<noteq> n" using N out by auto
    from copyFile_run [OF run this] N show "?X w2" by (auto simp: view_def)
  qed
  have stamp: "triple (?C n sz h) (os_Chtimes n (node_mtime info)) (\<lambda>_. ?T n sz h) ?X" if "node (fs w) ?src = Some info" for n sz h info
  proof (rule tripleI)
    fix w1 u w2
    assume C: "?C n sz h w1" and run: "os_Chtimes n (node_mtime info) w1 = (Inr u, w2)"
    then obtain b t t' where c: "file_at w ?src = Some (b, t)" "file_at w1 = (file_at w)(n := Some (b, t'))" by blast
    have "info = FFile b t" using c(1) that by (simp add: file_at_Some)
    moreover have "file_at w1 n = Some (b, t')" using c(2) by simp
    from os_Chtimes_cases [OF run this] have "file_at w2 = (file_at w1)(n := Some (b, node_mtime info))" by simp
    moreover have "backups w2 = backups w1" by (rule tables_eq(9) [OF keepsD [OF store_os(5) run]])
    ultimately show "?T n sz h w2" using C c by (auto simp del: fun_upd_apply)
  next
    fix w1 e w2
    assume C: "?C n sz h w1" and run: "os_Chtimes n (node_mtime info) w1 = (Inl e, w2)"
    then obtain b t' where c: "file_at w1 = (file_at w)(n := Some (b, t'))" by blast
    then have "file_at w1 n = Some (b, t')" by simp
    from os_Chtimes_cases [OF run this] have "file_at w2 = file_at w1" by simp
    moreover have "backups w2 = backups w1" by (rule tables_eq(9) [OF keepsD [OF store_os(5) run]])
    ultimately show "?X w2" using C by auto
  qed
  have add: "triple (?T n sz h) (AddDBBackup \<lparr>bi_PairID = pair_ID pr, bi_TS = None, bi_Path = n, bi_RelDB = rel, bi_Size = sz,
       bi_MTime = node_mtime info, bi_Hash = h, bi_Reason = Some reason\<rparr>) ?D ?X"
      (is "triple _ (AddDBBackup ?in) _ _") if "node (fs w) ?src = Some info" for n sz h info
  proof (rule tripleI)
    fix w1 bk w2
    assume T: "?T n sz h w1" and run: "AddDBBackup ?in w1 = (Inr bk, w2)"
    from AddDBBackup_run [OF run] obtain t1 where "bk = backup_row ?in t1 (next_rowid (map b_ID (backups w1)))"
      "backups w2 = backups w1 @ [bk]" "file_at w2 = file_at w1" by auto
    moreover from T obtain b t where b: "file_at w ?src = Some (b, t)" "file_at w n = None" "below ?dir n"
      "file_at w1 = (file_at w)(n := Some (b, t))" "backups w1 = backups w" "sz = int (length b)" "h = en_sha256 E b" by blast
    moreover from b(1) have "info = FFile b t" using that by (simp add: file_at_Some)
    ultimately show "?D bk w2" by (auto simp: kept_copy_def backup_row_def simp del: fun_upd_apply)
  next
    fix w1 e w2
    assume T: "?T n sz h w1" and run: "AddDBBackup ?in w1 = (Inl e, w2)"
    from AddDBBackup_run [OF run] T show "?X w2" by auto
  qed
  let ?Q = "\<lambda>r w1. case r of None \<Rightarrow> file_at w ?src = None \<and> ?S w1 | Some bk \<Rightarrow> ?D bk w1"
  let ?I = "\<lambda>st w1. ?S w1 \<and> (case st of Inr info \<Rightarrow> node (fs w) ?src = Some info
      | Inl e \<Rightarrow> errors_Is e ENotExist \<longrightarrow> file_at w ?src = None)"
  have stat: "triple (\<lambda>w1. w1 = w) (tryE (os_Stat ?src)) ?I ?X"
  proof (rule tripleI)
    fix w1 st w2
    assume w1: "w1 = w" and "tryE (os_Stat ?src) w1 = (Inr st, w2)"
    then have "os_Stat ?src w = (st, w2)" by (auto elim: tryE_InrE)
    from os_Stat_cases [OF this] show "?I st w2" by (auto simp: view_def file_at_def split: sum.splits)
  qed simp
  have rest: "triple (?I (Inr info)) (bindE (wrapE ''create the backup directory'' (os_MkdirAll ?dir)) (\<lambda>_.
         bindE now (\<lambda>t.
         bindE (backupName l ?dir (path_Base rel) t) (\<lambda>dst.
         bindE (copyFile E ?src dst) (\<lambda>(sz, hash).
         bindE (wrapE ''stamp the backup'' (os_Chtimes dst (node_mtime info))) (\<lambda>_.
         bindE (AddDBBackup \<lparr>bi_PairID = pair_ID pr, bi_TS = None, bi_Path = dst, bi_RelDB = rel, bi_Size = sz,
                  bi_MTime = node_mtime info, bi_Hash = hash, bi_Reason = Some reason\<rparr>) (\<lambda>b.
         returnE (Some b)))))))) ?Q ?X" for info
  proof (cases "node (fs w) ?src = Some info")
    case True
    show ?thesis
      unfolding os_MkdirAll_def
      by (rule triple_pre [where P = ?S], rule triple_bind [OF triple_wrap [OF S [OF viewless_makeDir]]],
          rule triple_bind [OF S [OF vw.frame.keeps_now]], rule triple_bind [OF name], rule triple_bind [OF copy], rule triple_prod,
          rule triple_bind [OF triple_wrap [OF stamp [OF True]]], rule triple_bind [OF add [OF True]], rule triple_return) auto
  qed (simp add: triple_def)
  have "triple (\<lambda>w1. w1 = w) (backupDatabase l E pr rel reason) ?Q ?X"
    unfolding backupDatabase_def Let_def
  proof (rule triple_bind [OF stat])
    fix st
    show "triple (?I st) (case st of Inl e \<Rightarrow> if errors_Is e ENotExist then returnE None else throwE (EWrap ''read it before replacing it'' e)
      | Inr info \<Rightarrow>
         bindE (wrapE ''create the backup directory'' (os_MkdirAll ?dir)) (\<lambda>_.
         bindE now (\<lambda>t.
         bindE (backupName l ?dir (path_Base rel) t) (\<lambda>dst.
         bindE (copyFile E ?src dst) (\<lambda>(sz, hash).
         bindE (wrapE ''stamp the backup'' (os_Chtimes dst (node_mtime info))) (\<lambda>_.
         bindE (AddDBBackup \<lparr>bi_PairID = pair_ID pr, bi_TS = None, bi_Path = dst, bi_RelDB = rel, bi_Size = sz,
                  bi_MTime = node_mtime info, bi_Hash = hash, bi_Reason = Some reason\<rparr>) (\<lambda>b.
         returnE (Some b)))))))) ?Q ?X"
    proof (cases st)
      case (Inl e)
      then show ?thesis by (auto simp: triple_def returnE_run throwE_run view_def)
    next
      case (Inr info)
      then show ?thesis using rest [of info] by simp
    qed
  qed
  note t = this
  have hide: "\<forall>p. \<not> below ?dir p \<longrightarrow> file_at w' p = file_at w p"
    if "file_at w' = (file_at w)(q := f)" "below ?dir q" for q f
    using that by auto
  show ?thesis
  proof (cases r)
    case (Inl e)
    from tripleD_Inl [OF t refl run [unfolded Inl]] show ?thesis by (simp add: Inl)
  next
    case (Inr x)
    from tripleD [OF t refl run [unfolded Inr]] show ?thesis
      by (cases x) (auto simp: Inr view_def kept_copy_def simp del: fun_upd_apply dest: hide)
  qed
qed

end
