(* ===== verification/DatabaseGate.thy ===== *)
theory DatabaseGate
  imports DatabaseSpec
begin

text \<open>
  The gate as a whole: what a run of \<open>SyncDatabase\<close> can leave behind, and what a rollback puts back.
\<close>

section \<open>Rules for the shape of the gate\<close>

lemma triple_try_case:
  assumes "triple P m Q1 X1" and "\<And>e. triple X1 (f e) Q X" and "\<And>a. triple (Q1 a) (g a) Q X"
  shows "triple P (bindE (tryE m) (\<lambda>r. case r of Inl e \<Rightarrow> f e | Inr a \<Rightarrow> g a)) Q X"
proof (rule triple_bind [where Q = "\<lambda>r. case r of Inl e \<Rightarrow> X1 | Inr a \<Rightarrow> Q1 a"])
  show "triple P (tryE m) (\<lambda>r. case r of Inl e \<Rightarrow> X1 | Inr a \<Rightarrow> Q1 a) X"
    by (rule triple_try) (use assms(1) in simp)
  show "triple (case r of Inl e \<Rightarrow> X1 | Inr a \<Rightarrow> Q1 a) (case r of Inl e \<Rightarrow> f e | Inr a \<Rightarrow> g a) Q X" for r
    using assms(2,3) by (cases r) auto
qed

text \<open>A predicate on the view passes over an operation that leaves it alone, whatever happens after an error.\<close>

lemma triple_over:
  assumes "viewless m" and "\<And>v w. P v \<Longrightarrow> X' w"
  shows "triple (\<lambda>w. P (view w)) m (\<lambda>_ w. P (view w)) X'"
  by (rule triple_conseq [OF triple_view [where P = P, OF assms(1)]]) (use assms(2) in blast)+

section \<open>The files of a run\<close>

text \<open>
  \<open>D\<close>: where the pair's copies are kept. Runs of the daemon and rollbacks have different directories for
  them (\<open>opt_DataDir\<close> is set for one and not the other), so it may be more than one directory.

  \<open>staged\<close>: nothing but the staging file and the kept copies differs from the start. \<open>replaced\<close>:
  the database is \<open>f\<close>, and nothing else differs.
\<close>

definition rows_in :: "(string \<Rightarrow> bool) \<Rightarrow> int \<Rightarrow> backup list \<Rightarrow> bool" where
  "rows_in D pid rows \<longleftrightarrow> (\<forall>b \<in> set rows. b_PairID b = pid \<longrightarrow> D (b_Path b))"

definition copies_in :: "(string \<Rightarrow> bool) \<Rightarrow> engine \<Rightarrow> pair \<Rightarrow> string \<Rightarrow> bool" where
  "copies_in D E pr rel \<longleftrightarrow> (\<forall>p. below (backupDir E pr) p \<longrightarrow> D p) \<and> \<not> D (localPath pr rel) \<and> \<not> D (incomingPath pr rel)"

definition staged :: "(string \<Rightarrow> bool) \<Rightarrow> pair \<Rightarrow> string \<Rightarrow> (string \<Rightarrow> (string \<times> time) option) \<Rightarrow>
    (string \<Rightarrow> (string \<times> time) option) \<times> backup list \<Rightarrow> bool" where
  "staged D pr rel f0 v \<longleftrightarrow> rows_in D (pair_ID pr) (snd v) \<and>
     (\<forall>p. p \<noteq> incomingPath pr rel \<and> \<not> D p \<longrightarrow> fst v p = f0 p)"

definition replaced :: "(string \<Rightarrow> bool) \<Rightarrow> pair \<Rightarrow> string \<Rightarrow> (string \<Rightarrow> (string \<times> time) option) \<Rightarrow> string \<times> time \<Rightarrow>
    (string \<Rightarrow> (string \<times> time) option) \<times> backup list \<Rightarrow> bool" where
  "replaced D pr rel f0 f v \<longleftrightarrow> rows_in D (pair_ID pr) (snd v) \<and> fst v (localPath pr rel) = Some f \<and>
     (\<forall>p. p \<noteq> incomingPath pr rel \<and> p \<noteq> localPath pr rel \<and> \<not> D p \<longrightarrow> fst v p = f0 p)"

lemma view_put: "view w' = (f, bs) \<longleftrightarrow> file_at w' = f \<and> backups w' = bs"
  by (auto simp: view_def)

lemma os_Remove_file:
  assumes "os_Remove p w = (r, w')"
  shows "backups w' = backups w" and "\<forall>q. q \<noteq> p \<longrightarrow> file_at w' q = file_at w q"
proof -
  show "backups w' = backups w" by (rule tables_eq(9) [OF keepsD [OF store_os(3) assms]])
  show "\<forall>q. q \<noteq> p \<longrightarrow> file_at w' q = file_at w q"
    using assms
  proof (cases rule: os_Remove_cases)
    case 2
    have "file_at ((used w)\<lparr>fs := fs w\<rparr>) = file_at w" by (rule file_at_frame) simp
    with 2 show ?thesis by (simp add: file_at_del)
  qed simp
qed

lemma staged_discard: "triple (\<lambda>w. staged D pr rel f0 (view w)) (discard (incomingPath pr rel)) (\<lambda>_ w. staged D pr rel f0 (view w)) X"
  unfolding discard_def
proof (rule triple_ignore, rule tripleI)
  have "staged D pr rel f0 (view w')" if "staged D pr rel f0 (view w)" "os_Remove (incomingPath pr rel) w = (r, w')" for w r w'
    using that os_Remove_file [OF that(2)] by (auto simp: staged_def view_def)
  then show "staged D pr rel f0 (view w')" if "staged D pr rel f0 (view w)" "os_Remove (incomingPath pr rel) w = (Inr a, w')" for w a w'
    using that by blast
  show "staged D pr rel f0 (view w')" if "staged D pr rel f0 (view w)" "os_Remove (incomingPath pr rel) w = (Inl e, w')" for w e w'
    using that \<open>\<And>w r w'. staged D pr rel f0 (view w) \<Longrightarrow> os_Remove (incomingPath pr rel) w = (r, w') \<Longrightarrow> staged D pr rel f0 (view w')\<close> by blast
qed

text \<open>Pruning removes files among the copies only.\<close>

lemma DeleteDBBackup_run:
  assumes "DeleteDBBackup i w = (r, w')"
  shows "file_at w' = file_at w" and "set (backups w') \<subseteq> set (backups w)" and "k \<in> set (backups w) \<Longrightarrow> b_ID k \<noteq> i \<Longrightarrow> k \<in> set (backups w')"
proof -
  have "file_at w' = file_at w \<and> set (backups w') \<subseteq> set (backups w) \<and> (k \<in> set (backups w) \<and> b_ID k \<noteq> i \<longrightarrow> k \<in> set (backups w'))"
  proof (cases r)
    case (Inl e)
    with assms obtain x where "put_backups (\<lambda>rows. ((), sql_delete (\<lambda>b. b_ID b = i) rows)) w = (Inl x, w')"
      unfolding DeleteDBBackup_def by (auto simp: wrapE_Inl)
    then have "w' = used w" unfolding put_backups_def by (auto dest!: exec_cases)
    then show ?thesis by simp
  next
    case (Inr u)
    with assms have "put_backups (\<lambda>rows. ((), sql_delete (\<lambda>b. b_ID b = i) rows)) w = (Inr u, w')"
      unfolding DeleteDBBackup_def by simp
    from put_backups_Inr [OF this] show ?thesis by (auto simp: file_at_def fun_eq_iff)
  qed
  then show "file_at w' = file_at w" and "set (backups w') \<subseteq> set (backups w)"
    and "k \<in> set (backups w) \<Longrightarrow> b_ID k \<noteq> i \<Longrightarrow> k \<in> set (backups w')" by auto
qed

lemma prune_rows_run:
  assumes "prune_rows bs w = (r, w')" and "\<And>b. b \<in> set bs \<Longrightarrow> D (b_Path b)"
  shows "(\<forall>p. \<not> D p \<longrightarrow> file_at w' p = file_at w p) \<and> set (backups w') \<subseteq> set (backups w)"
  using assms
proof (induction bs arbitrary: w)
  case Nil
  then show ?case by (auto simp: returnE_run)
next
  case (Cons b bs)
  obtain r1 w1 where s1: "os_Remove (b_Path b) w = (r1, w1)" by (rule prod.exhaust)
  have one: "(\<forall>p. \<not> D p \<longrightarrow> file_at w1 p = file_at w p) \<and> backups w1 = backups w"
    using os_Remove_file [OF s1] Cons.prems(2) [of b] by (metis list.set_intros(1))
  obtain r2 w2 where s2: "DeleteDBBackup (b_ID b) w1 = (r2, w2)" by (rule prod.exhaust)
  note two = DeleteDBBackup_run [OF s2]
  have "prune_rows bs w1 = (r, w') \<or> prune_rows bs w2 = (r, w')"
    using Cons.prems(1) s1 s2 by (auto simp: bindE_def tryE_def ignoreE_def returnE_def split: sum.splits if_splits)
  then show ?case
  proof
    assume "prune_rows bs w1 = (r, w')"
    from Cons.IH [OF this] Cons.prems(2) one show ?thesis by auto
  next
    assume "prune_rows bs w2 = (r, w')"
    from Cons.IH [OF this] Cons.prems(2) one two show ?thesis by auto
  qed
qed

lemma prune_rows_spares:
  assumes "prune_rows bs w = (r, w')" and "\<And>b. b \<in> set bs \<Longrightarrow> b_Path b \<noteq> b_Path k \<and> b_ID b \<noteq> b_ID k" and "k \<in> set (backups w)"
  shows "k \<in> set (backups w') \<and> file_at w' (b_Path k) = file_at w (b_Path k)"
  using assms
proof (induction bs arbitrary: w)
  case Nil
  then show ?case by (auto simp: returnE_run)
next
  case (Cons b bs)
  obtain r1 w1 where s1: "os_Remove (b_Path b) w = (r1, w1)" by (rule prod.exhaust)
  have b: "b_Path k \<noteq> b_Path b" "b_ID k \<noteq> b_ID b" using Cons.prems(2) [of b] by auto
  note one = os_Remove_file [OF s1]
  obtain r2 w2 where s2: "DeleteDBBackup (b_ID b) w1 = (r2, w2)" by (rule prod.exhaust)
  note two = DeleteDBBackup_run(1) [OF s2] DeleteDBBackup_run(3) [OF s2, of k]
  have "prune_rows bs w1 = (r, w') \<or> prune_rows bs w2 = (r, w')"
    using Cons.prems(1) s1 s2 by (auto simp: bindE_def tryE_def ignoreE_def returnE_def split: sum.splits if_splits)
  then show ?case
  proof
    assume "prune_rows bs w1 = (r, w')"
    from Cons.IH [OF this] Cons.prems(2,3) one b show ?thesis by auto
  next
    assume "prune_rows bs w2 = (r, w')"
    from Cons.IH [OF this] Cons.prems(2,3) one two b show ?thesis by auto
  qed
qed

text \<open>The newest copy comes first, so pruning, which keeps one at least, keeps it.\<close>

lemma insort_key_snoc: "f x \<le> f k \<Longrightarrow> insort_key f x (ys @ [k]) = insort_key f x ys @ [k]"
  by (induction ys) auto

lemma sort_key_snoc: "\<forall>x \<in> set xs. f x \<le> f k \<Longrightarrow> sort_key f (xs @ [k]) = sort_key f xs @ [k]"
  by (induction xs) (auto simp: insort_key_snoc)

lemma newest_first_snoc:
  assumes "b_PairID k = pid" and "b_ID k = next_rowid (map b_ID rows)" and "\<forall>r \<in> set rows. b_PairID r = pid \<longrightarrow> b_TS r \<le> b_TS k"
  shows "newest_first pid (rows @ [k]) = k # newest_first pid rows"
proof -
  have "b_ID r < b_ID k" if "r \<in> set rows" for r
    using next_rowid_gt [of "b_ID r" "map b_ID rows"] that assms(2) by simp
  then have "\<forall>r \<in> set (filter (\<lambda>b. b_PairID b = pid) rows). (b_TS r, b_ID r) \<le> (b_TS k, b_ID k)"
    using assms(3) by (fastforce simp: less_eq_prod_def)
  from sort_key_snoc [of _ "\<lambda>b. (b_TS b, b_ID b)", OF this] show ?thesis using assms(1) by (simp add: newest_first_def)
qed

lemma pruneBackups_newest:
  assumes "pruneBackups E pr w = (r, w')" and "backups w = rows @ [k]" and "b_PairID k = pair_ID pr" and "b_ID k = next_rowid (map b_ID rows)"
    and old: "\<forall>r \<in> set rows. b_PairID r = pair_ID pr \<longrightarrow> b_TS r \<le> b_TS k \<and> b_Path r \<noteq> b_Path k"
  shows "k \<in> set (backups w') \<and> file_at w' (b_Path k) = file_at w (b_Path k)"
proof -
  let ?ex = "ExcessDBBackups (pair_ID pr) (jcc_Backups (opt_JCC (en_opts E)))"
  obtain x w1 where s: "?ex w = (x, w1)" by (rule prod.exhaust)
  have "viewless ?ex" unfolding ExcessDBBackups_def by (intro vw.frame.keeps_rules)
  from keepsD [OF this s] have same: "file_at w1 = file_at w" "backups w1 = backups w" by (simp_all add: view_def)
  show ?thesis
  proof (cases x)
    case (Inl e)
    with assms(1) s have "w' = w1" by (simp add: pruneBackups_def bindE_def tryE_def returnE_def)
    with same assms(2) show ?thesis by simp
  next
    case (Inr bs)
    with assms(1) s have run: "prune_rows bs w1 = (r, w')" by (simp add: pruneBackups_def bindE_def tryE_def)
    define n where "n = nat (if jcc_Backups (opt_JCC (en_opts E)) < 1 then 1 else jcc_Backups (opt_JCC (en_opts E)))"
    have "1 \<le> n" by (auto simp: n_def)
    moreover have "bs = drop n (newest_first (pair_ID pr) (backups w))"
      using s Inr unfolding ExcessDBBackups_def n_def [symmetric] by (auto elim!: query_InrE)
    moreover have "newest_first (pair_ID pr) (backups w) = k # newest_first (pair_ID pr) rows"
      unfolding assms(2) using assms(3,4) old by (intro newest_first_snoc) auto
    ultimately have "set bs \<subseteq> set (newest_first (pair_ID pr) rows)"
      by (cases n) (auto dest: in_set_dropD)
    then have "b \<in> set rows \<and> b_PairID b = pair_ID pr" if "b \<in> set bs" for b using that by auto
    then have "b_Path b \<noteq> b_Path k \<and> b_ID b \<noteq> b_ID k" if "b \<in> set bs" for b
      using old that assms(4) by (metis next_rowid_map(1))
    from prune_rows_spares [OF run this] same assms(2) show ?thesis by simp
  qed
qed

lemma replaced_prune:
  assumes "\<not> D (localPath pr rel)"
  shows "triple (\<lambda>w. replaced D pr rel f0 f (view w)) (pruneBackups E pr) (\<lambda>_ w. replaced D pr rel f0 f (view w)) (\<lambda>_. True)"
  unfolding pruneBackups_def
proof (rule triple_bind [where Q = "\<lambda>r w. replaced D pr rel f0 f (view w) \<and> (\<forall>bs. r = Inr bs \<longrightarrow> (\<forall>b \<in> set bs. D (b_Path b)))"])
  let ?R = "\<lambda>w. replaced D pr rel f0 f (view w)"
  show "triple ?R (tryE (ExcessDBBackups (pair_ID pr) (jcc_Backups (opt_JCC (en_opts E)))))
     (\<lambda>r w. ?R w \<and> (\<forall>bs. r = Inr bs \<longrightarrow> (\<forall>b \<in> set bs. D (b_Path b)))) (\<lambda>_. True)"
  proof (rule tripleI)
    fix w r w'
    assume R: "?R w" and "tryE (ExcessDBBackups (pair_ID pr) (jcc_Backups (opt_JCC (en_opts E)))) w = (Inr r, w')"
    then have run: "ExcessDBBackups (pair_ID pr) (jcc_Backups (opt_JCC (en_opts E))) w = (r, w')" by (auto elim: tryE_InrE)
    have "viewless (ExcessDBBackups (pair_ID pr) (jcc_Backups (opt_JCC (en_opts E))))"
      unfolding ExcessDBBackups_def by (intro vw.frame.keeps_rules)
    from keepsD [OF this run] have same: "view w' = view w" .
    have "D (b_Path b)" if "r = Inr bs" "b \<in> set bs" for bs b
    proof -
      from run that(1) have "\<exists>k. bs = drop k (newest_first (pair_ID pr) (backups w))"
        unfolding ExcessDBBackups_def by (auto elim!: query_InrE)
      with that(2) have "b \<in> set (newest_first (pair_ID pr) (backups w))" by (metis in_set_dropD)
      with R show ?thesis by (auto simp: replaced_def rows_in_def view_def)
    qed
    with R same show "?R w' \<and> (\<forall>bs. r = Inr bs \<longrightarrow> (\<forall>b \<in> set bs. D (b_Path b)))" by simp
  qed simp
  show "triple (\<lambda>w. ?R w \<and> (\<forall>bs. r = Inr bs \<longrightarrow> (\<forall>b \<in> set bs. D (b_Path b))))
      (case r of Inl _ \<Rightarrow> returnE () | Inr excess \<Rightarrow> prune_rows excess) (\<lambda>_. ?R) (\<lambda>_. True)" for r
  proof (cases r)
    case (Inl e)
    then show ?thesis by (auto intro!: triple_return)
  next
    case (Inr bs)
    show ?thesis
    proof (rule tripleI)
      fix w u w'
      assume P: "?R w \<and> (\<forall>bs. r = Inr bs \<longrightarrow> (\<forall>b \<in> set bs. D (b_Path b)))"
        and run: "(case r of Inl _ \<Rightarrow> returnE () | Inr excess \<Rightarrow> prune_rows excess) w = (Inr u, w')"
      from prune_rows_run [of bs w "Inr u" w' D] run P Inr
      have "\<forall>p. \<not> D p \<longrightarrow> file_at w' p = file_at w p" "set (backups w') \<subseteq> set (backups w)" by auto
      with P assms show "?R w'" by (auto simp: replaced_def rows_in_def view_def)
    qed simp
  qed
qed

end
