(* ===== verification/DatabaseRun.thy ===== *)
theory DatabaseRun
  imports DatabaseGate
begin

text \<open>
  Runs of the lock gate from end to end: \<open>SyncDatabase\<close> either leaves the database that was there
  or puts a whole one of the publisher's in its place, and \<open>RollbackDatabase\<close> puts a kept copy back.
\<close>

section \<open>The copy\<close>

text \<open>\<open>C p\<close>: the contents the publisher has had for \<open>p\<close>. A stream that ends without an error is one of them.\<close>

definition streams :: "remote_fs \<Rightarrow> (string \<Rightarrow> string set) \<Rightarrow> bool" where
  "streams rem C \<longleftrightarrow> remote_ok rem \<and> (\<forall>p w body w'. r_OpenRange rem p 0 0 w = (Inr (body, None), w') \<longrightarrow> concat body \<in> C p)"

lemma streams_ok: "streams rem C \<Longrightarrow> remote_ok rem"
  by (simp add: streams_def)

lemma streamsD: "streams rem C \<Longrightarrow> r_OpenRange rem p 0 0 w = (Inr (body, None), w') \<Longrightarrow> concat body \<in> C p"
  unfolding streams_def by blast

text \<open>
  Before the copy of what is there is taken, nothing but the staging file differs from the start (\<open>waiting\<close>);
  \<open>arrived\<close>: the staging file is a whole database.
\<close>

definition waiting :: "(string \<Rightarrow> bool) \<Rightarrow> pair \<Rightarrow> string \<Rightarrow> (string \<Rightarrow> (string \<times> time) option) \<Rightarrow> backup list \<Rightarrow>
    (string \<Rightarrow> (string \<times> time) option) \<times> backup list \<Rightarrow> bool" where
  "waiting D pr rel f0 bs v \<longleftrightarrow> rows_in D (pair_ID pr) bs \<and> snd v = bs \<and> (\<forall>p. p \<noteq> incomingPath pr rel \<longrightarrow> fst v p = f0 p)"

definition arrived :: "(string \<Rightarrow> bool) \<Rightarrow> pair \<Rightarrow> string \<Rightarrow> (string \<Rightarrow> (string \<times> time) option) \<Rightarrow> backup list \<Rightarrow> (string \<times> time) \<Rightarrow>
    (string \<Rightarrow> (string \<times> time) option) \<times> backup list \<Rightarrow> bool" where
  "arrived D pr rel f0 bs f v \<longleftrightarrow> waiting D pr rel f0 bs v \<and> fst v (incomingPath pr rel) = Some f"

lemma waiting_incoming:
  assumes "waiting D pr rel f0 bs (view w)" and "\<forall>p. p \<noteq> incomingPath pr rel \<longrightarrow> file_at w' p = file_at w p" and "backups w' = backups w"
  shows "waiting D pr rel f0 bs (view w')"
  using assms by (auto simp: waiting_def view_def)

lemma waiting_staged: "waiting D pr rel f0 bs v \<Longrightarrow> staged D pr rel f0 v"
  by (auto simp: waiting_def staged_def)

lemma arrived_waiting: "arrived D pr rel f0 bs f v \<Longrightarrow> waiting D pr rel f0 bs v"
  by (simp add: arrived_def)

lemma arrived_staged: "arrived D pr rel f0 bs f v \<Longrightarrow> staged D pr rel f0 v"
  by (rule waiting_staged) (rule arrived_waiting)

lemma waiting_over: "viewless m \<Longrightarrow> triple (\<lambda>w. waiting D pr rel f0 bs (view w)) m (\<lambda>_ w. waiting D pr rel f0 bs (view w)) (\<lambda>w. waiting D pr rel f0 bs (view w))"
  by (rule triple_view)

lemma arrived_over: "viewless m \<Longrightarrow> triple (\<lambda>w. arrived D pr rel f0 bs f (view w)) m (\<lambda>_ w. arrived D pr rel f0 bs f (view w)) (\<lambda>w. staged D pr rel f0 (view w))"
  by (rule triple_conseq [OF triple_view [where P = "arrived D pr rel f0 bs f"]]) (auto dest: arrived_staged)

lemma copy_waiting:
  assumes "waiting D pr rel f0 bs (view w)" and "file_at w (incomingPath pr rel) = Some ([], t)"
    and "copy_at (incomingPath pr rel) 0 body w = (r, w')"
  shows "waiting D pr rel f0 bs (view w')" and "r = Inr n \<Longrightarrow> \<exists>t'. arrived D pr rel f0 bs (concat body, t') (view w') \<and> n = int (length (concat body))"
proof -
  from copy_at_append [of "incomingPath pr rel" "[]", simplified, OF assms(3,2)] obtain b' t' where
    c: "file_at w' = (file_at w)(incomingPath pr rel := Some (b', t'))" "\<forall>n. r = Inr n \<longrightarrow> b' = concat body \<and> n = int (length b')" by auto
  moreover have "backups w' = backups w" by (rule tables_eq(9) [OF keepsD [OF store_copy_at assms(3)]])
  ultimately show S: "waiting D pr rel f0 bs (view w')" by (intro waiting_incoming [OF assms(1)]) auto
  show "\<exists>t'. arrived D pr rel f0 bs (concat body, t') (view w') \<and> n = int (length (concat body))" if "r = Inr n"
    using c that S by (auto simp: arrived_def view_def)
qed

lemma fetchDatabase_waiting:
  assumes rem: "streams (en_remote E) C"
  shows "triple (\<lambda>w. waiting D pr rel f0 bs (view w)) (fetchDatabase E pr rel (incomingPath pr rel))
    (\<lambda>n w. \<exists>b t. b \<in> C (remotePath pr rel) \<and> n = int (length b) \<and> arrived D pr rel f0 bs (b, t) (view w))
    (\<lambda>w. waiting D pr rel f0 bs (view w))"
proof -
  let ?inc = "incomingPath pr rel"
  let ?S = "\<lambda>w. waiting D pr rel f0 bs (view w)"
  let ?O = "\<lambda>w. ?S w \<and> (\<exists>t. file_at w ?inc = Some ([], t))"
  let ?B = "\<lambda>body err w. ?O w \<and> (err = None \<longrightarrow> concat body \<in> C (remotePath pr rel))"
  let ?D = "\<lambda>body n w. \<exists>t. n = int (length (concat body)) \<and> arrived D pr rel f0 bs (concat body, t) (view w)"
  have opened: "triple ?S (os_OpenTrunc ?inc) (\<lambda>_. ?O) ?S"
    by (rule tripleI) (auto dest!: os_OpenTrunc_cases elim!: waiting_incoming)
  have asked: "triple ?O (r_OpenRange (en_remote E) (remotePath pr rel) 0 0) (\<lambda>(body, err). ?B body err) ?S"
  proof (rule tripleI)
    fix w x w'
    assume O: "?O w" and run: "r_OpenRange (en_remote E) (remotePath pr rel) 0 0 w = (Inr x, w')"
    have "view w' = view w" by (rule keepsD [OF viewless_env_only [OF remote_okD(4) [OF streams_ok [OF rem]]] run])
    with O have "?O w'" by (simp add: view_def)
    with run streamsD [OF rem] show "(case x of (body, err) \<Rightarrow> ?B body err) w'" by (cases x) auto
  next
    fix w e w'
    assume O: "?O w" and run: "r_OpenRange (en_remote E) (remotePath pr rel) 0 0 w = (Inl e, w')"
    have "view w' = view w" by (rule keepsD [OF viewless_env_only [OF remote_okD(4) [OF streams_ok [OF rem]]] run])
    with O show "?S w'" by simp
  qed
  have copied: "triple (?B body err) (copy_at ?inc 0 body) (\<lambda>n w. (err = None \<longrightarrow> concat body \<in> C (remotePath pr rel)) \<and> ?D body n w) ?S" for body err
  proof (rule tripleI)
    fix w n w'
    assume B: "?B body err w" and run: "copy_at ?inc 0 body w = (Inr n, w')"
    then obtain t where t: "file_at w ?inc = Some ([], t)" by blast
    have "waiting D pr rel f0 bs (view w)" using B by blast
    from copy_waiting(2) [OF this t run refl] B show "(err = None \<longrightarrow> concat body \<in> C (remotePath pr rel)) \<and> ?D body n w'" by blast
  next
    fix w e w'
    assume B: "?B body err w" and run: "copy_at ?inc 0 body w = (Inl e, w')"
    then obtain t where t: "file_at w ?inc = Some ([], t)" by blast
    have "waiting D pr rel f0 bs (view w)" using B by blast
    from copy_waiting(1) [OF this t run] show "?S w'" .
  qed
  have flushed: "triple (\<lambda>w. (err = None \<longrightarrow> concat body \<in> C (remotePath pr rel)) \<and> ?D body n w)
      (case err of Some e \<Rightarrow> throwE (EWrap ''copy'' e)
       | None \<Rightarrow> bindE (wrapE ''flush the staging file'' (os_touch ?inc)) (\<lambda>_. returnE n))
      (\<lambda>n w. \<exists>b t. b \<in> C (remotePath pr rel) \<and> n = int (length b) \<and> arrived D pr rel f0 bs (b, t) (view w)) ?S" for body err n
  proof (cases err)
    case (Some e)
    then show ?thesis by (auto intro!: triple_throw simp: arrived_def)
  next
    case None
    have touched: "triple (\<lambda>w. concat body \<in> C (remotePath pr rel) \<and> ?D body n w) (os_touch ?inc)
        (\<lambda>_ w. concat body \<in> C (remotePath pr rel) \<and> ?D body n w) ?S"
      by (rule triple_keeps [OF viewless_touch]) (auto simp: arrived_def)
    show ?thesis unfolding None option.case
      by (rule triple_pre, rule triple_bind [OF triple_wrap [OF touched]], rule triple_return) auto
  qed
  show ?thesis
    unfolding fetchDatabase_def
    by (rule triple_bind [OF triple_wrap [OF waiting_over [OF viewless_makeDir]]], rule triple_bind [OF triple_wrap [OF opened]],
        rule triple_bind [OF asked], rule triple_prod, rule triple_bind [OF triple_wrap [OF copied]], rule flushed)
qed

section \<open>The move\<close>

lemma give_up_staged:
  assumes "\<And>w. staged D pr rel f0 (view w) \<Longrightarrow> Q (res, Some e) w"
  shows "triple (\<lambda>w. staged D pr rel f0 (view w)) (give_up (incomingPath pr rel) res e) Q X"
  unfolding give_up_def
  by (rule triple_bind [OF triple_pre [OF staged_discard]], assumption, rule triple_return) (rule assms)

lemma stamp_arrived:
  "triple (\<lambda>w. arrived D pr rel f0 bs (b, t) (view w)) (os_Chtimes (incomingPath pr rel) mt)
     (\<lambda>_ w. arrived D pr rel f0 bs (b, mt) (view w)) (\<lambda>w. staged D pr rel f0 (view w))"
proof -
  have "(r = Inr () \<longrightarrow> arrived D pr rel f0 bs (b, mt) (view w')) \<and> staged D pr rel f0 (view w')"
    if A: "arrived D pr rel f0 bs (b, t) (view w)" and run: "os_Chtimes (incomingPath pr rel) mt w = (r, w')" for w r w'
  proof -
    have "file_at w (incomingPath pr rel) = Some (b, t)" using A by (simp add: arrived_def view_def)
    note c = os_Chtimes_cases [OF run this]
    have "backups w' = backups w" by (rule tables_eq(9) [OF keepsD [OF store_os(5) run]])
    with c have "waiting D pr rel f0 bs (view w')" by (intro waiting_incoming [OF arrived_waiting [OF A]]) auto
    with c show ?thesis by (auto simp: arrived_def view_def waiting_staged)
  qed
  then show ?thesis by (intro tripleI) auto
qed

text \<open>The copy of what is there: \<open>copy_made\<close>, its row and its file, while \<open>saved\<close> has the staging file and \<open>moved\<close> the database.\<close>

definition copy_made :: "engine \<Rightarrow> pair \<Rightarrow> string \<Rightarrow> backup_reason \<Rightarrow> (string \<Rightarrow> (string \<times> time) option) \<Rightarrow> backup list \<Rightarrow> backup option \<Rightarrow>
    (string \<Rightarrow> (string \<times> time) option) \<times> backup list \<Rightarrow> bool" where
  "copy_made E pr rel reason f0 bs bk v = (case bk of
     None \<Rightarrow> f0 (localPath pr rel) = None
   | Some k \<Rightarrow> \<exists>g. f0 (localPath pr rel) = Some g \<and> kept_copy E pr rel reason g k \<and> f0 (b_Path k) = None \<and>
       b_ID k = next_rowid (map b_ID bs) \<and> snd v = bs @ [k] \<and> fst v (b_Path k) = Some g)"

definition saved :: "(string \<Rightarrow> bool) \<Rightarrow> engine \<Rightarrow> pair \<Rightarrow> string \<Rightarrow> backup_reason \<Rightarrow> (string \<Rightarrow> (string \<times> time) option) \<Rightarrow> backup list \<Rightarrow>
    string \<times> time \<Rightarrow> backup option \<Rightarrow> (string \<Rightarrow> (string \<times> time) option) \<times> backup list \<Rightarrow> bool" where
  "saved D E pr rel reason f0 bs f bk v \<longleftrightarrow> staged D pr rel f0 v \<and> fst v (incomingPath pr rel) = Some f \<and> copy_made E pr rel reason f0 bs bk v"

definition moved :: "(string \<Rightarrow> bool) \<Rightarrow> engine \<Rightarrow> pair \<Rightarrow> string \<Rightarrow> backup_reason \<Rightarrow> (string \<Rightarrow> (string \<times> time) option) \<Rightarrow> backup list \<Rightarrow>
    string \<times> time \<Rightarrow> backup option \<Rightarrow> (string \<Rightarrow> (string \<times> time) option) \<times> backup list \<Rightarrow> bool" where
  "moved D E pr rel reason f0 bs f bk v \<longleftrightarrow> replaced D pr rel f0 f v \<and> copy_made E pr rel reason f0 bs bk v"

lemma backup_arrived:
  assumes paths: "db_paths E pr rel" and cp: "copies_in D E pr rel"
  shows "triple (\<lambda>w. arrived D pr rel f0 bs f (view w)) (backupDatabase l E pr rel reason)
    (\<lambda>bk w. saved D E pr rel reason f0 bs f bk (view w)) (\<lambda>w. staged D pr rel f0 (view w))"
proof -
  have ne: "incomingPath pr rel \<noteq> localPath pr rel" "\<not> D (localPath pr rel)" "\<not> D (incomingPath pr rel)"
    and sub: "\<And>p. below (backupDir E pr) p \<Longrightarrow> D p"
    using paths cp by (auto simp: db_paths_def copies_in_def)
  have "staged D pr rel f0 (view w') \<and> (\<forall>bk. r = Inr bk \<longrightarrow> saved D E pr rel reason f0 bs f bk (view w'))"
    if A: "arrived D pr rel f0 bs f (view w)" and run: "backupDatabase l E pr rel reason w = (r, w')" for w r w'
  proof -
    note R = backupDatabase_run [OF paths run]
    have at: "file_at w p = f0 p" if "p \<noteq> incomingPath pr rel" for p using A that by (simp add: arrived_def waiting_def view_def)
    have bs: "backups w = bs" and inc: "file_at w (incomingPath pr rel) = Some f" using A by (simp_all add: arrived_def waiting_def view_def)
    have "rows_in D (pair_ID pr) (backups w')"
      using A R sub by (auto simp: arrived_def waiting_def view_def rows_in_def kept_copy_def split: sum.splits option.splits)
    moreover have same: "\<forall>p. \<not> D p \<longrightarrow> file_at w' p = file_at w p" using R sub by blast
    ultimately have st: "staged D pr rel f0 (view w')" using at by (simp add: staged_def view_def)
    have "copy_made E pr rel reason f0 bs bk (view w')" if r: "r = Inr bk" for bk
    proof (cases bk)
      case None
      with R r ne(1) at show ?thesis by (simp add: copy_made_def)
    next
      case (Some k)
      with R r obtain g where g: "file_at w (localPath pr rel) = Some g" "file_at w (b_Path k) = None"
        "file_at w' = (file_at w)(b_Path k := Some g)" "backups w' = backups w @ [k]" "b_ID k = next_rowid (map b_ID (backups w))"
        "kept_copy E pr rel reason g k" by auto
      have "b_Path k \<noteq> incomingPath pr rel" using g(6) sub ne(3) by (auto simp: kept_copy_def)
      with g at ne(1) bs show ?thesis by (auto simp: copy_made_def Some view_def)
    qed
    with st same inc ne(3) show ?thesis by (auto simp: saved_def view_def)
  qed
  then show ?thesis by (intro tripleI) blast+
qed

lemma rename_saved:
  assumes paths: "db_paths E pr rel" and cp: "copies_in D E pr rel"
  shows "triple (\<lambda>w. saved D E pr rel reason f0 bs f bk (view w)) (os_Rename (incomingPath pr rel) (localPath pr rel))
    (\<lambda>_ w. moved D E pr rel reason f0 bs f bk (view w)) (\<lambda>w. staged D pr rel f0 (view w))"
proof -
  have ne: "incomingPath pr rel \<noteq> localPath pr rel" using paths by (auto simp: db_paths_def)
  have out: "b_Path k \<noteq> incomingPath pr rel" "b_Path k \<noteq> localPath pr rel" if "kept_copy E pr rel reason g k" for k g
    using that cp by (auto simp: kept_copy_def copies_in_def)
  have "case r of Inl _ \<Rightarrow> staged D pr rel f0 (view w') | Inr _ \<Rightarrow> moved D E pr rel reason f0 bs f bk (view w')"
    if A: "saved D E pr rel reason f0 bs f bk (view w)" and run: "os_Rename (incomingPath pr rel) (localPath pr rel) w = (r, w')" for w r w'
  proof -
    have "file_at w (incomingPath pr rel) = Some (fst f, snd f)" using A by (simp add: saved_def view_def)
    note c = os_Rename_file [OF run this]
    have b: "backups w' = backups w" by (rule tables_eq(9) [OF keepsD [OF store_os(4) run]])
    show ?thesis
    proof (cases r)
      case (Inl e)
      with c A b show ?thesis by (auto simp: saved_def staged_def view_def)
    next
      case (Inr u)
      with c A b ne have "replaced D pr rel f0 f (view w')" by (auto simp: saved_def staged_def replaced_def view_def)
      moreover have "copy_made E pr rel reason f0 bs bk (view w')"
        using A c b Inr out by (auto simp: saved_def copy_made_def view_def split: option.splits)
      ultimately show ?thesis by (simp add: Inr moved_def)
    qed
  qed
  then show ?thesis by (intro tripleI) fastforce+
qed

text \<open>
  What is said of the copy at the end. Pruning keeps the newest copies, and at least one: the new copy is there
  unless the clock has gone back, which makes an older row the newer one, or a row has lost its file and its path was free.
\<close>

definition copy_kept :: "engine \<Rightarrow> pair \<Rightarrow> string \<Rightarrow> backup_reason \<Rightarrow> (string \<Rightarrow> (string \<times> time) option) \<Rightarrow> backup list \<Rightarrow> backup option \<Rightarrow>
    (string \<Rightarrow> (string \<times> time) option) \<times> backup list \<Rightarrow> bool" where
  "copy_kept E pr rel reason f0 bs bk v = (case bk of
     None \<Rightarrow> f0 (localPath pr rel) = None
   | Some k \<Rightarrow> \<exists>g. f0 (localPath pr rel) = Some g \<and> kept_copy E pr rel reason g k \<and>
       ((\<forall>r \<in> set bs. b_PairID r = pair_ID pr \<longrightarrow> b_TS r \<le> b_TS k \<and> f0 (b_Path r) \<noteq> None) \<longrightarrow>
         k \<in> set (snd v) \<and> fst v (b_Path k) = Some g))"

lemma copy_made_kept: "copy_made E pr rel reason f0 bs bk v \<Longrightarrow> copy_kept E pr rel reason f0 bs bk v"
  by (auto simp: copy_made_def copy_kept_def split: option.splits)

lemma prune_moved:
  assumes "\<not> D (localPath pr rel)"
  shows "triple (\<lambda>w. moved D E pr rel reason f0 bs f bk (view w)) (pruneBackups E pr)
    (\<lambda>_ w. replaced D pr rel f0 f (view w) \<and> copy_kept E pr rel reason f0 bs bk (view w)) (\<lambda>_. True)"
proof (rule tripleI)
  fix w u w'
  assume M: "moved D E pr rel reason f0 bs f bk (view w)" and run: "pruneBackups E pr w = (Inr u, w')"
  have "replaced D pr rel f0 f (view w')"
    by (rule tripleD [OF replaced_prune [where D = D and ?f0.0 = f0 and f = f, OF assms] _ run]) (use M in \<open>simp add: moved_def\<close>)
  moreover have "copy_kept E pr rel reason f0 bs bk (view w')"
  proof (cases bk)
    case None
    with M show ?thesis by (simp add: moved_def copy_made_def copy_kept_def)
  next
    case (Some k)
    with M obtain g where g: "f0 (localPath pr rel) = Some g" "kept_copy E pr rel reason g k" "f0 (b_Path k) = None"
      "b_ID k = next_rowid (map b_ID bs)" "backups w = bs @ [k]" "file_at w (b_Path k) = Some g"
      by (auto simp: moved_def copy_made_def view_def)
    have "k \<in> set (backups w') \<and> file_at w' (b_Path k) = file_at w (b_Path k)"
      if "\<forall>r \<in> set bs. b_PairID r = pair_ID pr \<longrightarrow> b_TS r \<le> b_TS k \<and> f0 (b_Path r) \<noteq> None"
      by (rule pruneBackups_newest [OF run g(5) _ g(4)]) (use g(2,3) that in \<open>auto simp: kept_copy_def\<close>)
    with g show ?thesis by (simp add: copy_kept_def Some view_def)
  qed
  ultimately show "replaced D pr rel f0 f (view w') \<and> copy_kept E pr rel reason f0 bs bk (view w')" ..
qed simp

section \<open>A run of the gate\<close>

lemma triple_here: "(\<And>w0. P w0 \<Longrightarrow> triple (\<lambda>w. w = w0) m Q X) \<Longrightarrow> triple P m Q X"
  by (auto simp: triple_def)

lemma triple_ran: "triple (\<lambda>w. w = w0) m Q X \<Longrightarrow> triple (\<lambda>w. w = w0) m (\<lambda>a w'. m w0 = (Inr a, w') \<and> Q a w') X"
  by (auto simp: triple_def split: prod.splits sum.splits)

text \<open>Nobody has the database open: the publisher says that its lock is not there, and none is here.\<close>

definition unlocked :: "engine \<Rightarrow> pair \<Rightarrow> world \<Rightarrow> bool" where
  "unlocked E pr w \<longleftrightarrow> (let rel = jcc_Lock (opt_JCC (en_opts E)) in
     (\<exists>w'. r_Exists (en_remote E) (remotePath pr rel) w = (Inr False, w')) \<and> file_at w (localPath pr rel) = None)"

text \<open>
  The second look: in the state \<open>w2\<close> that the copy ended in, with the publisher's bytes \<open>b\<close> whole in the staging file
  and the old database in place, nobody had the database open (or the override was given), and what was left of the
  run, \<open>install\<close>, went on from the state this look left.
\<close>

definition looked_again :: "engine \<Rightarrow> pair \<Rightarrow> string \<Rightarrow> bool \<Rightarrow> (string \<times> time) option \<Rightarrow> string \<Rightarrow> db_result \<times> error option \<Rightarrow> world \<Rightarrow> bool" where
  "looked_again E pr rel force was b r w' \<longleftrightarrow> (\<exists>w1 n w2 t locks w3 l same rm res.
     fetchDatabase E pr rel (incomingPath pr rel) w1 = (Inr n, w2) \<and>
     file_at w2 (incomingPath pr rel) = Some (b, t) \<and> file_at w2 (localPath pr rel) = was \<and>
     (force \<or> unlocked E pr w2) \<and> probeLocks E pr w2 = (Inr locks, w3) \<and>
     install l same E pr (incomingPath pr rel) rel rm res w3 = (Inr r, w'))"

lemma localLock_free:
  assumes "localLock E pr rel w = (Inr lk, w')" and "\<not> lk_Held lk"
  shows "file_at w (localPath pr rel) = None"
proof -
  from assms obtain r w1 where s: "os_Lstat (localPath pr rel) w = (r, w1)" and "\<exists>e. r = Inl e \<and> errors_Is e ENotExist"
    unfolding localLock_def Let_def
    by (auto elim!: bindE_InrE tryE_InrE simp: returnE_run throwE_run dated_lock_def Let_def split: sum.splits if_splits)
  then show ?thesis using os_Stat_cases [OF s] by (auto simp: file_at_def)
qed

lemma remoteLock_free:
  assumes "remoteLock E pr rel w = (Inr lk, w')" and "\<not> lk_Held lk"
  shows "\<exists>w1. r_Exists (en_remote E) (remotePath pr rel) w = (Inr False, w1)"
  using assms unfolding remoteLock_def Let_def
  by (auto elim!: bindE_InrE tryE_InrE simp: returnE_run throwE_run dated_lock_def Let_def split: sum.splits if_splits)

lemma probeLocks_free:
  assumes ok: "remote_ok (en_remote E)" and run: "probeLocks E pr w = (Inr locks, w')" and "heldLocks locks = []"
  shows "unlocked E pr w"
proof -
  from run obtain there w1 here where s: "remoteLock E pr (jcc_Lock (opt_JCC (en_opts E))) w = (Inr there, w1)"
      "localLock E pr (jcc_Lock (opt_JCC (en_opts E))) w1 = (Inr here, w')" and l: "locks = [there, here]"
    unfolding probeLocks_def Let_def by (auto elim!: bindE_InrE simp: returnE_run)
  have held: "\<not> lk_Held there" "\<not> lk_Held here" using assms(3) unfolding l heldLocks_def by (auto split: if_splits)
  have "viewless (remoteLock E pr (jcc_Lock (opt_JCC (en_opts E))))"
    by (rule viewless_remoteLock [OF ok])
  from keepsD [OF this s(1)] localLock_free [OF s(2) held(2)] remoteLock_free [OF s(1) held(1)] show ?thesis
    by (simp add: unlocked_def Let_def view_def)
qed

text \<open>
  The two ends of a run. Where the database was replaced, the locks were looked at again, the result names the copy of what
  was there, and says size and time of what is.
\<close>

definition swapped :: "bool \<Rightarrow> string \<times> time \<Rightarrow> db_result \<Rightarrow> error option \<Rightarrow> bool" where
  "swapped force f res err \<longleftrightarrow> (force \<or> heldLocks (dr_Locks res) = []) \<and> dr_Deferred res = [] \<and> dr_Skipped res = [] \<and>
     (if dr_Replaced res then err = None \<and> dr_Bytes res = int (length (fst f)) \<and> dr_MTime res = Some (snd f) else err \<noteq> None)"

definition gate_end :: "(string \<Rightarrow> bool) \<Rightarrow> engine \<Rightarrow> pair \<Rightarrow> string \<Rightarrow> bool \<Rightarrow> string set \<Rightarrow> (string \<Rightarrow> (string \<times> time) option) \<Rightarrow> backup list \<Rightarrow>
    db_result \<times> error option \<Rightarrow> world \<Rightarrow> bool" where
  "gate_end D E pr rel force Bs f0 bs r w \<longleftrightarrow> (case r of (res, err) \<Rightarrow>
     staged D pr rel f0 (view w) \<and> \<not> dr_Replaced res \<or>
     (\<exists>b t. b \<in> Bs \<and> replaced D pr rel f0 (b, t) (view w) \<and> swapped force (b, t) res err \<and>
        copy_kept E pr rel BackupReplace f0 bs (dr_Backup res) (view w)))"

lemma gate_end_staged: "staged D pr rel f0 (view w) \<Longrightarrow> \<not> dr_Replaced res \<Longrightarrow> gate_end D E pr rel force Bs f0 bs (res, err) w"
  by (simp add: gate_end_def)

lemma gate_end_replaced:
  "b \<in> Bs \<Longrightarrow> replaced D pr rel f0 (b, t) (view w) \<Longrightarrow> swapped force (b, t) res err \<Longrightarrow>
   copy_kept E pr rel BackupReplace f0 bs (dr_Backup res) (view w) \<Longrightarrow> gate_end D E pr rel force Bs f0 bs (res, err) w"
  unfolding gate_end_def by blast

lemma moved_over:
  "viewless m \<Longrightarrow> triple (\<lambda>w. moved D E pr rel reason f0 bs f bk (view w)) m (\<lambda>_ w. moved D E pr rel reason f0 bs f bk (view w))
     (\<lambda>w. moved D E pr rel reason f0 bs f bk (view w))"
  by (rule triple_view)

lemma install_end:
  assumes paths: "db_paths E pr rel" and cp: "copies_in D E pr rel" and b: "b \<in> Bs" "df_Size rem = int (length b)"
    and res: "force \<or> heldLocks (dr_Locks res) = []" "dr_Deferred res = []" "dr_Skipped res = []" "\<not> dr_Replaced res"
  shows "triple (\<lambda>w. arrived D pr rel f0 bs (b, t) (view w)) (install l same E pr (incomingPath pr rel) rel rem res)
    (gate_end D E pr rel force Bs f0 bs) (\<lambda>_. True)"
proof -
  let ?moved = "\<lambda>bk w. moved D E pr rel BackupReplace f0 bs (b, df_MTime rem) bk (view w)"
  have up: "triple (\<lambda>w. staged D pr rel f0 (view w)) (give_up (incomingPath pr rel) res' e) (gate_end D E pr rel force Bs f0 bs) (\<lambda>_. True)"
    if "\<not> dr_Replaced res'" for res' e
    by (rule give_up_staged) (rule gate_end_staged [OF _ that])
  have told: "triple (?moved bk) (bindE (pruneBackups E pr) (\<lambda>_.
        bindE (noteDB same pr LevelInfo KindDBReplaced) (\<lambda>_.
        returnE (res\<lparr>dr_Backup := bk, dr_Replaced := True, dr_Bytes := df_Size rem, dr_MTime := Some (df_MTime rem)\<rparr>, None))))
      (gate_end D E pr rel force Bs f0 bs) (\<lambda>_. True)" for bk
  proof (rule triple_bind [OF prune_moved], use cp in \<open>simp add: copies_in_def\<close>, rule triple_bind,
      rule triple_over [where P = "\<lambda>v. replaced D pr rel f0 (b, df_MTime rem) v \<and> copy_kept E pr rel BackupReplace f0 bs bk v", OF viewless_noteDB], simp,
      rule triple_return)
    fix w
    assume "replaced D pr rel f0 (b, df_MTime rem) (view w) \<and> copy_kept E pr rel BackupReplace f0 bs bk (view w)"
    then show "gate_end D E pr rel force Bs f0 bs (res\<lparr>dr_Backup := bk, dr_Replaced := True, dr_Bytes := df_Size rem, dr_MTime := Some (df_MTime rem)\<rparr>, None) w"
      by (intro gate_end_replaced [OF b(1)]) (use res b(2) in \<open>auto simp: swapped_def\<close>)
  qed
  have unrecorded: "triple (?moved bk) (returnE (res\<lparr>dr_Backup := bk\<rparr>, Some e)) (gate_end D E pr rel force Bs f0 bs) (\<lambda>_. True)" for bk e
    by (rule triple_return, rule gate_end_replaced [OF b(1)]) (use res copy_made_kept in \<open>auto simp: swapped_def moved_def\<close>)
  show ?thesis
    unfolding install_def Let_def
    by (rule triple_try_case [OF triple_wrap [OF stamp_arrived]], rule up, rule res(4),
        rule triple_try_case [OF arrived_over [OF viewless_settleFile]], rule up, rule res(4),
        rule triple_try_case [OF backup_arrived [OF paths cp]], rule up, rule res(4),
        rule triple_try_case [OF triple_wrap [OF rename_saved [OF paths cp]]], rule up, simp add: res(4),
        rule triple_try_case [OF moved_over [OF viewless_recordFile]], rule unrecorded, rule told)
qed

text \<open>The end of a run that may have gone through to the move.\<close>

definition gate_done :: "(string \<Rightarrow> bool) \<Rightarrow> engine \<Rightarrow> pair \<Rightarrow> string \<Rightarrow> bool \<Rightarrow> string set \<Rightarrow> (string \<Rightarrow> (string \<times> time) option) \<Rightarrow> backup list \<Rightarrow>
    db_result \<times> error option \<Rightarrow> world \<Rightarrow> bool" where
  "gate_done D E pr rel force Bs f0 bs r w \<longleftrightarrow>
     staged D pr rel f0 (view w) \<and> \<not> dr_Replaced (fst r) \<or>
     (\<exists>b t. b \<in> Bs \<and> replaced D pr rel f0 (b, t) (view w) \<and> swapped force (b, t) (fst r) (snd r) \<and>
        copy_kept E pr rel BackupReplace f0 bs (dr_Backup (fst r)) (view w) \<and> looked_again E pr rel force (f0 (localPath pr rel)) b r w)"

lemma gate_done_staged: "staged D pr rel f0 (view w) \<Longrightarrow> \<not> dr_Replaced res \<Longrightarrow> gate_done D E pr rel force Bs f0 bs (res, err) w"
  by (simp add: gate_done_def)

lemma gate_done_through:
  assumes "gate_end D E pr rel force {b} f0 bs r w" and "b \<in> Bs" and "looked_again E pr rel force (f0 (localPath pr rel)) b r w"
  shows "gate_done D E pr rel force Bs f0 bs r w"
  using assms by (cases r) (auto simp: gate_end_def gate_done_def)

lemma transfer_end:
  assumes paths: "db_paths E pr rel" and cp: "copies_in D E pr rel" and rem: "streams (en_remote E) C"
    and res: "dr_Deferred res = []" "dr_Skipped res = []" "\<not> dr_Replaced res"
  shows "triple (\<lambda>w. waiting D pr rel f0 bs (view w)) (transfer_db l same E pr rel rm force res)
    (gate_done D E pr rel force (C (remotePath pr rel)) f0 bs) (\<lambda>_. True)" (is "triple _ _ ?G _")
proof -
  let ?inc = "incomingPath pr rel"
  let ?fetched = "\<lambda>n w. \<exists>w1. fetchDatabase E pr rel ?inc w1 = (Inr n, w) \<and>
     (\<exists>b t. b \<in> C (remotePath pr rel) \<and> n = int (length b) \<and> arrived D pr rel f0 bs (b, t) (view w))"
  have up: "triple (\<lambda>w. staged D pr rel f0 (view w)) (give_up ?inc res e) ?G (\<lambda>_. True)" for e
    by (rule give_up_staged) (rule gate_done_staged [OF _ res(3)])
  have held: "triple (\<lambda>w. arrived D pr rel f0 bs (b, t) (view w)) (bindE (discard ?inc) (\<lambda>_.
      bindE (noteDeferred same pr hs) (\<lambda>_. returnE (res\<lparr>dr_Locks := after, dr_Deferred := msg\<rparr>, None)))) ?G (\<lambda>_. True)" for b t hs after msg
    by (rule triple_pre [OF _ arrived_staged], rule triple_bind [OF staged_discard], rule triple_bind,
        rule triple_over [OF viewless_noteDeferred], simp, rule triple_return, erule gate_done_staged) (simp_all add: res(3))
  have fetch: "triple (\<lambda>w. waiting D pr rel f0 bs (view w)) (fetchDatabase E pr rel ?inc) ?fetched (\<lambda>w. staged D pr rel f0 (view w))"
    by (rule tripleI) (blast dest: tripleD [OF fetchDatabase_waiting [OF rem]] tripleD_Inl [OF fetchDatabase_waiting [OF rem]] waiting_staged)+
  have ne: "?inc \<noteq> localPath pr rel" using paths by (simp add: db_paths_def)
  have checked: "triple (?fetched n)
     (if n \<noteq> df_Size rm then give_up ?inc res (EMsg ''short copy'')
      else bindE (tryE (probeLocks E pr)) (\<lambda>r. case r of Inl e \<Rightarrow> give_up ?inc res e | Inr after \<Rightarrow>
        if heldLocks after \<noteq> [] \<and> \<not> force
        then bindE (discard ?inc) (\<lambda>_.
             bindE (noteDeferred same pr (heldLocks after)) (\<lambda>_.
             returnE (res\<lparr>dr_Locks := after, dr_Deferred := ''a lock was taken while the database was being copied''\<rparr>, None)))
        else install l same E pr ?inc rel rm (res\<lparr>dr_Locks := after\<rparr>))) ?G (\<lambda>_. True)" for n
  proof (rule triple_here)
    fix w2
    assume "?fetched n w2"
    then obtain w1 b t where f: "fetchDatabase E pr rel ?inc w1 = (Inr n, w2)" and b: "b \<in> C (remotePath pr rel)" "n = int (length b)"
      and A: "arrived D pr rel f0 bs (b, t) (view w2)" by blast
    have looked: "triple (\<lambda>w. w = w2) (probeLocks E pr) (\<lambda>locks w. probeLocks E pr w2 = (Inr locks, w) \<and> arrived D pr rel f0 bs (b, t) (view w))
        (\<lambda>w. staged D pr rel f0 (view w))"
      by (rule triple_ran, rule triple_pre [OF arrived_over [OF viewless_probeLocks [OF streams_ok [OF rem]]]]) (use A in simp)
    have inst: "triple (\<lambda>w. probeLocks E pr w2 = (Inr after, w) \<and> arrived D pr rel f0 bs (b, t) (view w))
        (install l same E pr ?inc rel rm (res\<lparr>dr_Locks := after\<rparr>)) ?G (\<lambda>_. True)"
      if free: "\<not> (heldLocks after \<noteq> [] \<and> \<not> force)" and n: "n = df_Size rm" for after
    proof (rule triple_here)
      fix w3
      assume w3: "probeLocks E pr w2 = (Inr after, w3) \<and> arrived D pr rel f0 bs (b, t) (view w3)"
      have "triple (\<lambda>w. w = w3) (install l same E pr ?inc rel rm (res\<lparr>dr_Locks := after\<rparr>)) (gate_end D E pr rel force {b} f0 bs) (\<lambda>_. True)"
        by (rule triple_pre [OF install_end [OF paths cp, where b = b and t = t]]) (use w3 b n free res in auto)
      then show "triple (\<lambda>w. w = w3) (install l same E pr ?inc rel rm (res\<lparr>dr_Locks := after\<rparr>)) ?G (\<lambda>_. True)"
      proof (rule triple_conseq [OF triple_ran])
        fix r w'
        assume done_: "install l same E pr ?inc rel rm (res\<lparr>dr_Locks := after\<rparr>) w3 = (Inr r, w') \<and> gate_end D E pr rel force {b} f0 bs r w'"
        have "force \<or> unlocked E pr w2"
          using free probeLocks_free [OF streams_ok [OF rem]] w3 by blast
        with done_ w3 f A ne have "looked_again E pr rel force (f0 (localPath pr rel)) b r w'"
          unfolding looked_again_def arrived_def waiting_def view_def by (metis fst_conv)
        with done_ b(1) show "?G r w'" by (blast intro: gate_done_through)
      qed auto
    qed
    show "triple (\<lambda>w. w = w2)
     (if n \<noteq> df_Size rm then give_up ?inc res (EMsg ''short copy'')
      else bindE (tryE (probeLocks E pr)) (\<lambda>r. case r of Inl e \<Rightarrow> give_up ?inc res e | Inr after \<Rightarrow>
        if heldLocks after \<noteq> [] \<and> \<not> force
        then bindE (discard ?inc) (\<lambda>_.
             bindE (noteDeferred same pr (heldLocks after)) (\<lambda>_.
             returnE (res\<lparr>dr_Locks := after, dr_Deferred := ''a lock was taken while the database was being copied''\<rparr>, None)))
        else install l same E pr ?inc rel rm (res\<lparr>dr_Locks := after\<rparr>))) ?G (\<lambda>_. True)"
      by (rule triple_if, rule triple_pre [OF up], use A arrived_staged in blast,
          rule triple_try_case [OF looked], rule up, rule triple_if, rule triple_pre [OF held], blast, rule inst) simp_all
  qed
  show ?thesis
    unfolding transfer_db_def Let_def
    by (rule triple_try_case [OF fetch], rule up, rule checked)
qed

lemma DatabaseStatus_path: "DatabaseStatus E pr w = (Inr st, w') \<Longrightarrow> ds_Path st = gated E pr"
  unfolding DatabaseStatus_def Let_def by (auto split: if_splits elim!: bindE_InrE simp: returnE_run throwE_run)

lemma sync_end:
  assumes paths: "db_paths E pr (gated E pr)" and cp: "copies_in D E pr (gated E pr)" and rem: "streams (en_remote E) C"
  shows "triple (\<lambda>w. waiting D pr (gated E pr) f0 bs (view w)) (SyncDatabase l same E pr force)
    (gate_done D E pr (gated E pr) force (C (remotePath pr (gated E pr))) f0 bs) (\<lambda>_. True)" (is "triple ?S _ ?G _")
proof -
  note ok = streams_ok [OF rem]
  let ?st = "\<lambda>st w. ds_Path st = gated E pr \<and> ?S w"
  have out: "triple ?S (returnE (res, err)) ?G (\<lambda>_. True)" if "\<not> dr_Replaced res" for res err
    by (rule triple_return) (rule gate_done_staged [OF waiting_staged that])
  have looked: "triple ?S (DatabaseStatus E pr) ?st ?S"
    by (rule tripleI) (use keepsD [OF viewless_DatabaseStatus [OF ok]] DatabaseStatus_path in fastforce)+
  have seen: "triple (?st st) (case ds_Remote st of
           None \<Rightarrow> returnE (new_result force\<lparr>dr_Path := ds_Path st, dr_Locks := ds_Locks st, dr_Skipped := ''the publisher has no database''\<rparr>, None)
         | Some rem \<Rightarrow>
            if ds_InSync st
            then bindE (tryE (recordFile E pr (ds_Path st) (df_Size rem) (df_MTime rem) [] FileAdopted)) (\<lambda>r. case r of
                   Inl e \<Rightarrow> returnE (new_result force\<lparr>dr_Path := ds_Path st, dr_Locks := ds_Locks st\<rparr>, Some e)
                 | Inr _ \<Rightarrow> returnE (new_result force\<lparr>dr_Path := ds_Path st, dr_Locks := ds_Locks st, dr_Skipped := ''already the publisher's copy''\<rparr>, None))
            else if heldLocks (ds_Locks st) \<noteq> [] \<and> \<not> force
            then bindE (noteDeferred same pr (heldLocks (ds_Locks st))) (\<lambda>_.
                 returnE (new_result force\<lparr>dr_Path := ds_Path st, dr_Locks := ds_Locks st, dr_Deferred := ''a lock is held''\<rparr>, None))
            else bindE (tryE (checkSpace (opt_Reserve (en_opts E)) pr (df_Size rem))) (\<lambda>r. case r of
                   Inl e \<Rightarrow> returnE (new_result force\<lparr>dr_Path := ds_Path st, dr_Locks := ds_Locks st\<rparr>, Some e)
                 | Inr _ \<Rightarrow> transfer_db l same E pr (ds_Path st) rem force (new_result force\<lparr>dr_Path := ds_Path st, dr_Locks := ds_Locks st\<rparr>))) ?G (\<lambda>_. True)"
    for st
  proof (cases "ds_Remote st")
    case None
    show ?thesis unfolding None option.case by (rule triple_fact) (rule out, simp add: new_result_def)
  next
    case (Some rm)
    have adopt: "triple ?S (bindE (tryE (recordFile E pr (ds_Path st) (df_Size rm) (df_MTime rm) [] FileAdopted)) (\<lambda>r. case r of
         Inl e \<Rightarrow> returnE (res, Some e) | Inr _ \<Rightarrow> returnE (res', None))) ?G (\<lambda>_. True)" if "\<not> dr_Replaced res" "\<not> dr_Replaced res'" for res res'
      by (rule triple_try_case [OF waiting_over [OF viewless_recordFile]]) (rule out, rule that)+
    have waits: "triple ?S (bindE (noteDeferred same pr hs) (\<lambda>_. returnE (res, None))) ?G (\<lambda>_. True)" if "\<not> dr_Replaced res" for res hs
      by (rule triple_bind, rule triple_over [OF viewless_noteDeferred], simp) (rule out [OF that])
    have go: "triple ?S (bindE (tryE (checkSpace (opt_Reserve (en_opts E)) pr (df_Size rm))) (\<lambda>r. case r of
         Inl e \<Rightarrow> returnE (res, Some e) | Inr _ \<Rightarrow> transfer_db l same E pr (ds_Path st) rm force res)) ?G (\<lambda>_. True)"
      if "ds_Path st = gated E pr" "dr_Deferred res = []" "dr_Skipped res = []" "\<not> dr_Replaced res" for res
      unfolding that(1)
      by (rule triple_try_case [OF waiting_over [OF viewless_checkSpace]], rule out, rule that(4), rule transfer_end [OF paths cp rem that(2-4)])
    show ?thesis unfolding Some option.case
      by (rule triple_fact, intro triple_if adopt waits go) (simp_all add: new_result_def)
  qed
  show ?thesis
    unfolding SyncDatabase_def Let_def
    by (intro triple_if, rule out, simp add: new_result_def, rule triple_try_case [OF looked], rule out, simp add: new_result_def, rule seen)
qed

text \<open>
  (C2) The lock gate. Whatever fails and wherever it stops, a run of \<open>SyncDatabase\<close> touches no file
  but the staging file, the database and the kept copies; and the database is either the very file
  that was there, or a whole file the publisher has had. In the second case, once the copy was whole in the staging file and
  with the old database still in place, the publisher answered that its lock was not there and no lock file was here
  (or the override was given), and the run went on from that look; and what was displaced is, after the pruning, in a
  file among the kept copies, with a row of its size, time and digest, unless a row of the pair is dated later than the new one
  or has lost its file. The result says \<open>Replaced\<close> exactly where it happened and was recorded.
\<close>

theorem database_gate:
  assumes "streams (en_remote E) C" and "rel = gated E pr" and "db_paths E pr rel"
    and "copies_in D E pr rel" and "rows_in D (pair_ID pr) (backups w)"
    and "SyncDatabase l same E pr force w = (Inr (res, err), w')"
  shows "(\<forall>p. p \<noteq> incomingPath pr rel \<and> p \<noteq> localPath pr rel \<and> \<not> D p \<longrightarrow> file_at w' p = file_at w p) \<and>
    (file_at w' (localPath pr rel) = file_at w (localPath pr rel) \<and> \<not> dr_Replaced res \<or>
     (\<exists>b t. b \<in> C (remotePath pr rel) \<and> file_at w' (localPath pr rel) = Some (b, t) \<and> swapped force (b, t) res err \<and>
        looked_again E pr rel force (file_at w (localPath pr rel)) b (res, err) w' \<and>
        copy_kept E pr rel BackupReplace (file_at w) (backups w) (dr_Backup res) (file_at w', backups w')))"
proof -
  have "waiting D pr (gated E pr) (file_at w) (backups w) (view w)" using assms(5) by (simp add: waiting_def view_def)
  from tripleD [OF sync_end [OF assms(3) [unfolded assms(2)] assms(4) [unfolded assms(2)] assms(1)] this assms(6)]
  have G: "gate_done D E pr rel force (C (remotePath pr rel)) (file_at w) (backups w) (res, err) w'" unfolding assms(2) .
  have ne: "localPath pr rel \<noteq> incomingPath pr rel" "\<not> D (localPath pr rel)" using assms(3,4) by (auto simp: db_paths_def copies_in_def)
  from G consider "staged D pr rel (file_at w) (view w')" "\<not> dr_Replaced res"
    | b t where "b \<in> C (remotePath pr rel)" "replaced D pr rel (file_at w) (b, t) (view w')" "swapped force (b, t) res err"
        "copy_kept E pr rel BackupReplace (file_at w) (backups w) (dr_Backup res) (view w')"
        "looked_again E pr rel force (file_at w (localPath pr rel)) b (res, err) w'"
    unfolding gate_done_def by auto
  then show ?thesis
  proof cases
    case 1
    with ne show ?thesis by (simp add: staged_def view_def)
  next
    case 2
    then show ?thesis by (auto simp: replaced_def view_def)
  qed
qed

section \<open>A rollback\<close>

lemma pickBackup_run:
  assumes "pickBackup pr i w = (Inr bk, w')"
  shows "bk \<in> set (backups w)" and "b_PairID bk = pair_ID pr" and "i > 0 \<Longrightarrow> b_ID bk = i" and "view w' = view w"
proof -
  have "bk \<in> set (backups w) \<and> b_PairID bk = pair_ID pr \<and> (i > 0 \<longrightarrow> b_ID bk = i) \<and> view w' = view w"
  proof (cases "i > 0")
    case True
    with assms obtain r w1 where q: "query (\<lambda>w. find (\<lambda>b. b_ID b = i) (backups w)) w = (Inr r, w1)" and r: "r = Some bk" "w' = w1"
      and p: "b_PairID bk = pair_ID pr"
      unfolding pickBackup_def DBBackupByID_def
      by (auto simp: returnE_run throwE_run elim!: bindE_InrE split: option.splits if_splits)
    from query_Inr [OF q] r(1) have "w1 = used w" "find (\<lambda>b. b_ID b = i) (backups w) = Some bk" by simp_all
    moreover from find_Some_iff [OF this(2)] have "bk \<in> set (backups w) \<and> b_ID bk = i" by simp
    ultimately show ?thesis using r(2) p by (simp add: view_def)
  next
    case False
    from assms obtain bs w1 where s: "DBBackups (pair_ID pr) 1 w = (Inr bs, w1)" and bk: "bs \<noteq> []" "bk = hd bs" "w' = w1"
      unfolding pickBackup_def using False by (auto elim!: bindE_InrE simp: returnE_run throwE_run split: list.splits)
    from s obtain e k where "w1 = w\<lparr>env := e\<rparr>" "bs = take k (newest_first (pair_ID pr) (backups w))"
      unfolding DBBackups_def by (auto elim!: query_InrE)
    moreover from this bk have "bk \<in> set (newest_first (pair_ID pr) (backups w))" by (metis hd_in_set in_set_takeD)
    ultimately show ?thesis using False bk by (auto simp: view_def file_at_def fun_eq_iff)
  qed
  then show "bk \<in> set (backups w)" "b_PairID bk = pair_ID pr" "i > 0 \<Longrightarrow> b_ID bk = i" "view w' = view w" by auto
qed

text \<open>The copy on the disk is the one that was recorded.\<close>

definition sound_copy :: "engine \<Rightarrow> backup \<Rightarrow> (string \<times> time) option \<Rightarrow> string \<Rightarrow> bool" where
  "sound_copy E bk f b \<longleftrightarrow> (\<exists>t. f = Some (b, t)) \<and> int (length b) = b_Size bk \<and> en_sha256 E b = b_Hash bk"

lemma verifyBackup_view: "viewless (verifyBackup E bk)"
  unfolding verifyBackup_def by (intro vw.frame.keeps_rules viewless_Stat viewless_ReadFile)

lemma verifyBackup_run:
  assumes "verifyBackup E bk w = (Inr u, w')"
  shows "\<exists>b. sound_copy E bk (file_at w (b_Path bk)) b"
proof -
  from assms obtain info w1 b w2 where s: "os_Stat (b_Path bk) w = (Inr info, w1)" "os_ReadFile (b_Path bk) w1 = (Inr b, w2)"
    and c: "node_size info = b_Size bk" "en_sha256 E b = b_Hash bk"
    unfolding verifyBackup_def by (auto elim!: bindE_InrE simp: returnE_run throwE_run split: if_splits)
  from os_ReadFile_Inr [OF s(2)] obtain t where "file_at w1 (b_Path bk) = Some (b, t)" by blast
  moreover from os_Stat_cases [OF s(1)] have "node (fs w) (b_Path bk) = Some info" by simp
  moreover have "file_at w1 = file_at w" using keepsD [OF viewless_Stat s(1)] by (simp add: view_def)
  ultimately show ?thesis using c by (auto simp: sound_copy_def file_at_Some)
qed

text \<open>Where a rollback ends without an error.\<close>

definition rolled_back :: "(string \<Rightarrow> bool) \<Rightarrow> engine \<Rightarrow> pair \<Rightarrow> string \<Rightarrow> (string \<Rightarrow> (string \<times> time) option) \<Rightarrow> backup list \<Rightarrow> backup \<Rightarrow>
    rollback_result \<times> error option \<Rightarrow> world \<Rightarrow> bool" where
  "rolled_back D E pr rel f0 bs bk r w \<longleftrightarrow> (case r of (res, err) \<Rightarrow> err = None \<longrightarrow>
     (\<exists>b. sound_copy E bk (f0 (b_Path bk)) b \<and> moved D E pr rel BackupRollback f0 bs (b, ofMilli (b_MTime bk)) (ro_Replaced res) (view w) \<and>
        ro_Backup res = Some bk))"

lemma rolled_back_err: "rolled_back D E pr rel f0 bs bk (res, Some e) w"
  by (simp add: rolled_back_def)

lemma put_back_end:
  assumes paths: "db_paths E pr rel" and cp: "copies_in D E pr rel" and b: "sound_copy E bk (f0 (b_Path bk)) b" and res: "ro_Backup res = Some bk"
  shows "triple (\<lambda>w. arrived D pr rel f0 bs (b, t) (view w)) (put_back l same E pr (incomingPath pr rel) rel bk res)
    (rolled_back D E pr rel f0 bs bk) (\<lambda>_. True)"
proof -
  have up: "triple (\<lambda>w. staged D pr rel f0 (view w)) (give_up (incomingPath pr rel) res' e) (rolled_back D E pr rel f0 bs bk) (\<lambda>_. True)" for res' e
    by (rule give_up_staged) (rule rolled_back_err)
  have told: "triple (\<lambda>w. moved D E pr rel BackupRollback f0 bs (b, ofMilli (b_MTime bk)) old (view w))
      (bindE (noteDB same pr LevelWarn KindDBRollback) (\<lambda>_. returnE (res\<lparr>ro_Replaced := old\<rparr>, None))) (rolled_back D E pr rel f0 bs bk) (\<lambda>_. True)" for old
    by (rule triple_bind, rule triple_over [OF viewless_noteDB], simp, rule triple_return)
       (use b res in \<open>auto simp: rolled_back_def\<close>)
  have unrecorded: "triple P (returnE (res', Some e)) (rolled_back D E pr rel f0 bs bk) (\<lambda>_. True)" for P res' e
    by (rule triple_return) (rule rolled_back_err)
  show ?thesis
    unfolding put_back_def Let_def
    by (rule triple_try_case [OF triple_wrap [OF stamp_arrived]], rule up,
        rule triple_try_case [OF arrived_over [OF viewless_settleFile]], rule up,
        rule triple_try_case [OF backup_arrived [OF paths cp]], rule up,
        rule triple_try_case [OF triple_wrap [OF rename_saved [OF paths cp]]], rule up,
        rule triple_try_case [OF moved_over [OF viewless_recordFile]], rule unrecorded, rule told)
qed

lemma copyFile_arrived:
  assumes "\<not> D (incomingPath pr rel)" and "D src"
  shows "triple (\<lambda>w. view w = (f0, bs) \<and> rows_in D (pair_ID pr) bs) (copyFile E src (incomingPath pr rel))
    (\<lambda>_ w. \<exists>b t t'. f0 src = Some (b, t) \<and> arrived D pr rel f0 bs (b, t') (view w)) (\<lambda>_. True)"
proof (rule tripleI)
  fix w a w'
  assume v: "view w = (f0, bs) \<and> rows_in D (pair_ID pr) bs" and run: "copyFile E src (incomingPath pr rel) w = (Inr a, w')"
  have "src \<noteq> incomingPath pr rel" using assms by auto
  note c = copyFile_run [OF run this]
  from c obtain b t t' where f: "file_at w src = Some (b, t)" "file_at w' (incomingPath pr rel) = Some (b, t')" by (cases a) auto
  have "waiting D pr rel f0 bs (view w)" using v by (auto simp: waiting_def)
  then have "waiting D pr rel f0 bs (view w')" by (rule waiting_incoming) (use c in auto)
  with f have "arrived D pr rel f0 bs (b, t') (view w')" by (simp add: arrived_def view_def)
  with f(1) v show "\<exists>b t t'. f0 src = Some (b, t) \<and> arrived D pr rel f0 bs (b, t') (view w')" by (auto simp: view_def)
qed simp

lemma rollback_end:
  assumes paths: "db_paths E pr rel" and cp: "copies_in D E pr rel" and rel: "rel = gated E pr" and rows: "rows_in D (pair_ID pr) bs"
  shows "triple (\<lambda>w. view w = (f0, bs)) (RollbackDatabase l same E pr i force)
    (\<lambda>r w. \<exists>bk. bk \<in> set bs \<and> b_PairID bk = pair_ID pr \<and> (i > 0 \<longrightarrow> b_ID bk = i) \<and>
       (force \<or> f0 (localPath pr (jcc_Lock (opt_JCC (en_opts E)))) = None) \<and> rolled_back D E pr rel f0 bs bk r w \<or> (\<exists>e. snd r = Some e)) (\<lambda>_. True)"
    (is "triple ?V _ ?Q _")
proof -
  let ?free = "f0 (localPath pr (jcc_Lock (opt_JCC (en_opts E)))) = None"
  have locked: "triple ?V (localLock E pr (jcc_Lock (opt_JCC (en_opts E)))) (\<lambda>lk w. (\<not> lk_Held lk \<longrightarrow> ?free) \<and> ?V w) (\<lambda>_. True)"
    by (rule tripleI) (use keepsD [OF viewless_localLock] localLock_free in \<open>fastforce simp: view_def\<close>)+
  have V: "triple ?V m (\<lambda>_. ?V) ?V" if "viewless m" for m :: "'z op"
    by (rule triple_keeps [OF that]) auto
  have err: "triple P (returnE (res, Some e)) ?Q (\<lambda>_. True)" for P res e
    by (rule triple_return) simp
  have picked: "triple ?V (pickBackup pr i) (\<lambda>bk w. (bk \<in> set bs \<and> b_PairID bk = pair_ID pr \<and> (i > 0 \<longrightarrow> b_ID bk = i)) \<and> ?V w) (\<lambda>_. True)"
    by (rule tripleI) (use pickBackup_run in \<open>fastforce simp: view_def\<close>)+
  have verified: "triple ?V (verifyBackup E bk) (\<lambda>_ w. (\<exists>b. sound_copy E bk (f0 (b_Path bk)) b) \<and> ?V w) (\<lambda>_. True)" for bk
    by (rule tripleI) (use verifyBackup_run keepsD [OF verifyBackup_view] in \<open>fastforce simp: view_def\<close>)+
  have staging: "triple (\<lambda>w. \<exists>b t t'. f0 (b_Path bk) = Some (b, t) \<and> arrived D pr rel f0 bs (b, t') (view w))
      (put_back l same E pr (incomingPath pr rel) rel bk \<lparr>ro_Path = rel, ro_Backup = Some bk, ro_Replaced = None\<rparr>) ?Q (\<lambda>_. True)"
    if bk: "bk \<in> set bs \<and> b_PairID bk = pair_ID pr \<and> (i > 0 \<longrightarrow> b_ID bk = i)" and sound: "\<exists>b. sound_copy E bk (f0 (b_Path bk)) b"
      and free: "force \<or> ?free" for bk
  proof (intro triple_ex triple_fact)
    fix b t t'
    assume "f0 (b_Path bk) = Some (b, t)"
    with sound have "sound_copy E bk (f0 (b_Path bk)) b" by (auto simp: sound_copy_def)
    from put_back_end [where ?f0.0 = f0 and bk = bk and res = "\<lparr>ro_Path = rel, ro_Backup = Some bk, ro_Replaced = None\<rparr>"
        and bs = bs and t = t' and l = l and same = same, OF paths cp this]
    show "triple (\<lambda>w. arrived D pr rel f0 bs (b, t') (view w))
      (put_back l same E pr (incomingPath pr rel) rel bk \<lparr>ro_Path = rel, ro_Backup = Some bk, ro_Replaced = None\<rparr>) ?Q (\<lambda>_. True)"
      by (rule triple_conseq) (use bk free in auto)
  qed
  have copied: "triple ?V (copyFile E (b_Path bk) (incomingPath pr rel))
      (\<lambda>_ w. \<exists>b t t'. f0 (b_Path bk) = Some (b, t) \<and> arrived D pr rel f0 bs (b, t') (view w)) (\<lambda>_. True)"
    if "bk \<in> set bs \<and> b_PairID bk = pair_ID pr \<and> (i > 0 \<longrightarrow> b_ID bk = i)" for bk
    by (rule triple_pre, rule copyFile_arrived) (use that rows cp in \<open>auto simp: rows_in_def copies_in_def\<close>)
  show ?thesis
    unfolding RollbackDatabase_def Let_def rel [symmetric] rollback_result.update_convs
    by (rule triple_if, rule err, rule triple_try_case [OF picked], rule err, rule triple_fact,
        rule triple_try_case [OF locked], rule err, rule triple_fact, rule triple_if, rule err,
        rule triple_try_case [OF verified], rule err, rule triple_fact,
        rule triple_try_case [OF triple_wrap [OF V [OF viewless_makeDir]]], rule err,
        rule triple_try_case [OF copied], assumption, rule err, rule staging, assumption, assumption, auto)
qed

text \<open>
  (C9) The way back. A rollback that ends without an error has put back the copy it was asked for
  (or one of the pair's own): a copy whose bytes on the disk had the size and the digest recorded when it was
  taken, and with no lock of jClipCorn's here or with the override. The database is those bytes with the time of the original.
  What was displaced is on the disk, under a path that was free, with its own bytes and time, and the table has its row with
  size, time and digest after all the rows there were; and no file outside the kept copies has changed but the database.
\<close>

theorem rollback_restores:
  assumes "rel = gated E pr" and "db_paths E pr rel" and "copies_in D E pr rel" and "rows_in D (pair_ID pr) (backups w)"
    and "RollbackDatabase l same E pr i force w = (Inr (res, None), w')"
  shows "\<exists>bk b. bk \<in> set (backups w) \<and> b_PairID bk = pair_ID pr \<and> (i > 0 \<longrightarrow> b_ID bk = i) \<and> ro_Backup res = Some bk \<and>
    (force \<or> file_at w (localPath pr (jcc_Lock (opt_JCC (en_opts E)))) = None) \<and>
    sound_copy E bk (file_at w (b_Path bk)) b \<and> file_at w' (localPath pr rel) = Some (b, ofMilli (b_MTime bk)) \<and>
    (case ro_Replaced res of
       None \<Rightarrow> file_at w (localPath pr rel) = None
     | Some k \<Rightarrow> \<exists>g. file_at w (localPath pr rel) = Some g \<and> kept_copy E pr rel BackupRollback g k \<and> file_at w (b_Path k) = None \<and>
         backups w' = backups w @ [k] \<and> file_at w' (b_Path k) = Some g) \<and>
    (\<forall>p. p \<noteq> incomingPath pr rel \<and> p \<noteq> localPath pr rel \<and> \<not> D p \<longrightarrow> file_at w' p = file_at w p)"
proof -
  have "view w = (file_at w, backups w)" by (simp add: view_def)
  from tripleD [OF rollback_end [OF assms(2,3,1,4)] this assms(5)] obtain bk where
    bk: "bk \<in> set (backups w)" "b_PairID bk = pair_ID pr" "i > 0 \<longrightarrow> b_ID bk = i"
      "force \<or> file_at w (localPath pr (jcc_Lock (opt_JCC (en_opts E)))) = None" "rolled_back D E pr rel (file_at w) (backups w) bk (res, None) w'" by auto
  from bk(5) obtain b where "sound_copy E bk (file_at w (b_Path bk)) b" "ro_Backup res = Some bk"
    "moved D E pr rel BackupRollback (file_at w) (backups w) (b, ofMilli (b_MTime bk)) (ro_Replaced res) (view w')"
    unfolding rolled_back_def by auto
  with bk(1-4) show ?thesis
    by (intro exI [of _ bk] exI [of _ b]) (auto simp: moved_def copy_made_def replaced_def view_def split: option.splits)
qed

section \<open>A concrete gate\<close>

definition db_remote :: remote_fs where
  "db_remote = demo_remote\<lparr>r_Stat := (\<lambda>p. query (\<lambda>_. demo_file_entry p 5)),
     r_Exists := (\<lambda>p. query (\<lambda>_. p = ''a.db'')),
     r_OpenRange := (\<lambda>p off len. query (\<lambda>_. ([''hello''], None)))\<rparr>"

definition db_engine :: engine where
  "db_engine = New db_remote (demo_options\<lparr>opt_DataDir := ''/d'', opt_JCC := \<lparr>jcc_DBDir = '''', jcc_DBName = ''a'', jcc_LockStale = 0, jcc_Backups = 0\<rparr>\<rparr>) id id"

definition db_pair :: pair where
  "db_pair = demo_pair\<lparr>pair_Type := PairJCC, pair_LocalPath := ''/m''\<rparr>"

definition db_world :: world where
  "db_world = empty_world\<lparr>pairs := [db_pair], fs := [(''/m'', FDir), (''/m/a.db'', FFile ''old'' 3000000), (''/d'', FDir)]\<rparr>"

lemma db_streams: "streams (en_remote db_engine) (\<lambda>_. {''hello''})"
  unfolding streams_def db_engine_def New_def remote_ok_def db_remote_def demo_remote_def Let_def
  by (auto intro!: env_step.keeps_rules elim!: query_InrE)

lemma db_gated: "''a.db'' = gated db_engine db_pair"
  by code_simp

lemma db_paths_ok: "db_paths db_engine db_pair ''a.db''"
  unfolding db_paths_def by code_simp

lemma db_copies_ok: "copies_in (below (backupDir db_engine db_pair)) db_engine db_pair ''a.db''"
  using db_paths_ok by (simp add: copies_in_def db_paths_def)

lemma db_rows_ok: "rows_in (below (backupDir db_engine db_pair)) (pair_ID db_pair) (backups db_world)"
  by code_simp

definition db_synced :: "(error + db_result \<times> error option) \<times> world" where
  "db_synced = SyncDatabase UTC (\<lambda>_. False) db_engine db_pair False db_world"

lemma try_step: "m w = (Inr a, w1) \<Longrightarrow> bindE (tryE m) f w = f (Inr a) w1"
  by (simp add: bindE_def tryE_def)

definition db_st :: db_status where
  "db_st = \<lparr>ds_Path = ''a.db'', ds_Remote = Some \<lparr>df_Size = 5, df_MTime = 7000000000\<rparr>, ds_Local = Some \<lparr>df_Size = 3, df_MTime = 3000000\<rparr>,
     ds_Locks = [free_lock SidePublisher ''a.db.~lock'', free_lock SideHere ''/m/a.db.~lock''], ds_InSync = False, ds_Backups = []\<rparr>"

definition db_fetched :: world where
  "db_fetched = db_world\<lparr>fs := (''/m/.a.db.incoming'', FFile ''hello'' 5000000000) # fs db_world\<rparr>"

lemma db_steps:
  "pair_Type db_pair = PairJCC"
  "DatabaseStatus db_engine db_pair db_world = (Inr db_st, db_world)"
  "checkSpace (opt_Reserve (en_opts db_engine)) db_pair 5 db_world = (Inr (), db_world)"
  "incomingPath db_pair ''a.db'' = ''/m/.a.db.incoming''"
  "fetchDatabase db_engine db_pair ''a.db'' ''/m/.a.db.incoming'' db_world = (Inr 5, db_fetched)"
  "probeLocks db_engine db_pair db_fetched = (Inr (ds_Locks db_st), db_fetched)"
  "heldLocks (ds_Locks db_st) = []"
  by code_simp+

definition db_stamped :: world where
  "db_stamped = db_world\<lparr>fs := (''/m/.a.db.incoming'', FFile ''hello'' 7000000000) # fs db_world\<rparr>"

definition db_copy :: "backup_reason \<Rightarrow> int \<Rightarrow> backup" where
  "db_copy reason i = \<lparr>b_ID = i, b_PairID = 1, b_TS = 5000, b_Path = ''/d/db-backups/1/a.db.19700101-000005'', b_RelDB = ''a.db'', b_Size = 3,
     b_MTime = 3, b_Hash = ''old'', b_Reason = reason\<rparr>"

definition db_backed :: world where
  "db_backed = db_stamped\<lparr>backups := [db_copy BackupReplace 1],
     fs := [(''/d/db-backups/1/a.db.19700101-000005'', FFile ''old'' 3000000), (''/d/db-backups/1'', FDir), (''/d/db-backups'', FDir)] @ fs db_stamped\<rparr>"

definition db_moved :: world where
  "db_moved = db_backed\<lparr>fs := fs_put ''/m/a.db'' (FFile ''hello'' 7000000000) (fs_del ''/m/.a.db.incoming'' (fs db_backed))\<rparr>"

text \<open>\<open>buffers\<close> with the size in binary.\<close>

lemma buffers_code [code]:
  "buffers fuel b = (if b = [] then [] else if int (length b) \<le> 32768 then [b] else case fuel of
     0 \<Rightarrow> [b] | Suc k \<Rightarrow> take copy_buffer b # buffers k (drop copy_buffer b))"
proof (cases fuel)
  case (Suc k)
  have "buffers j [] = []" for j by (subst buffers.simps) simp
  with Suc show ?thesis by (auto simp: buffers.simps [of "Suc k"] copy_buffer_def)
qed (simp add: buffers.simps [of 0])

lemma bind_step: "m w = (Inr a, w1) \<Longrightarrow> bindE m f w = f a w1"
  by (simp add: bindE_def)

lemma wrap_step: "m w = (Inr a, w1) \<Longrightarrow> bindE (wrapE c m) f w = f a w1"
  by (simp add: bindE_def wrapE_def)

lemma db_places: "localPath db_pair ''a.db'' = ''/m/a.db''" "backupDir db_engine db_pair = ''/d/db-backups/1''" "path_Base ''a.db'' = ''a.db''"
  by code_simp+

definition db_dirs :: world where
  "db_dirs = db_stamped\<lparr>fs := [(''/d/db-backups/1'', FDir), (''/d/db-backups'', FDir)] @ fs db_stamped\<rparr>"

definition db_copied :: world where
  "db_copied = db_dirs\<lparr>fs := (''/d/db-backups/1/a.db.19700101-000005'', FFile ''old'' 5000000000) # fs db_dirs\<rparr>"

definition db_dated :: world where
  "db_dated = db_dirs\<lparr>fs := (''/d/db-backups/1/a.db.19700101-000005'', FFile ''old'' 3000000) # fs db_dirs\<rparr>"

lemma db_backup_steps:
  "os_MkdirAll ''/d/db-backups/1'' db_stamped = (Inr (), db_dirs)"
  "backupName UTC ''/d/db-backups/1'' ''a.db'' 5000000000 db_dirs = (Inr ''/d/db-backups/1/a.db.19700101-000005'', db_dirs)"
  "copyFile db_engine ''/m/a.db'' ''/d/db-backups/1/a.db.19700101-000005'' db_dirs = (Inr (3, ''old''), db_copied)"
  "os_Chtimes ''/d/db-backups/1/a.db.19700101-000005'' 3000000 db_copied = (Inr (), db_dated)"
  "AddDBBackup \<lparr>bi_PairID = pair_ID db_pair, bi_TS = None, bi_Path = ''/d/db-backups/1/a.db.19700101-000005'', bi_RelDB = ''a.db'', bi_Size = 3,
       bi_MTime = 3000000, bi_Hash = ''old'', bi_Reason = Some BackupReplace\<rparr> db_dated = (Inr (db_copy BackupReplace 1), db_backed)"
  "os_Stat ''/m/a.db'' db_stamped = (Inr (FFile ''old'' 3000000), db_stamped)"
  "now db_dirs = (Inr 5000000000, db_dirs)"
  by code_simp+

lemma db_backup: "backupDatabase UTC db_engine db_pair ''a.db'' BackupReplace db_stamped = (Inr (Some (db_copy BackupReplace 1)), db_backed)"
  using db_backup_steps
  by (simp add: backupDatabase_def Let_def db_places try_step bind_step wrap_step returnE_run)

lemma install_steps:
  "wrapE ''set the timestamp'' (os_Chtimes ''/m/.a.db.incoming'' 7000000000) db_fetched = (Inr (), db_stamped)"
  "settleFile db_pair ''/m/.a.db.incoming'' db_stamped = (Inr (), db_stamped)"
  "wrapE ''move into place'' (os_Rename ''/m/.a.db.incoming'' (localPath db_pair ''a.db'')) db_backed = (Inr (), db_moved)"
  by code_simp+

lemma db_recorded: "case recordFile db_engine db_pair ''a.db'' 5 7000000000 [] FileSynced db_moved of
   (Inr _, w) \<Rightarrow> \<not> isl (fst (pruneBackups db_engine db_pair w)) \<and> \<not> isl (fst (noteDB (\<lambda>_. False) db_pair LevelInfo KindDBReplaced (snd (pruneBackups db_engine db_pair w))))
 | _ \<Rightarrow> False"
  by code_simp

lemma db_install: "case fst (install UTC (\<lambda>_. False) db_engine db_pair ''/m/.a.db.incoming'' ''a.db'' \<lparr>df_Size = 5, df_MTime = 7000000000\<rparr>
    (new_result False\<lparr>dr_Path := ''a.db'', dr_Locks := ds_Locks db_st\<rparr>) db_fetched) of
  Inr (res, err) \<Rightarrow> dr_Replaced res \<and> dr_MTime res = Some 7000000000 | Inl _ \<Rightarrow> False"
  using db_recorded
  by (auto simp: install_def Let_def install_steps db_backup try_step) (auto simp: bindE_def tryE_def returnE_def split: prod.splits sum.splits)

lemma db_synced_says: "case fst db_synced of Inr (res, err) \<Rightarrow> dr_Replaced res \<and> dr_MTime res = Some 7000000000 | Inl _ \<Rightarrow> False"
proof -
  have st: "ds_Path db_st = ''a.db''" "ds_Remote db_st = Some \<lparr>df_Size = 5, df_MTime = 7000000000\<rparr>" "\<not> ds_InSync db_st"
    by (simp_all add: db_st_def)
  have "db_synced = install UTC (\<lambda>_. False) db_engine db_pair ''/m/.a.db.incoming'' ''a.db'' \<lparr>df_Size = 5, df_MTime = 7000000000\<rparr>
    (new_result False\<lparr>dr_Path := ''a.db'', dr_Locks := ds_Locks db_st\<rparr>) db_fetched"
    by (simp add: db_synced_def SyncDatabase_def transfer_db_def Let_def st db_steps try_step)
  with db_install show ?thesis by simp
qed

theorem database_gate_witness:
  "file_at (snd db_synced) ''/m/a.db'' = Some (''hello'', 7000000000) \<and> file_at (snd db_synced) ''/m/b'' = None \<and>
   (\<exists>k \<in> set (backups (snd db_synced)). file_at (snd db_synced) (b_Path k) = Some (''old'', 3000000)) \<and>
   (\<exists>w. file_at w (incomingPath db_pair ''a.db'') \<noteq> None \<and> unlocked db_engine db_pair w)"
proof -
  obtain res err where s: "fst db_synced = Inr (res, err)" "dr_Replaced res" "dr_MTime res = Some 7000000000"
    using db_synced_says by (cases "fst db_synced") auto
  have run: "SyncDatabase UTC (\<lambda>_. False) db_engine db_pair False db_world = (Inr (res, err), snd db_synced)"
    using s(1) by (metis db_synced_def prod.collapse)
  have at: "localPath db_pair ''a.db'' = ''/m/a.db''" "incomingPath db_pair ''a.db'' \<noteq> ''/m/b''" "\<not> below (backupDir db_engine db_pair) ''/m/b''"
    "file_at db_world ''/m/b'' = None" "file_at db_world ''/m/a.db'' = Some (''old'', 3000000)" "backups db_world = []" by code_simp+
  from database_gate [OF db_streams db_gated db_paths_ok db_copies_ok db_rows_ok run] s(2,3) at
  obtain b t where b: "b = ''hello''" "file_at (snd db_synced) ''/m/a.db'' = Some (b, t)" "swapped False (b, t) res err"
    "looked_again db_engine db_pair ''a.db'' False (Some (''old'', 3000000)) b (res, err) (snd db_synced)"
    "copy_kept db_engine db_pair ''a.db'' BackupReplace (file_at db_world) [] (dr_Backup res) (file_at (snd db_synced), backups (snd db_synced))"
    "file_at (snd db_synced) ''/m/b'' = None" by auto
  have "t = 7000000000" using b(3) s(2,3) by (simp add: swapped_def)
  moreover have "\<exists>k \<in> set (backups (snd db_synced)). file_at (snd db_synced) (b_Path k) = Some (''old'', 3000000)"
    using b(5) at(1,5) by (auto simp: copy_kept_def split: option.splits)
  moreover have "\<exists>w. file_at w (incomingPath db_pair ''a.db'') \<noteq> None \<and> unlocked db_engine db_pair w"
    using b(4) unfolding looked_again_def by auto
  ultimately show ?thesis using b by simp
qed

text \<open>The same pair with a kept copy, put back.\<close>

definition kept_row :: backup where
  "kept_row = \<lparr>b_ID = 4, b_PairID = 1, b_TS = 2, b_Path = ''/d/db-backups/1/k'', b_RelDB = ''a.db'', b_Size = 2, b_MTime = 1,
     b_Hash = ''hi'', b_Reason = BackupReplace\<rparr>"

definition rollback_world :: world where
  "rollback_world = db_world\<lparr>backups := [kept_row],
     fs := fs db_world @ [(''/d/db-backups'', FDir), (''/d/db-backups/1'', FDir), (''/d/db-backups/1/k'', FFile ''hi'' 9)]\<rparr>"

definition db_rolled :: "(error + rollback_result \<times> error option) \<times> world" where
  "db_rolled = RollbackDatabase UTC (\<lambda>_. False) db_engine db_pair 4 False rollback_world"

definition rollback_staged :: world where
  "rollback_staged = rollback_world\<lparr>fs := (''/m/.a.db.incoming'', FFile ''hi'' 5000000000) # fs rollback_world\<rparr>"

lemma rollback_steps:
  "pickBackup db_pair 4 rollback_world = (Inr kept_row, rollback_world)"
  "localLock db_engine db_pair (jcc_Lock (opt_JCC (en_opts db_engine))) rollback_world = (Inr (free_lock SideHere ''/m/a.db.~lock''), rollback_world)"
  "verifyBackup db_engine kept_row rollback_world = (Inr (), rollback_world)"
  "wrapE ''create'' (makeDir db_pair (path_Dir ''/m/.a.db.incoming'')) rollback_world = (Inr (), rollback_world)"
  by code_simp+

lemma rollback_read: "copyFile db_engine (b_Path kept_row) ''/m/.a.db.incoming'' rollback_world = (Inr (2, ''hi''), rollback_staged)"
  by code_simp

definition rollback_stamped :: world where
  "rollback_stamped = rollback_world\<lparr>fs := (''/m/.a.db.incoming'', FFile ''hi'' 1000000) # fs rollback_world\<rparr>"

definition rollback_backed :: world where
  "rollback_backed = rollback_stamped\<lparr>backups := [kept_row, db_copy BackupRollback 5],
     fs := (''/d/db-backups/1/a.db.19700101-000005'', FFile ''old'' 3000000) # fs rollback_stamped\<rparr>"

definition rollback_moved :: world where
  "rollback_moved = rollback_backed\<lparr>fs := fs_put ''/m/a.db'' (FFile ''hi'' 1000000) (fs_del ''/m/.a.db.incoming'' (fs rollback_backed))\<rparr>"

definition rollback_copied :: world where
  "rollback_copied = rollback_stamped\<lparr>fs := (''/d/db-backups/1/a.db.19700101-000005'', FFile ''old'' 5000000000) # fs rollback_stamped\<rparr>"

definition rollback_dated :: world where
  "rollback_dated = rollback_stamped\<lparr>fs := (''/d/db-backups/1/a.db.19700101-000005'', FFile ''old'' 3000000) # fs rollback_stamped\<rparr>"

lemma rollback_backup_steps:
  "os_MkdirAll ''/d/db-backups/1'' rollback_stamped = (Inr (), rollback_stamped)"
  "backupName UTC ''/d/db-backups/1'' ''a.db'' 5000000000 rollback_stamped = (Inr ''/d/db-backups/1/a.db.19700101-000005'', rollback_stamped)"
  "copyFile db_engine ''/m/a.db'' ''/d/db-backups/1/a.db.19700101-000005'' rollback_stamped = (Inr (3, ''old''), rollback_copied)"
  "os_Chtimes ''/d/db-backups/1/a.db.19700101-000005'' 3000000 rollback_copied = (Inr (), rollback_dated)"
  "AddDBBackup \<lparr>bi_PairID = pair_ID db_pair, bi_TS = None, bi_Path = ''/d/db-backups/1/a.db.19700101-000005'', bi_RelDB = ''a.db'', bi_Size = 3,
       bi_MTime = 3000000, bi_Hash = ''old'', bi_Reason = Some BackupRollback\<rparr> rollback_dated = (Inr (db_copy BackupRollback 5), rollback_backed)"
  "os_Stat ''/m/a.db'' rollback_stamped = (Inr (FFile ''old'' 3000000), rollback_stamped)"
  "now rollback_stamped = (Inr 5000000000, rollback_stamped)"
  by code_simp+

lemma rollback_backup: "backupDatabase UTC db_engine db_pair ''a.db'' BackupRollback rollback_stamped = (Inr (Some (db_copy BackupRollback 5)), rollback_backed)"
  using rollback_backup_steps
  by (simp add: backupDatabase_def Let_def db_places try_step bind_step wrap_step returnE_run)

lemma put_back_steps:
  "wrapE ''set the timestamp'' (os_Chtimes ''/m/.a.db.incoming'' (ofMilli (b_MTime kept_row))) rollback_staged = (Inr (), rollback_stamped)"
  "settleFile db_pair ''/m/.a.db.incoming'' rollback_stamped = (Inr (), rollback_stamped)"
  "wrapE ''move into place'' (os_Rename ''/m/.a.db.incoming'' (localPath db_pair ''a.db'')) rollback_backed = (Inr (), rollback_moved)"
  by code_simp+

lemma rollback_recorded: "case recordFile db_engine db_pair ''a.db'' (b_Size kept_row) (ofMilli (b_MTime kept_row)) (b_Hash kept_row) FileSynced rollback_moved of
   (Inr _, w) \<Rightarrow> \<not> isl (fst (noteDB (\<lambda>_. False) db_pair LevelWarn KindDBRollback w)) | _ \<Rightarrow> False"
  by code_simp

lemma db_put_back: "case fst (put_back UTC (\<lambda>_. False) db_engine db_pair ''/m/.a.db.incoming'' ''a.db'' kept_row
    \<lparr>ro_Path = ''a.db'', ro_Backup = Some kept_row, ro_Replaced = None\<rparr> rollback_staged) of Inr (res, err) \<Rightarrow> err = None | Inl _ \<Rightarrow> False"
  using rollback_recorded
  by (auto simp: put_back_def Let_def put_back_steps rollback_backup try_step) (auto simp: bindE_def tryE_def returnE_def split: prod.splits sum.splits)

lemma db_rolled_says: "case fst db_rolled of Inr (res, err) \<Rightarrow> err = None | Inl _ \<Rightarrow> False"
proof -
  have "db_rolled = put_back UTC (\<lambda>_. False) db_engine db_pair ''/m/.a.db.incoming'' ''a.db'' kept_row
    \<lparr>ro_Path = ''a.db'', ro_Backup = Some kept_row, ro_Replaced = None\<rparr> rollback_staged"
    by (simp add: db_rolled_def RollbackDatabase_def Let_def db_gated [symmetric] db_steps(4) free_lock_def rollback_steps rollback_read try_step)
  with db_put_back show ?thesis by simp
qed

theorem rollback_restores_witness:
  "file_at (snd db_rolled) ''/m/a.db'' = Some (''hi'', 1000000) \<and>
   (\<exists>k \<in> set (backups (snd db_rolled)). file_at (snd db_rolled) (b_Path k) = Some (''old'', 3000000))"
proof -
  obtain res where s: "fst db_rolled = Inr (res, None)"
    using db_rolled_says by (cases "fst db_rolled") auto
  have run: "RollbackDatabase UTC (\<lambda>_. False) db_engine db_pair 4 False rollback_world = (Inr (res, None), snd db_rolled)"
    using s by (metis db_rolled_def prod.collapse)
  have at: "localPath db_pair ''a.db'' = ''/m/a.db''" "en_sha256 db_engine = id" "set (backups rollback_world) = {kept_row}"
    "b_Hash kept_row = ''hi''" "ofMilli (b_MTime kept_row) = 1000000" "file_at rollback_world ''/m/a.db'' = Some (''old'', 3000000)"
    by (code_simp, simp add: db_engine_def New_def, simp add: rollback_world_def, code_simp, code_simp, code_simp)
  have "rows_in (below (backupDir db_engine db_pair)) (pair_ID db_pair) (backups rollback_world)" by code_simp
  from rollback_restores [OF db_gated db_paths_ok db_copies_ok this run] at
  show ?thesis by (auto simp: sound_copy_def split: option.splits)
qed

end
