(* ===== verification/Settings.thy ===== *)
theory Settings
  imports Schedule Engine
begin

text \<open>
  The settings, \<open>store/config.go\<close>: the registry of keys with their defaults and validators, the
  typed readers, and the table with its audit trail; and what the engine makes of them,
  \<open>OptionsFrom\<close> of \<open>engine/engine.go\<close>.

  Labels, groups and help texts of the registry are presentation and left out, as are the texts of
  errors. What the validators ask of packages \<open>net/netip\<close> and \<open>net/url\<close>, of the zone database and of
  floating point is the argument of type \<open>std\<close>; \<open>base64\<close>, \<open>net.SplitHostPort\<close> and
  \<open>time.ParseDuration\<close> are modelled.
\<close>

section \<open>The standard library\<close>

text \<open>
  \<open>std_Frac f unit scale\<close> is \<open>uint64(float64(f) * (float64(unit) / scale))\<close>; \<open>std_URL\<close> gives scheme and host.
\<close>

record std =
  std_Prefix :: "string \<Rightarrow> bool"
  std_Addr :: "string \<Rightarrow> bool"
  std_URL :: "string \<Rightarrow> (string \<times> string) option"
  std_Zone :: "string \<Rightarrow> location option"
  std_Frac :: "int \<Rightarrow> int \<Rightarrow> int \<Rightarrow> int"

definition ParseBool :: "string \<Rightarrow> bool option" where
  "ParseBool s = (if s \<in> set [''1'', ''t'', ''T'', ''true'', ''TRUE'', ''True''] then Some True
     else if s \<in> set [''0'', ''f'', ''F'', ''false'', ''FALSE'', ''False''] then Some False else None)"

text \<open>\<open>time.ParseDuration\<close>: the units, then one number with its unit after the other.\<close>

definition duration_unit :: "string \<Rightarrow> int option" where
  "duration_unit u = map_of [(''ns'', 1), (''us'', 1000), ([CHR 0xC2, CHR 0xB5, CHR ''s''], 1000), ([CHR 0xCE, CHR 0xBC, CHR ''s''], 1000),
     (''ms'', 1000000), (''s'', 1000000000), (''m'', 60000000000), (''h'', 3600000000000)] u"

text \<open>\<open>leadingFraction\<close>: the digits after the point as far as they fit, and the scale they stand for.\<close>

fun leading_fraction :: "int \<Rightarrow> int \<Rightarrow> string \<Rightarrow> int \<times> int" where
  "leading_fraction x scale [] = (x, scale)"
| "leading_fraction x scale (c # cs) =
     (if x > (2 ^ 63 - 1) div 10 \<or> x * 10 + (of_char c - 48) > 2 ^ 63 then (x, scale)
      else leading_fraction (x * 10 + (of_char c - 48)) (scale * 10) cs)"

text \<open>One turn of the loop: the duration of the first number and its unit, and what is left.\<close>

definition duration_part :: "std \<Rightarrow> string \<Rightarrow> (int \<times> string) option" where
  "duration_part std s =
     (let whole = takeWhile is_digit s; s1 = dropWhile is_digit s;
          point = (take 1 s1 = ''.'');
          after = (if point then takeWhile is_digit (drop 1 s1) else []);
          s2 = (if point then dropWhile is_digit (drop 1 s1) else s1);
          u = takeWhile (\<lambda>c. c \<noteq> CHR ''.'' \<and> \<not> is_digit c) s2;
          s3 = dropWhile (\<lambda>c. c \<noteq> CHR ''.'' \<and> \<not> is_digit c) s2;
          v = digits_val whole; (f, scale) = leading_fraction 0 1 after in
      if v > 2 ^ 63 \<or> whole = [] \<and> after = [] \<or> u = [] then None
      else case duration_unit u of
        None \<Rightarrow> None
      | Some un \<Rightarrow>
          if v > 2 ^ 63 div un then None
          else let d = v * un + (if f > 0 then std_Frac std f un scale else 0) in
               if d > 2 ^ 63 then None else Some (d, s3))"

text \<open>A part takes at least one character, so as many turns as there are characters are enough.\<close>

fun duration_parts :: "nat \<Rightarrow> std \<Rightarrow> int \<Rightarrow> string \<Rightarrow> int option" where
  "duration_parts fuel std d s = (if s = [] then Some d else case fuel of
     0 \<Rightarrow> None
   | Suc k \<Rightarrow> (case duration_part std s of
       None \<Rightarrow> None
     | Some (v, s') \<Rightarrow> if d + v > 2 ^ 63 then None else duration_parts k std (d + v) s'))"

declare duration_parts.simps [simp del]

definition ParseDuration :: "std \<Rightarrow> string \<Rightarrow> duration option" where
  "ParseDuration std s =
     (let neg = (take 1 s = ''-''); s1 = (if take 1 s = ''-'' \<or> take 1 s = ''+'' then drop 1 s else s) in
      if s1 = ''0'' then Some 0
      else if s1 = [] then None
      else case duration_parts (length s1) std 0 s1 of
        None \<Rightarrow> None
      | Some d \<Rightarrow> if neg then Some (wrap64 (- d)) else if d > 2 ^ 63 - 1 then None else Some d)"

text \<open>\<open>base64.StdEncoding.DecodeString\<close>, as far as the number of bytes: line breaks are skipped, and the
rest is groups of four with at most two padding characters in the last one.\<close>

definition base64_char :: "char \<Rightarrow> bool" where
  "base64_char c \<longleftrightarrow> CHR ''A'' \<le> c \<and> c \<le> CHR ''Z'' \<or> CHR ''a'' \<le> c \<and> c \<le> CHR ''z'' \<or> is_digit c \<or> c = CHR ''+'' \<or> c = CHR ''/''"

definition base64_len :: "string \<Rightarrow> nat option" where
  "base64_len s =
     (let t = filter (\<lambda>c. c \<noteq> CHR 0x0A \<and> c \<noteq> CHR 0x0D) s; data = takeWhile (\<lambda>c. c \<noteq> CHR ''='') t;
          padding = dropWhile (\<lambda>c. c \<noteq> CHR ''='') t in
      if list_all base64_char data \<and> length t mod 4 = 0 \<and> padding \<in> set [[], ''='', ''=='']
      then Some (length t div 4 * 3 - length padding) else None)"

text \<open>\<open>net.SplitHostPort\<close>: the last colon separates the port; an address with colons needs brackets.\<close>

definition SplitHostPort :: "string \<Rightarrow> (string \<times> string) option" where
  "SplitHostPort s =
     (if CHR '':'' \<notin> set s then None
      else let port = rev (takeWhile (\<lambda>c. c \<noteq> CHR '':'') (rev s)); before = take (length s - length port - 1) s in
       if take 1 s = ''['' then
         (if CHR '']'' \<notin> set s then None
          else let host = takeWhile (\<lambda>c. c \<noteq> CHR '']'') (drop 1 s) in
            if length host + 2 \<noteq> length before then None
            else if CHR ''['' \<in> set (drop 1 s) \<or> CHR '']'' \<in> set (drop (length host + 2) s) then None
            else Some (host, port))
       else if CHR '':'' \<in> set before then None
       else if CHR ''['' \<in> set s \<or> CHR '']'' \<in> set s then None
       else Some (before, port))"

section \<open>Validators\<close>

definition validateKey :: "string \<Rightarrow> bool" where
  "validateKey s \<longleftrightarrow> base64_len (TrimSpace s) = Some 32"

definition validateOptionalKey :: "string \<Rightarrow> bool" where
  "validateOptionalKey s \<longleftrightarrow> TrimSpace s = [] \<or> validateKey s"

text \<open>A \<open>for range\<close> over a string yields runes; a byte outside ASCII is a rune outside the range.\<close>

definition printable :: "string \<Rightarrow> bool" where
  "printable s = list_all (\<lambda>c. CHR ''!'' \<le> c \<and> c \<le> CHR ''~'') s"

definition RemoteAPIOff :: string where "RemoteAPIOff = ''off''"

definition validateAPIKey :: "string \<Rightarrow> bool" where
  "validateAPIKey s \<longleftrightarrow> s = [] \<or> s = RemoteAPIOff \<or> 16 \<le> length s \<and> printable s"

definition validatePassword :: "string \<Rightarrow> bool" where
  "validatePassword s \<longleftrightarrow> 8 \<le> length s \<and> printable s"

text \<open>\<open>strconv.ParseUint(port, 10, 16)\<close> and not zero.\<close>

definition port_ok :: "string \<Rightarrow> bool" where
  "port_ok s \<longleftrightarrow> s \<noteq> [] \<and> list_all is_digit s \<and> 0 < digits_val s \<and> digits_val s < 2 ^ 16"

definition validateEndpoint :: "string \<Rightarrow> bool" where
  "validateEndpoint s0 = (let s = TrimSpace s0 in
     s \<noteq> [] \<and> (case SplitHostPort s of None \<Rightarrow> False | Some (host, port) \<Rightarrow> host \<noteq> [] \<and> port_ok port))"

definition splitList :: "string \<Rightarrow> string list" where
  "splitList s = filter (\<lambda>f. f \<noteq> []) (map TrimSpace (split_on (CHR '','') s))"

definition validateAddrList :: "std \<Rightarrow> string \<Rightarrow> bool" where
  "validateAddrList std s = (let fields = splitList s in
     fields \<noteq> [] \<and> list_all (\<lambda>f. std_Prefix std f \<or> std_Addr std f) fields)"

definition validateOptionalAddrList :: "std \<Rightarrow> string \<Rightarrow> bool" where
  "validateOptionalAddrList std s \<longleftrightarrow> TrimSpace s = [] \<or> validateAddrList std s"

definition int_between :: "int \<Rightarrow> int \<Rightarrow> string \<Rightarrow> bool" where
  "int_between lo hi s = (case Atoi (TrimSpace s) of None \<Rightarrow> False | Some n \<Rightarrow> lo \<le> n \<and> n \<le> hi)"

definition validateMTU :: "string \<Rightarrow> bool" where "validateMTU = int_between 576 9000"

definition validateKeepalive :: "string \<Rightarrow> bool" where "validateKeepalive = int_between 0 65535"

definition validateUpdateURL :: "std \<Rightarrow> string \<Rightarrow> bool" where
  "validateUpdateURL std s0 = (let s = TrimSpace s0 in
     s = [] \<or> (case std_URL std s of None \<Rightarrow> False
       | Some (scheme, host) \<Rightarrow> (scheme = ''http'' \<or> scheme = ''https'') \<and> host \<noteq> []))"

definition contains_any :: "string \<Rightarrow> string \<Rightarrow> bool" where
  "contains_any s cs = list_ex (\<lambda>c. c \<in> set cs) s"

definition seps :: string where "seps = [CHR ''/'', CHR 0x5C]"

definition validateHostPort :: "std \<Rightarrow> string \<Rightarrow> bool" where
  "validateHostPort std s0 = (let s = TrimSpace s0 in
     s \<noteq> [] \<and> (case SplitHostPort s of
       Some (h, port) \<Rightarrow> h \<noteq> [] \<and> port_ok port \<and> \<not> contains_any h seps
     | None \<Rightarrow> \<not> (\<not> std_Addr std s \<and> contains_any s '':[]'') \<and> \<not> contains_any s seps))"

definition validateShareName :: "string \<Rightarrow> bool" where
  "validateShareName s0 = (let s = TrimSpace s0 in s \<noteq> [] \<and> \<not> contains_any s seps \<and> s \<noteq> ''.'' \<and> s \<noteq> ''..'')"

definition validatePositiveInt :: "string \<Rightarrow> bool" where
  "validatePositiveInt s = (case Atoi (TrimSpace s) of None \<Rightarrow> False | Some n \<Rightarrow> 1 \<le> n)"

definition validatePercent :: "string \<Rightarrow> bool" where "validatePercent = int_between 0 100"

definition validateFileName :: "string \<Rightarrow> bool" where
  "validateFileName s0 = (let s = TrimSpace s0 in s \<noteq> [] \<and> \<not> (contains_any s seps \<or> s = ''.'' \<or> s = ''..''))"

definition validateRelPath :: "string \<Rightarrow> bool" where
  "validateRelPath s0 = (let s = TrimSpace s0 in
     s = [] \<or> \<not> HasPrefix s ''/'' \<and> list_all (\<lambda>seg. seg \<noteq> ''..'') (split_on (CHR ''/'') s))"

definition validateDuration :: "std \<Rightarrow> string \<Rightarrow> bool" where
  "validateDuration std s = (case ParseDuration std (TrimSpace s) of None \<Rightarrow> False | Some d \<Rightarrow> 0 < d)"

definition validateSize :: "string \<Rightarrow> bool" where "validateSize s \<longleftrightarrow> \<not> isl (ParseSize s)"

definition validateBool :: "string \<Rightarrow> bool" where "validateBool s \<longleftrightarrow> ParseBool (TrimSpace s) \<noteq> None"

definition validateSchedule :: "string \<Rightarrow> bool" where "validateSchedule s \<longleftrightarrow> \<not> isl (Parse s)"

definition validateScanSchedule :: "string \<Rightarrow> bool" where "validateScanSchedule s \<longleftrightarrow> \<not> isl (ParseGate s)"

definition validateTimezone :: "std \<Rightarrow> string \<Rightarrow> bool" where
  "validateTimezone std s \<longleftrightarrow> TrimSpace s \<noteq> [] \<and> std_Zone std s \<noteq> None"

section \<open>The registry\<close>

definition KeyWGPrivateKey :: string where "KeyWGPrivateKey = ''wg.private_key''"
definition KeyWGPeerKey :: string where "KeyWGPeerKey = ''wg.peer_public_key''"
definition KeyWGPresharedKey :: string where "KeyWGPresharedKey = ''wg.preshared_key''"
definition KeyWGEndpoint :: string where "KeyWGEndpoint = ''wg.endpoint''"
definition KeyWGAddress :: string where "KeyWGAddress = ''wg.address''"
definition KeyWGAllowedIPs :: string where "KeyWGAllowedIPs = ''wg.allowed_ips''"
definition KeyWGDNS :: string where "KeyWGDNS = ''wg.dns''"
definition KeyWGMTU :: string where "KeyWGMTU = ''wg.mtu''"
definition KeyWGKeepalive :: string where "KeyWGKeepalive = ''wg.keepalive''"
definition KeySchedule :: string where "KeySchedule = ''schedule.transfer''"
definition KeyScanSchedule :: string where "KeyScanSchedule = ''schedule.scan''"
definition KeyAutomatic :: string where "KeyAutomatic = ''schedule.automatic''"
definition KeyScanInterval :: string where "KeyScanInterval = ''schedule.scan_interval''"
definition KeyScanWorkers :: string where "KeyScanWorkers = ''scan.workers''"
definition KeyMTimeTolerance :: string where "KeyMTimeTolerance = ''scan.mtime_tolerance''"
definition KeyTransferChunks :: string where "KeyTransferChunks = ''transfer.chunks''"
definition KeyChunkSize :: string where "KeyChunkSize = ''transfer.chunk_size''"
definition KeyMaxAttempts :: string where "KeyMaxAttempts = ''transfer.max_attempts''"
definition KeyRetryBackoff :: string where "KeyRetryBackoff = ''transfer.retry_backoff''"
definition KeyHashAfterCopy :: string where "KeyHashAfterCopy = ''transfer.hash''"
definition KeyReserve :: string where "KeyReserve = ''transfer.reserve''"
definition KeyDeletePercent :: string where "KeyDeletePercent = ''delete.max_percent''"
definition KeyDeleteRetention :: string where "KeyDeleteRetention = ''delete.retention''"
definition KeyJCCDBDir :: string where "KeyJCCDBDir = ''jcc.db_dir''"
definition KeyJCCDBName :: string where "KeyJCCDBName = ''jcc.db_name''"
definition KeyJCCLockStale :: string where "KeyJCCLockStale = ''jcc.lock_stale''"
definition KeyJCCBackups :: string where "KeyJCCBackups = ''jcc.backups''"
definition KeyNotifyTunnelGrace :: string where "KeyNotifyTunnelGrace = ''notify.tunnel_grace''"
definition KeyUpdateURL :: string where "KeyUpdateURL = ''update.url''"
definition KeyUpdateAuto :: string where "KeyUpdateAuto = ''update.auto''"
definition KeyUpdateInterval :: string where "KeyUpdateInterval = ''update.interval''"
definition KeyRetainEvents :: string where "KeyRetainEvents = ''retention.events''"
definition KeyRetainChanges :: string where "KeyRetainChanges = ''retention.changes''"
definition KeyTimezone :: string where "KeyTimezone = ''general.timezone''"
definition KeyRemoteAPIKey :: string where "KeyRemoteAPIKey = ''remote_api.key''"
definition KeyDashboardPassword :: string where "KeyDashboardPassword = ''dashboard.password''"

record key_def =
  kd_Name :: string
  kd_Default :: string
  kd_Secret :: bool
  kd_Seeded :: bool
  kd_Required :: bool
  kd_Validate :: "std \<Rightarrow> string \<Rightarrow> bool"

definition setting :: "string \<Rightarrow> string \<Rightarrow> bool \<Rightarrow> bool \<Rightarrow> bool \<Rightarrow> (std \<Rightarrow> string \<Rightarrow> bool) \<Rightarrow> key_def" where
  "setting n d secret seeded req v =
     \<lparr>kd_Name = n, kd_Default = d, kd_Secret = secret, kd_Seeded = seeded, kd_Required = req, kd_Validate = v\<rparr>"

definition keyDefs :: "key_def list" where
  "keyDefs = [
     setting KeyWGPrivateKey '''' True True True (\<lambda>_. validateKey),
     setting KeyWGPeerKey '''' False False True (\<lambda>_. validateKey),
     setting KeyWGEndpoint '''' False False True (\<lambda>_. validateEndpoint),
     setting KeyWGAddress '''' False False True validateAddrList,
     setting KeyWGAllowedIPs '''' False False True validateAddrList,
     setting KeyWGPresharedKey '''' True False False (\<lambda>_. validateOptionalKey),
     setting KeyWGDNS '''' False False False validateOptionalAddrList,
     setting KeyWGMTU ''1420'' False False False (\<lambda>_. validateMTU),
     setting KeyWGKeepalive ''25'' False False False (\<lambda>_. validateKeepalive),
     setting KeySchedule '''' False False False (\<lambda>_. validateSchedule),
     setting KeyScanSchedule '''' False False False (\<lambda>_. validateScanSchedule),
     setting KeyAutomatic ''false'' False False False (\<lambda>_. validateBool),
     setting KeyScanInterval ''24h'' False False False validateDuration,
     setting KeyScanWorkers ''8'' False False False (\<lambda>_. validatePositiveInt),
     setting KeyMTimeTolerance ''2s'' False False False validateDuration,
     setting KeyTransferChunks ''4'' False False False (\<lambda>_. validatePositiveInt),
     setting KeyChunkSize ''64MiB'' False False False (\<lambda>_. validateSize),
     setting KeyMaxAttempts ''5'' False False False (\<lambda>_. validatePositiveInt),
     setting KeyRetryBackoff ''30s'' False False False validateDuration,
     setting KeyHashAfterCopy ''false'' False False False (\<lambda>_. validateBool),
     setting KeyReserve ''50GiB'' False False False (\<lambda>_. validateSize),
     setting KeyDeletePercent ''10'' False False False (\<lambda>_. validatePercent),
     setting KeyDeleteRetention ''168h'' False False False validateDuration,
     setting KeyJCCDBName ''ClipCornDB'' False False False (\<lambda>_. validateFileName),
     setting KeyJCCDBDir '''' False False False (\<lambda>_. validateRelPath),
     setting KeyJCCLockStale ''24h'' False False False validateDuration,
     setting KeyJCCBackups ''5'' False False False (\<lambda>_. validatePositiveInt),
     setting KeyNotifyTunnelGrace ''15m'' False False False validateDuration,
     setting KeyUpdateURL '''' False False False validateUpdateURL,
     setting KeyUpdateAuto ''false'' False False False (\<lambda>_. validateBool),
     setting KeyUpdateInterval ''6h'' False False False validateDuration,
     setting KeyRetainEvents ''8760h'' False False False validateDuration,
     setting KeyRetainChanges ''8760h'' False False False validateDuration,
     setting KeyTimezone ''Europe/Berlin'' False False False validateTimezone,
     setting KeyRemoteAPIKey '''' True False False (\<lambda>_. validateAPIKey),
     setting KeyDashboardPassword '''' True True False (\<lambda>_. validatePassword)]"

definition keyByName :: "string \<Rightarrow> key_def option" where
  "keyByName k = find (\<lambda>d. kd_Name d = k) keyDefs"

text \<open>Eight bullets, in UTF-8.\<close>

definition SecretMask :: string where
  "SecretMask = concat (replicate 8 [CHR 0xE2, CHR 0x80, CHR 0xA2])"

section \<open>Values\<close>

type_synonym vals = "string \<Rightarrow> string"

definition default_of :: "string \<Rightarrow> string" where
  "default_of k = (case keyByName k of None \<Rightarrow> [] | Some d \<Rightarrow> kd_Default d)"

text \<open>What is stored, else what is the default, else the zero value.\<close>

definition read_as :: "(string \<Rightarrow> 'a option) \<Rightarrow> 'a \<Rightarrow> vals \<Rightarrow> string \<Rightarrow> 'a" where
  "read_as f z v k = (case f (v k) of Some a \<Rightarrow> a | None \<Rightarrow> (case f (default_of k) of Some a \<Rightarrow> a | None \<Rightarrow> z))"

definition Values_Int :: "vals \<Rightarrow> string \<Rightarrow> int" where
  "Values_Int = read_as (\<lambda>s. Atoi (TrimSpace s)) 0"

definition Values_Duration :: "std \<Rightarrow> vals \<Rightarrow> string \<Rightarrow> duration" where
  "Values_Duration std = read_as (\<lambda>s. ParseDuration std (TrimSpace s)) 0"

definition Values_Size :: "vals \<Rightarrow> string \<Rightarrow> int" where
  "Values_Size = read_as (\<lambda>s. case ParseSize s of Inl _ \<Rightarrow> None | Inr n \<Rightarrow> Some n) 0"

definition Values_Bool :: "vals \<Rightarrow> string \<Rightarrow> bool" where
  "Values_Bool = read_as (\<lambda>s. ParseBool (TrimSpace s)) False"

definition OptionsFrom :: "std \<Rightarrow> vals \<Rightarrow> options" where
  "OptionsFrom std v = \<lparr>opt_DataDir = [], opt_ScanWorkers = Values_Int v KeyScanWorkers,
     opt_MTimeTolerance = Values_Duration std v KeyMTimeTolerance, opt_Chunks = Values_Int v KeyTransferChunks,
     opt_ChunkSize = Values_Size v KeyChunkSize, opt_MaxAttempts = Values_Int v KeyMaxAttempts,
     opt_RetryBackoff = Values_Duration std v KeyRetryBackoff, opt_HashAfterCopy = Values_Bool v KeyHashAfterCopy,
     opt_Reserve = Values_Size v KeyReserve, opt_DeletePercent = Values_Int v KeyDeletePercent,
     opt_TrashRetention = Values_Duration std v KeyDeleteRetention,
     opt_JCC = \<lparr>jcc_DBDir = v KeyJCCDBDir, jcc_DBName = v KeyJCCDBName,
       jcc_LockStale = Values_Duration std v KeyJCCLockStale, jcc_Backups = Values_Int v KeyJCCBackups\<rparr>\<rparr>"

section \<open>The table\<close>

definition put_config :: "(config_row list \<Rightarrow> config_row list) \<Rightarrow> unit op" where
  "put_config g = exec (\<lambda>w. Inr ((), w\<lparr>config := g (config w)\<rparr>))"

definition put_audit :: "(audit_row list \<Rightarrow> audit_row list) \<Rightarrow> unit op" where
  "put_audit g = exec (\<lambda>w. Inr ((), w\<lparr>audit := g (audit w)\<rparr>))"

definition stored :: "config_row list \<Rightarrow> string \<Rightarrow> string option" where
  "stored rows k = map_option cf_Value (find (\<lambda>c. cf_Key c = k) rows)"

text \<open>A key that is not in the registry any more stays in the table and is not handed out.\<close>

definition values_of :: "config_row list \<Rightarrow> vals" where
  "values_of rows k = (case keyByName k of None \<Rightarrow> []
     | Some d \<Rightarrow> (case stored rows k of Some v \<Rightarrow> v | None \<Rightarrow> kd_Default d))"

definition Config :: "vals op" where
  "Config = wrapE ''read config'' (query (\<lambda>w. values_of (config w)))"

definition ConfigGet :: "string \<Rightarrow> string op" where
  "ConfigGet k = (case keyByName k of
     None \<Rightarrow> throwE (EWrap k EUnknownKey)
   | Some d \<Rightarrow> bindE (wrapE ''read config'' (query (\<lambda>w. stored (config w) k))) (\<lambda>v.
       returnE (case v of None \<Rightarrow> kd_Default d | Some s \<Rightarrow> s)))"

text \<open>What a batch is refused for, if anything: the first bad name in their order.\<close>

fun refused :: "std \<Rightarrow> (string \<Rightarrow> string) \<Rightarrow> string list \<Rightarrow> error option" where
  "refused std vs [] = None"
| "refused std vs (k # ks) = (case keyByName k of
     None \<Rightarrow> Some (EWrap k EUnknownKey)
   | Some d \<Rightarrow> if kd_Validate d std (vs k) then refused std vs ks else Some (EInvalid k))"

definition is_secret :: "string \<Rightarrow> bool" where
  "is_secret k = (case keyByName k of None \<Rightarrow> False | Some d \<Rightarrow> kd_Secret d)"

definition audit_of :: "int \<Rightarrow> string \<Rightarrow> string \<Rightarrow> string option \<Rightarrow> string \<Rightarrow> audit_row list \<Rightarrow> audit_row list" where
  "audit_of ms actor k old new rows = rows @ [\<lparr>au_ID = next_rowid (map au_ID rows), au_TS = ms, au_Key = k,
     au_Old = (if is_secret k then map_option (\<lambda>_. SecretMask) old else old),
     au_New = (if is_secret k then SecretMask else new), au_Actor = actor\<rparr>]"

definition config_upsert :: "int \<Rightarrow> string \<Rightarrow> string \<Rightarrow> config_row list \<Rightarrow> config_row list" where
  "config_upsert ms k v = sql_upsert (\<lambda>c. cf_Key c = k) \<lparr>cf_Key = k, cf_Value = v, cf_UpdatedAt = ms\<rparr>
     (\<lambda>c. c\<lparr>cf_Value := v, cf_UpdatedAt := ms\<rparr>)"

definition set_one :: "int \<Rightarrow> string \<Rightarrow> (string \<Rightarrow> string) \<Rightarrow> string \<Rightarrow> string list \<Rightarrow> string list op" where
  "set_one ms actor vs k changed =
     bindE (wrapE ''read config'' (query (\<lambda>w. stored (config w) k))) (\<lambda>old.
     if old = Some (vs k) then returnE changed
     else bindE (wrapE ''write config'' (put_config (config_upsert ms k (vs k)))) (\<lambda>_.
          bindE (wrapE ''audit config'' (put_audit (audit_of ms actor k old (vs k)))) (\<lambda>_.
          returnE (changed @ [k]))))"

text \<open>The map of values is an association list; the first entry of a key is its value.\<close>

definition ConfigSet :: "std \<Rightarrow> (string \<times> string) list \<Rightarrow> string \<Rightarrow> string list op" where
  "ConfigSet std values actor =
     (let names = sort (remdups (map fst values)); vs = (\<lambda>k. case map_of values k of None \<Rightarrow> [] | Some v \<Rightarrow> v) in
      case refused std vs names of
        Some e \<Rightarrow> throwE e
      | None \<Rightarrow> bindE now (\<lambda>t. tx (foldE (set_one (UnixMilli t) actor vs) names [])))"

definition ConfigAudit :: "int \<Rightarrow> audit_row list op" where
  "ConfigAudit limit = wrapE ''read config audit'' (query (\<lambda>w.
     take (nat (if limit \<le> 0 then 50 else limit)) (rev (sort_key au_ID (audit w)))))"

text \<open>\<open>generate\<close> is the caller's.\<close>

fun seed :: "std \<Rightarrow> (string \<Rightarrow> string op) \<Rightarrow> key_def list \<Rightarrow> string list \<Rightarrow> string list op" where
  "seed std generate [] created = returnE created"
| "seed std generate (d # ds) created =
     (if \<not> kd_Seeded d then seed std generate ds created
      else bindE (ConfigGet (kd_Name d)) (\<lambda>cur.
        if TrimSpace cur \<noteq> [] then seed std generate ds created
        else bindE (wrapE ''generate'' (generate (kd_Name d))) (\<lambda>v.
             bindE (ConfigSet std [(kd_Name d, v)] ''system'') (\<lambda>_.
             seed std generate ds (created @ [kd_Name d])))))"

definition EnsureSeeded :: "std \<Rightarrow> (string \<Rightarrow> string op) \<Rightarrow> string list op" where
  "EnsureSeeded std generate = seed std generate keyDefs []"

end
