(* ===== verification/SettingsSpec.thy ===== *)
theory SettingsSpec
  imports Settings
begin

text \<open>
  What the settings promise: a batch is written whole or not at all, only what the registry accepts is
  stored, every change leaves one line in the audit trail and no secret does, and what the engine is
  given is within its limits.
\<close>

section \<open>One batch\<close>

lemma stored_upsert: "stored (config_upsert ms k v rows) = (stored rows)(k \<mapsto> v)"
proof
  fix k'
  show "stored (config_upsert ms k v rows) k' = ((stored rows)(k \<mapsto> v)) k'"
    by (simp add: stored_def config_upsert_def find_sql_upsert_key [where k = cf_Key] split: option.splits)
qed

lemma put_config_Inr: "put_config g w = (Inr u, w') \<Longrightarrow> config w' = g (config w) \<and> audit w' = audit w"
  unfolding put_config_def by (drule exec_Inr) (auto simp: used_def)

lemma put_audit_Inr: "put_audit g w = (Inr u, w') \<Longrightarrow> config w' = config w \<and> audit w' = g (audit w)"
  unfolding put_audit_def by (drule exec_Inr) (auto simp: used_def)

definition masked :: "audit_row \<Rightarrow> bool" where
  "masked a \<longleftrightarrow> (is_secret (au_Key a) \<longrightarrow> au_New a = SecretMask \<and> (au_Old a = None \<or> au_Old a = Some SecretMask))"

lemma set_one_Inr:
  assumes "set_one ms actor vs k changed w = (Inr changed', w')"
  shows "stored (config w') = (stored (config w))(k \<mapsto> vs k) \<and>
    (if stored (config w) k = Some (vs k) then changed' = changed \<and> audit w' = audit w
     else changed' = changed @ [k] \<and> (\<exists>a. audit w' = audit w @ [a] \<and> au_Key a = k \<and> masked a))"
proof -
  from assms [unfolded set_one_def] obtain old w1 where q: "wrapE ''read config'' (query (\<lambda>w. stored (config w) k)) w = (Inr old, w1)"
    and rest: "(if old = Some (vs k) then returnE changed
       else bindE (wrapE ''write config'' (put_config (config_upsert ms k (vs k)))) (\<lambda>_.
          bindE (wrapE ''audit config'' (put_audit (audit_of ms actor k old (vs k)))) (\<lambda>_.
          returnE (changed @ [k])))) w1 = (Inr changed', w')"
    by (rule bindE_InrE)
  from q have "query (\<lambda>w. stored (config w) k) w = (Inr old, w1)" by simp
  from query_Inr [OF this] have w1: "config w1 = config w" "audit w1 = audit w" and old: "old = stored (config w) k"
    by (simp_all add: used_def)
  show ?thesis
  proof (cases "old = Some (vs k)")
    case True
    with rest w1 old show ?thesis by (auto simp: returnE_run)
  next
    case False
    with rest obtain w2 w3 where "put_config (config_upsert ms k (vs k)) w1 = (Inr (), w2)"
      "put_audit (audit_of ms actor k old (vs k)) w2 = (Inr (), w3)" "changed' = changed @ [k]" "w' = w3"
      by (auto elim!: bindE_InrE simp: returnE_run)
    with w1 False old show ?thesis
      by (auto dest!: put_config_Inr put_audit_Inr simp: stored_upsert audit_of_def masked_def)
  qed
qed

lemma set_all_Inr:
  assumes "foldE (set_one ms actor vs) ks changed w = (Inr changed', w')" and "distinct ks"
  shows "stored (config w') = (\<lambda>k. if k \<in> set ks then Some (vs k) else stored (config w) k) \<and>
    changed' = changed @ filter (\<lambda>k. stored (config w) k \<noteq> Some (vs k)) ks \<and>
    (\<exists>rows. audit w' = audit w @ rows \<and> map au_Key rows = filter (\<lambda>k. stored (config w) k \<noteq> Some (vs k)) ks \<and> list_all masked rows)"
  using assms
proof (induction ks arbitrary: changed w)
  case Nil
  then show ?case by (simp add: returnE_run)
next
  case (Cons k ks)
  from Cons.prems(1) obtain c1 w1 where one: "set_one ms actor vs k changed w = (Inr c1, w1)"
    and rest: "foldE (set_one ms actor vs) ks c1 w1 = (Inr changed', w')" by (auto elim!: bindE_InrE)
  note s = set_one_Inr [OF one]
  have dist: "distinct ks" "k \<notin> set ks" using Cons.prems(2) by auto
  note IH = Cons.IH [OF rest dist(1)]
  have same: "filter (\<lambda>k. stored (config w1) k \<noteq> Some (vs k)) ks = filter (\<lambda>k. stored (config w) k \<noteq> Some (vs k)) ks"
    by (rule filter_cong) (use s dist(2) in auto)
  from IH obtain rows where rows: "audit w' = audit w1 @ rows" "map au_Key rows = filter (\<lambda>k. stored (config w) k \<noteq> Some (vs k)) ks"
    "list_all masked rows" unfolding same by blast
  have "stored (config w') = (\<lambda>k'. if k' \<in> set (k # ks) then Some (vs k') else stored (config w) k')"
    using IH s by (auto simp: fun_eq_iff)
  moreover have "changed' = changed @ filter (\<lambda>k. stored (config w) k \<noteq> Some (vs k)) (k # ks)"
    using IH s unfolding same by (auto split: if_splits)
  moreover have "\<exists>rows. audit w' = audit w @ rows \<and> map au_Key rows = filter (\<lambda>k. stored (config w) k \<noteq> Some (vs k)) (k # ks) \<and> list_all masked rows"
  proof (cases "stored (config w) k = Some (vs k)")
    case True
    with s rows show ?thesis by auto
  next
    case False
    with s obtain a where "audit w1 = audit w @ [a]" "au_Key a = k" "masked a" by auto
    with False rows show ?thesis by (intro exI [of _ "a # rows"]) auto
  qed
  ultimately show ?case by blast
qed

lemma refused_None:
  "refused std vs ks = None \<longleftrightarrow> (\<forall>k \<in> set ks. \<exists>d. keyByName k = Some d \<and> kd_Validate d std (vs k))"
  by (induction ks) (auto split: option.splits)

text \<open>The whole batch, as a function of the table.\<close>

lemma ConfigSet_Inr:
  assumes "ConfigSet std values actor w = (Inr changed, w')"
  shows "(\<forall>k v. map_of values k = Some v \<longrightarrow> (\<exists>d. keyByName k = Some d \<and> kd_Validate d std v)) \<and>
    stored (config w') = stored (config w) ++ map_of values \<and>
    changed = filter (\<lambda>k. stored (config w) k \<noteq> map_of values k) (sort (remdups (map fst values))) \<and>
    (\<exists>rows. audit w' = audit w @ rows \<and> map au_Key rows = changed \<and> list_all masked rows)"
proof -
  define vs where "vs = (\<lambda>k. case map_of values k of None \<Rightarrow> [] | Some v \<Rightarrow> v)"
  define names where "names = sort (remdups (map fst values))"
  have none: "refused std vs names = None"
    using assms unfolding ConfigSet_def Let_def vs_def [symmetric] names_def [symmetric] by (auto simp: throwE_run split: option.splits)
  with assms obtain t w1 where "now w = (Inr t, w1)"
    and run: "tx (foldE (set_one (UnixMilli t) actor vs) names []) w1 = (Inr changed, w')"
    unfolding ConfigSet_def Let_def vs_def [symmetric] names_def [symmetric] by (auto elim!: bindE_InrE)
  then have w1: "config w1 = config w" "audit w1 = audit w" by (auto elim!: run_elims)
  from run obtain e w3 e2 where fold: "foldE (set_one (UnixMilli t) actor vs) names [] (w1\<lparr>env := e\<rparr>) = (Inr changed, w3)"
    and "w' = w3\<lparr>env := e2\<rparr>" by (rule tx_InrE)
  then have three: "config w' = config w3" "audit w' = audit w3" by simp_all
  have names: "distinct names" "set names = fst ` set values" by (auto simp: names_def)
  have val: "map_of values k = (if k \<in> set names then Some (vs k) else None)" for k
    unfolding names(2) vs_def by (cases "map_of values k") (auto simp: map_of_eq_None_iff dest: map_of_SomeD intro: rev_image_eqI)
  have eq: "config (w1\<lparr>env := e\<rparr>) = config w" "audit (w1\<lparr>env := e\<rparr>) = audit w" using w1 by simp_all
  note all = set_all_Inr [OF fold names(1), unfolded eq append_Nil]
  have "filter (\<lambda>k. stored (config w) k \<noteq> Some (vs k)) names = filter (\<lambda>k. stored (config w) k \<noteq> map_of values k) names"
    by (rule filter_cong) (simp_all add: val)
  note all = all [unfolded this]
  have "\<forall>k v. map_of values k = Some v \<longrightarrow> (\<exists>d. keyByName k = Some d \<and> kd_Validate d std v)"
    using none unfolding refused_None by (auto simp: val split: if_splits)
  moreover have "stored (config w') = stored (config w) ++ map_of values"
    using all by (auto simp: three map_add_def val fun_eq_iff)
  ultimately show ?thesis using all unfolding three names_def by auto
qed

lemma ConfigSet_Inl:
  assumes "ConfigSet std values actor w = (Inl e, w')"
  shows "\<exists>v. w' = w\<lparr>env := v\<rparr>"
proof -
  from assms consider "w' = w" | t w1 where "now w = (Inr t, w1)"
      "tx (foldE (set_one (UnixMilli t) actor (\<lambda>k. case map_of values k of None \<Rightarrow> [] | Some v \<Rightarrow> v)) (sort (remdups (map fst values))) []) w1 = (Inl e, w')"
    unfolding ConfigSet_def Let_def by (auto simp: throwE_run bindE_Inl split: option.splits)
  then show ?thesis
  proof cases
    case 1
    then show ?thesis by (intro exI [of _ "env w"]) simp
  next
    case 2
    then show ?thesis by (auto elim!: run_elims dest!: tx_Inl)
  qed
qed

text \<open>
  (C19) Settings are written all or nothing. A batch that is refused, or that fails anywhere on the way,
  changes neither the settings nor their history. One that succeeds held only known keys with
  values their validators accept; afterwards exactly its keys have its values, the answer lists the keys that
  moved, and the history has one new line for each of those and no other, none of which tells a secret.
\<close>

theorem config_set_atomic:
  assumes "ConfigSet std values actor w = (r, w')"
  shows "case r of
      Inl _ \<Rightarrow> config w' = config w \<and> audit w' = audit w
    | Inr changed \<Rightarrow> (\<forall>k v. map_of values k = Some v \<longrightarrow> (\<exists>d. keyByName k = Some d \<and> kd_Validate d std v)) \<and>
        stored (config w') = stored (config w) ++ map_of values \<and>
        changed = filter (\<lambda>k. stored (config w) k \<noteq> map_of values k) (sort (remdups (map fst values))) \<and>
        (\<exists>rows. audit w' = audit w @ rows \<and> map au_Key rows = changed \<and> list_all masked rows)"
proof (cases r)
  case (Inl e)
  from ConfigSet_Inl [OF assms [unfolded Inl]] show ?thesis by (auto simp: Inl)
next
  case (Inr changed)
  from ConfigSet_Inr [OF assms [unfolded Inr]] show ?thesis unfolding Inr sum.case .
qed

section \<open>What is stored is valid\<close>

definition config_ok :: "std \<Rightarrow> config_row list \<Rightarrow> bool" where
  "config_ok std rows \<longleftrightarrow> (\<forall>k v d. stored rows k = Some v \<longrightarrow> keyByName k = Some d \<longrightarrow> kd_Validate d std v)"

abbreviation stays_valid :: "std \<Rightarrow> world \<Rightarrow> world \<Rightarrow> bool" where
  "stays_valid std w w' \<equiv> config_ok std (config w) \<longrightarrow> config_ok std (config w')"

interpretation valid: step_rel "stays_valid std" for std
  by unfold_locales auto

lemma ConfigSet_valid: "keeps (stays_valid std) (ConfigSet std values actor)"
proof (rule keepsI)
  fix w r w'
  assume run: "ConfigSet std values actor w = (r, w')"
  show "stays_valid std w w'"
  proof (cases r)
    case (Inl e)
    from ConfigSet_Inl [OF run [unfolded Inl]] show ?thesis by auto
  next
    case (Inr changed)
    note S = ConfigSet_Inr [OF run [unfolded Inr]]
    show ?thesis
    proof
      assume ok: "config_ok std (config w)"
      show "config_ok std (config w')"
        unfolding config_ok_def
      proof (intro allI impI)
        fix k v d
        assume v: "stored (config w') k = Some v" and d: "keyByName k = Some d"
        show "kd_Validate d std v"
        proof (cases "map_of values k")
          case None
          with v S have "stored (config w) k = Some v" by (simp add: map_add_def)
          with ok d show ?thesis by (simp add: config_ok_def)
        next
          case (Some u)
          with v S have "u = v" by simp
          with Some S d show ?thesis by fastforce
        qed
      qed
    qed
  qed
qed

lemma seed_valid: "(\<And>k. env_only (generate k)) \<Longrightarrow> keeps (stays_valid std) (seed std generate ds created)"
proof (induction ds arbitrary: created)
  case Nil
  then show ?case by (auto intro!: valid.keeps_rules)
next
  case (Cons d ds)
  have gen: "keeps (stays_valid std) (generate k)" for k
    by (rule keepsI) (use keepsD [OF Cons.prems] in fastforce)
  from Cons show ?case
    by (auto simp: ConfigGet_def intro!: valid.keeps_rules ConfigSet_valid gen split: option.splits)
qed

lemmas key_names = KeyWGPrivateKey_def KeyWGPeerKey_def KeyWGPresharedKey_def KeyWGEndpoint_def KeyWGAddress_def KeyWGAllowedIPs_def
  KeyWGDNS_def KeyWGMTU_def KeyWGKeepalive_def KeySchedule_def KeyScanSchedule_def KeyAutomatic_def
  KeyScanInterval_def KeyScanWorkers_def KeyMTimeTolerance_def KeyTransferChunks_def KeyChunkSize_def KeyMaxAttempts_def
  KeyRetryBackoff_def KeyHashAfterCopy_def KeyReserve_def KeyDeletePercent_def KeyDeleteRetention_def KeyJCCDBDir_def
  KeyJCCDBName_def KeyJCCLockStale_def KeyJCCBackups_def KeyNotifyTunnelGrace_def KeyUpdateURL_def KeyUpdateAuto_def
  KeyUpdateInterval_def KeyRetainEvents_def KeyRetainChanges_def KeyTimezone_def KeyRemoteAPIKey_def KeyDashboardPassword_def

text \<open>Reading a valid table in the type a setting is written in.\<close>

lemma read_valid:
  assumes "config_ok std rows" and d: "keyByName k = Some d" and "kd_Validate d std (kd_Default d)"
    and "\<And>s. kd_Validate d std s \<Longrightarrow> \<exists>a. f s = Some a \<and> P a"
  shows "P (read_as f z (values_of rows) k)"
proof -
  have "kd_Validate d std (values_of rows k)"
    using assms(1-3) by (auto simp: values_of_def config_ok_def split: option.splits)
  from assms(4) [OF this] show ?thesis by (auto simp: read_as_def)
qed

lemma read_durations:
  assumes "config_ok std rows" and "keyByName k = Some (setting k s a b c validateDuration)" and "validateDuration std s"
  shows "0 < Values_Duration std (values_of rows) k"
  unfolding Values_Duration_def
  by (rule read_valid [OF assms(1,2)]) (use assms(3) in \<open>auto simp: setting_def validateDuration_def split: option.splits\<close>)

lemma read_counts:
  assumes "config_ok std rows" and "keyByName k = Some (setting k s a b c (\<lambda>_. validatePositiveInt))" and "validatePositiveInt s"
  shows "1 \<le> Values_Int (values_of rows) k"
  unfolding Values_Int_def
  by (rule read_valid [OF assms(1,2)]) (use assms(3) in \<open>auto simp: setting_def validatePositiveInt_def split: option.splits\<close>)

lemma read_percent:
  assumes "config_ok std rows" and "keyByName k = Some (setting k s a b c (\<lambda>_. validatePercent))" and "validatePercent s"
  shows "0 \<le> Values_Int (values_of rows) k \<and> Values_Int (values_of rows) k \<le> 100"
  unfolding Values_Int_def
  by (rule read_valid [OF assms(1,2)]) (use assms(3) in \<open>auto simp: setting_def validatePercent_def int_between_def split: option.splits\<close>)

lemma engine_keys:
  "keyByName KeyScanWorkers = Some (setting KeyScanWorkers ''8'' False False False (\<lambda>_. validatePositiveInt))"
  "keyByName KeyMTimeTolerance = Some (setting KeyMTimeTolerance ''2s'' False False False validateDuration)"
  "keyByName KeyTransferChunks = Some (setting KeyTransferChunks ''4'' False False False (\<lambda>_. validatePositiveInt))"
  "keyByName KeyMaxAttempts = Some (setting KeyMaxAttempts ''5'' False False False (\<lambda>_. validatePositiveInt))"
  "keyByName KeyRetryBackoff = Some (setting KeyRetryBackoff ''30s'' False False False validateDuration)"
  "keyByName KeyDeletePercent = Some (setting KeyDeletePercent ''10'' False False False (\<lambda>_. validatePercent))"
  "keyByName KeyDeleteRetention = Some (setting KeyDeleteRetention ''168h'' False False False validateDuration)"
  "keyByName KeyJCCLockStale = Some (setting KeyJCCLockStale ''24h'' False False False validateDuration)"
  "keyByName KeyJCCBackups = Some (setting KeyJCCBackups ''5'' False False False (\<lambda>_. validatePositiveInt))"
  unfolding keyByName_def keyDefs_def by (simp_all add: setting_def key_names)

lemma engine_defaults:
  "validatePositiveInt ''8''" "validateDuration std ''2s''" "validatePositiveInt ''4''" "validatePositiveInt ''5''"
  "validateDuration std ''30s''" "validatePercent ''10''" "validateDuration std ''168h''" "validateDuration std ''24h''"
  by code_simp+

definition engine_limits :: "options \<Rightarrow> bool" where
  "engine_limits o1 \<longleftrightarrow> 1 \<le> opt_ScanWorkers o1 \<and> 0 < opt_MTimeTolerance o1 \<and> 1 \<le> opt_Chunks o1 \<and> 1 \<le> opt_MaxAttempts o1 \<and>
     0 < opt_RetryBackoff o1 \<and> 0 \<le> opt_DeletePercent o1 \<and> opt_DeletePercent o1 \<le> 100 \<and> 0 < opt_TrashRetention o1 \<and>
     0 < jcc_LockStale (opt_JCC o1) \<and> 1 \<le> jcc_Backups (opt_JCC o1)"

lemma options_limits:
  assumes ok: "config_ok std rows"
  shows "engine_limits (OptionsFrom std (values_of rows))"
  unfolding engine_limits_def OptionsFrom_def options.simps JCC.simps
  using read_counts [OF ok engine_keys(1) engine_defaults(1)] read_durations [OF ok engine_keys(2) engine_defaults(2)]
    read_counts [OF ok engine_keys(3) engine_defaults(3)] read_counts [OF ok engine_keys(4) engine_defaults(4)]
    read_durations [OF ok engine_keys(5) engine_defaults(5)] read_percent [OF ok engine_keys(6) engine_defaults(6)]
    read_durations [OF ok engine_keys(7) engine_defaults(7)] read_durations [OF ok engine_keys(8) engine_defaults(8)]
    read_counts [OF ok engine_keys(9) engine_defaults(4)]
  by blast

text \<open>The calls that write settings, whatever becomes of each.\<close>

datatype config_call = SetCall "(string \<times> string) list" string | SeedCall

fun config_do :: "std \<Rightarrow> (string \<Rightarrow> string op) \<Rightarrow> config_call \<Rightarrow> unit op" where
  "config_do std generate (SetCall batch actor) = ignoreE (ConfigSet std batch actor)"
| "config_do std generate SeedCall = ignoreE (EnsureSeeded std generate)"

lemma config_do_valid: "(\<And>k. env_only (generate k)) \<Longrightarrow> keeps (stays_valid std) (config_do std generate c)"
  by (cases c) (auto simp: EnsureSeeded_def intro!: valid.keeps_rules ConfigSet_valid seed_valid)

text \<open>
  (C14) What the engine is given. From a table whose values are valid (the empty one is), any sequence of writes
  and seedings, failed ones included, leaves a table whose values are valid; and the options read from
  such a table are within the engine's limits: at least one worker, one stream, one attempt and one kept
  copy, durations above zero, a percentage between 0 and 100. The chunk size, which is no setting, and a tolerance below a second
  are filled in when the engine is made.
\<close>

theorem settings_reach_engine:
  assumes "\<And>k. env_only (generate k)" and "config_ok std (config w)" and "forE calls (config_do std generate) w = (r, w')"
  shows "config_ok std (config w') \<and> engine_limits (OptionsFrom std (values_of (config w')))"
proof -
  have "keeps (stays_valid std) (forE calls (config_do std generate))"
    by (intro valid.keeps_for config_do_valid assms(1))
  from keepsD [OF this assms(3)] assms(2) have "config_ok std (config w')" by blast
  with options_limits show ?thesis by blast
qed

section \<open>First start\<close>

lemma setting_seeded: "kd_Seeded (setting n d secret seeded req v) = seeded"
  by (simp add: setting_def)

lemma seeded_defs: "filter kd_Seeded keyDefs =
    [setting KeyWGPrivateKey [] True True True (\<lambda>_. validateKey), setting KeyDashboardPassword [] True True False (\<lambda>_. validatePassword)]"
  unfolding keyDefs_def by (simp add: setting_seeded)

lemma seeded_nonblank:
  assumes "d \<in> set keyDefs" and "kd_Seeded d" and "kd_Validate d std v"
  shows "TrimSpace v \<noteq> []"
proof -
  from assms(1,2) have "d \<in> set (filter kd_Seeded keyDefs)" by simp
  then have "d = setting KeyWGPrivateKey [] True True True (\<lambda>_. validateKey) \<or>
      d = setting KeyDashboardPassword [] True True False (\<lambda>_. validatePassword)"
    unfolding seeded_defs by simp
  then show ?thesis
  proof
    assume "d = setting KeyWGPrivateKey [] True True True (\<lambda>_. validateKey)"
    with assms(3) show ?thesis by (auto simp: setting_def validateKey_def base64_len_def)
  next
    assume "d = setting KeyDashboardPassword [] True True False (\<lambda>_. validatePassword)"
    with assms(3) have "8 \<le> length v" "printable v" by (auto simp: setting_def validatePassword_def)
    then obtain c cs where v: "v = c # cs" "CHR ''!'' \<le> c" by (cases v) (auto simp: printable_def)
    have "\<not> is_space c" using v(2) by (auto simp: is_space_def less_eq_char_def)
    with v(1) show ?thesis by (simp add: TrimSpace_def trim_with_def)
  qed
qed

lemma setting_name: "kd_Name (setting n d secret seeded req v) = n"
  by (simp add: setting_def)

lemma key_names_distinct: "distinct (map kd_Name keyDefs)"
  unfolding keyDefs_def list.map setting_name by (simp add: key_names)

lemma keyByName_of: "d \<in> set keyDefs \<Longrightarrow> keyByName (kd_Name d) = Some d"
  unfolding keyByName_def by (rule find_distinct [OF key_names_distinct]) simp_all

lemma ConfigGet_Inr:
  assumes "ConfigGet k w = (Inr v, w')"
  shows "v = values_of (config w) k" and "config w' = config w"
proof -
  from assms obtain d where d: "keyByName k = Some d" unfolding ConfigGet_def by (auto simp: throwE_run split: option.splits)
  with assms obtain o1 w1 where "wrapE ''read config'' (query (\<lambda>w. stored (config w) k)) w = (Inr o1, w1)"
    and v: "v = (case o1 of None \<Rightarrow> kd_Default d | Some s \<Rightarrow> s)" "w' = w1"
    unfolding ConfigGet_def by (auto elim!: bindE_InrE simp: returnE_run)
  then have "query (\<lambda>w. stored (config w) k) w = (Inr o1, w1)" by simp
  from query_Inr [OF this] v d show "v = values_of (config w) k" "config w' = config w"
    by (simp_all add: values_of_def used_def)
qed

lemma values_cong: "stored rows k = stored rows' k \<Longrightarrow> values_of rows k = values_of rows' k"
  by (auto simp: values_of_def split: option.splits)

text \<open>What seeding does with the keys it is given.\<close>

lemma seed_run:
  assumes "seed std generate ds created w = (Inr created', w')" and gen: "\<And>k. env_only (generate k)"
    and "set ds \<subseteq> set keyDefs" and "distinct (map kd_Name ds)"
  shows "set created \<subseteq> set created' \<and>
    (\<forall>d \<in> set ds. kd_Seeded d \<longrightarrow> TrimSpace (values_of (config w') (kd_Name d)) \<noteq> []) \<and>
    (\<forall>k. stored (config w') k \<noteq> stored (config w) k \<longrightarrow>
       k \<in> kd_Name ` set ds \<and> k \<in> set created' \<and> TrimSpace (values_of (config w) k) = [])"
  using assms(1,3,4)
proof (induction ds arbitrary: created w)
  case Nil
  then show ?case by (simp add: returnE_run)
next
  case (Cons d ds)
  have ds: "set ds \<subseteq> set keyDefs" "distinct (map kd_Name ds)" "kd_Name d \<notin> kd_Name ` set ds" "d \<in> set keyDefs"
    using Cons.prems(2,3) by auto
  show ?case
  proof (cases "kd_Seeded d")
    case False
    with Cons.prems(1) have "seed std generate ds created w = (Inr created', w')" by simp
    from Cons.IH [OF this ds(1,2)] False show ?thesis by auto
  next
    case True
    with Cons.prems(1) have "bindE (ConfigGet (kd_Name d)) (\<lambda>cur.
        if TrimSpace cur \<noteq> [] then seed std generate ds created
        else bindE (wrapE ''generate'' (generate (kd_Name d))) (\<lambda>v.
             bindE (ConfigSet std [(kd_Name d, v)] ''system'') (\<lambda>_.
             seed std generate ds (created @ [kd_Name d])))) w = (Inr created', w')" by simp
    then obtain cur w1 where get: "ConfigGet (kd_Name d) w = (Inr cur, w1)"
      and rest: "(if TrimSpace cur \<noteq> [] then seed std generate ds created
        else bindE (wrapE ''generate'' (generate (kd_Name d))) (\<lambda>v.
             bindE (ConfigSet std [(kd_Name d, v)] ''system'') (\<lambda>_.
             seed std generate ds (created @ [kd_Name d])))) w1 = (Inr created', w')"
      by (rule bindE_InrE)
    note g = ConfigGet_Inr [OF get]
    show ?thesis
    proof (cases "TrimSpace cur = []")
      case False
      with rest have "seed std generate ds created w1 = (Inr created', w')" by simp
      note IH = Cons.IH [OF this ds(1,2), unfolded g(2)]
      then have "stored (config w') (kd_Name d) = stored (config w) (kd_Name d)" using ds(3) by blast
      from values_cong [OF this] g(1) False have "TrimSpace (values_of (config w') (kd_Name d)) \<noteq> []" by simp
      with IH show ?thesis by auto
    next
      case blank: True
      with rest have "bindE (wrapE ''generate'' (generate (kd_Name d))) (\<lambda>v. bindE (ConfigSet std [(kd_Name d, v)] ''system'') (\<lambda>_.
             seed std generate ds (created @ [kd_Name d]))) w1 = (Inr created', w')" by simp
      then obtain v w2 where gv: "wrapE ''generate'' (generate (kd_Name d)) w1 = (Inr v, w2)"
        and set: "bindE (ConfigSet std [(kd_Name d, v)] ''system'') (\<lambda>_. seed std generate ds (created @ [kd_Name d])) w2 = (Inr created', w')"
        by (rule bindE_InrE)
      from set obtain c w3 where put: "ConfigSet std [(kd_Name d, v)] ''system'' w2 = (Inr c, w3)"
        and more: "seed std generate ds (created @ [kd_Name d]) w3 = (Inr created', w')" by (rule bindE_InrE)
      from gv have v: "generate (kd_Name d) w1 = (Inr v, w2)" by simp
      have w2: "config w2 = config w" using keepsD [OF gen v] g(2) by auto
      have "map_of [(kd_Name d, v)] (kd_Name d) = Some v" by simp
      with ConfigSet_Inr [OF put] have "\<exists>d'. keyByName (kd_Name d) = Some d' \<and> kd_Validate d' std v" by blast
      then have ok: "kd_Validate d std v" using keyByName_of [OF ds(4)] by simp
      have st: "stored (config w3) = (stored (config w))(kd_Name d \<mapsto> v)"
        using ConfigSet_Inr [OF put] by (simp add: w2 map_add_def fun_eq_iff)
      note IH = Cons.IH [OF more ds(1,2)]
      then have "stored (config w') (kd_Name d) = stored (config w3) (kd_Name d)" using ds(3) by blast
      then have "values_of (config w') (kd_Name d) = v" by (simp add: values_of_def keyByName_of [OF ds(4)] st)
      with seeded_nonblank [OF ds(4) True ok] have "TrimSpace (values_of (config w') (kd_Name d)) \<noteq> []" by simp
      moreover have "stored (config w') k \<noteq> stored (config w) k \<longrightarrow>
         k \<in> kd_Name ` set (d # ds) \<and> k \<in> set created' \<and> TrimSpace (values_of (config w) k) = []" for k
      proof (cases "k = kd_Name d")
        case True
        with IH blank g(1) show ?thesis by auto
      next
        case False
        then have same: "stored (config w3) k = stored (config w) k" by (simp add: st)
        from IH have "stored (config w') k \<noteq> stored (config w3) k \<longrightarrow>
          k \<in> kd_Name ` set ds \<and> k \<in> set created' \<and> TrimSpace (values_of (config w3) k) = []" by blast
        with same values_cong [OF same] show ?thesis by simp
      qed
      ultimately show ?thesis using IH by auto
    qed
  qed
qed

text \<open>
  (C32) The first start. When seeding succeeds, every setting that must not be empty has a value that is
  not blank; and it has changed nothing but settings that were blank before, each of which it lists.
\<close>

theorem seeding_completes:
  assumes "EnsureSeeded std generate w = (Inr created, w')" and "\<And>k. env_only (generate k)"
  shows "(\<forall>d. d \<in> set keyDefs \<and> kd_Seeded d \<longrightarrow> TrimSpace (values_of (config w') (kd_Name d)) \<noteq> []) \<and>
    (\<forall>k. stored (config w') k \<noteq> stored (config w) k \<longrightarrow> k \<in> set created \<and> TrimSpace (values_of (config w) k) = [])"
  using seed_run [OF assms(1) [unfolded EnsureSeeded_def] assms(2) subset_refl key_names_distinct] by blast

section \<open>Concrete settings\<close>

text \<open>A library that knows no addresses, no URLs and one zone, and whose fractions are exact.\<close>

definition demo_std :: std where
  "demo_std = \<lparr>std_Prefix = (\<lambda>_. False), std_Addr = (\<lambda>_. False), std_URL = (\<lambda>_. None), std_Zone = (\<lambda>_. Some UTC),
     std_Frac = (\<lambda>f unit scale. f * unit div scale)\<rparr>"

definition workers_set :: "(error + string list) \<times> world" where
  "workers_set = ConfigSet demo_std [(''scan.workers'', ''3''), (''delete.max_percent'', ''20'')] ''me'' empty_world"

lemma workers_set_says: "fst workers_set = Inr [''delete.max_percent'', ''scan.workers'']"
  by code_simp

theorem config_set_atomic_witness:
  "stored (config (snd workers_set)) ''scan.workers'' = Some ''3'' \<and> map au_Key (audit (snd workers_set)) = [''delete.max_percent'', ''scan.workers'']"
proof -
  have "ConfigSet demo_std [(''scan.workers'', ''3''), (''delete.max_percent'', ''20'')] ''me'' empty_world =
      (Inr [''delete.max_percent'', ''scan.workers''], snd workers_set)"
    using workers_set_says by (metis workers_set_def prod.collapse)
  from config_set_atomic [OF this] show ?thesis by (auto simp: empty_world_def)
qed

text \<open>A generator of keys: 43 letters and a padding character are 32 bytes.\<close>

definition demo_generate :: "string \<Rightarrow> string op" where
  "demo_generate k = query (\<lambda>_. replicate 43 (CHR ''A'') @ ''='')"

lemma demo_generate_ok: "env_only (demo_generate k)"
  unfolding demo_generate_def by (intro env_step.keeps_rules)

lemma seeded_run: "fst (EnsureSeeded demo_std demo_generate empty_world) = Inr [KeyWGPrivateKey, KeyDashboardPassword]"
  by code_simp

theorem seeding_completes_witness:
  "TrimSpace (values_of (config (snd (EnsureSeeded demo_std demo_generate empty_world))) KeyDashboardPassword) \<noteq> []"
proof -
  have "setting KeyDashboardPassword [] True True False (\<lambda>_. validatePassword) \<in> set (filter kd_Seeded keyDefs)"
    unfolding seeded_defs by simp
  then have "setting KeyDashboardPassword [] True True False (\<lambda>_. validatePassword) \<in> set keyDefs" by simp
  with seeding_completes [OF run_snd [where m = "EnsureSeeded demo_std demo_generate", OF seeded_run] demo_generate_ok]
  show ?thesis by (metis setting_name setting_seeded)
qed

theorem settings_reach_engine_witness:
  "engine_limits (OptionsFrom demo_std (values_of (config (snd (forE [SetCall [(''scan.workers'', ''0'')] ''me'', SeedCall]
     (config_do demo_std demo_generate) empty_world)))))"
proof -
  have "config_ok demo_std (config empty_world)" by (simp add: config_ok_def stored_def empty_world_def)
  from settings_reach_engine [where generate = demo_generate, OF demo_generate_ok this surjective_pairing] show ?thesis by blast
qed

end
