(* ===== verification/Adopt.thy ===== *)
theory Adopt
  imports DatabaseGate Walk
begin

text \<open>
  Adoption, \<open>engine/adopt.go\<close>: the files that are on this side already, matched against the last walk on
  size alone and recorded as local truth.

  \<open>filepath.WalkDir\<close> is modelled with the three answers a callback can give. The disk of the model has files and
  directories only, so every entry that is no directory is regular. A count of the publisher's files that an
  error interrupts is not reported.
\<close>

section \<open>Operations\<close>

datatype walk_next = Go | Skip | Stop error

fun walk_tree :: "nat \<Rightarrow> (string \<Rightarrow> fnode \<Rightarrow> 's \<Rightarrow> ('s \<times> walk_next) op) \<Rightarrow> string \<Rightarrow> fnode \<Rightarrow> 's \<Rightarrow> ('s \<times> error option) op" where
  "walk_tree fuel fn p n s =
     bindE (fn p n s) (\<lambda>(s, nx). case nx of
       Stop e \<Rightarrow> returnE (s, Some e)
     | Skip \<Rightarrow> returnE (s, None)
     | Go \<Rightarrow> if n \<noteq> FDir then returnE (s, None)
             else bindE (tryE (os_ReadDir p)) (\<lambda>r. case r of
               Inl e \<Rightarrow> returnE (s, Some e)
             | Inr entries \<Rightarrow> (case fuel of
                 0 \<Rightarrow> returnE (s, None)
               | Suc k \<Rightarrow> foldE (\<lambda>e (s, err). case err of
                   Some x \<Rightarrow> returnE (s, Some x)
                 | None \<Rightarrow> walk_tree k fn (path_Join [p, fst e]) (snd e) s) entries (s, None))))"

declare walk_tree.simps [simp del]

definition walk_root :: "string \<Rightarrow> (string \<Rightarrow> fnode \<Rightarrow> 's \<Rightarrow> ('s \<times> walk_next) op) \<Rightarrow> 's \<Rightarrow> ('s \<times> error option) op" where
  "walk_root root fn s w = bindE (tryE (os_Lstat root)) (\<lambda>r. case r of
     Inl e \<Rightarrow> returnE (s, Some e) | Inr n \<Rightarrow> walk_tree (disk_depth (fs w)) fn root n s) w"

record adopt_result =
  ad_PairID :: int
  ad_PairName :: string
  ad_Matched :: int
  ad_MatchedBytes :: int
  ad_SizeMismatch :: int
  ad_Extra :: int
  ad_ExtraBytes :: int
  ad_Excluded :: int
  ad_AlreadyKnown :: int
  ad_Missing :: int
  ad_RemoteFiles :: int
  ad_Duration :: duration

definition new_adopt :: "pair \<Rightarrow> adopt_result" where
  "new_adopt pr = \<lparr>ad_PairID = pair_ID pr, ad_PairName = pair_Name pr, ad_Matched = 0, ad_MatchedBytes = 0, ad_SizeMismatch = 0, ad_Extra = 0, ad_ExtraBytes = 0, ad_Excluded = 0,
     ad_AlreadyKnown = 0, ad_Missing = 0, ad_RemoteFiles = 0, ad_Duration = 0\<rparr>"

definition adoptBatch :: int where "adoptBatch = 500"

text \<open>\<open>filepath.Rel\<close> of a root and a path the walk of it hands out.\<close>

definition rel_of :: "string \<Rightarrow> string \<Rightarrow> string" where
  "rel_of root p = (if p = root then ''.'' else if root = ''/'' then drop 1 p else drop (length root + 1) p)"

type_synonym adopt_state = "adopt_result \<times> file_in list"

definition flush :: "adopt_state \<Rightarrow> (adopt_state \<times> error option) op" where
  "flush s = bindE (tryE (PutFiles (snd s))) (\<lambda>r. case r of
     Inl e \<Rightarrow> returnE (s, Some e) | Inr _ \<Rightarrow> returnE ((fst s, []), None))"

definition agrees :: "engine \<Rightarrow> frow option \<Rightarrow> int \<Rightarrow> time \<Rightarrow> bool" where
  "agrees E old sz mt = (case old of None \<Rightarrow> False
     | Some o1 \<Rightarrow> f_Size o1 = sz \<and> within (ofMilli (f_MTime o1)) mt (opt_MTimeTolerance (en_opts E)))"

text \<open>A file whose size is the publisher's.\<close>

definition adopt_match :: "engine \<Rightarrow> pair \<Rightarrow> string \<Rightarrow> manifest_entry \<Rightarrow> adopt_state \<Rightarrow> (adopt_state \<times> walk_next) op" where
  "adopt_match E pr rel entry s =
     (let res = (fst s)\<lparr>ad_Matched := ad_Matched (fst s) + 1, ad_MatchedBytes := ad_MatchedBytes (fst s) + me_Size entry\<rparr> in
      bindE (tryE (FileAt (pair_ID pr) rel)) (\<lambda>r. case r of
        Inl e \<Rightarrow> returnE ((res, snd s), Stop e)
      | Inr old \<Rightarrow>
         if agrees E old (me_Size entry) (me_MTime entry)
         then returnE ((res\<lparr>ad_AlreadyKnown := ad_AlreadyKnown res + 1\<rparr>, snd s), Go)
         else bindE now (\<lambda>t.
           let s = (res, snd s @ [\<lparr>fi_PairID = pair_ID pr, fi_Path = rel, fi_Size = me_Size entry, fi_MTime = me_MTime entry,
                      fi_Hash = [], fi_State = Some FileAdopted, fi_VerifiedAt = Some t\<rparr>]) in
           if int (length (snd s)) \<ge> adoptBatch
           then bindE (flush s) (\<lambda>(s, err). returnE (s, case err of None \<Rightarrow> Go | Some e \<Rightarrow> Stop e))
           else returnE (s, Go))))"

definition adopt_file :: "engine \<Rightarrow> pair \<Rightarrow> string \<Rightarrow> string \<Rightarrow> adopt_state \<Rightarrow> (adopt_state \<times> walk_next) op" where
  "adopt_file E pr p rel s =
     bindE (tryE (os_Lstat p)) (\<lambda>r. case r of
       Inl e \<Rightarrow> returnE (s, Stop e)
     | Inr info \<Rightarrow> bindE (tryE (ManifestEntryAt (pair_ID pr) rel)) (\<lambda>r. case r of
         Inl e \<Rightarrow> returnE (s, Stop e)
       | Inr ent \<Rightarrow>
          let extra = ((fst s)\<lparr>ad_Extra := ad_Extra (fst s) + 1, ad_ExtraBytes := ad_ExtraBytes (fst s) + node_size info\<rparr>, snd s) in
          (case ent of
             None \<Rightarrow> returnE (extra, Go)
           | Some entry \<Rightarrow>
              if me_IsDir entry then returnE (extra, Go)
              else if me_Size entry \<noteq> node_size info
              then returnE (((fst s)\<lparr>ad_SizeMismatch := ad_SizeMismatch (fst s) + 1\<rparr>, snd s), Go)
              else adopt_match E pr rel entry s)))"

definition adopt_node :: "engine \<Rightarrow> pair \<Rightarrow> filter_rules \<Rightarrow> string \<Rightarrow> fnode \<Rightarrow> adopt_state \<Rightarrow> (adopt_state \<times> walk_next) op" where
  "adopt_node E pr f p n s =
     bindE ctx_Err (\<lambda>c. case c of
       Some x \<Rightarrow> returnE (s, Stop x)
     | None \<Rightarrow>
        let rel = en_NFC E (rel_of (pair_LocalPath pr) p) in
        if n = FDir then returnE (s, if rel = PartDir \<or> rel \<noteq> ''.'' \<and> \<not> allowsDir f rel then Skip else Go)
        else if \<not> allows f rel then returnE (((fst s)\<lparr>ad_Excluded := ad_Excluded (fst s) + 1\<rparr>, snd s), Go)
        else adopt_file E pr p rel s)"

definition adopt_walk :: "engine \<Rightarrow> pair \<Rightarrow> filter_rules \<Rightarrow> adopt_result \<Rightarrow> (adopt_result \<times> error option) op" where
  "adopt_walk E pr f res =
     bindE (walk_root (pair_LocalPath pr) (adopt_node E pr f) (res, [])) (\<lambda>(s, err). case err of
       Some e \<Rightarrow> returnE (fst s, Some (if errors_Is e ENotExist then EMsg ''the local root does not exist'' else EWrap ''adopt'' e))
     | None \<Rightarrow> bindE (flush s) (\<lambda>(s, err). case err of
         Some e \<Rightarrow> returnE (fst s, Some e)
       | None \<Rightarrow>
          let res = fst s; missing = ad_RemoteFiles res - ad_Matched res - ad_SizeMismatch res in
          bindE (event LevelInfo KindAdopted (pair_ID pr)) (\<lambda>_.
          returnE (res\<lparr>ad_Missing := (if missing < 0 then 0 else missing)\<rparr>, None))))"

definition adopt_run :: "engine \<Rightarrow> pair \<Rightarrow> (adopt_result \<times> error option) op" where
  "adopt_run E pr =
     bindE (tryE (LastCompletedScan (pair_ID pr))) (\<lambda>r. case r of
       Inl e \<Rightarrow> returnE (new_adopt pr, Some e)
     | Inr None \<Rightarrow> returnE (new_adopt pr, Some (EWrap ''pair'' ENoManifest))
     | Inr (Some _) \<Rightarrow>
        let f = newFilter pr (opt_JCC (en_opts E)) in
        bindE (tryE (RemoteFiles (pair_ID pr) (\<lambda>entry n. returnE (if allows f (me_Path entry) then n + 1 else n)) 0)) (\<lambda>r. case r of
          Inl e \<Rightarrow> returnE (new_adopt pr, Some e)
        | Inr n \<Rightarrow> adopt_walk E pr f ((new_adopt pr)\<lparr>ad_RemoteFiles := n\<rparr>)))"

definition Adopt :: "engine \<Rightarrow> pair \<Rightarrow> (adopt_result \<times> error option) op" where
  "Adopt E pr = bindE now (\<lambda>started. bindE (adopt_run E pr) (\<lambda>(res, err). bindE now (\<lambda>t.
     returnE (res\<lparr>ad_Duration := t - started\<rparr>, err))))"

section \<open>Walks\<close>

text \<open>A property of the state and the world that every callback and every listing keeps, a walk keeps.\<close>

lemma triple_fold: "(\<And>x s. x \<in> set xs \<Longrightarrow> triple (J s) (f x s) J X) \<Longrightarrow> triple (J s) (foldE f xs s) J X"
  by (induction xs arbitrary: s) (auto intro: triple_return triple_bind)

lemma walk_tree_inv:
  assumes fn: "\<And>p n s. ok p n \<Longrightarrow> triple (I s) (fn p n s) (\<lambda>(s, _). I s) X"
    and read: "\<And>p s. triple (I s) (os_ReadDir p) (\<lambda>entries w. (\<forall>e \<in> set entries. ok (path_Join [p, fst e]) (snd e)) \<and> I s w) (I s)"
    and "ok p n"
  shows "triple (I s) (walk_tree fuel fn p n s) (\<lambda>(s, _). I s) X"
  using assms(3)
proof (induction fuel arbitrary: p n s)
  case 0
  show ?case
    by (subst walk_tree.simps, rule triple_bind [OF fn [OF 0]], rule triple_prod)
       (auto split: walk_next.splits intro!: triple_return triple_if triple_try_case [OF read])
next
  case (Suc k)
  have folded: "triple (\<lambda>w. (\<forall>e \<in> set entries. ok (path_Join [p, fst e]) (snd e)) \<and> I s w)
      (foldE (\<lambda>e (s, err). case err of Some x \<Rightarrow> returnE (s, Some x) | None \<Rightarrow> walk_tree k fn (path_Join [p, fst e]) (snd e) s) entries (s, None))
      (\<lambda>(s, _). I s) X" for entries s p
  proof (rule triple_fact)
    assume ok: "\<forall>e \<in> set entries. ok (path_Join [p, fst e]) (snd e)"
    have "triple (case (s, None) of (s, _ :: error option) \<Rightarrow> I s)
      (foldE (\<lambda>e (s, err). case err of Some x \<Rightarrow> returnE (s, Some x) | None \<Rightarrow> walk_tree k fn (path_Join [p, fst e]) (snd e) s) entries (s, None))
      (\<lambda>(s, _). I s) X"
      by (rule triple_fold) (use ok in \<open>auto split: option.splits intro!: triple_return Suc.IH\<close>)
    then show "triple (I s) (foldE (\<lambda>e (s, err). case err of Some x \<Rightarrow> returnE (s, Some x) | None \<Rightarrow> walk_tree k fn (path_Join [p, fst e]) (snd e) s) entries (s, None))
      (\<lambda>(s, _). I s) X" by simp
  qed
  show ?case
    by (subst walk_tree.simps, rule triple_bind [OF fn [OF Suc.prems]], rule triple_prod)
       (auto split: walk_next.splits intro!: triple_return triple_if triple_try_case [OF read] folded)
qed

section \<open>What is recorded\<close>

text \<open>
  \<open>sound_row w0 E pr fi\<close>: what is about to be recorded stands in the manifest of \<open>w0\<close> as a file of that size and
  time, a file of that size is on the disk of \<open>w0\<close> under that name, and what was recorded of it before did not agree.
\<close>

definition sound_row :: "world \<Rightarrow> engine \<Rightarrow> pair \<Rightarrow> file_in \<Rightarrow> bool" where
  "sound_row w0 E pr fi \<longleftrightarrow> fi_PairID fi = pair_ID pr \<and> fi_State fi = Some FileAdopted \<and> fi_Hash fi = [] \<and>
     (\<exists>m p b t. find (\<lambda>m. m_key m = (pair_ID pr, fi_Path fi)) (manifest w0) = Some m \<and> \<not> m_IsDir m \<and> fi_Size fi = m_Size m \<and>
        fi_MTime fi = ofMilli (m_MTime m) \<and> file_at w0 p = Some (b, t) \<and> int (length b) = m_Size m \<and>
        fi_Path fi = en_NFC E (rel_of (pair_LocalPath pr) p)) \<and>
     \<not> agrees E (find (\<lambda>f. f_key f = (pair_ID pr, fi_Path fi)) (files w0)) (fi_Size fi) (fi_MTime fi)"

definition sound_files :: "world \<Rightarrow> engine \<Rightarrow> pair \<Rightarrow> frow list \<Rightarrow> bool" where
  "sound_files w0 E pr rows \<longleftrightarrow> (\<forall>k. find (\<lambda>f. f_key f = k) rows = find (\<lambda>f. f_key f = k) (files w0) \<or>
     (\<exists>fi v. sound_row w0 E pr fi \<and> k = (pair_ID pr, fi_Path fi) \<and> find (\<lambda>f. f_key f = k) rows = Some (file_row fi v)))"

text \<open>What adoption reads but never writes.\<close>

definition read_only :: "world \<Rightarrow> disk \<times> mrow list \<times> job list \<times> scan list" where
  "read_only w = (fs w, manifest w, jobs w, scans w)"

interpretation ro: world_frame read_only
  by unfold_locales (simp add: read_only_def)

definition adopt_inv :: "world \<Rightarrow> engine \<Rightarrow> pair \<Rightarrow> adopt_state \<Rightarrow> world \<Rightarrow> bool" where
  "adopt_inv w0 E pr s w \<longleftrightarrow> read_only w = read_only w0 \<and> sound_files w0 E pr (files w) \<and> list_all (sound_row w0 E pr) (snd s)"

text \<open>An operation that leaves all of it alone.\<close>

lemma adopt_env_only:
  assumes "env_only m"
  shows "triple (adopt_inv w0 E pr s) m (\<lambda>_. adopt_inv w0 E pr s) (adopt_inv w0 E pr s)"
  by (rule triple_keeps [OF assms]) (auto simp: adopt_inv_def read_only_def)

lemma sound_put:
  assumes "sound_files w0 E pr rows" and "sound_row w0 E pr fi"
  shows "sound_files w0 E pr (put_file_row fi v rows)"
  unfolding sound_files_def
proof
  fix k
  have key: "(fi_PairID fi, fi_Path fi) = (pair_ID pr, fi_Path fi)" using assms(2) by (simp add: sound_row_def)
  show "find (\<lambda>f. f_key f = k) (put_file_row fi v rows) = find (\<lambda>f. f_key f = k) (files w0) \<or>
     (\<exists>fi' v'. sound_row w0 E pr fi' \<and> k = (pair_ID pr, fi_Path fi') \<and> find (\<lambda>f. f_key f = k) (put_file_row fi v rows) = Some (file_row fi' v'))"
  proof (cases "k = (pair_ID pr, fi_Path fi)")
    case True
    then show ?thesis unfolding put_file_row_key key using assms(2) by auto
  next
    case False
    from assms(1) [unfolded sound_files_def] show ?thesis unfolding put_file_row_key key if_not_P [OF False] by blast
  qed
qed

lemma putFileTx_sound:
  assumes "sound_row w0 E pr fi"
  shows "triple (\<lambda>w. read_only w = read_only w0 \<and> sound_files w0 E pr (files w)) (putFileTx fi)
    (\<lambda>_ w. read_only w = read_only w0 \<and> sound_files w0 E pr (files w)) (\<lambda>_. True)"
  unfolding putFileTx_def
proof (rule triple_bind)
  let ?P = "\<lambda>w. read_only w = read_only w0 \<and> sound_files w0 E pr (files w)"
  show "triple ?P (case fi_VerifiedAt fi of None \<Rightarrow> now | Some t \<Rightarrow> returnE t) (\<lambda>_. ?P) (\<lambda>_. True)"
    by (cases "fi_VerifiedAt fi") (auto intro!: triple_return tripleI elim!: run_elims simp: read_only_def)
  show "triple ?P (wrapE ''write file'' (put_files (\<lambda>rows. ((), put_file_row fi v rows)))) (\<lambda>_. ?P) (\<lambda>_. True)" for v
  proof (rule triple_wrap, rule tripleI)
    fix w u w'
    assume P: "?P w" and "put_files (\<lambda>rows. ((), put_file_row fi v rows)) w = (Inr u, w')"
    then obtain e where "w' = w\<lparr>files := put_file_row fi v (files w), env := e\<rparr>" by (auto elim!: put_files_InrE)
    with P sound_put [OF _ assms] show "?P w'" by (simp add: read_only_def)
  qed simp
qed

lemma PutFiles_sound:
  assumes "list_all (sound_row w0 E pr) fl" and "read_only w = read_only w0 \<and> sound_files w0 E pr (files w)"
    and "PutFiles fl w = (r, w')"
  shows "read_only w' = read_only w0 \<and> sound_files w0 E pr (files w')"
proof (cases "fl = []")
  case True
  with assms(2,3) show ?thesis by (simp add: PutFiles_def returnE_run)
next
  case False
  let ?P = "\<lambda>w. read_only w = read_only w0 \<and> sound_files w0 E pr (files w)"
  have all: "triple ?P (forE fl putFileTx) (\<lambda>_. ?P) (\<lambda>_. True)"
    using assms(1) by (induction fl) (auto intro!: triple_return triple_bind [OF putFileTx_sound])
  have run: "tx (forE fl putFileTx) w = (r, w')" using assms(3) False by (simp add: PutFiles_def)
  show ?thesis
  proof (cases r)
    case (Inl e)
    from tx_Inl [OF run [unfolded Inl]] assms(2) show ?thesis by (auto simp: read_only_def)
  next
    case (Inr u)
    from run [unfolded Inr] obtain e w2 e2 where body: "forE fl putFileTx (w\<lparr>env := e\<rparr>) = (Inr u, w2)" and w': "w' = w2\<lparr>env := e2\<rparr>"
      by (rule tx_InrE)
    have "?P (w\<lparr>env := e\<rparr>)" using assms(2) by (simp add: read_only_def)
    from tripleD [OF all this body] show ?thesis by (simp add: w' read_only_def)
  qed
qed

lemma flush_inv: "triple (adopt_inv w0 E pr s) (flush s) (\<lambda>(s, _). adopt_inv w0 E pr s) X"
proof -
  have "triple (adopt_inv w0 E pr s) (PutFiles (snd s)) (\<lambda>_ w. adopt_inv w0 E pr s w \<and> adopt_inv w0 E pr (fst s, []) w) (adopt_inv w0 E pr s)"
  proof -
    have "adopt_inv w0 E pr s w' \<and> adopt_inv w0 E pr (fst s, []) w'"
      if "adopt_inv w0 E pr s w" "PutFiles (snd s) w = (r, w')" for w r w'
      using PutFiles_sound [OF _ _ that(2)] that(1) unfolding adopt_inv_def by auto
    then show ?thesis by (intro tripleI) blast+
  qed
  then show ?thesis
    unfolding flush_def by (rule triple_try_case) (auto intro!: triple_return)
qed

text \<open>Every path of the disk is its directory joined with its name.\<close>

definition disk_clean :: "disk \<Rightarrow> bool" where
  "disk_clean d \<longleftrightarrow> list_all (\<lambda>(q, n). path_Join [path_Dir q, path_Base q] = q) d"

definition on_disk :: "world \<Rightarrow> string \<Rightarrow> fnode \<Rightarrow> bool" where
  "on_disk w0 p n \<longleftrightarrow> node (fs w0) p = Some n"

lemma ReadDir_inv:
  assumes "disk_clean (fs w0)"
  shows "triple (adopt_inv w0 E pr s) (os_ReadDir p)
    (\<lambda>entries w. (\<forall>e \<in> set entries. on_disk w0 (path_Join [p, fst e]) (snd e)) \<and> adopt_inv w0 E pr s w) (adopt_inv w0 E pr s)"
proof (rule tripleI)
  fix w entries w'
  assume I: "adopt_inv w0 E pr s w" and "os_ReadDir p w = (Inr entries, w')"
  then have w': "w' = used w" and ent: "entries = map (\<lambda>q. (path_Base q, the (node (fs w) q))) (Trash.children (fs w) p)"
    unfolding os_ReadDir_def by (auto dest!: exec_Inr split: option.splits fnode.splits)
  have d: "fs w = fs w0" using I by (simp add: adopt_inv_def read_only_def)
  have "on_disk w0 (path_Join [p, fst e]) (snd e)" if "e \<in> set entries" for e
  proof -
    from that ent d obtain q where q: "e = (path_Base q, the (node (fs w0) q))" "q \<in> fst ` set (fs w0)" "q \<noteq> p" "path_Dir q = p"
      by (auto simp: Trash.children_def)
    then have "path_Join [p, path_Base q] = q" using assms by (force simp: disk_clean_def list_all_iff)
    moreover have "node (fs w0) q \<noteq> None" using q(2) map_of_eq_None_iff [of "fs w0" q] by (auto simp: node_def simp del: not_None_eq)
    ultimately show ?thesis using q(1) by (auto simp: on_disk_def)
  qed
  with I w' show "(\<forall>e \<in> set entries. on_disk w0 (path_Join [p, fst e]) (snd e)) \<and> adopt_inv w0 E pr s w'"
    by (simp add: adopt_inv_def read_only_def)
next
  fix w e w'
  assume I: "adopt_inv w0 E pr s w" and "os_ReadDir p w = (Inl e, w')"
  then have "w' = used w" unfolding os_ReadDir_def by (auto dest!: exec_cases)
  with I show "adopt_inv w0 E pr s w'" by (simp add: adopt_inv_def read_only_def)
qed

text \<open>What the manifest and the disk say of a file about to be recorded.\<close>

definition matched :: "world \<Rightarrow> engine \<Rightarrow> pair \<Rightarrow> string \<Rightarrow> manifest_entry \<Rightarrow> bool" where
  "matched w0 E pr rel entry \<longleftrightarrow> (\<exists>m p b t. find (\<lambda>m. m_key m = (pair_ID pr, rel)) (manifest w0) = Some m \<and> \<not> m_IsDir m \<and>
     me_Size entry = m_Size m \<and> me_MTime entry = ofMilli (m_MTime m) \<and> file_at w0 p = Some (b, t) \<and> int (length b) = m_Size m \<and>
     rel = en_NFC E (rel_of (pair_LocalPath pr) p))"

lemma FileAt_inv:
  assumes tol: "0 \<le> opt_MTimeTolerance (en_opts E)" and M: "matched w0 E pr rel entry"
  shows "triple (adopt_inv w0 E pr s) (FileAt (pair_ID pr) rel)
    (\<lambda>old w. (\<not> agrees E old (me_Size entry) (me_MTime entry) \<longrightarrow>
       \<not> agrees E (find (\<lambda>f. f_key f = (pair_ID pr, rel)) (files w0)) (me_Size entry) (me_MTime entry)) \<and> adopt_inv w0 E pr s w) (adopt_inv w0 E pr s)"
proof (rule tripleI)
  fix w old w'
  assume I: "adopt_inv w0 E pr s w" and "FileAt (pair_ID pr) rel w = (Inr old, w')"
  then have "query (\<lambda>w. find (\<lambda>f. f_key f = (pair_ID pr, rel)) (files w)) w = (Inr old, w')" unfolding FileAt_def by simp
  from query_Inr [OF this] have w': "w' = used w" and old: "old = find (\<lambda>f. f_key f = (pair_ID pr, rel)) (files w)" by simp_all
  have "agrees E old (me_Size entry) (me_MTime entry)" if "old \<noteq> find (\<lambda>f. f_key f = (pair_ID pr, rel)) (files w0)"
  proof -
    from I that old obtain fi v where fi: "sound_row w0 E pr fi" "rel = fi_Path fi" "old = Some (file_row fi v)"
      unfolding adopt_inv_def sound_files_def by force
    from fi(1,2) M have "fi_Size fi = me_Size entry" "fi_MTime fi = me_MTime entry" "me_MTime entry = ofMilli (UnixMilli (me_MTime entry))"
      by (auto simp: sound_row_def matched_def)
    with fi(3) tol show ?thesis by (simp add: agrees_def file_row_def within_def)
  qed
  with I w' show "(\<not> agrees E old (me_Size entry) (me_MTime entry) \<longrightarrow>
       \<not> agrees E (find (\<lambda>f. f_key f = (pair_ID pr, rel)) (files w0)) (me_Size entry) (me_MTime entry)) \<and> adopt_inv w0 E pr s w'"
    by (auto simp: adopt_inv_def read_only_def)
next
  fix w e w'
  assume I: "adopt_inv w0 E pr s w" and "FileAt (pair_ID pr) rel w = (Inl e, w')"
  then have "w' = used w" unfolding FileAt_def query_def by (auto simp: wrapE_Inl dest!: exec_cases)
  with I show "adopt_inv w0 E pr s w'" by (simp add: adopt_inv_def read_only_def)
qed

lemma adopt_inv_res: "adopt_inv w0 E pr s w \<Longrightarrow> adopt_inv w0 E pr (res, snd s) w"
  by (simp add: adopt_inv_def)

lemma adopt_match_inv:
  assumes tol: "0 \<le> opt_MTimeTolerance (en_opts E)" and M: "matched w0 E pr rel entry"
  shows "triple (adopt_inv w0 E pr s) (adopt_match E pr rel entry s) (\<lambda>(s, _). adopt_inv w0 E pr s) X"
proof -
  define res where "res = (fst s)\<lparr>ad_Matched := ad_Matched (fst s) + 1, ad_MatchedBytes := ad_MatchedBytes (fst s) + me_Size entry\<rparr>"
  define row where "row = (\<lambda>t. \<lparr>fi_PairID = pair_ID pr, fi_Path = rel, fi_Size = me_Size entry, fi_MTime = me_MTime entry,
                      fi_Hash = [], fi_State = Some FileAdopted, fi_VerifiedAt = Some t\<rparr>)"
  have "triple (adopt_inv w0 E pr s) (bindE now (\<lambda>t.
           if int (length (snd s @ [row t])) \<ge> adoptBatch
           then bindE (flush (res, snd s @ [row t])) (\<lambda>(s, err). returnE (s, case err of None \<Rightarrow> Go | Some e \<Rightarrow> Stop e))
           else returnE ((res, snd s @ [row t]), Go))) (\<lambda>(s, _). adopt_inv w0 E pr s) X"
    if new: "\<not> agrees E (find (\<lambda>f. f_key f = (pair_ID pr, rel)) (files w0)) (me_Size entry) (me_MTime entry)"
  proof (rule triple_bind [where Q = "\<lambda>t. adopt_inv w0 E pr (res, snd s @ [row t])"])
    have "sound_row w0 E pr (row t)" for t
      using M new by (auto simp: sound_row_def matched_def row_def)
    then show "triple (adopt_inv w0 E pr s) now (\<lambda>t. adopt_inv w0 E pr (res, snd s @ [row t])) X"
      by (intro tripleI) (auto simp: adopt_inv_def read_only_def elim!: run_elims)
    show "triple (adopt_inv w0 E pr (res, snd s @ [row t])) (if int (length (snd s @ [row t])) \<ge> adoptBatch
           then bindE (flush (res, snd s @ [row t])) (\<lambda>(s, err). returnE (s, case err of None \<Rightarrow> Go | Some e \<Rightarrow> Stop e))
           else returnE ((res, snd s @ [row t]), Go)) (\<lambda>(s, _). adopt_inv w0 E pr s) X" for t
      by (rule triple_if, rule triple_bind [OF flush_inv], rule triple_prod) (auto intro!: triple_return)
  qed
  note new = this [unfolded row_def]
  show ?thesis
    unfolding adopt_match_def Let_def res_def [symmetric] fst_conv snd_conv
    by (rule triple_try_case [OF FileAt_inv [OF tol M]], rule triple_return, simp add: adopt_inv_res, rule triple_fact, rule triple_if,
        rule triple_return, simp add: adopt_inv_res, rule new, blast)
qed

lemma Lstat_inv:
  "triple (adopt_inv w0 E pr s) (os_Lstat p) (\<lambda>n w. node (fs w0) p = Some n \<and> adopt_inv w0 E pr s w) (adopt_inv w0 E pr s)"
proof (rule tripleI)
  fix w n w'
  assume I: "adopt_inv w0 E pr s w" and run: "os_Lstat p w = (Inr n, w')"
  have "fs w = fs w0" using I by (simp add: adopt_inv_def read_only_def)
  moreover from os_Stat_cases [OF run] have "w' = used w" "node (fs w) p = Some n" by auto
  ultimately show "node (fs w0) p = Some n \<and> adopt_inv w0 E pr s w'" using I by (simp add: adopt_inv_def read_only_def)
next
  fix w e w'
  assume I: "adopt_inv w0 E pr s w" and run: "os_Lstat p w = (Inl e, w')"
  from os_Stat_cases [OF run] have "w' = used w" by auto
  with I show "adopt_inv w0 E pr s w'" by (simp add: adopt_inv_def read_only_def)
qed

lemma EntryAt_inv:
  "triple (adopt_inv w0 E pr s) (ManifestEntryAt (pair_ID pr) rel)
    (\<lambda>ent w. (\<forall>entry. ent = Some entry \<longrightarrow> (\<exists>m. find (\<lambda>m. m_key m = (pair_ID pr, rel)) (manifest w0) = Some m \<and>
       me_Size entry = m_Size m \<and> me_MTime entry = ofMilli (m_MTime m) \<and> me_IsDir entry = m_IsDir m)) \<and> adopt_inv w0 E pr s w) (adopt_inv w0 E pr s)"
proof (rule tripleI)
  fix w ent w'
  assume I: "adopt_inv w0 E pr s w" and "ManifestEntryAt (pair_ID pr) rel w = (Inr ent, w')"
  then have w': "w' = used w" and ent: "ent = map_option (\<lambda>m. \<lparr>me_Path = m_Path m, me_Size = m_Size m, me_MTime = ofMilli (m_MTime m),
                      me_IsDir = m_IsDir m\<rparr>) (find (\<lambda>m. m_key m = (pair_ID pr, rel)) (manifest w))"
    unfolding ManifestEntryAt_def by (auto dest!: query_Inr)
  have "manifest w = manifest w0" using I by (simp add: adopt_inv_def read_only_def)
  with ent have "\<forall>entry. ent = Some entry \<longrightarrow> (\<exists>m. find (\<lambda>m. m_key m = (pair_ID pr, rel)) (manifest w0) = Some m \<and>
       me_Size entry = m_Size m \<and> me_MTime entry = ofMilli (m_MTime m) \<and> me_IsDir entry = m_IsDir m)" by auto
  with I w' show "(\<forall>entry. ent = Some entry \<longrightarrow> (\<exists>m. find (\<lambda>m. m_key m = (pair_ID pr, rel)) (manifest w0) = Some m \<and>
       me_Size entry = m_Size m \<and> me_MTime entry = ofMilli (m_MTime m) \<and> me_IsDir entry = m_IsDir m)) \<and> adopt_inv w0 E pr s w'"
    by (simp add: adopt_inv_def read_only_def)
next
  fix w e w'
  assume I: "adopt_inv w0 E pr s w" and "ManifestEntryAt (pair_ID pr) rel w = (Inl e, w')"
  then have "w' = used w" unfolding ManifestEntryAt_def query_def by (auto simp: wrapE_Inl dest!: exec_cases)
  with I show "adopt_inv w0 E pr s w'" by (simp add: adopt_inv_def read_only_def)
qed

lemma adopt_file_inv:
  assumes tol: "0 \<le> opt_MTimeTolerance (en_opts E)" and n: "node (fs w0) p = Some (FFile b t)"
    and rel: "rel = en_NFC E (rel_of (pair_LocalPath pr) p)"
  shows "triple (adopt_inv w0 E pr s) (adopt_file E pr p rel s) (\<lambda>(s, _). adopt_inv w0 E pr s) X"
proof -
  let ?I = "adopt_inv w0 E pr s"
  have keep: "triple ?I (returnE ((res, snd s), nx)) (\<lambda>(s, _). adopt_inv w0 E pr s) X" for res nx
    by (rule triple_return) (simp add: adopt_inv_res)
  have stop: "triple ?I (returnE (s, nx)) (\<lambda>(s, _). adopt_inv w0 E pr s) X" for nx
    by (rule triple_return) simp
  have entry: "triple ?I (adopt_match E pr rel entry s) (\<lambda>(s, _). adopt_inv w0 E pr s) X"
    if "node (fs w0) p = Some info" "\<not> me_IsDir entry" "me_Size entry = node_size info"
      "\<forall>entry'. Some entry = Some entry' \<longrightarrow> (\<exists>m. find (\<lambda>m. m_key m = (pair_ID pr, rel)) (manifest w0) = Some m \<and>
       me_Size entry' = m_Size m \<and> me_MTime entry' = ofMilli (m_MTime m) \<and> me_IsDir entry' = m_IsDir m)" for info entry
  proof (rule adopt_match_inv [OF tol])
    have "info = FFile b t" "file_at w0 p = Some (b, t)" using that(1) n by (simp_all add: file_at_Some)
    then show "matched w0 E pr rel entry" using that rel unfolding matched_def by force
  qed
  show ?thesis
    unfolding adopt_file_def Let_def
    apply (rule triple_try_case [OF Lstat_inv], rule stop, rule triple_fact)
    apply (rule triple_try_case [OF EntryAt_inv], rule stop, rule triple_fact)
    apply (auto split: option.splits intro!: triple_if keep entry)
    done
qed

text \<open>An operation that writes no table adoption reads keeps the invariant, and any state with the same batch has it.\<close>

lemma adopt_ctx: "triple (adopt_inv w0 E pr s) ctx_Err (\<lambda>_. adopt_inv w0 E pr s) X"
  by (intro tripleI) (auto simp: adopt_inv_def read_only_def elim!: run_elims)

lemma adopt_event: "triple (adopt_inv w0 E pr s) (event lv kd pid) (\<lambda>_. adopt_inv w0 E pr s) X"
  by (intro tripleI) (auto simp: adopt_inv_def read_only_def elim!: run_elims)

lemma adopt_now: "triple (adopt_inv w0 E pr s) now (\<lambda>_. adopt_inv w0 E pr s) X"
  by (intro tripleI) (auto simp: adopt_inv_def read_only_def elim!: run_elims)

lemma adopt_node_inv:
  assumes tol: "0 \<le> opt_MTimeTolerance (en_opts E)" and n: "on_disk w0 p n"
  shows "triple (adopt_inv w0 E pr s) (adopt_node E pr f p n s) (\<lambda>(s, _). adopt_inv w0 E pr s) X"
proof (cases n)
  case FDir
  then show ?thesis
    unfolding adopt_node_def Let_def
    by (intro triple_bind [OF adopt_ctx]) (auto split: option.splits intro!: triple_return)
next
  case (FFile b t)
  have "triple (adopt_inv w0 E pr s) (adopt_file E pr p (en_NFC E (rel_of (pair_LocalPath pr) p)) s) (\<lambda>(s, _). adopt_inv w0 E pr s) X"
    by (rule adopt_file_inv [OF tol _ refl]) (use n FFile in \<open>simp add: on_disk_def\<close>)
  with FFile show ?thesis
    unfolding adopt_node_def Let_def
    by (intro triple_bind [OF adopt_ctx]) (auto split: option.splits intro!: triple_return adopt_inv_res)
qed

lemma walk_root_inv:
  assumes tol: "0 \<le> opt_MTimeTolerance (en_opts E)" and d: "disk_clean (fs w0)"
  shows "triple (adopt_inv w0 E pr s) (walk_root root (adopt_node E pr f) s) (\<lambda>(s, _). adopt_inv w0 E pr s) X"
proof -
  have tree: "triple (adopt_inv w0 E pr s) (walk_tree k (adopt_node E pr f) root n s) (\<lambda>(s, _). adopt_inv w0 E pr s) X"
    if "node (fs w0) root = Some n" for k n
  proof (rule walk_tree_inv [where ok = "on_disk w0" and I = "adopt_inv w0 E pr"])
    show "on_disk w0 root n" using that by (simp add: on_disk_def)
  qed (erule adopt_node_inv [OF tol], rule ReadDir_inv [OF d])
  let ?body = "\<lambda>k. bindE (tryE (os_Lstat root)) (\<lambda>r. case r of
     Inl e \<Rightarrow> returnE (s, Some e) | Inr n \<Rightarrow> walk_tree k (adopt_node E pr f) root n s)"
  have body: "triple (adopt_inv w0 E pr s) (?body k) (\<lambda>(s, _). adopt_inv w0 E pr s) X" for k
    by (rule triple_try_case [OF Lstat_inv], rule triple_return, simp, rule triple_fact, rule tree)
  have at: "walk_root root (adopt_node E pr f) s w = ?body (disk_depth (fs w)) w" for w
    by (simp only: walk_root_def)
  show ?thesis
    by (rule tripleI) (use tripleD [OF body] tripleD_Inl [OF body] in \<open>unfold at, blast+\<close>)
qed

lemma adopt_walk_inv:
  assumes "0 \<le> opt_MTimeTolerance (en_opts E)" and "disk_clean (fs w0)"
  shows "triple (adopt_inv w0 E pr (res, [])) (adopt_walk E pr f res) (\<lambda>_. adopt_inv w0 E pr (res, [])) X"
proof -
  have done1: "triple (adopt_inv w0 E pr s) (returnE x) (\<lambda>_. adopt_inv w0 E pr (res, [])) X" for s and x :: "adopt_result \<times> error option"
    by (rule triple_return) (auto simp: adopt_inv_def)
  show ?thesis
    unfolding adopt_walk_def Let_def
    by (rule triple_bind [OF walk_root_inv [OF assms]], rule triple_prod)
       (auto split: option.splits intro!: done1 triple_bind [OF flush_inv] triple_prod triple_bind [OF adopt_event])
qed

lemma adopt_run_inv:
  assumes "0 \<le> opt_MTimeTolerance (en_opts E)" and "disk_clean (fs w0)"
  shows "triple (adopt_inv w0 E pr (res, [])) (adopt_run E pr) (\<lambda>_. adopt_inv w0 E pr (res, [])) X"
proof -
  have res: "adopt_inv w0 E pr (r1, []) = adopt_inv w0 E pr (r2, [])" for r1 r2
    by (simp add: adopt_inv_def fun_eq_iff)
  have walk: "triple (adopt_inv w0 E pr (res, [])) (adopt_walk E pr f r) (\<lambda>_. adopt_inv w0 E pr (res, [])) X" for f r
    using adopt_walk_inv [OF assms, of pr r f X] unfolding res [of r res] .
  have last1: "env_only (LastCompletedScan (pair_ID pr))"
    unfolding LastCompletedScan_def by (intro env_step.keeps_query)
  have "env_only (streamE (\<lambda>entry n. returnE (g entry n)) rows n)" for g :: "manifest_entry \<Rightarrow> int \<Rightarrow> int" and rows n
    unfolding streamE_def by (induction rows arbitrary: n) (auto intro!: env_step.keeps_rules env_step.keeps_query)
  then have count: "env_only (RemoteFiles (pair_ID pr) (\<lambda>entry n. returnE (g entry n)) (0::int))" for g :: "manifest_entry \<Rightarrow> int \<Rightarrow> int"
    unfolding RemoteFiles_def by (intro env_step.keeps_rules)
  show ?thesis
    unfolding adopt_run_def Let_def
    by (rule triple_try_case [OF adopt_env_only [OF last1]])
       (auto split: option.splits intro!: triple_return triple_try_case [OF adopt_env_only [OF count]] walk)
qed

lemma Adopt_inv:
  assumes "0 \<le> opt_MTimeTolerance (en_opts E)" and "disk_clean (fs w0)"
  shows "triple (adopt_inv w0 E pr (res, [])) (Adopt E pr) (\<lambda>_. adopt_inv w0 E pr (res, [])) X"
  unfolding Adopt_def
  by (intro triple_bind [OF adopt_now] triple_bind [OF adopt_run_inv [OF assms]])
     (auto intro!: triple_bind [OF adopt_now] triple_return)

section \<open>Property\<close>

text \<open>
  (C18) Adoption always comes back, with its result and perhaps an error, and however far it got it moved no file,
  changed no manifest row and queued no job. What is recorded of a path is what was recorded before, or a row marked
  adopted that carries the publisher's size and time, for a path that stands in the manifest as a file of the size of a file
  on the disk under that name, and whose earlier row did not agree: what a transfer recorded is never relabelled.
\<close>

theorem adopt_sound:
  assumes "0 \<le> opt_MTimeTolerance (en_opts E)" and "disk_clean (fs w)" and "Adopt E pr w = (r, w')"
  shows "(\<exists>res err. r = Inr (res, err)) \<and> fs w' = fs w \<and> manifest w' = manifest w \<and> jobs w' = jobs w \<and>
    sound_files w E pr (files w')"
proof -
  have I: "adopt_inv w E pr (new_adopt pr, []) w"
    by (simp add: adopt_inv_def sound_files_def)
  note t = Adopt_inv [OF assms(1,2), of pr "new_adopt pr" "\<lambda>_. False"]
  from assms(3) tripleD_Inl [OF t I] obtain x where r: "r = Inr x" by (cases r) auto
  from tripleD [OF t I assms(3) [unfolded r]] r show ?thesis
    by (cases x) (simp add: adopt_inv_def read_only_def)
qed

text \<open>A share that holds \<open>a.mp3\<close> and \<open>d/b.mp3\<close>, and a disk that holds the first and a file of its own.\<close>

definition demo_bootstrap :: world where
  "demo_bootstrap = demo_scan\<lparr>fs := [(''/music'', FDir), (''/music/a.mp3'', FFile ''abc'' 9), (''/music/x.mp3'', FFile ''x'' 9)]\<rparr>"

definition demo_adopted :: world where
  "demo_adopted = snd (Adopt demo_engine demo_pair demo_bootstrap)"

lemma demo_bootstrap_ok: "0 \<le> opt_MTimeTolerance (en_opts demo_engine)" "disk_clean (fs demo_bootstrap)"
  by code_simp+

lemma demo_adopt_rows: "map (\<lambda>f. (f_Path f, f_Size f, f_State f)) (files demo_adopted) = [(''a.mp3'', 3, FileAdopted)]"
  by code_simp

lemma demo_adopt_run:
  "Adopt demo_engine demo_pair demo_bootstrap = (fst (Adopt demo_engine demo_pair demo_bootstrap), demo_adopted)"
  by (simp add: demo_adopted_def)

theorem adopt_sound_witness:
  "fs demo_adopted = fs demo_bootstrap \<and> sound_files demo_bootstrap demo_engine demo_pair (files demo_adopted) \<and>
   map (\<lambda>f. (f_Path f, f_Size f, f_State f)) (files demo_adopted) = [(''a.mp3'', 3, FileAdopted)]"
  using adopt_sound [OF demo_bootstrap_ok demo_adopt_run] demo_adopt_rows by blast

end
