(* ===== verification/PairStore.thy ===== *)
theory PairStore
  imports Manifest Files Jobs Deletions Backups Settings
begin

text \<open>
  The configured pairs and the remotes they read from, \<open>store/pairs.go\<close> and \<open>store/remotes.go\<close>: what is refused and how the
  rest is written down, the two tables with their unique names and foreign keys, and what the removal of a pair takes with it.

  A pair that is handed in has type and mode as text (\<open>pair_in\<close>); a row has the values that are allowed. The two lists of patterns are kept as lists:
  their encoding as JSON is the library's. Unicode's normal form is the argument \<open>nfc\<close>.
\<close>

section \<open>Reading what was typed\<close>

text \<open>\<open>strings.Cut(s, ":")\<close>.\<close>

definition cut_colon :: "string \<Rightarrow> (string \<times> string) option" where
  "cut_colon s = (let a = takeWhile (\<lambda>c. c \<noteq> CHR '':'') s in if a = s then None else Some (a, drop (length a + 1) s))"

definition parseOwner :: "string \<Rightarrow> (int \<times> int) option" where
  "parseOwner s = (case cut_colon s of
     None \<Rightarrow> None
   | Some (u, g) \<Rightarrow> (case (Atoi u, Atoi g) of
       (Some uid, Some gid) \<Rightarrow> if uid < 0 \<or> gid < 0 then None else Some (uid, gid)
     | _ \<Rightarrow> None))"

text \<open>\<open>strconv.ParseUint(s, 8, 32)\<close>.\<close>

definition is_octal :: "char \<Rightarrow> bool" where
  "is_octal c \<longleftrightarrow> 48 \<le> (of_char c :: int) \<and> (of_char c :: int) \<le> 55"

definition ParseOctal :: "string \<Rightarrow> int option" where
  "ParseOctal s = (if s = [] \<or> \<not> list_all is_octal s then None
     else let n = foldl (\<lambda>a c. a * 8 + (of_char c - 48)) 0 s in if n < 4294967296 then Some n else None)"

text \<open>\<open>%04o\<close> of a number below 4096.\<close>

definition octal4 :: "int \<Rightarrow> string" where
  "octal4 m = [digit (m div 512), digit (m div 64 mod 8), digit (m div 8 mod 8), digit (m mod 8)]"

definition cleanMode :: "string \<Rightarrow> string option" where
  "cleanMode s0 = (let s = TrimSpace s0 in
     if s = [] then Some []
     else case ParseOctal (TrimPrefix (TrimPrefix s ''0o'') ''0O'') of
       Some m \<Rightarrow> if m > 511 then None else Some (octal4 m)
     | None \<Rightarrow> None)"

definition parseMode :: "string \<Rightarrow> int option" where
  "parseMode s = (if s = [] then None else case ParseOctal s of
     Some m \<Rightarrow> if m > 511 then None else Some m | None \<Rightarrow> None)"

definition OwnerIDs :: "pair \<Rightarrow> (int \<times> int) option" where
  "OwnerIDs p = parseOwner (pair_Owner p)"

definition FileModeBits :: "pair \<Rightarrow> int option" where
  "FileModeBits p = parseMode (pair_FileMode p)"

definition DirModeBits :: "pair \<Rightarrow> int option" where
  "DirModeBits p = parseMode (pair_DirMode p)"

definition cleanPatterns :: "(string \<Rightarrow> string) \<Rightarrow> string list \<Rightarrow> string list" where
  "cleanPatterns nfc xs = map (\<lambda>s. nfc (Trim s [slash])) (filter (\<lambda>s. s \<noteq> []) (map TrimSpace xs))"

record pair_in =
  pi_ID :: int
  pi_Name :: string
  pi_Type :: string
  pi_RemoteID :: int
  pi_RemotePath :: string
  pi_LocalPath :: string
  pi_Mode :: string
  pi_Includes :: "string list"
  pi_Excludes :: "string list"
  pi_DeleteGuard :: int
  pi_Priority :: int
  pi_Owner :: string
  pi_FileMode :: string
  pi_DirMode :: string
  pi_Enabled :: bool

definition pair_type_of :: "string \<Rightarrow> pair_type option" where
  "pair_type_of s = (if s = [] \<or> s = ''raw'' then Some PairRaw else if s = ''jcc'' then Some PairJCC else None)"

definition pair_mode_of :: "string \<Rightarrow> pair_mode option" where
  "pair_mode_of s = (if s = [] \<or> s = ''mirror'' then Some ModeMirror else if s = ''guarded'' then Some ModeGuarded
     else if s = ''additive'' then Some ModeAdditive else None)"

definition clean_remote :: "(string \<Rightarrow> string) \<Rightarrow> string \<Rightarrow> string" where
  "clean_remote nfc s = (let p = nfc (Trim (TrimSpace s) [slash]) in
     if p = [] then [] else TrimPrefix (path_Clean (slash # p)) [slash])"

definition clean_owner :: "string \<Rightarrow> string option" where
  "clean_owner s0 = (let s = filter (\<lambda>c. c \<noteq> CHR '' '') (TrimSpace s0) in
     if s = [] then Some [] else map_option (\<lambda>(uid, gid). Itoa uid @ '':'' @ Itoa gid) (parseOwner s))"

definition Normalize :: "(string \<Rightarrow> string) \<Rightarrow> pair_in \<Rightarrow> error + pair" where
  "Normalize nfc p =
     (let nm = TrimSpace (pi_Name p); local = path_Clean (TrimSpace (pi_LocalPath p)) in
      if nm = [] then Inl (EMsg ''name is required'')
      else case pair_type_of (pi_Type p) of
        None \<Rightarrow> Inl (EMsg ''type'')
      | Some ty \<Rightarrow> (case pair_mode_of (pi_Mode p) of
          None \<Rightarrow> Inl (EMsg ''mode'')
        | Some md \<Rightarrow>
           if local = [] \<or> local = ''.'' then Inl (EMsg ''local path is required'')
           else if hd local \<noteq> slash then Inl (EMsg ''local path must be absolute'')
           else if pi_RemoteID p < 0 then Inl (EMsg ''remote id cannot be negative'')
           else if pi_DeleteGuard p < 0 then Inl (EMsg ''delete guard cannot be negative'')
           else (case clean_owner (pi_Owner p) of
             None \<Rightarrow> Inl (EMsg ''owner'')
           | Some ow \<Rightarrow> (case cleanMode (pi_FileMode p) of
               None \<Rightarrow> Inl (EMsg ''file mode'')
             | Some fm \<Rightarrow> (case cleanMode (pi_DirMode p) of
                 None \<Rightarrow> Inl (EMsg ''directory mode'')
               | Some dm \<Rightarrow> Inr \<lparr>pair_ID = pi_ID p, pair_Name = nm, pair_Type = ty, pair_RemoteID = pi_RemoteID p,
                   pair_RemotePath = clean_remote nfc (pi_RemotePath p), pair_LocalPath = local, pair_Mode = md,
                   pair_Includes = cleanPatterns nfc (pi_Includes p), pair_Excludes = cleanPatterns nfc (pi_Excludes p),
                   pair_DeleteGuard = pi_DeleteGuard p, pair_Priority = (if pi_Priority p = 0 then 100 else pi_Priority p),
                   pair_Owner = ow, pair_FileMode = fm, pair_DirMode = dm, pair_Enabled = pi_Enabled p,
                   pair_CreatedAt = 0, pair_UpdatedAt = 0\<rparr>)))))"

section \<open>Remotes\<close>

definition liftE :: "error + 'a \<Rightarrow> 'a op" where
  "liftE r = (case r of Inl e \<Rightarrow> throwE e | Inr a \<Rightarrow> returnE a)"

definition normalize_remote :: "std \<Rightarrow> remote_row \<Rightarrow> error + remote_row" where
  "normalize_remote std r =
     (let r = r\<lparr>rm_Name := TrimSpace (rm_Name r), rm_Host := TrimSpace (rm_Host r), rm_Share := TrimSpace (rm_Share r),
          rm_Path := Trim (TrimSpace (rm_Path r)) [slash], rm_User := TrimSpace (rm_User r), rm_Domain := TrimSpace (rm_Domain r)\<rparr> in
      if rm_Name r = [] then Inl (EMsg ''name is required'')
      else if \<not> validateHostPort std (rm_Host r) then Inl (EMsg ''host'')
      else if \<not> validateShareName (rm_Share r) then Inl (EMsg ''share'')
      else if \<not> validateRelPath (rm_Path r) then Inl (EMsg ''path'')
      else if rm_User r = [] then Inl (EMsg ''username is required'')
      else Inr r)"

text \<open>A statement on the table of remotes, with its unique names.\<close>

definition put_remotes :: "(remote_row list \<Rightarrow> 'a \<times> remote_row list) \<Rightarrow> 'a op" where
  "put_remotes g = exec (\<lambda>w. let (a, rows) = g (remotes w) in
     if distinct (map rm_Name rows) then Inr (a, w\<lparr>remotes := rows\<rparr>) else Inl EConstraint)"

definition CreateRemote :: "std \<Rightarrow> remote_row \<Rightarrow> int op" where
  "CreateRemote std r0 = bindE (liftE (normalize_remote std r0)) (\<lambda>r. bindE now (\<lambda>t.
     wrapE ''create remote'' (put_remotes (\<lambda>rows. let i = next_rowid (map rm_ID rows) in
       (i, rows @ [r\<lparr>rm_ID := i, rm_CreatedAt := UnixMilli t, rm_UpdatedAt := UnixMilli t\<rparr>])))))"

definition UpdateRemote :: "std \<Rightarrow> remote_row \<Rightarrow> unit op" where
  "UpdateRemote std r0 = bindE (liftE (normalize_remote std r0)) (\<lambda>r. bindE now (\<lambda>t.
     bindE (wrapE ''update remote'' (put_remotes (\<lambda>rows. (sql_count (\<lambda>x. rm_ID x = rm_ID r) rows,
       sql_update (\<lambda>x. rm_ID x = rm_ID r) (\<lambda>x. r\<lparr>rm_CreatedAt := rm_CreatedAt x, rm_UpdatedAt := UnixMilli t\<rparr>) rows)))) (\<lambda>n.
     if n = 0 then throwE (EWrap ''with id'' ENoRemote) else returnE ())))"

definition PairNamesForRemote :: "int \<Rightarrow> string list op" where
  "PairNamesForRemote i = wrapE ''read pairs of remote'' (query (\<lambda>w.
     map pair_Name (sort_key (\<lambda>p. (pair_Priority p, pair_ID p)) (filter (\<lambda>p. pair_RemoteID p = i \<and> i \<noteq> 0) (pairs w)))))"

text \<open>The foreign key restricts: a remote a pair refers to is not deleted, whoever asks.\<close>

definition delete_remote :: "int \<Rightarrow> int op" where
  "delete_remote i = exec (\<lambda>w. if \<exists>p \<in> set (pairs w). pair_RemoteID p = i \<and> i \<noteq> 0 \<and> i \<in> set (map rm_ID (remotes w)) then Inl EConstraint
     else Inr (sql_count (\<lambda>x. rm_ID x = i) (remotes w), w\<lparr>remotes := sql_delete (\<lambda>x. rm_ID x = i) (remotes w)\<rparr>))"

definition DeleteRemote :: "int \<Rightarrow> unit op" where
  "DeleteRemote i = bindE (PairNamesForRemote i) (\<lambda>users.
     if users \<noteq> [] then throwE (EWrap ''pairs read from it'' ERemoteInUse)
     else bindE (wrapE ''delete remote'' (delete_remote i)) (\<lambda>n.
       if n = 0 then throwE (EWrap ''with id'' ENoRemote) else returnE ()))"

definition Remotes :: "remote_row list op" where
  "Remotes = wrapE ''read remotes'' (query (\<lambda>w. sort_key rm_ID (remotes w)))"

definition RemoteByID :: "int \<Rightarrow> remote_row op" where
  "RemoteByID i = bindE (wrapE ''scan remote'' (query (\<lambda>w. find (\<lambda>r. rm_ID r = i) (remotes w)))) (\<lambda>found. case found of
     None \<Rightarrow> throwE (EWrap ''with id'' ENoRemote) | Some r \<Rightarrow> returnE r)"

definition FindRemote :: "string \<Rightarrow> remote_row op" where
  "FindRemote ref0 = (let ref = TrimSpace ref0 in
     if ref = [] then throwE (EWrap ''no remote given'' ENoRemote)
     else bindE (wrapE ''scan remote'' (query (\<lambda>w. find (\<lambda>r. rm_Name r = ref) (remotes w)))) (\<lambda>found. case found of
       Some r \<Rightarrow> returnE r
     | None \<Rightarrow> (case Atoi ref of Some i \<Rightarrow> RemoteByID i | None \<Rightarrow> throwE (EWrap ref ENoRemote))))"

definition ResolveRemote :: "string \<Rightarrow> remote_row op" where
  "ResolveRemote ref = (if TrimSpace ref \<noteq> [] then FindRemote ref
     else bindE (wrapE ''scan remote'' (query (\<lambda>w. case sort_key rm_ID (remotes w) of [] \<Rightarrow> None | r # _ \<Rightarrow> Some r))) (\<lambda>found. case found of
       None \<Rightarrow> throwE (EWrap ''none is configured yet'' ENoRemote) | Some r \<Rightarrow> returnE r))"

definition checkRemote :: "int \<Rightarrow> unit op" where
  "checkRemote i = (if i = 0 then returnE ()
     else bindE (wrapE ''read remote'' (query (\<lambda>w. i \<in> set (map rm_ID (remotes w))))) (\<lambda>there.
       if there then returnE () else throwE (EWrap ''with id'' ENoRemote)))"

section \<open>Pairs\<close>

text \<open>A statement that writes rows of pairs: unique names, and a remote that exists or none.\<close>

definition put_pairs :: "(pair list \<Rightarrow> 'a \<times> pair list) \<Rightarrow> 'a op" where
  "put_pairs g = exec (\<lambda>w. let (a, rows) = g (pairs w) in
     if distinct (map pair_Name rows) \<and> (\<forall>p \<in> set rows. p \<in> set (pairs w) \<or> pair_RemoteID p = 0 \<or> pair_RemoteID p \<in> set (map rm_ID (remotes w)))
     then Inr (a, w\<lparr>pairs := rows\<rparr>) else Inl EConstraint)"

definition CreatePair :: "(string \<Rightarrow> string) \<Rightarrow> pair_in \<Rightarrow> pair op" where
  "CreatePair nfc p0 = bindE (liftE (Normalize nfc p0)) (\<lambda>p. bindE (checkRemote (pair_RemoteID p)) (\<lambda>_. bindE now (\<lambda>t.
     wrapE ''create pair'' (put_pairs (\<lambda>rows.
       let p = p\<lparr>pair_ID := next_rowid (map pair_ID rows), pair_CreatedAt := UnixMilli t, pair_UpdatedAt := UnixMilli t\<rparr> in (p, rows @ [p]))))))"

definition UpdatePair :: "(string \<Rightarrow> string) \<Rightarrow> pair_in \<Rightarrow> unit op" where
  "UpdatePair nfc p0 = bindE (liftE (Normalize nfc p0)) (\<lambda>p. bindE (checkRemote (pair_RemoteID p)) (\<lambda>_. bindE now (\<lambda>t.
     bindE (wrapE ''update pair'' (put_pairs (\<lambda>rows. (sql_count (\<lambda>x. pair_ID x = pair_ID p) rows,
       sql_update (\<lambda>x. pair_ID x = pair_ID p) (\<lambda>x. p\<lparr>pair_CreatedAt := pair_CreatedAt x, pair_UpdatedAt := UnixMilli t\<rparr>) rows)))) (\<lambda>n.
     if n = 0 then throwE (EWrap ''with id'' ENoPair) else returnE ()))))"

text \<open>
  The foreign keys on \<open>pairs\<close>: what is the pair's own goes with it; the history and the events stay and lose their reference,
  which reads back as 0.
\<close>

definition cascade :: "int \<Rightarrow> world \<Rightarrow> world" where
  "cascade i w = w\<lparr>pairs := sql_delete (\<lambda>p. pair_ID p = i) (pairs w),
     jobs := sql_delete (\<lambda>j. job_PairID j = i) (jobs w), scans := sql_delete (\<lambda>s. scan_PairID s = i) (scans w),
     manifest := sql_delete (\<lambda>m. m_PairID m = i) (manifest w), files := sql_delete (\<lambda>f. f_PairID f = i) (files w),
     approvals := sql_delete (\<lambda>a. a_PairID a = i) (approvals w), backups := sql_delete (\<lambda>b. b_PairID b = i) (backups w),
     changes := sql_update (\<lambda>c. c_PairID c = i) (\<lambda>c. c\<lparr>c_PairID := 0\<rparr>) (changes w),
     events := sql_update (\<lambda>e. e_PairID e = Some i) (\<lambda>e. e\<lparr>e_PairID := None\<rparr>) (events w)\<rparr>"

definition DeletePair :: "int \<Rightarrow> unit op" where
  "DeletePair i = bindE (wrapE ''delete pair'' (exec (\<lambda>w. Inr (has_pair i w, if has_pair i w then cascade i w else w)))) (\<lambda>found.
     if \<not> found then throwE (EWrap ''with id'' ENoPair) else returnE ())"

definition Pairs :: "pair list op" where
  "Pairs = wrapE ''read pairs'' (query (\<lambda>w. sort_key (\<lambda>p. (pair_Priority p, pair_ID p)) (pairs w)))"

definition PairByID :: "int \<Rightarrow> pair op" where
  "PairByID i = bindE (wrapE ''scan pair'' (query (\<lambda>w. find (\<lambda>p. pair_ID p = i) (pairs w)))) (\<lambda>found. case found of
     None \<Rightarrow> throwE (EWrap ''with id'' ENoPair) | Some p \<Rightarrow> returnE p)"

definition FindPair :: "string \<Rightarrow> pair op" where
  "FindPair ref0 = (let ref = TrimSpace ref0 in
     if ref = [] then throwE (EWrap ''no pair given'' ENoPair)
     else bindE (wrapE ''scan pair'' (query (\<lambda>w. find (\<lambda>p. pair_Name p = ref) (pairs w)))) (\<lambda>found. case found of
       Some p \<Rightarrow> returnE p
     | None \<Rightarrow> (case Atoi ref of Some i \<Rightarrow> PairByID i | None \<Rightarrow> throwE (EWrap ref ENoPair))))"

end
