(* ===== verification/Runner.thy ===== *)
theory Runner
  imports Adopt Settings PairStore Planning Reap Walk Copying Database
begin

text \<open>
  The one operation the daemon has in flight, \<open>app/runner.go\<close>, with the client a pair reads with (\<open>RemoteFor\<close>,
  \<open>app/app.go\<close>) and the list a dry run leaves (\<open>keepDryRun\<close>, \<open>app/dryrun.go\<close>), and what the scheduler notes of a run
  that ended (\<open>noteScheduledRun\<close>, \<open>noteDatabaseRun\<close>, \<open>app/scheduler.go\<close>).

  The state of the daemon is the record \<open>app\<close>; store and disk are the world. An operation runs in the background and
  the scheduler's locks order what touches the daemon's state, so starting, cancelling and ending a run are steps.
  Summaries, log lines, the phase of a dry run and notifications are presentation and left out.
\<close>

section \<open>State\<close>

definition RunPlan :: string where "RunPlan = ''plan''"
definition RunScan :: string where "RunScan = ''scan''"
definition RunAdopt :: string where "RunAdopt = ''adopt''"
definition RunSync :: string where "RunSync = ''sync''"
definition RunDelete :: string where "RunDelete = ''delete''"
definition RunDatabase :: string where "RunDatabase = ''db''"
definition RunDryRun :: string where "RunDryRun = ''dryrun''"

lemmas run_kinds = RunPlan_def RunScan_def RunAdopt_def RunSync_def RunDelete_def RunDatabase_def RunDryRun_def

definition runHistory :: nat where "runHistory = 6"
definition planSample :: int where "planSample = 50"
definition MaxInt :: int where "MaxInt = 9223372036854775807"

text \<open>What the record of a run says it ended for.\<close>

datatype run_error = NoError | Stopped string | Failed error

record run =
  run_Kind :: string
  run_Auto :: bool
  run_Force :: bool
  run_PairID :: int
  run_PairName :: string
  run_StartedAt :: time
  run_FinishedAt :: "time option"
  run_Error :: run_error
  run_Plan :: "plan option"
  run_Database :: "db_result option"

definition Done :: "run \<Rightarrow> bool" where
  "Done r \<longleftrightarrow> run_FinishedAt r \<noteq> None"

record dry_run_list =
  dl_StartedAt :: time
  dl_FinishedAt :: time
  dl_Plan :: plan
  dl_Entries :: "plan_entry list"

text \<open>\<open>rn_cancel\<close>: the cancel function that is held, and whether it has been called.\<close>

record runner =
  rn_current :: "run option"
  rn_engine :: "engine option"
  rn_cancel :: "bool option"
  rn_reason :: string
  rn_history :: "run list"
  rn_dryRuns :: "int \<rightharpoonup> dry_run_list"

record outcome =
  out_plan :: "plan option"
  out_sync :: "sync_result option"
  out_reap :: "reap_result option"
  out_database :: "db_result option"
  out_err :: "error option"

record schedule_settings =
  ss_automatic :: bool
  ss_loc :: location
  ss_transfer :: schedule
  ss_scan :: schedule
  ss_scanEvery :: duration

record scheduler =
  sc_cfg :: schedule_settings
  sc_cfgErr :: string
  sc_window :: window
  sc_observed :: bool
  sc_planned :: "int \<rightharpoonup> int"
  sc_held :: "int \<rightharpoonup> time"
  sc_dbRetry :: "int \<rightharpoonup> time"

text \<open>The clients the daemon holds: one per remote, or one directory in their place.\<close>

record clients =
  cl_RemoteDir :: string
  cl_local :: "error + remote_fs option"
  cl_remotes :: "int \<rightharpoonup> error + remote_fs"
  cl_tunnel :: bool
  cl_wantTun :: bool

record app =
  ap_runs :: runner
  ap_sched :: scheduler
  ap_limit :: int
  ap_clients :: clients

text \<open>
  What is fixed while the daemon runs: the library, the host's own zone, the digest, the normal form, the events that say the
  same as one before, and the rounds a walk and a sync are given.
\<close>

record host =
  ho_std :: std
  ho_Local :: location
  ho_sha256 :: "string \<Rightarrow> string"
  ho_NFC :: "string \<Rightarrow> string"
  ho_same :: "event \<Rightarrow> bool"
  ho_fuel :: nat

section \<open>The client of a pair\<close>

definition tunnelGateLocked :: "clients \<Rightarrow> error option" where
  "tunnelGateLocked c = (if \<not> cl_tunnel c \<and> cl_wantTun c then Some (EMsg ''the tunnel is configured but not up'') else None)"

definition remoteLocked :: "clients \<Rightarrow> int \<Rightarrow> error + remote_fs" where
  "remoteLocked c i =
     (if cl_RemoteDir c \<noteq> [] then (case cl_local c of
        Inl e \<Rightarrow> Inl e
      | Inr None \<Rightarrow> Inl (EMsg ''the local directory is not open yet'')
      | Inr (Some rem) \<Rightarrow> Inr rem)
      else (case cl_remotes c i of
        None \<Rightarrow> Inl (EWrap ''with id'' ENoRemote)
      | Some (Inl e) \<Rightarrow> Inl e
      | Some (Inr rem) \<Rightarrow> (case tunnelGateLocked c of Some e \<Rightarrow> Inl e | None \<Rightarrow> Inr rem)))"

definition RemoteFor :: "clients \<Rightarrow> pair \<Rightarrow> error + remote_fs" where
  "RemoteFor c pr = (if pair_RemoteID pr = 0 \<and> cl_RemoteDir c = [] then Inl (EMsg ''the pair reads from no remote'')
     else remoteLocked c (pair_RemoteID pr))"

section \<open>Starting\<close>

definition newEngine :: "host \<Rightarrow> app \<Rightarrow> pair \<Rightarrow> engine op" where
  "newEngine ho a pr = (case RemoteFor (ap_clients a) pr of
     Inl e \<Rightarrow> throwE e
   | Inr rem \<Rightarrow> bindE Config (\<lambda>vals. returnE (New rem (OptionsFrom (ho_std ho) vals) (ho_sha256 ho) (ho_NFC ho))))"

definition startRun :: "host \<Rightarrow> string \<Rightarrow> pair \<Rightarrow> bool \<Rightarrow> bool \<Rightarrow> app \<Rightarrow> (run \<times> app) op" where
  "startRun ho kind pr auto1 force a =
     (if kind \<notin> set [RunPlan, RunScan, RunAdopt, RunSync, RunDelete, RunDatabase, RunDryRun] then throwE (EMsg ''unknown operation'')
      else if \<not> pair_Enabled pr then throwE (EMsg ''the pair is disabled'')
      else bindE (newEngine ho a pr) (\<lambda>eng.
        if rn_current (ap_runs a) \<noteq> None then throwE (EMsg ''has been running'')
        else bindE now (\<lambda>t.
          let r = \<lparr>run_Kind = kind, run_Auto = auto1, run_Force = force, run_PairID = pair_ID pr, run_PairName = pair_Name pr,
                   run_StartedAt = t, run_FinishedAt = None, run_Error = NoError, run_Plan = None, run_Database = None\<rparr> in
          returnE (r, a\<lparr>ap_runs := (ap_runs a)\<lparr>rn_current := Some r, rn_engine := Some eng, rn_cancel := Some False, rn_reason := []\<rparr>\<rparr>))))"

definition StartRun :: "host \<Rightarrow> string \<Rightarrow> int \<Rightarrow> bool \<Rightarrow> app \<Rightarrow> (run \<times> app) op" where
  "StartRun ho kind i force a = bindE (PairByID i) (\<lambda>pr. startRun ho kind pr False force a)"

definition CancelRun :: "string \<Rightarrow> app \<Rightarrow> error option \<times> app" where
  "CancelRun reason a = (case rn_cancel (ap_runs a) of
     None \<Rightarrow> (Some (EMsg ''nothing is running''), a)
   | Some _ \<Rightarrow> (None, a\<lparr>ap_runs := (ap_runs a)\<lparr>rn_reason := reason, rn_cancel := Some True\<rparr>\<rparr>))"

section \<open>The operation\<close>

definition no_outcome :: outcome where
  "no_outcome = \<lparr>out_plan = None, out_sync = None, out_reap = None, out_database = None, out_err = None\<rparr>"

definition failed :: "error \<Rightarrow> outcome" where
  "failed e = no_outcome\<lparr>out_err := Some e\<rparr>"

text \<open>The last part of a sync: the deletions, once everything else has landed.\<close>

definition run_reap :: "host \<Rightarrow> engine \<Rightarrow> pair \<Rightarrow> outcome \<Rightarrow> outcome option op" where
  "run_reap ho E pr out = bindE (Reap (ho_Local ho) E pr) (\<lambda>(res, err). returnE (Some (out\<lparr>out_reap := Some res, out_err := err\<rparr>)))"

definition run_sync :: "host \<Rightarrow> engine \<Rightarrow> pair \<Rightarrow> bool \<Rightarrow> outcome option op" where
  "run_sync ho E pr force =
     bindE (tryE (Enqueue E pr)) (\<lambda>r. case r of
       Inl e \<Rightarrow> returnE (Some (failed e))
     | Inr p \<Rightarrow> bindE (Sync (ho_fuel ho) E pr) (\<lambda>r. case r of
         None \<Rightarrow> returnE None
       | Some (res, err) \<Rightarrow>
          let out = no_outcome\<lparr>out_sync := Some res\<rparr> in
          (case err of
             Some e \<Rightarrow> returnE (Some (out\<lparr>out_err := Some e\<rparr>))
           | None \<Rightarrow>
              if pair_Type pr = PairJCC
              then bindE (SyncDatabase (ho_Local ho) (ho_same ho) E pr force) (\<lambda>(db, err).
                     let out = out\<lparr>out_database := Some db\<rparr> in
                     (case err of Some e \<Rightarrow> returnE (Some (out\<lparr>out_err := Some e\<rparr>)) | None \<Rightarrow> run_reap ho E pr out))
              else run_reap ho E pr out)))"

definition runOperation :: "host \<Rightarrow> engine \<Rightarrow> pair \<Rightarrow> string \<Rightarrow> bool \<Rightarrow> outcome option op" where
  "runOperation ho E pr kind force =
     (if kind = RunDryRun then
        bindE (tryE (Scan (ho_fuel ho) E pr True)) (\<lambda>r. case r of
          Inl e \<Rightarrow> returnE (Some (failed e))
        | Inr None \<Rightarrow> returnE None
        | Inr (Some _) \<Rightarrow> bindE (tryE (Plan E pr MaxInt)) (\<lambda>r. case r of
            Inl e \<Rightarrow> returnE (Some (failed e))
          | Inr p \<Rightarrow> returnE (Some (no_outcome\<lparr>out_plan := Some p\<rparr>))))
      else if kind = RunPlan then
        bindE (tryE (Plan E pr planSample)) (\<lambda>r. case r of
          Inl e \<Rightarrow> returnE (Some (failed e))
        | Inr p \<Rightarrow> returnE (Some (no_outcome\<lparr>out_plan := Some p\<rparr>)))
      else if kind = RunScan then
        bindE (tryE (Scan (ho_fuel ho) E pr True)) (\<lambda>r. case r of
          Inl e \<Rightarrow> returnE (Some (failed e))
        | Inr None \<Rightarrow> returnE None
        | Inr (Some _) \<Rightarrow> returnE (Some no_outcome))
      else if kind = RunAdopt then
        bindE (Adopt E pr) (\<lambda>(_, err). returnE (Some (case err of Some e \<Rightarrow> failed e | None \<Rightarrow> no_outcome)))
      else if kind = RunSync then run_sync ho E pr force
      else if kind = RunDatabase then
        bindE (SyncDatabase (ho_Local ho) (ho_same ho) E pr force) (\<lambda>(db, err).
          returnE (Some (case err of Some e \<Rightarrow> failed e | None \<Rightarrow> no_outcome\<lparr>out_database := Some db\<rparr>)))
      else if kind = RunDelete then
        bindE (Reap (ho_Local ho) E pr) (\<lambda>(res, err).
          returnE (Some (case err of Some e \<Rightarrow> failed e | None \<Rightarrow> no_outcome\<lparr>out_reap := Some res\<rparr>)))
      else returnE (Some (failed (EMsg ''unknown operation''))))"

section \<open>Ending\<close>

definition failureBackoff :: duration where "failureBackoff = 15 * Minute"
definition databaseRetry :: duration where "databaseRetry = 10 * Minute"

definition noteScheduledRun :: "int \<Rightarrow> bool \<Rightarrow> app \<Rightarrow> app op" where
  "noteScheduledRun pid bad a =
     (if \<not> bad then returnE (a\<lparr>ap_sched := (ap_sched a)\<lparr>sc_held := (sc_held (ap_sched a))(pid := None)\<rparr>\<rparr>)
      else bindE now (\<lambda>t. returnE (a\<lparr>ap_sched := (ap_sched a)\<lparr>
        sc_held := (sc_held (ap_sched a))(pid \<mapsto> t + failureBackoff), sc_planned := (sc_planned (ap_sched a))(pid := None)\<rparr>\<rparr>)))"

definition noteDatabaseRun :: "int \<Rightarrow> db_result option \<Rightarrow> app \<Rightarrow> app op" where
  "noteDatabaseRun pid res a = (case res of
     None \<Rightarrow> returnE a
   | Some db \<Rightarrow>
      if dr_Deferred db = [] then returnE (a\<lparr>ap_sched := (ap_sched a)\<lparr>sc_dbRetry := (sc_dbRetry (ap_sched a))(pid := None)\<rparr>\<rparr>)
      else bindE now (\<lambda>t. returnE (a\<lparr>ap_sched := (ap_sched a)\<lparr>sc_dbRetry := (sc_dbRetry (ap_sched a))(pid \<mapsto> t + databaseRetry)\<rparr>\<rparr>)))"

definition opOrder :: "job_op \<Rightarrow> nat" where
  "opOrder x = (case x of OpAdd \<Rightarrow> 0 | OpReplace \<Rightarrow> 1 | OpDelete \<Rightarrow> 2)"

definition keepDryRun :: "run \<Rightarrow> time \<Rightarrow> plan \<Rightarrow> runner \<Rightarrow> runner" where
  "keepDryRun r finished p rn = rn\<lparr>rn_dryRuns := (rn_dryRuns rn)(run_PairID r \<mapsto>
     \<lparr>dl_StartedAt = run_StartedAt r, dl_FinishedAt = finished, dl_Plan = p\<lparr>pl_Entries := []\<rparr>,
      dl_Entries = sort_key (\<lambda>x. (opOrder (pe_Op x), pe_Path x)) (pl_Entries p)\<rparr>)\<rparr>"

definition finish_record :: "run \<Rightarrow> time \<Rightarrow> string \<Rightarrow> outcome \<Rightarrow> run" where
  "finish_record r t reason out =
     (let listed = (if run_Kind r = RunDryRun then map_option (\<lambda>p. p\<lparr>pl_Entries := []\<rparr>) (out_plan out) else out_plan out) in
      r\<lparr>run_FinishedAt := Some t, run_Plan := listed, run_Database := out_database out,
        run_Error := (case out_err out of
          None \<Rightarrow> NoError
        | Some e \<Rightarrow> if errors_Is e ECanceled \<and> reason \<noteq> [] then Stopped reason else Failed e)\<rparr>)"

text \<open>The runner once a run has ended: its record in front of the history, and nothing in flight.\<close>

definition ended :: "run \<Rightarrow> time \<Rightarrow> outcome \<Rightarrow> runner \<Rightarrow> runner" where
  "ended r t out rn =
     (let rn = (if run_Kind r = RunDryRun then (case out_plan out of Some p \<Rightarrow> keepDryRun r t p rn | None \<Rightarrow> rn) else rn) in
      rn\<lparr>rn_history := take runHistory (finish_record r t (rn_reason rn) out # rn_history rn),
         rn_current := None, rn_engine := None, rn_cancel := None, rn_reason := []\<rparr>)"

definition stopped_run :: "outcome \<Rightarrow> bool" where
  "stopped_run out = (case out_err out of Some e \<Rightarrow> errors_Is e ECanceled | None \<Rightarrow> False)"

definition finishRun :: "run \<Rightarrow> outcome \<Rightarrow> app \<Rightarrow> app op" where
  "finishRun r out a =
     bindE now (\<lambda>t.
     bindE (if run_Auto r then noteScheduledRun (run_PairID r) (out_err out \<noteq> None \<and> \<not> stopped_run out) (a\<lparr>ap_runs := ended r t out (ap_runs a)\<rparr>)
            else returnE (a\<lparr>ap_runs := ended r t out (ap_runs a)\<rparr>)) (\<lambda>a.
     noteDatabaseRun (run_PairID r) (out_database out) a))"

definition execute :: "host \<Rightarrow> engine \<Rightarrow> pair \<Rightarrow> run \<Rightarrow> app \<Rightarrow> app option op" where
  "execute ho E pr r a =
     bindE (runOperation ho E pr (run_Kind r) (run_Force r)) (\<lambda>out. case out of
       None \<Rightarrow> returnE None
     | Some out \<Rightarrow> bindE (finishRun r out a) (\<lambda>a. returnE (Some a)))"

end
