(* ===== verification/Scheduler.thy ===== *)
theory Scheduler
  imports Runner
begin

text \<open>
  The daemon's own hand on the buttons, \<open>app/scheduler.go\<close>: the settings resolved into grids, the tick that carries the
  current cell's cap to the limiter, stops a scheduled run whose window closed and starts the first thing that is due, and
  how long it then sleeps. Reasons that are only logged are left out.
\<close>

section \<open>The settings\<close>

definition schedulerInterval :: duration where "schedulerInterval = 30 * Second"

text \<open>A grid that cannot be read closes the transfer window; the last complaint is the one that is kept.\<close>

definition loadSchedule :: "host \<Rightarrow> vals \<Rightarrow> app \<Rightarrow> app" where
  "loadSchedule ho v a =
     (let (loc, problem) = (case std_Zone (ho_std ho) (v KeyTimezone) of Some l \<Rightarrow> (l, []) | None \<Rightarrow> (ho_Local ho, ''timezone''));
          (transfer, problem) = (case Parse (v KeySchedule) of
             Inr s \<Rightarrow> (s, problem)
           | Inl _ \<Rightarrow> (case Parse ''* * = off'' of Inr s \<Rightarrow> s | Inl _ \<Rightarrow> zero_schedule, ''transfer window''));
          (scan, problem) = (case ParseGate (v KeyScanSchedule) of
             Inr s \<Rightarrow> (s, problem) | Inl _ \<Rightarrow> (zero_schedule, ''scan window''))
      in a\<lparr>ap_sched := (ap_sched a)\<lparr>
           sc_cfg := \<lparr>ss_automatic = Values_Bool v KeyAutomatic, ss_loc = loc, ss_transfer = transfer, ss_scan = scan,
                     ss_scanEvery = Values_Duration (ho_std ho) v KeyScanInterval\<rparr>,
           sc_cfgErr := problem\<rparr>\<rparr>)"

section \<open>Windows\<close>

definition limiter_Set :: "int \<Rightarrow> int" where
  "limiter_Set n = (if n \<le> 0 then 0 else n)"

text \<open>The cap in force, and an event on the edge.\<close>

definition applyWindow :: "window \<Rightarrow> app \<Rightarrow> app op" where
  "applyWindow w a =
     (let was = sc_window (ap_sched a); seen = sc_observed (ap_sched a);
          a = a\<lparr>ap_limit := limiter_Set (w_Limit w), ap_sched := (ap_sched a)\<lparr>sc_window := w, sc_observed := True\<rparr>\<rparr> in
      if \<not> seen \<or> (w_Open was = w_Open w \<and> w_Limit was = w_Limit w) then returnE a
      else bindE (event LevelInfo KindWindow 0) (\<lambda>_. returnE a))"

definition closed_window :: window where
  "closed_window = \<lparr>w_Open = False, w_Limit = 0, w_Until = 0\<rparr>"

text \<open>A scheduled run whose window has closed is stopped; the answer is whether something is running.\<close>

definition tendRun :: "window \<Rightarrow> window \<Rightarrow> app \<Rightarrow> bool \<times> app" where
  "tendRun transfer scan a = (case rn_current (ap_runs a) of
     None \<Rightarrow> (False, a)
   | Some c \<Rightarrow>
      if \<not> run_Auto c then (True, a)
      else if run_Kind c = RunSync \<and> \<not> w_Open transfer then (True, snd (CancelRun ''stopped: the transfer window closed'' a))
      else if run_Kind c = RunScan \<and> \<not> w_Open scan then (True, snd (CancelRun ''stopped: the scan window closed'' a))
      else (True, a))"

section \<open>What is due\<close>

definition eligible :: "app \<Rightarrow> time \<Rightarrow> pair \<Rightarrow> bool" where
  "eligible a t pr \<longleftrightarrow> pair_Enabled pr \<and> (case sc_held (ap_sched a) (pair_ID pr) of None \<Rightarrow> True | Some h \<Rightarrow> \<not> t < h)"

definition scanDue :: "schedule_settings \<Rightarrow> time \<Rightarrow> pair \<Rightarrow> bool op" where
  "scanDue cfg t pr = bindE (tryE (LastCompletedScan (pair_ID pr))) (\<lambda>r. returnE (case r of
     Inl _ \<Rightarrow> False
   | Inr None \<Rightarrow> True
   | Inr (Some sc) \<Rightarrow> (case scan_FinishedAt sc of None \<Rightarrow> False | Some ms \<Rightarrow> ss_scanEvery cfg \<le> t - ofMilli ms)))"

text \<open>The walk the answer came from, where there is something to transfer.\<close>

definition syncDue :: "app \<Rightarrow> pair \<Rightarrow> int option op" where
  "syncDue a pr = bindE (tryE (Queue (pair_ID pr))) (\<lambda>r. case r of
     Inl _ \<Rightarrow> returnE None
   | Inr q \<Rightarrow> bindE (tryE (LastCompletedScan (pair_ID pr))) (\<lambda>r. returnE (case r of
       Inl _ \<Rightarrow> None
     | Inr None \<Rightarrow> None
     | Inr (Some sc) \<Rightarrow>
        if q_Counts q JobPending > 0 then Some (scan_ID sc)
        else if (case sc_planned (ap_sched a) (pair_ID pr) of None \<Rightarrow> 0 | Some i \<Rightarrow> i) = scan_ID sc then None
        else Some (scan_ID sc))))"

definition databaseDue :: "app \<Rightarrow> time \<Rightarrow> pair \<Rightarrow> bool" where
  "databaseDue a t pr \<longleftrightarrow> (case sc_dbRetry (ap_sched a) (pair_ID pr) of None \<Rightarrow> False | Some at1 \<Rightarrow> \<not> t < at1)"

definition markPlanned :: "int \<Rightarrow> int \<Rightarrow> app \<Rightarrow> app" where
  "markPlanned pid sid a = a\<lparr>ap_sched := (ap_sched a)\<lparr>sc_planned := (sc_planned (ap_sched a))(pid \<mapsto> sid)\<rparr>\<rparr>"

definition startScheduled :: "host \<Rightarrow> string \<Rightarrow> pair \<Rightarrow> app \<Rightarrow> app op" where
  "startScheduled ho kind pr a = bindE (tryE (startRun ho kind pr True False a)) (\<lambda>r. case r of
     Inl _ \<Rightarrow> noteScheduledRun (pair_ID pr) True a
   | Inr (_, a) \<Rightarrow> returnE a)"

section \<open>Starting\<close>

fun tick_scan :: "host \<Rightarrow> schedule_settings \<Rightarrow> time \<Rightarrow> app \<Rightarrow> pair list \<Rightarrow> app option op" where
  "tick_scan ho cfg t a [] = returnE None"
| "tick_scan ho cfg t a (p # ps) =
     (if \<not> eligible a t p then tick_scan ho cfg t a ps
      else bindE (scanDue cfg t p) (\<lambda>due.
        if due then bindE (startScheduled ho RunScan p a) (\<lambda>a. returnE (Some a)) else tick_scan ho cfg t a ps))"

fun tick_sync :: "host \<Rightarrow> time \<Rightarrow> app \<Rightarrow> pair list \<Rightarrow> app option op" where
  "tick_sync ho t a [] = returnE None"
| "tick_sync ho t a (p # ps) =
     (if \<not> eligible a t p then tick_sync ho t a ps
      else bindE (syncDue a p) (\<lambda>due. case due of
        Some sid \<Rightarrow> bindE (startScheduled ho RunSync p (markPlanned (pair_ID p) sid a)) (\<lambda>a. returnE (Some a))
      | None \<Rightarrow> tick_sync ho t a ps))"

fun tick_database :: "host \<Rightarrow> time \<Rightarrow> app \<Rightarrow> pair list \<Rightarrow> app op" where
  "tick_database ho t a [] = returnE a"
| "tick_database ho t a (p # ps) =
     (if \<not> eligible a t p \<or> pair_Type p \<noteq> PairJCC then tick_database ho t a ps
      else if databaseDue a t p then startScheduled ho RunDatabase p a
      else tick_database ho t a ps)"

text \<open>The pairs that may be asked: enabled, and with a client.\<close>

definition reachable_pair :: "app \<Rightarrow> pair \<Rightarrow> bool" where
  "reachable_pair a p \<longleftrightarrow> pair_Enabled p \<and> \<not> isl (RemoteFor (ap_clients a) p)"

definition startDueRun :: "host \<Rightarrow> schedule_settings \<Rightarrow> time \<Rightarrow> window \<Rightarrow> window \<Rightarrow> app \<Rightarrow> app op" where
  "startDueRun ho cfg t transfer scan a =
     bindE (tryE Pairs) (\<lambda>r. case r of
       Inl _ \<Rightarrow> returnE a
     | Inr all \<Rightarrow>
        let ps = filter (reachable_pair a) all in
        bindE (if w_Open scan then tick_scan ho cfg t a ps else returnE None) (\<lambda>started. case started of
          Some a \<Rightarrow> returnE a
        | None \<Rightarrow>
           if \<not> w_Open transfer then returnE a
           else bindE (tick_sync ho t a ps) (\<lambda>started. case started of
             Some a \<Rightarrow> returnE a
           | None \<Rightarrow> tick_database ho t a ps)))"

section \<open>The tick\<close>

definition nearer :: "time \<Rightarrow> time \<Rightarrow> duration \<Rightarrow> duration" where
  "nearer t b wait1 = (let d = b - t + 100 * Millisecond in if 0 < d \<and> d < wait1 then d else wait1)"

definition untilNext :: "time \<Rightarrow> time list \<Rightarrow> duration" where
  "untilNext t boundaries = (let wait1 = fold (nearer t) boundaries schedulerInterval in if wait1 < Second then Second else wait1)"

definition schedulerTick :: "host \<Rightarrow> time \<Rightarrow> app \<Rightarrow> (duration \<times> app) op" where
  "schedulerTick ho t a =
     bindE (tryE Config) (\<lambda>r.
       let a = (case r of Inr v \<Rightarrow> loadSchedule ho v a | Inl _ \<Rightarrow> a);
           cfg = sc_cfg (ap_sched a);
           transfer = At (ss_transfer cfg) (ss_loc cfg) t; scan = At (ss_scan cfg) (ss_loc cfg) t in
       bindE (applyWindow transfer a) (\<lambda>a.
         let wait1 = untilNext t [w_Until transfer, w_Until scan] in
         if \<not> ss_automatic cfg then returnE (wait1, snd (tendRun closed_window closed_window a))
         else case tendRun transfer scan a of
           (True, a) \<Rightarrow> returnE (wait1, a)
         | (False, a) \<Rightarrow> bindE (startDueRun ho cfg t transfer scan a) (\<lambda>a. returnE (wait1, a))))"

end
