(* ===== verification/SchedulerSpec.thy ===== *)
theory SchedulerSpec
  imports Scheduler
begin

text \<open>
  What a tick of the scheduler can do to the run in flight, what it can start and how long it sleeps; that a failed
  scheduled run is left alone for a while; and what is true of the daemon's state after any sequence of ticks, buttons and
  endings.
\<close>

section \<open>What a tick reads\<close>

text \<open>The store and the disk as they were, apart from events that were added.\<close>

definition store_of :: "world \<Rightarrow> world \<Rightarrow> bool" where
  "store_of w0 w \<longleftrightarrow> (\<exists>es e. w = w0\<lparr>events := events w0 @ es, env := e\<rparr>)"

lemma store_of_refl: "store_of w w"
proof -
  have "w = w\<lparr>events := events w @ [], env := env w\<rparr>" by simp
  then show ?thesis unfolding store_of_def by blast
qed

interpretation telling: step_rel store_of
proof
  fix w :: world and e
  have "w\<lparr>env := e\<rparr> = w\<lparr>events := events w @ [], env := e\<rparr>" by simp
  then show "store_of w (w\<lparr>env := e\<rparr>)" unfolding store_of_def by blast
next
  fix w w1 w2
  assume "store_of w w1" and "store_of w1 w2"
  then obtain es e es' e' where "w1 = w\<lparr>events := events w @ es, env := e\<rparr>" "w2 = w1\<lparr>events := events w1 @ es', env := e'\<rparr>"
    by (auto simp: store_of_def)
  then have "w2 = w\<lparr>events := events w @ (es @ es'), env := e'\<rparr>" by simp
  then show "store_of w w2" unfolding store_of_def by blast
qed

lemma telling_event: "keeps store_of (event lv kd pid)"
proof -
  have "store_of w (w\<lparr>events := events w @ es\<rparr>)" for w :: world and es
  proof -
    have "w\<lparr>events := events w @ es\<rparr> = w\<lparr>events := events w @ es, env := env w\<rparr>" by simp
    then show ?thesis unfolding store_of_def by blast
  qed
  then have "keeps store_of (put_events (\<lambda>rows. let i = next_rowid (map e_ID rows) in (i, rows @ [x i])))" for x
    unfolding put_events_def Let_def by (intro telling.keeps_exec) (auto split: if_splits)
  then show ?thesis unfolding event_def AppendEvent_def by (intro telling.keeps_rules)
qed

lemma store_of_env: "store_of w0 w \<Longrightarrow> store_of w0 (w\<lparr>env := e\<rparr>)"
  unfolding store_of_def by force

lemma store_of_tables:
  assumes "store_of w0 w"
  shows "scans w = scans w0" "jobs w = jobs w0" "pairs w = pairs w0" "config w = config w0"
  using assms by (auto simp: store_of_def)

lemma store_of_query:
  "triple (store_of w0) (query g) (\<lambda>a w. store_of w0 w \<and> (\<exists>w1. store_of w0 w1 \<and> a = g w1)) (store_of w0)"
  by (rule tripleI) (auto dest!: query_cases intro: store_of_env)

lemma store_of_read:
  assumes "\<And>w. store_of w0 w \<Longrightarrow> g w = v"
  shows "triple (store_of w0) (query g) (\<lambda>a w. a = v \<and> store_of w0 w) (store_of w0)"
  by (rule triple_conseq [OF store_of_query]) (use assms in auto)

lemma store_of_now: "triple (store_of w0) now (\<lambda>_. store_of w0) X"
  by (rule tripleI) (auto dest!: now_cases intro: store_of_env)

lemma store_of_event: "triple (store_of w0) (event lv kd pid) (\<lambda>_. store_of w0) X"
  by (rule tripleI) (auto dest: keepsD [OF telling_event] intro: telling.R_trans)

lemma store_of_Config: "triple (store_of w0) Config (\<lambda>v w. v = values_of (config w0) \<and> store_of w0 w) (store_of w0)"
  unfolding Config_def by (intro triple_wrap store_of_read) (simp add: store_of_tables)

lemma store_of_Pairs:
  "triple (store_of w0) Pairs (\<lambda>ps w. ps = sort_key (\<lambda>p. (pair_Priority p, pair_ID p)) (pairs w0) \<and> store_of w0 w) (store_of w0)"
  unfolding Pairs_def by (intro triple_wrap store_of_read) (simp add: store_of_tables)

lemma triple_option:
  "(x = None \<Longrightarrow> triple P m Q X) \<Longrightarrow> (\<And>b. x = Some b \<Longrightarrow> triple P (f b) Q X) \<Longrightarrow> triple P (case x of None \<Rightarrow> m | Some b \<Rightarrow> f b) Q X"
  by (cases x) auto

definition last_scan :: "world \<Rightarrow> int \<Rightarrow> scan option" where
  "last_scan w pid = sql_last scan_ID (\<lambda>s. scan_PairID s = pid \<and> scan_State s = ScanDone) (scans w)"

lemma store_of_LastCompletedScan:
  "triple (store_of w0) (LastCompletedScan pid) (\<lambda>v w. v = last_scan w0 pid \<and> store_of w0 w) (store_of w0)"
  unfolding LastCompletedScan_def by (intro store_of_read) (simp add: store_of_tables last_scan_def)

lemma sql_count_pos: "0 < sql_count p xs \<Longrightarrow> \<exists>x \<in> set xs. p x"
  by (auto simp: sql_count_def filter_empty_conv split: if_splits)

lemma store_of_Queue:
  "triple (store_of w0) (Queue pid) (\<lambda>q w. (0 < q_Counts q JobPending \<longrightarrow> (\<exists>j \<in> set (jobs w0). job_PairID j = pid \<and> job_State j = JobPending)) \<and>
     store_of w0 w) (store_of w0)"
proof -
  have rows: "triple (store_of w0) (wrapE c (query (\<lambda>w. filter (\<lambda>j. job_PairID j = pid) (jobs w))))
      (\<lambda>rows w. rows = filter (\<lambda>j. job_PairID j = pid) (jobs w0) \<and> store_of w0 w) (store_of w0)" for c
    by (intro triple_wrap store_of_read) (simp add: store_of_tables)
  have nxt: "triple (store_of w0) (wrapE c (query (\<lambda>w. queue_next pid (jobs w))))
      (\<lambda>n w. n = queue_next pid (jobs w0) \<and> store_of w0 w) (store_of w0)" for c
    by (intro triple_wrap store_of_read) (simp add: store_of_tables)
  show ?thesis
    unfolding Queue_def
    by (rule triple_bind [OF rows], rule triple_fact, rule triple_bind [OF nxt], rule triple_fact, rule triple_return)
       (auto dest!: sql_count_pos)
qed

section \<open>What is due\<close>

definition scan_due :: "world \<Rightarrow> schedule_settings \<Rightarrow> time \<Rightarrow> pair \<Rightarrow> bool" where
  "scan_due w cfg t p \<longleftrightarrow> (case last_scan w (pair_ID p) of None \<Rightarrow> True
     | Some sc \<Rightarrow> (\<exists>ms. scan_FinishedAt sc = Some ms \<and> ss_scanEvery cfg \<le> t - ofMilli ms))"

definition sync_due :: "world \<Rightarrow> app \<Rightarrow> pair \<Rightarrow> bool" where
  "sync_due w a p \<longleftrightarrow> (\<exists>sc. last_scan w (pair_ID p) = Some sc \<and>
     ((\<exists>j \<in> set (jobs w). job_PairID j = pair_ID p \<and> job_State j = JobPending) \<or>
      sc_planned (ap_sched a) (pair_ID p) \<noteq> Some (scan_ID sc)))"

definition db_due :: "app \<Rightarrow> time \<Rightarrow> pair \<Rightarrow> bool" where
  "db_due a t p \<longleftrightarrow> pair_Type p = PairJCC \<and> (\<exists>s. sc_dbRetry (ap_sched a) (pair_ID p) = Some s \<and> s \<le> t)"

lemma store_of_scanDue:
  "triple (store_of w0) (scanDue cfg t p) (\<lambda>due w. (due \<longrightarrow> scan_due w0 cfg t p) \<and> store_of w0 w) X"
proof -
  have "triple (store_of w0) (tryE (LastCompletedScan (pair_ID p)))
      (\<lambda>r w. (\<forall>v. r = Inr v \<longrightarrow> v = last_scan w0 (pair_ID p)) \<and> store_of w0 w) X"
    by (rule triple_try) (rule triple_conseq [OF store_of_LastCompletedScan], auto)
  then show ?thesis
    unfolding scanDue_def
    by (rule triple_bind) (auto intro!: triple_return simp: scan_due_def split: sum.splits option.splits)
qed

lemma store_of_syncDue:
  "triple (store_of w0) (syncDue a p) (\<lambda>due w. (due \<noteq> None \<longrightarrow> sync_due w0 a p) \<and> store_of w0 w) X"
  unfolding syncDue_def
  apply (rule triple_try_case [OF store_of_Queue], rule triple_return, simp, rule triple_fact)
  apply (rule triple_bind [where Q = "\<lambda>r w. (\<forall>v. r = Inr v \<longrightarrow> v = last_scan w0 (pair_ID p)) \<and> store_of w0 w"])
   apply (rule triple_try, rule triple_conseq [OF store_of_LastCompletedScan], auto)[1]
  apply (rule triple_return)
  apply (auto simp: sync_due_def split: sum.splits option.splits if_splits)
  done

section \<open>What is started\<close>

definition scheduled_run :: "string \<Rightarrow> pair \<Rightarrow> time \<Rightarrow> run" where
  "scheduled_run kind p t = \<lparr>run_Kind = kind, run_Auto = True, run_Force = False, run_PairID = pair_ID p, run_PairName = pair_Name p,
     run_StartedAt = t, run_FinishedAt = None, run_Error = NoError, run_Plan = None, run_Database = None\<rparr>"

definition began :: "app \<Rightarrow> string \<Rightarrow> pair \<Rightarrow> app \<Rightarrow> bool" where
  "began a kind p a' \<longleftrightarrow> rn_current (ap_runs a) = None \<and> (\<exists>t E. RemoteFor (ap_clients a) p = Inr (en_remote E) \<and>
     ap_runs a' = (ap_runs a)\<lparr>rn_current := Some (scheduled_run kind p t), rn_engine := Some E, rn_cancel := Some False, rn_reason := []\<rparr>)"

definition cfg_same :: "app \<Rightarrow> app \<Rightarrow> bool" where
  "cfg_same a a' \<longleftrightarrow> sc_cfg (ap_sched a') = sc_cfg (ap_sched a) \<and> ap_limit a' = ap_limit a \<and> ap_clients a' = ap_clients a"

lemma began_run:
  assumes "rn_current (ap_runs a) = None" and "RemoteFor (ap_clients a) p = Inr (en_remote E)"
  shows "began a kind p (a\<lparr>ap_runs := (ap_runs a)\<lparr>rn_current := Some (scheduled_run kind p t), rn_engine := Some E,
    rn_cancel := Some False, rn_reason := []\<rparr>\<rparr>)"
  unfolding began_def using assms by auto

lemma store_of_newEngine:
  "triple (store_of w0) (newEngine ho a p) (\<lambda>E w. RemoteFor (ap_clients a) p = Inr (en_remote E) \<and> store_of w0 w) (store_of w0)"
  unfolding newEngine_def
  by (auto split: sum.splits intro!: triple_throw triple_bind [OF store_of_Config] triple_return simp: New_def)

lemma store_of_startRun:
  "triple (store_of w0) (startRun ho kind p True False a)
    (\<lambda>x w. (began a kind p (snd x) \<and> cfg_same a (snd x) \<and> pair_Enabled p) \<and> store_of w0 w) (store_of w0)"
  unfolding startRun_def Let_def scheduled_run_def [symmetric]
  by (intro triple_if triple_throw triple_bind [OF store_of_newEngine] triple_fact triple_bind [OF store_of_now] triple_return)
     (simp_all add: began_run cfg_same_def)

lemma store_of_startScheduled:
  "triple (store_of w0) (startScheduled ho kind p a)
    (\<lambda>a' w. ((ap_runs a' = ap_runs a \<or> began a kind p a') \<and> cfg_same a a') \<and> store_of w0 w) X"
proof -
  have note1: "triple (store_of w0) (noteScheduledRun (pair_ID p) True a)
    (\<lambda>a' w. ((ap_runs a' = ap_runs a \<or> began a kind p a') \<and> cfg_same a a') \<and> store_of w0 w) X"
    unfolding noteScheduledRun_def
    by (auto intro!: triple_bind [OF store_of_now] triple_return simp: cfg_same_def)
  show ?thesis
    unfolding startScheduled_def
    by (rule triple_try_case [OF store_of_startRun], rule note1, rule triple_fact) (auto split: prod.splits intro!: triple_return)
qed

text \<open>The three searches: whatever comes back, the run in flight is as before or a due one of the list was begun.\<close>

definition started_by :: "app \<Rightarrow> (pair \<Rightarrow> bool) \<Rightarrow> string \<Rightarrow> pair list \<Rightarrow> app \<Rightarrow> bool" where
  "started_by a due kind ps a' \<longleftrightarrow> cfg_same a a' \<and> (ap_runs a' = ap_runs a \<or> (\<exists>p \<in> set ps. due p \<and> began a kind p a'))"

lemma started_by_Cons: "started_by a due kind ps a' \<Longrightarrow> started_by a due kind (p # ps) a'"
  by (auto simp: started_by_def)

lemma store_of_scheduled:
  assumes "due p" and "p \<in> set ps" and "cfg_same a a1" and "ap_runs a1 = ap_runs a"
  shows "triple (store_of w0) (startScheduled ho kind p a1) (\<lambda>a' w. started_by a due kind ps a' \<and> store_of w0 w) X"
  by (rule triple_conseq [OF store_of_startScheduled])
     (use assms in \<open>auto simp: started_by_def cfg_same_def began_def\<close>)

lemma tick_scan_due:
  "triple (store_of w0) (tick_scan ho cfg t a ps)
    (\<lambda>r w. (\<forall>a'. r = Some a' \<longrightarrow> started_by a (\<lambda>p. eligible a t p \<and> scan_due w0 cfg t p) RunScan ps a') \<and> store_of w0 w) X"
proof (induction ps)
  case Nil
  show ?case by (auto intro!: triple_return)
next
  case (Cons p ps)
  have rest: "triple (store_of w0) (tick_scan ho cfg t a ps)
    (\<lambda>r w. (\<forall>a'. r = Some a' \<longrightarrow> started_by a (\<lambda>p. eligible a t p \<and> scan_due w0 cfg t p) RunScan (p # ps) a') \<and> store_of w0 w) X"
    by (rule triple_conseq [OF Cons.IH]) (auto intro: started_by_Cons)
  have this1: "triple (store_of w0) (bindE (startScheduled ho RunScan p a) (\<lambda>a. returnE (Some a)))
    (\<lambda>r w. (\<forall>a'. r = Some a' \<longrightarrow> started_by a (\<lambda>p. eligible a t p \<and> scan_due w0 cfg t p) RunScan (p # ps) a') \<and> store_of w0 w) X"
    if "eligible a t p" "scan_due w0 cfg t p"
    by (rule triple_bind [OF store_of_scheduled [where due = "\<lambda>p. eligible a t p \<and> scan_due w0 cfg t p" and ps = "p # ps" and a = a]])
       (use that in \<open>auto simp: cfg_same_def intro!: triple_return\<close>)
  show ?case
    unfolding tick_scan.simps
    by (rule triple_if, rule rest, rule triple_bind [OF store_of_scanDue], rule triple_fact, rule triple_if, rule this1, simp, blast, rule rest)
qed

lemma tick_sync_due:
  "triple (store_of w0) (tick_sync ho t a ps)
    (\<lambda>r w. (\<forall>a'. r = Some a' \<longrightarrow> started_by a (\<lambda>p. eligible a t p \<and> sync_due w0 a p) RunSync ps a') \<and> store_of w0 w) X"
proof (induction ps)
  case Nil
  show ?case by (auto intro!: triple_return)
next
  case (Cons p ps)
  have rest: "triple (store_of w0) (tick_sync ho t a ps)
    (\<lambda>r w. (\<forall>a'. r = Some a' \<longrightarrow> started_by a (\<lambda>p. eligible a t p \<and> sync_due w0 a p) RunSync (p # ps) a') \<and> store_of w0 w) X"
    by (rule triple_conseq [OF Cons.IH]) (auto intro: started_by_Cons)
  have this1: "triple (store_of w0) (bindE (startScheduled ho RunSync p (markPlanned (pair_ID p) sid a)) (\<lambda>a. returnE (Some a)))
    (\<lambda>r w. (\<forall>a'. r = Some a' \<longrightarrow> started_by a (\<lambda>p. eligible a t p \<and> sync_due w0 a p) RunSync (p # ps) a') \<and> store_of w0 w) X"
    if "eligible a t p" "sync_due w0 a p" for sid
    by (rule triple_bind [OF store_of_scheduled [where due = "\<lambda>p. eligible a t p \<and> sync_due w0 a p" and ps = "p # ps" and a = a]])
       (use that in \<open>auto simp: cfg_same_def markPlanned_def intro!: triple_return\<close>)
  show ?case
    unfolding tick_sync.simps
    by (rule triple_if, rule rest, rule triple_bind [OF store_of_syncDue], rule triple_fact) (auto split: option.splits intro: rest this1)
qed

lemma tick_database_due:
  "triple (store_of w0) (tick_database ho t a ps)
    (\<lambda>a' w. started_by a (\<lambda>p. eligible a t p \<and> db_due a t p) RunDatabase ps a' \<and> store_of w0 w) X"
proof (induction ps)
  case Nil
  show ?case by (auto intro!: triple_return simp: started_by_def cfg_same_def)
next
  case (Cons p ps)
  have rest: "triple (store_of w0) (tick_database ho t a ps)
    (\<lambda>a' w. started_by a (\<lambda>p. eligible a t p \<and> db_due a t p) RunDatabase (p # ps) a' \<and> store_of w0 w) X"
    by (rule triple_conseq [OF Cons.IH]) (auto intro: started_by_Cons)
  have "triple (store_of w0) (startScheduled ho RunDatabase p a)
    (\<lambda>a' w. started_by a (\<lambda>p. eligible a t p \<and> db_due a t p) RunDatabase (p # ps) a' \<and> store_of w0 w) X"
    if "eligible a t p" "pair_Type p = PairJCC" "databaseDue a t p"
    by (rule store_of_scheduled) (use that in \<open>auto simp: cfg_same_def db_due_def databaseDue_def split: option.splits\<close>)
  with rest show ?case by simp
qed

section \<open>What a tick does\<close>

text \<open>What the search looks at of the daemon's state.\<close>

definition core :: "app \<Rightarrow> runner \<times> clients \<times> (int \<rightharpoonup> int) \<times> (int \<rightharpoonup> time) \<times> (int \<rightharpoonup> time)" where
  "core a = (ap_runs a, ap_clients a, sc_planned (ap_sched a), sc_held (ap_sched a), sc_dbRetry (ap_sched a))"

text \<open>
  \<open>may_start w cfg t a kind p\<close>: unattended runs are on, \<open>p\<close> is an enabled pair whose remote can be reached and that is not held back,
  the window for this kind of run is open, and there is a reason: the manifest is missing or old enough; there is a walk and
  work queued or the walk is not planned against; a deferred database whose time has come.
\<close>

definition may_start :: "world \<Rightarrow> schedule_settings \<Rightarrow> time \<Rightarrow> app \<Rightarrow> string \<Rightarrow> pair \<Rightarrow> bool" where
  "may_start w cfg t a kind p \<longleftrightarrow> ss_automatic cfg \<and> p \<in> set (pairs w) \<and> reachable_pair a p \<and> eligible a t p \<and>
     (kind = RunScan \<and> w_Open (At (ss_scan cfg) (ss_loc cfg) t) \<and> scan_due w cfg t p \<or>
      kind = RunSync \<and> w_Open (At (ss_transfer cfg) (ss_loc cfg) t) \<and> sync_due w a p \<or>
      kind = RunDatabase \<and> w_Open (At (ss_transfer cfg) (ss_loc cfg) t) \<and> db_due a t p)"

definition ticked :: "world \<Rightarrow> schedule_settings \<Rightarrow> time \<Rightarrow> app \<Rightarrow> app \<Rightarrow> bool" where
  "ticked w cfg t a a' \<longleftrightarrow> cfg_same a a' \<and> (ap_runs a' = ap_runs a \<or> (\<exists>kind p. may_start w cfg t a kind p \<and> began a kind p a'))"

lemma startDueRun_due:
  assumes auto1: "ss_automatic cfg"
  shows "triple (store_of w0) (startDueRun ho cfg t (At (ss_transfer cfg) (ss_loc cfg) t) (At (ss_scan cfg) (ss_loc cfg) t) a)
    (\<lambda>a' w. ticked w0 cfg t a a' \<and> store_of w0 w) X"
proof -
  define ps where "ps = filter (reachable_pair a) (sort_key (\<lambda>p. (pair_Priority p, pair_ID p)) (pairs w0))"
  have ps: "p \<in> set (pairs w0)" "reachable_pair a p" if "p \<in> set ps" for p
    using that by (auto simp: ps_def)
  have scan: "ticked w0 cfg t a a'" if "started_by a (\<lambda>p. eligible a t p \<and> scan_due w0 cfg t p) RunScan ps a'"
      "w_Open (At (ss_scan cfg) (ss_loc cfg) t)" for a'
    using that ps auto1 unfolding started_by_def ticked_def may_start_def by blast
  have sync: "ticked w0 cfg t a a'" if "started_by a (\<lambda>p. eligible a t p \<and> sync_due w0 a p) RunSync ps a'"
      "w_Open (At (ss_transfer cfg) (ss_loc cfg) t)" for a'
    using that ps auto1 unfolding started_by_def ticked_def may_start_def by blast
  have db: "ticked w0 cfg t a a'" if "started_by a (\<lambda>p. eligible a t p \<and> db_due a t p) RunDatabase ps a'"
      "w_Open (At (ss_transfer cfg) (ss_loc cfg) t)" for a'
    using that ps auto1 unfolding started_by_def ticked_def may_start_def by blast
  have same: "ticked w0 cfg t a a" by (simp add: ticked_def cfg_same_def)
  let ?T = "At (ss_transfer cfg) (ss_loc cfg) t" and ?S = "At (ss_scan cfg) (ss_loc cfg) t"
  have rest: "triple (store_of w0) (if \<not> w_Open ?T then returnE a
           else bindE (tick_sync ho t a ps) (\<lambda>started. case started of
             Some a \<Rightarrow> returnE a | None \<Rightarrow> tick_database ho t a ps)) (\<lambda>a' w. ticked w0 cfg t a a' \<and> store_of w0 w) X"
  proof (rule triple_if)
    show "triple (store_of w0) (returnE a) (\<lambda>a' w. ticked w0 cfg t a a' \<and> store_of w0 w) X"
      by (rule triple_return) (use same in simp)
    assume "\<not> \<not> w_Open ?T"
    then have T: "w_Open ?T" by simp
    have dbs: "triple (store_of w0) (tick_database ho t a ps) (\<lambda>a' w. ticked w0 cfg t a a' \<and> store_of w0 w) X"
      by (rule triple_conseq [OF tick_database_due]) (use T db in auto)
    show "triple (store_of w0) (bindE (tick_sync ho t a ps) (\<lambda>started. case started of
             Some a \<Rightarrow> returnE a | None \<Rightarrow> tick_database ho t a ps)) (\<lambda>a' w. ticked w0 cfg t a a' \<and> store_of w0 w) X"
      by (rule triple_bind [OF tick_sync_due], rule triple_fact)
         (use sync [OF _ T] dbs in \<open>auto split: option.splits intro!: triple_return\<close>)
  qed
  have first: "triple (store_of w0) (if w_Open ?S then tick_scan ho cfg t a ps else returnE None)
      (\<lambda>r w. (\<forall>a'. r = Some a' \<longrightarrow> ticked w0 cfg t a a') \<and> store_of w0 w) X"
    by (rule triple_if, rule triple_conseq [OF tick_scan_due]) (auto intro: scan triple_return)
  show ?thesis
    unfolding startDueRun_def Let_def
  proof (rule triple_try_case [OF store_of_Pairs], rule triple_return, simp add: same, rule triple_fact)
    fix all
    assume "all = sort_key (\<lambda>p. (pair_Priority p, pair_ID p)) (pairs w0)"
    then have all: "filter (reachable_pair a) all = ps" by (simp add: ps_def)
    show "triple (store_of w0) (bindE (if w_Open ?S then tick_scan ho cfg t a (filter (reachable_pair a) all) else returnE None) (\<lambda>started. case started of
          Some a \<Rightarrow> returnE a
        | None \<Rightarrow> if \<not> w_Open ?T then returnE a else bindE (tick_sync ho t a (filter (reachable_pair a) all)) (\<lambda>started. case started of
             Some a \<Rightarrow> returnE a | None \<Rightarrow> tick_database ho t a (filter (reachable_pair a) all))))
       (\<lambda>a' w. ticked w0 cfg t a a' \<and> store_of w0 w) X"
      unfolding all
      by (rule triple_bind [OF first], rule triple_fact, rule triple_option, rule rest, rule triple_return, simp)
  qed
qed

text \<open>What a tick makes of a run that is going on when it comes.\<close>

definition tended :: "schedule_settings \<Rightarrow> time \<Rightarrow> run \<Rightarrow> runner \<Rightarrow> runner" where
  "tended cfg t c rn =
     (if run_Auto c \<and> run_Kind c = RunSync \<and> \<not> (ss_automatic cfg \<and> w_Open (At (ss_transfer cfg) (ss_loc cfg) t))
      then rn\<lparr>rn_reason := ''stopped: the transfer window closed'', rn_cancel := Some True\<rparr>
      else if run_Auto c \<and> run_Kind c = RunScan \<and> \<not> (ss_automatic cfg \<and> w_Open (At (ss_scan cfg) (ss_loc cfg) t))
      then rn\<lparr>rn_reason := ''stopped: the scan window closed'', rn_cancel := Some True\<rparr>
      else rn)"

lemma tendRun_same:
  "ap_sched (snd (tendRun tw sw a)) = ap_sched a" "ap_limit (snd (tendRun tw sw a)) = ap_limit a" "ap_clients (snd (tendRun tw sw a)) = ap_clients a"
  by (auto simp: tendRun_def CancelRun_def split: option.splits)

lemma tendRun_idle: "rn_current (ap_runs a) = None \<Longrightarrow> tendRun tw sw a = (False, a)"
  by (simp add: tendRun_def)

lemma tendRun_busy:
  assumes "rn_current (ap_runs a) = Some c" and "rn_cancel (ap_runs a) \<noteq> None"
    and "w_Open tw = (ss_automatic cfg \<and> w_Open (At (ss_transfer cfg) (ss_loc cfg) t))"
    and "w_Open sw = (ss_automatic cfg \<and> w_Open (At (ss_scan cfg) (ss_loc cfg) t))"
  shows "fst (tendRun tw sw a)" "ap_runs (snd (tendRun tw sw a)) = tended cfg t c (ap_runs a)"
  using assms by (auto simp: tendRun_def tended_def CancelRun_def run_kinds)

text \<open>A tick, from any state: the settings, the cap, the sleep, the run.\<close>

definition tick_done :: "world \<Rightarrow> time \<Rightarrow> app \<Rightarrow> duration \<Rightarrow> app \<Rightarrow> bool" where
  "tick_done w t a d a' \<longleftrightarrow>
     (let cfg = sc_cfg (ap_sched a'); tw = At (ss_transfer cfg) (ss_loc cfg) t; sw = At (ss_scan cfg) (ss_loc cfg) t in
      d = untilNext t [w_Until tw, w_Until sw] \<and> ap_limit a' = limiter_Set (w_Limit tw) \<and> ap_clients a' = ap_clients a \<and>
      (case rn_current (ap_runs a) of
         Some c \<Rightarrow> rn_cancel (ap_runs a) \<noteq> None \<longrightarrow> ap_runs a' = tended cfg t c (ap_runs a)
       | None \<Rightarrow> ap_runs a' = ap_runs a \<or> (\<exists>kind p. may_start w cfg t a kind p \<and> began a kind p a')))"

lemma core_ticked:
  assumes "core a1 = core a" and "ticked w cfg t a1 a'"
  shows "ap_runs a' = ap_runs a \<or> (\<exists>kind p. may_start w cfg t a kind p \<and> began a kind p a')"
proof -
  have "may_start w cfg t a1 kind p = may_start w cfg t a kind p" "began a1 kind p a' = began a kind p a'" "ap_runs a1 = ap_runs a" for kind p
    using assms(1) by (auto simp: core_def may_start_def reachable_pair_def eligible_def sync_due_def db_due_def began_def)
  with assms(2) show ?thesis by (simp add: ticked_def)
qed

lemma applyWindow_run:
  "triple (store_of w0) (applyWindow tw a) (\<lambda>a' w. (core a' = core a \<and> sc_cfg (ap_sched a') = sc_cfg (ap_sched a) \<and>
     ap_limit a' = limiter_Set (w_Limit tw)) \<and> store_of w0 w) X"
  unfolding applyWindow_def Let_def
  by (rule triple_if, rule triple_return, simp add: core_def, rule triple_bind [OF store_of_event], rule triple_return, simp add: core_def)

lemma core_load: "core (loadSchedule ho v a) = core a"
  by (simp add: loadSchedule_def core_def Let_def split: prod.splits)

lemma tick_body:
  assumes core1: "core a1 = core a" and cfg: "cfg = sc_cfg (ap_sched a1)"
    and tw: "tw = At (ss_transfer cfg) (ss_loc cfg) t" and sw: "sw = At (ss_scan cfg) (ss_loc cfg) t"
    and lim: "ap_limit a1 = limiter_Set (w_Limit tw)"
  shows "triple (store_of w0) (if \<not> ss_automatic cfg then returnE (untilNext t [w_Until tw, w_Until sw], snd (tendRun closed_window closed_window a1))
         else case tendRun tw sw a1 of
           (True, a) \<Rightarrow> returnE (untilNext t [w_Until tw, w_Until sw], a)
         | (False, a) \<Rightarrow> bindE (startDueRun ho cfg t tw sw a) (\<lambda>a. returnE (untilNext t [w_Until tw, w_Until sw], a)))
    (\<lambda>(d, a') w. tick_done w0 t a d a' \<and> store_of w0 w) X"
proof -
  have runs: "ap_runs a1 = ap_runs a" "ap_clients a1 = ap_clients a" using core1 by (auto simp: core_def)
  have tended: "tick_done w0 t a (untilNext t [w_Until tw, w_Until sw]) (snd (tendRun tw' sw' a1))"
    if "w_Open tw' = (ss_automatic cfg \<and> w_Open tw)" "w_Open sw' = (ss_automatic cfg \<and> w_Open sw)" for tw' sw'
  proof (cases "rn_current (ap_runs a1)")
    case None
    then show ?thesis using cfg tw sw lim runs by (simp add: tick_done_def tendRun_idle)
  next
    case (Some c)
    have "rn_cancel (ap_runs a1) \<noteq> None \<Longrightarrow> ap_runs (snd (tendRun tw' sw' a1)) = tended cfg t c (ap_runs a1)"
      using tendRun_busy(2) [OF Some _ that(1) [unfolded tw] that(2) [unfolded sw]] by blast
    then show ?thesis using cfg tw sw lim runs Some by (simp add: tick_done_def tendRun_same)
  qed
  show ?thesis
  proof (cases "ss_automatic cfg")
    case False
    have "tick_done w0 t a (untilNext t [w_Until tw, w_Until sw]) (snd (tendRun closed_window closed_window a1))"
      using False by (intro tended) (simp_all add: closed_window_def)
    with False show ?thesis by (auto intro!: triple_return)
  next
    case True
    show ?thesis
    proof (cases "rn_current (ap_runs a1)")
      case (Some c)
      then have "fst (tendRun tw sw a1)" by (simp add: tendRun_def)
      then obtain a2 where a2: "tendRun tw sw a1 = (True, a2)" by (cases "tendRun tw sw a1") auto
      from tended [of tw sw] True have "tick_done w0 t a (untilNext t [w_Until tw, w_Until sw]) a2" by (simp add: a2)
      with True show ?thesis by (auto simp: a2 intro!: triple_return)
    next
      case None
      have fin: "tick_done w0 t a (untilNext t [w_Until tw, w_Until sw]) a'" if "ticked w0 cfg t a1 a'" for a'
      proof -
        from that cfg have "sc_cfg (ap_sched a') = cfg" "ap_limit a' = ap_limit a1" "ap_clients a' = ap_clients a1"
          by (auto simp: ticked_def cfg_same_def)
        with core_ticked [OF core1 that] None lim runs tw sw show ?thesis by (simp add: tick_done_def)
      qed
      have "triple (store_of w0) (bindE (startDueRun ho cfg t tw sw a1) (\<lambda>a. returnE (untilNext t [w_Until tw, w_Until sw], a)))
          (\<lambda>(d, a') w. tick_done w0 t a d a' \<and> store_of w0 w) X"
        unfolding tw sw
        by (rule triple_bind [OF startDueRun_due [OF True]], rule triple_return) (use fin [unfolded tw sw] in simp)
      with None True show ?thesis by (simp add: tendRun_idle)
    qed
  qed
qed

lemma schedulerTick_done:
  "triple (store_of w0) (schedulerTick ho t a) (\<lambda>(d, a') w. tick_done w0 t a d a' \<and> store_of w0 w) X"
proof -
  have core1: "core (case r of Inr v \<Rightarrow> loadSchedule ho v a | Inl _ \<Rightarrow> a) = core a" for r :: "error + vals"
    by (simp add: core_load split: sum.splits)
  have read: "triple (store_of w0) (tryE Config) (\<lambda>_. store_of w0) X"
    by (rule triple_try, rule triple_conseq [OF store_of_Config]) auto
  show ?thesis
    unfolding schedulerTick_def Let_def
    by (rule triple_bind [OF read], rule triple_bind [OF applyWindow_run], rule triple_fact, rule tick_body) (auto simp: core1)
qed

lemma tick_run:
  assumes "schedulerTick ho t a w = (r, w')"
  obtains d a' where "r = Inr (d, a')" and "tick_done w t a d a'" and "store_of w w'"
proof (cases r)
  case (Inl e)
  from tripleD_Inl [OF schedulerTick_done [where X = "\<lambda>_. False"] store_of_refl assms [unfolded Inl]] show ?thesis by simp
next
  case (Inr x)
  from tripleD [OF schedulerTick_done store_of_refl assms [unfolded Inr]] Inr show ?thesis by (cases x) (auto intro: that)
qed

section \<open>How long it sleeps\<close>

lemma nearer_bounds: "nearer t b s \<le> s" "0 < s \<Longrightarrow> 0 < nearer t b s" "t \<le> b \<Longrightarrow> nearer t b s \<le> b - t + 100 * Millisecond"
  by (auto simp: nearer_def Let_def Millisecond_def)

lemma fold_nearer: "fold (nearer t) bs s \<le> s \<and> (\<forall>b. b \<in> set bs \<and> t \<le> b \<longrightarrow> fold (nearer t) bs s \<le> b - t + 100 * Millisecond)"
proof (induction bs arbitrary: s)
  case (Cons b bs)
  have "fold (nearer t) bs (nearer t b s) \<le> nearer t b s" using Cons.IH by blast
  with Cons.IH [of "nearer t b s"] nearer_bounds(1,3) [of t b s] show ?case by (auto intro: order_trans)
qed simp

section \<open>Properties of a tick\<close>

text \<open>
  (C11) The scheduler starts only what is due. A tick that finds nothing running always returns, leaves the store alone apart
  from events, and either starts nothing or one run: of a configured, enabled pair whose remote can be reached and that no
  failure holds back, with unattended runs switched on, inside the open window for that kind of run and for a reason the
  store gives; the run is marked as the scheduler's own and never overrides a lock.
\<close>

theorem tick_starts_due:
  assumes "schedulerTick ho t a w = (r, w')" and "rn_current (ap_runs a) = None"
  shows "\<exists>d a'. r = Inr (d, a') \<and> store_of w w' \<and>
    (ap_runs a' = ap_runs a \<or> (\<exists>kind p. may_start w (sc_cfg (ap_sched a')) t a kind p \<and> began a kind p a'))"
proof (rule tick_run [OF assms(1)])
  fix d a'
  assume "r = Inr (d, a')" and "tick_done w t a d a'" and "store_of w w'"
  with assms(2) show ?thesis by (simp add: tick_done_def Let_def)
qed



text \<open>
  (C33) The tick sleeps at least a second and at most the interval of half a minute. Where one of the two windows ends earlier than
  that, it wakes at the latest a tenth of a second past the end (or after the second it sleeps at least). The limiter is left
  at the cap of the cell the instant lies in, whoever started what is running.
\<close>

theorem tick_sleep:
  assumes "schedulerTick ho t a w = (Inr (d, a'), w')"
    and "cfg = sc_cfg (ap_sched a')" and "tw = At (ss_transfer cfg) (ss_loc cfg) t" and "sw = At (ss_scan cfg) (ss_loc cfg) t"
  shows "Second \<le> d \<and> d \<le> schedulerInterval \<and> ap_limit a' = limiter_Set (w_Limit tw) \<and>
    (\<forall>b. b \<in> {w_Until tw, w_Until sw} \<and> t \<le> b \<longrightarrow> d \<le> max Second (b - t + 100 * Millisecond))"
proof (rule tick_run [OF assms(1)])
  fix d1 a1
  assume "Inr (d, a') = (Inr (d1, a1) :: error + _)" and "tick_done w t a d1 a1"
  then have d: "d = untilNext t [w_Until tw, w_Until sw]" "ap_limit a' = limiter_Set (w_Limit tw)"
    using assms(2-4) by (simp_all add: tick_done_def Let_def)
  define f where "f = fold (nearer t) [w_Until tw, w_Until sw] schedulerInterval"
  have f: "f \<le> schedulerInterval" "\<forall>b. b \<in> {w_Until tw, w_Until sw} \<and> t \<le> b \<longrightarrow> f \<le> b - t + 100 * Millisecond"
    using fold_nearer [of t "[w_Until tw, w_Until sw]" schedulerInterval] unfolding f_def [symmetric] by simp_all
  have "d = (if f < Second then Second else f)" using d(1) unfolding untilNext_def Let_def f_def [symmetric] .
  moreover have "Second \<le> schedulerInterval" by (simp add: schedulerInterval_def Second_def)
  ultimately show ?thesis using f d(2) by (auto simp: max_def)
qed

lemma now_triple: "triple P now (\<lambda>_ _. True) X"
  by (rule tripleI) auto

lemma triple_const: "(b \<Longrightarrow> triple (\<lambda>_. True) m Q X) \<Longrightarrow> triple (\<lambda>_. b) m Q X"
  by (auto simp: triple_def)

section \<open>The daemon\<close>

text \<open>
  What can happen to the daemon's state: a tick, a button, a stop, the end of the run in flight (the operation with its effect on
  the world, then the record of it), new clients after a change of the settings, and anything at all to store and disk from
  elsewhere. The pair the run works on is the one it was started with, whatever the table says by now.
  The ticks come at instants of the set \<open>T\<close>.
\<close>

inductive daemon_step :: "host \<Rightarrow> time set \<Rightarrow> app \<times> world \<Rightarrow> app \<times> world \<Rightarrow> bool" for ho T where
  tick: "t \<in> T \<Longrightarrow> schedulerTick ho t a w = (Inr (d, a'), w') \<Longrightarrow> daemon_step ho T (a, w) (a', w')"
| start: "StartRun ho kind i force a w = (Inr (r, a'), w') \<Longrightarrow> daemon_step ho T (a, w) (a', w')"
| refuse: "StartRun ho kind i force a w = (Inl e, w') \<Longrightarrow> daemon_step ho T (a, w) (a, w')"
| cancel: "CancelRun reason a = (e, a') \<Longrightarrow> daemon_step ho T (a, w) (a', w)"
| finish: "rn_current (ap_runs a) = Some r \<Longrightarrow> rn_engine (ap_runs a) = Some E \<Longrightarrow> pair_ID p = run_PairID r \<Longrightarrow>
    execute ho E p r a w = (Inr (Some a'), w') \<Longrightarrow> daemon_step ho T (a, w) (a', w')"
| reload: "daemon_step ho T (a, w) (a\<lparr>ap_clients := c\<rparr>, w)"
| outside: "daemon_step ho T (a, w) (a, w')"

inductive_cases daemon_stepE: "daemon_step ho T s s'"

definition run_wf :: "run \<Rightarrow> bool" where
  "run_wf r \<longleftrightarrow> run_Kind r \<in> {RunPlan, RunScan, RunAdopt, RunSync, RunDelete, RunDatabase, RunDryRun} \<and> \<not> (run_Auto r \<and> run_Force r)"

definition runner_wf :: "runner \<Rightarrow> bool" where
  "runner_wf rn \<longleftrightarrow>
     (case rn_current rn of
        None \<Rightarrow> rn_engine rn = None \<and> rn_cancel rn = None
      | Some r \<Rightarrow> rn_engine rn \<noteq> None \<and> rn_cancel rn \<noteq> None \<and> \<not> Done r \<and> run_wf r) \<and>
     (rn_cancel rn \<noteq> Some True \<longrightarrow> rn_reason rn = []) \<and>
     length (rn_history rn) \<le> runHistory \<and>
     (\<forall>r \<in> set (rn_history rn). Done r \<and> run_wf r \<and> (run_Kind r = RunDryRun \<longrightarrow> (\<forall>p. run_Plan r = Some p \<longrightarrow> pl_Entries p = []))) \<and>
     (\<forall>l \<in> ran (rn_dryRuns rn). sorted (map (\<lambda>x. (opOrder (pe_Op x), pe_Path x)) (dl_Entries l)) \<and> pl_Entries (dl_Plan l) = [])"

lemma startRun_wf:
  assumes "startRun ho kind p auto1 force a w = (Inr (r, a'), w')" and "runner_wf (ap_runs a)" and "\<not> (auto1 \<and> force)"
  shows "runner_wf (ap_runs a')"
proof -
  have "triple (\<lambda>_. True) (startRun ho kind p auto1 force a) (\<lambda>x _. runner_wf (ap_runs (snd x))) (\<lambda>_. True)"
    unfolding startRun_def Let_def
    by (intro triple_if triple_throw triple_bind [where Q = "\<lambda>_ _. True"] triple_return)
       (use assms(2,3) in \<open>auto simp: triple_def runner_wf_def run_wf_def Done_def split: prod.splits sum.splits option.splits\<close>)
  from tripleD [OF this _ assms(1)] show ?thesis by simp
qed

lemma began_wf: "began a kind p a' \<Longrightarrow> kind \<in> {RunScan, RunSync, RunDatabase} \<Longrightarrow> runner_wf (ap_runs a) \<Longrightarrow> runner_wf (ap_runs a')"
  by (auto simp: began_def runner_wf_def run_wf_def Done_def scheduled_run_def)

lemma CancelRun_wf: "CancelRun reason a = (e, a') \<Longrightarrow> runner_wf (ap_runs a) \<Longrightarrow> runner_wf (ap_runs a')"
  by (auto simp: CancelRun_def runner_wf_def split: option.splits)

lemma tended_wf: "rn_current rn = Some c \<Longrightarrow> runner_wf rn \<Longrightarrow> runner_wf (tended cfg t c rn)"
  by (auto simp: tended_def runner_wf_def)

lemma ended_wf:
  assumes wf: "runner_wf rn" and cur: "rn_current rn = Some r"
  shows "runner_wf (ended r t out rn)"
proof -
  define rn1 where "rn1 = (if run_Kind r = RunDryRun then (case out_plan out of Some p \<Rightarrow> keepDryRun r t p rn | None \<Rightarrow> rn) else rn)"
  have hist: "rn_history rn1 = rn_history rn" by (auto simp: rn1_def keepDryRun_def split: option.splits)
  have dry: "\<forall>l \<in> ran (rn_dryRuns rn1). sorted (map (\<lambda>x. (opOrder (pe_Op x), pe_Path x)) (dl_Entries l)) \<and> pl_Entries (dl_Plan l) = []"
    using wf by (auto simp: rn1_def keepDryRun_def runner_wf_def ran_def split: option.splits if_splits)
  have rec: "Done (finish_record r t s out)" "run_wf (finish_record r t s out)"
    "run_Kind (finish_record r t s out) = RunDryRun \<longrightarrow> (\<forall>p. run_Plan (finish_record r t s out) = Some p \<longrightarrow> pl_Entries p = [])" for s
    using wf cur by (auto simp: finish_record_def Let_def Done_def run_wf_def runner_wf_def)
  show ?thesis
    using wf dry rec unfolding ended_def Let_def rn1_def [symmetric] runner_wf_def by (auto simp: hist runHistory_def dest!: in_set_takeD)
qed

lemma finishRun_runs:
  assumes "finishRun r out a w = (Inr a1, w1)"
  obtains t where "ap_runs a1 = ended r t out (ap_runs a)"
proof -
  have note1: "triple (\<lambda>_. ap_runs b = rn) (noteScheduledRun pid bad b) (\<lambda>c _. ap_runs c = rn) (\<lambda>_. False)" for b rn pid bad
    unfolding noteScheduledRun_def by (rule triple_const) (auto intro!: triple_return triple_bind [OF now_triple])
  have note2: "triple (\<lambda>_. ap_runs b = rn) (noteDatabaseRun pid db b) (\<lambda>c _. ap_runs c = rn) (\<lambda>_. False)" for b rn pid db
    unfolding noteDatabaseRun_def by (rule triple_const) (auto split: option.splits intro!: triple_return triple_bind [OF now_triple])
  have all: "triple (\<lambda>_. True) (bindE (if run_Auto r then noteScheduledRun (run_PairID r) bad (a\<lparr>ap_runs := rn\<rparr>) else returnE (a\<lparr>ap_runs := rn\<rparr>))
      (noteDatabaseRun (run_PairID r) (out_database out))) (\<lambda>c _. ap_runs c = rn) (\<lambda>_. False)" for rn bad
    by (rule triple_bind [OF _ note2], rule triple_if, rule triple_pre [OF note1], simp, rule triple_return, simp)
  have "triple (\<lambda>_. True) (finishRun r out a) (\<lambda>c _. \<exists>t. ap_runs c = ended r t out (ap_runs a)) (\<lambda>_. False)"
    unfolding finishRun_def
    by (rule triple_bind [OF now_triple], rule triple_conseq [OF all]) auto
  from tripleD [OF this _ assms] that show ?thesis by auto
qed

lemma execute_ends:
  assumes "execute ho E p r a w = (Inr (Some a'), w')"
  obtains out w1 t where "finishRun r out a w1 = (Inr a', w')" and "ap_runs a' = ended r t out (ap_runs a)"
proof -
  from assms obtain out w1 where "finishRun r out a w1 = (Inr a', w')"
    unfolding execute_def by (auto elim!: bindE_InrE split: option.splits simp: returnE_run)
  with finishRun_runs [OF this] that show ?thesis by blast
qed

lemma daemon_step_wf:
  assumes "daemon_step ho T s s'" and "runner_wf (ap_runs (fst s))"
  shows "runner_wf (ap_runs (fst s'))"
  using assms
proof (cases rule: daemon_step.cases)
  case (tick t a w d a' w')
  then have "tick_done w t a d a'" by (auto elim: tick_run)
  with tick assms(2) show ?thesis
    by (auto simp: tick_done_def Let_def runner_wf_def [of "ap_runs a"] may_start_def tended_wf intro: tended_wf began_wf split: option.splits)
next
  case (start kind i force a w r a' w')
  then obtain p w1 where "startRun ho kind p False force a w1 = (Inr (r, a'), w')"
    unfolding StartRun_def by (blast elim: bindE_InrE)
  from startRun_wf [OF this] start assms(2) show ?thesis by simp
next
  case (cancel reason a e a' w)
  with assms(2) CancelRun_wf show ?thesis by simp
next
  case (finish a r E p w a' w')
  from execute_ends [OF finish(6)] obtain t out where "ap_runs a' = ended r t out (ap_runs a)" by blast
  with finish assms(2) ended_wf show ?thesis by simp
qed simp_all

text \<open>
  What one step may make of the record of runs. With nothing in flight the history stays, and what begins is new and not
  yet asked to stop. With a run in flight nothing else begins: either it goes on, with the same engine and the same history,
  or it ends, and then it is put in front of the history, finished, as what it was started as; it counts as stopped only
  where a stop was asked for, with the reason given.
\<close>

definition ended_as :: "runner \<Rightarrow> run \<Rightarrow> run \<Rightarrow> bool" where
  "ended_as rn r r' \<longleftrightarrow> Done r' \<and> run_Kind r' = run_Kind r \<and> run_Auto r' = run_Auto r \<and> run_Force r' = run_Force r \<and>
     run_PairID r' = run_PairID r \<and> run_PairName r' = run_PairName r \<and> run_StartedAt r' = run_StartedAt r \<and>
     (\<forall>why. run_Error r' = Stopped why \<longrightarrow> rn_cancel rn = Some True \<and> why = rn_reason rn)"

definition run_step :: "runner \<Rightarrow> runner \<Rightarrow> bool" where
  "run_step rn rn' \<longleftrightarrow> (case rn_current rn of
     None \<Rightarrow> rn_history rn' = rn_history rn \<and> rn_dryRuns rn' = rn_dryRuns rn \<and>
       (\<forall>r. rn_current rn' = Some r \<longrightarrow> \<not> Done r \<and> rn_cancel rn' = Some False)
   | Some r \<Rightarrow>
       rn_current rn' = Some r \<and> rn_engine rn' = rn_engine rn \<and> rn_history rn' = rn_history rn \<and> rn_dryRuns rn' = rn_dryRuns rn \<or>
       rn_current rn' = None \<and> (\<exists>r'. rn_history rn' = take runHistory (r' # rn_history rn) \<and> ended_as rn r r') \<and>
         (\<forall>pid. run_Kind r \<noteq> RunDryRun \<or> pid \<noteq> run_PairID r \<longrightarrow> rn_dryRuns rn' pid = rn_dryRuns rn pid))"

lemma run_step_refl: "rn_current rn = None \<or> runner_wf rn \<Longrightarrow> run_step rn rn"
  by (auto simp: run_step_def split: option.splits)

lemma began_step: "began a kind p a' \<Longrightarrow> run_step (ap_runs a) (ap_runs a')"
  by (auto simp: began_def run_step_def Done_def scheduled_run_def)

lemma tended_step: "rn_current rn = Some c \<Longrightarrow> run_step rn (tended cfg t c rn)"
  by (auto simp: tended_def run_step_def)

lemma CancelRun_step: "CancelRun reason a = (e, a') \<Longrightarrow> runner_wf (ap_runs a) \<Longrightarrow> run_step (ap_runs a) (ap_runs a')"
  by (auto simp: CancelRun_def run_step_def runner_wf_def split: option.splits)

lemma startRun_step:
  assumes "startRun ho kind p auto1 force a w = (Inr (r, a'), w')"
  shows "run_step (ap_runs a) (ap_runs a')"
proof -
  have "triple (\<lambda>_. True) (startRun ho kind p auto1 force a) (\<lambda>x _. run_step (ap_runs a) (ap_runs (snd x))) (\<lambda>_. True)"
    unfolding startRun_def Let_def
    by (intro triple_if triple_throw triple_bind [where Q = "\<lambda>_ _. True"] triple_return)
       (auto simp: triple_def run_step_def Done_def split: prod.splits sum.splits option.splits)
  from tripleD [OF this _ assms(1)] show ?thesis by simp
qed

lemma ended_step:
  assumes "runner_wf rn" and "rn_current rn = Some r"
  shows "run_step rn (ended r t out rn)"
proof -
  define rn1 where "rn1 = (if run_Kind r = RunDryRun then (case out_plan out of Some p \<Rightarrow> keepDryRun r t p rn | None \<Rightarrow> rn) else rn)"
  have rn1: "rn_history rn1 = rn_history rn" "rn_reason rn1 = rn_reason rn"
    "run_Kind r \<noteq> RunDryRun \<or> pid \<noteq> run_PairID r \<Longrightarrow> rn_dryRuns rn1 pid = rn_dryRuns rn pid" for pid
    by (auto simp: rn1_def keepDryRun_def split: option.splits)
  have "ended_as rn r (finish_record r t (rn_reason rn) out)"
    using assms by (auto simp: ended_as_def finish_record_def Let_def Done_def runner_wf_def split: option.splits if_splits)
  with assms(2) rn1 show ?thesis
    unfolding ended_def Let_def rn1_def [symmetric] run_step_def by auto
qed

lemma daemon_step_run:
  assumes "daemon_step ho T s s'" and "runner_wf (ap_runs (fst s))"
  shows "run_step (ap_runs (fst s)) (ap_runs (fst s'))"
  using assms
proof (cases rule: daemon_step.cases)
  case (tick t a w d a' w')
  then have "tick_done w t a d a'" by (auto elim: tick_run)
  with tick assms(2) show ?thesis
    by (auto simp: tick_done_def Let_def runner_wf_def [of "ap_runs a"] tended_step began_step run_step_refl split: option.splits)
next
  case (start kind i force a w r a' w')
  then obtain p w1 where "startRun ho kind p False force a w1 = (Inr (r, a'), w')"
    unfolding StartRun_def by (blast elim: bindE_InrE)
  from startRun_step [OF this] start show ?thesis by simp
next
  case (cancel reason a e a' w)
  with assms(2) CancelRun_step show ?thesis by simp
next
  case (finish a r E p w a' w')
  from execute_ends [OF finish(6)] obtain t out where "ap_runs a' = ended r t out (ap_runs a)" by blast
  with finish assms(2) ended_step show ?thesis by simp
qed (simp_all add: run_step_refl)

text \<open>
  (C12) The daemon's record of its runs. Whatever the scheduler, the buttons, the ends of runs, new clients and everything outside do,
  in any order, starting from a well-formed state: the run in flight is unfinished, of a known kind, and can
  be cancelled; no run of the scheduler overrides a lock; a reason to stop is noted only with a stop; the
  history holds at most the six last runs, all finished; a dry run's list is sorted by what would happen and path,
  and kept outside the history. And in every next step no run begins while another is in flight, none disappears without being put
  in front of the history as what it was started as, and nothing else enters the history.
\<close>

theorem daemon_runs_wf:
  assumes "(daemon_step ho T)\<^sup>*\<^sup>* (a, w) (a1, w1)" and "runner_wf (ap_runs a)" and "daemon_step ho T (a1, w1) (a2, w2)"
  shows "runner_wf (ap_runs a1) \<and> run_step (ap_runs a1) (ap_runs a2)"
proof -
  have "runner_wf (ap_runs (fst s'))" if "(daemon_step ho T)\<^sup>*\<^sup>* s s'" "runner_wf (ap_runs (fst s))" for s s'
    using that by (induction rule: rtranclp_induct) (auto dest: daemon_step_wf)
  from this [OF assms(1)] assms(2) have "runner_wf (ap_runs a1)" by simp
  with daemon_step_run [OF assms(3)] show ?thesis by simp
qed

section \<open>What a failure does\<close>

lemma finishRun_bad:
  assumes run: "finishRun r out a w = (Inr a1, w1)" and auto1: "run_Auto r" and err: "out_err out = Some e" and bad: "\<not> errors_Is e ECanceled"
  obtains t w2 t0 w3 where "now w = (Inr t, w2)" and "now w2 = (Inr t0, w3)" and "ap_runs a1 = ended r t out (ap_runs a)"
    and "sc_held (ap_sched a1) (run_PairID r) = Some (t0 + failureBackoff)" and "sc_planned (ap_sched a1) (run_PairID r) = None"
proof -
  let ?kept = "\<lambda>t0 rn c. sc_held (ap_sched c) (run_PairID r) = Some (t0 + failureBackoff) \<and>
    sc_planned (ap_sched c) (run_PairID r) = None \<and> ap_runs c = rn"
  obtain t w2 where t: "now w = (Inr t, w2)" by (rule now_obtain)
  obtain t0 w3 where t0: "now w2 = (Inr t0, w3)" by (rule now_obtain)
  have note1: "triple (\<lambda>_. ?kept t0 rn b) (noteDatabaseRun (run_PairID r) db b) (\<lambda>c _. ?kept t0 rn c) (\<lambda>_. False)" for b db rn
    unfolding noteDatabaseRun_def
    by (rule triple_const) (auto split: option.splits intro!: triple_return triple_bind [OF now_triple])
  let ?b = "a\<lparr>ap_runs := ended r t out (ap_runs a), ap_sched := (ap_sched a)\<lparr>
    sc_held := (sc_held (ap_sched a))(run_PairID r \<mapsto> t0 + failureBackoff), sc_planned := (sc_planned (ap_sched a))(run_PairID r := None)\<rparr>\<rparr>"
  have "noteDatabaseRun (run_PairID r) (out_database out) ?b w3 = (Inr a1, w1)"
    using run t t0 by (simp add: finishRun_def noteScheduledRun_def Let_def auto1 err bad stopped_run_def bindE_def returnE_def)
  from tripleD [OF note1 _ this] t t0 that show ?thesis by simp
qed

text \<open>
  \<open>left_alone pid h a\<close>: the pair is held until \<open>h\<close>, counts as not planned against, and no run of the scheduler's works on it.
\<close>

definition left_alone :: "int \<Rightarrow> time \<Rightarrow> app \<Rightarrow> bool" where
  "left_alone pid h a \<longleftrightarrow> sc_held (ap_sched a) pid = Some h \<and> sc_planned (ap_sched a) pid = None \<and>
     (\<forall>c. rn_current (ap_runs a) = Some c \<and> run_Auto c \<longrightarrow> run_PairID c \<noteq> pid)"

lemma eligible_other: "left_alone pid h a \<Longrightarrow> t < h \<Longrightarrow> eligible a t p \<Longrightarrow> pair_ID p \<noteq> pid"
  by (auto simp: left_alone_def eligible_def)

lemma any_triple: "triple P m (\<lambda>_ _. True) (\<lambda>_. True)"
  by (rule tripleI) auto

lemma alone_startRun:
  assumes "left_alone pid h a" and "auto1 \<longrightarrow> pair_ID p \<noteq> pid"
  shows "triple (\<lambda>_. True) (startRun ho kind p auto1 force a) (\<lambda>x _. left_alone pid h (snd x)) (\<lambda>_. True)"
  unfolding startRun_def Let_def
  by (intro triple_if triple_throw triple_bind [OF any_triple] triple_return) (use assms in \<open>auto simp: left_alone_def\<close>)

lemma alone_noteScheduledRun:
  assumes "left_alone pid h a" and "i \<noteq> pid"
  shows "triple (\<lambda>_. True) (noteScheduledRun i bad a) (\<lambda>a' _. left_alone pid h a') X"
  unfolding noteScheduledRun_def
  by (intro triple_if triple_bind [OF now_triple] triple_return) (use assms in \<open>auto simp: left_alone_def\<close>)

lemma alone_noteDatabaseRun: "triple (\<lambda>_. left_alone pid h a) (noteDatabaseRun i db a) (\<lambda>a' _. left_alone pid h a') X"
  unfolding noteDatabaseRun_def
  by (rule triple_const) (auto simp: left_alone_def split: option.splits intro!: triple_return triple_bind [OF now_triple])

lemma alone_startScheduled:
  assumes "left_alone pid h a" and "pair_ID p \<noteq> pid"
  shows "triple (\<lambda>_. True) (startScheduled ho kind p a) (\<lambda>a' _. left_alone pid h a') (\<lambda>_. True)"
  unfolding startScheduled_def
  by (rule triple_try_case [OF alone_startRun [OF assms(1)]])
     (use assms in \<open>auto split: prod.splits intro!: triple_return alone_noteScheduledRun\<close>)

lemma alone_markPlanned: "left_alone pid h a \<Longrightarrow> i \<noteq> pid \<Longrightarrow> left_alone pid h (markPlanned i sid a)"
  by (simp add: left_alone_def markPlanned_def)

lemma alone_tick_scan:
  assumes "left_alone pid h a" and "t < h"
  shows "triple (\<lambda>_. True) (tick_scan ho cfg t a ps) (\<lambda>r _. \<forall>a'. r = Some a' \<longrightarrow> left_alone pid h a') (\<lambda>_. True)"
proof (induction ps)
  case (Cons p ps)
  have "triple (\<lambda>_. True) (bindE (startScheduled ho RunScan p a) (\<lambda>a. returnE (Some a))) (\<lambda>r _. \<forall>a'. r = Some a' \<longrightarrow> left_alone pid h a') (\<lambda>_. True)"
    if "eligible a t p"
    by (rule triple_bind [OF alone_startScheduled [OF assms(1) eligible_other [OF assms that]]], rule triple_return) simp
  with Cons.IH show ?case by (auto intro!: triple_bind [OF any_triple])
qed (auto intro!: triple_return)

lemma alone_tick_sync:
  assumes "left_alone pid h a" and "t < h"
  shows "triple (\<lambda>_. True) (tick_sync ho t a ps) (\<lambda>r _. \<forall>a'. r = Some a' \<longrightarrow> left_alone pid h a') (\<lambda>_. True)"
proof (induction ps)
  case (Cons p ps)
  have "triple (\<lambda>_. True) (bindE (startScheduled ho RunSync p (markPlanned (pair_ID p) sid a)) (\<lambda>a. returnE (Some a)))
      (\<lambda>r _. \<forall>a'. r = Some a' \<longrightarrow> left_alone pid h a') (\<lambda>_. True)" if "eligible a t p" for sid
    by (rule triple_bind [OF alone_startScheduled [OF alone_markPlanned]], rule assms(1))
       (use eligible_other [OF assms that] in \<open>auto intro!: triple_return\<close>)
  with Cons.IH show ?case by (auto split: option.splits intro!: triple_bind [OF any_triple])
qed (auto intro!: triple_return)

lemma alone_tick_database:
  assumes "left_alone pid h a" and "t < h"
  shows "triple (\<lambda>_. True) (tick_database ho t a ps) (\<lambda>a' _. left_alone pid h a') (\<lambda>_. True)"
proof (induction ps)
  case (Cons p ps)
  then show ?case by (auto intro: alone_startScheduled [OF assms(1) eligible_other [OF assms]])
qed (auto intro!: triple_return assms)

lemma alone_startDueRun:
  assumes "left_alone pid h a" and "t < h"
  shows "triple (\<lambda>_. True) (startDueRun ho cfg t tw sw a) (\<lambda>a' _. left_alone pid h a') (\<lambda>_. True)"
proof -
  have some1: "triple (\<lambda>_. \<forall>a'. r = Some a' \<longrightarrow> left_alone pid h a') (case r of Some a \<Rightarrow> returnE a | None \<Rightarrow> m) (\<lambda>a' _. left_alone pid h a') (\<lambda>_. True)"
    if "triple (\<lambda>_. True) m (\<lambda>a' _. left_alone pid h a') (\<lambda>_. True)" for r m
    using that by (cases r) (auto intro!: triple_return)
  have scan: "triple (\<lambda>_. True) (if w_Open sw then tick_scan ho cfg t a ps else returnE None) (\<lambda>r _. \<forall>a'. r = Some a' \<longrightarrow> left_alone pid h a') (\<lambda>_. True)" for ps
    by (rule triple_if, rule alone_tick_scan [OF assms], rule triple_return) simp
  have rest: "triple (\<lambda>_. True) (if \<not> w_Open tw then returnE a else bindE (tick_sync ho t a ps) (\<lambda>started. case started of
      Some a \<Rightarrow> returnE a | None \<Rightarrow> tick_database ho t a ps)) (\<lambda>a' _. left_alone pid h a') (\<lambda>_. True)" for ps
    by (rule triple_if, rule triple_return, rule assms, rule triple_bind [OF alone_tick_sync [OF assms]], rule some1, rule alone_tick_database [OF assms])
  have "triple (\<lambda>_. True) (startDueRun ho cfg t tw sw a) (\<lambda>a' _. left_alone pid h a') (\<lambda>_. True)"
    unfolding startDueRun_def Let_def
  proof (rule triple_try_case [OF any_triple], rule triple_return, rule assms)
    fix all
    show "triple (\<lambda>_. True) (bindE (if w_Open sw then tick_scan ho cfg t a (filter (reachable_pair a) all) else returnE None) (\<lambda>started. case started of
        Some a \<Rightarrow> returnE a
      | None \<Rightarrow> if \<not> w_Open tw then returnE a else bindE (tick_sync ho t a (filter (reachable_pair a) all)) (\<lambda>started. case started of
          Some a \<Rightarrow> returnE a | None \<Rightarrow> tick_database ho t a (filter (reachable_pair a) all)))) (\<lambda>a' _. left_alone pid h a') (\<lambda>_. True)"
      by (rule triple_bind [OF scan], rule some1, rule rest)
  qed
  then show ?thesis .
qed

lemma alone_tendRun: "left_alone pid h a \<Longrightarrow> left_alone pid h (snd (tendRun tw sw a))"
  by (auto simp: left_alone_def tendRun_def CancelRun_def split: option.splits)

lemma alone_load: "left_alone pid h a \<Longrightarrow> left_alone pid h (loadSchedule ho v a)"
  by (simp add: loadSchedule_def left_alone_def Let_def split: prod.splits)

lemma alone_applyWindow:
  "left_alone pid h a \<Longrightarrow> triple (\<lambda>_. True) (applyWindow tw a) (\<lambda>a' _. left_alone pid h a') (\<lambda>_. True)"
  unfolding applyWindow_def Let_def
  by (intro triple_if triple_bind [OF any_triple] triple_return) (auto simp: left_alone_def)

lemma alone_tick:
  assumes "schedulerTick ho t a w = (Inr (d, a'), w')" and "left_alone pid h a" and "t < h"
  shows "left_alone pid h a'"
proof -
  have load: "left_alone pid h (case r of Inr v \<Rightarrow> loadSchedule ho v a | Inl _ \<Rightarrow> a)" for r :: "error + vals"
    using assms(2) by (simp add: alone_load split: sum.splits)
  have body: "triple (\<lambda>_. left_alone pid h b) (case tendRun tw sw b of (True, a) \<Rightarrow> returnE (x, a)
      | (False, a) \<Rightarrow> bindE (startDueRun ho cfg t tw sw a) (\<lambda>a. returnE (x, a))) (\<lambda>(d, a') _. left_alone pid h a') (\<lambda>_. True)"
    for b tw sw x cfg
  proof (rule triple_const)
    assume "left_alone pid h b"
    then have "left_alone pid h (snd (tendRun tw sw b))" by (rule alone_tendRun)
    then show "triple (\<lambda>_. True) (case tendRun tw sw b of (True, a) \<Rightarrow> returnE (x, a)
        | (False, a) \<Rightarrow> bindE (startDueRun ho cfg t tw sw a) (\<lambda>a. returnE (x, a))) (\<lambda>(d, a') _. left_alone pid h a') (\<lambda>_. True)"
      by (auto split: prod.splits bool.splits intro!: triple_return triple_bind [OF alone_startDueRun [OF _ assms(3)]])
  qed
  have "triple (\<lambda>_. True) (schedulerTick ho t a) (\<lambda>(d, a') _. left_alone pid h a') (\<lambda>_. True)"
    unfolding schedulerTick_def Let_def
    by (rule triple_bind [OF any_triple], rule triple_bind [OF alone_applyWindow [OF load]], rule triple_if, rule triple_return)
       (auto intro: alone_tendRun body)
  from tripleD [OF this _ assms(1)] show ?thesis by simp
qed

lemma alone_finishRun:
  assumes "finishRun r out a w = (Inr a', w')" and "left_alone pid h a" and "rn_current (ap_runs a) = Some r"
  shows "left_alone pid h a'"
proof -
  have b: "left_alone pid h (a\<lparr>ap_runs := ended r t out (ap_runs a)\<rparr>)" for t
    using assms(2) by (simp add: left_alone_def ended_def Let_def)
  have other: "run_Auto r \<Longrightarrow> run_PairID r \<noteq> pid" using assms(2,3) by (simp add: left_alone_def)
  have "triple (\<lambda>_. True) (finishRun r out a) (\<lambda>a' _. left_alone pid h a') (\<lambda>_. True)"
    unfolding finishRun_def
    by (rule triple_bind [OF any_triple], rule triple_bind [OF _ alone_noteDatabaseRun], rule triple_if)
       (auto intro!: alone_noteScheduledRun triple_return b other)
  from tripleD [OF this _ assms(1)] show ?thesis by simp
qed

lemma daemon_step_alone:
  assumes "daemon_step ho {..<h} s s'" and "left_alone pid h (fst s)"
  shows "left_alone pid h (fst s')"
  using assms
proof (cases rule: daemon_step.cases)
  case (tick t a w d a' w')
  with assms(2) alone_tick show ?thesis by simp
next
  case (start kind i force a w r a' w')
  then obtain p w1 where "startRun ho kind p False force a w1 = (Inr (r, a'), w')"
    unfolding StartRun_def by (blast elim: bindE_InrE)
  from tripleD [OF alone_startRun _ this] start assms(2) show ?thesis by simp
next
  case (cancel reason a e a' w)
  with assms(2) show ?thesis by (auto simp: left_alone_def CancelRun_def split: option.splits)
next
  case (finish a r E p w a' w')
  from execute_ends [OF finish(6)] obtain out w1 where "finishRun r out a w1 = (Inr a', w')" by blast
  from alone_finishRun [OF this] finish assms(2) show ?thesis by simp
qed (simp_all add: left_alone_def)

text \<open>
  (C17) A scheduled run that failed is left alone. Its end is recorded at the instant \<open>t\<close>, and the pair is held until a quarter of an
  hour after the next reading \<open>t0\<close> of the clock. As long as the ticks come earlier than that, whatever else happens in
  between, buttons, stops, the ends of other runs and of the pair's own that a person started, the scheduler starts no
  run of any kind for the pair, and it counts as not planned against, so that it is planned afresh when it comes round again.
  A run that was cancelled is no failure.
\<close>

theorem failed_run_held:
  assumes "finishRun r out a w = (Inr a1, w1)" and "run_Auto r" and "out_err out = Some e" and "\<not> errors_Is e ECanceled"
  shows "\<exists>t w2 t0 w3. now w = (Inr t, w2) \<and> now w2 = (Inr t0, w3) \<and> run_FinishedAt (hd (rn_history (ap_runs a1))) = Some t \<and>
    (\<forall>s. (daemon_step ho {..<t0 + failureBackoff})\<^sup>*\<^sup>* (a1, w1) s \<longrightarrow>
       sc_held (ap_sched (fst s)) (run_PairID r) = Some (t0 + failureBackoff) \<and> sc_planned (ap_sched (fst s)) (run_PairID r) = None \<and>
       (\<forall>c. rn_current (ap_runs (fst s)) = Some c \<and> run_Auto c \<longrightarrow> run_PairID c \<noteq> run_PairID r))"
proof -
  obtain t w2 t0 w3 where clock: "now w = (Inr t, w2)" "now w2 = (Inr t0, w3)" and runs: "ap_runs a1 = ended r t out (ap_runs a)"
    and held: "sc_held (ap_sched a1) (run_PairID r) = Some (t0 + failureBackoff)" "sc_planned (ap_sched a1) (run_PairID r) = None"
    by (rule finishRun_bad [OF assms])
  have first: "left_alone (run_PairID r) (t0 + failureBackoff) a1"
    using held by (simp add: left_alone_def runs ended_def Let_def)
  have "left_alone (run_PairID r) (t0 + failureBackoff) (fst s)" if "(daemon_step ho {..<t0 + failureBackoff})\<^sup>*\<^sup>* (a1, w1) s" for s
    using that by (induction rule: rtranclp_induct) (use first daemon_step_alone in auto)
  moreover have "run_FinishedAt (hd (rn_history (ap_runs a1))) = Some t"
    by (simp add: runs ended_def Let_def runHistory_def finish_record_def)
  ultimately show ?thesis using clock unfolding left_alone_def by blast
qed

section \<open>A concrete daemon\<close>

text \<open>A daemon with nothing running, and one with a sync a person started.\<close>

definition demo_host :: host where
  "demo_host = \<lparr>ho_std = \<lparr>std_Prefix = (\<lambda>_. False), std_Addr = (\<lambda>_. False), std_URL = (\<lambda>_. None), std_Zone = (\<lambda>_. Some UTC),
     std_Frac = (\<lambda>f u s. f * u div s)\<rparr>, ho_Local = UTC, ho_sha256 = (\<lambda>s. s), ho_NFC = (\<lambda>s. s), ho_same = (\<lambda>_. False), ho_fuel = 9\<rparr>"

definition demo_settings :: schedule_settings where
  "demo_settings = \<lparr>ss_automatic = False, ss_loc = UTC, ss_transfer = zero_schedule, ss_scan = zero_schedule, ss_scanEvery = 0\<rparr>"

definition demo_app :: app where
  "demo_app = \<lparr>ap_runs = \<lparr>rn_current = None, rn_engine = None, rn_cancel = None, rn_reason = [], rn_history = [], rn_dryRuns = (\<lambda>_. None)\<rparr>,
     ap_sched = \<lparr>sc_cfg = demo_settings, sc_cfgErr = [], sc_window = closed_window, sc_observed = False, sc_planned = (\<lambda>_. None),
       sc_held = (\<lambda>_. None), sc_dbRetry = (\<lambda>_. None)\<rparr>,
     ap_limit = 0,
     ap_clients = \<lparr>cl_RemoteDir = ''/share'', cl_local = Inr (Some offlineRemote), cl_remotes = (\<lambda>_. None), cl_tunnel = False, cl_wantTun = False\<rparr>\<rparr>"

definition demo_run :: run where
  "demo_run = \<lparr>run_Kind = RunSync, run_Auto = False, run_Force = False, run_PairID = 1, run_PairName = ''music'', run_StartedAt = 0,
     run_FinishedAt = None, run_Error = NoError, run_Plan = None, run_Database = None\<rparr>"

definition demo_busy :: app where
  "demo_busy = demo_app\<lparr>ap_runs := (ap_runs demo_app)\<lparr>rn_current := Some demo_run, rn_engine := Some demo_engine, rn_cancel := Some False\<rparr>\<rparr>"

definition demo_tick :: "app \<Rightarrow> duration \<times> app" where
  "demo_tick a = (case fst (schedulerTick demo_host 0 a demo_world) of Inr x \<Rightarrow> x)"

lemma demo_tick_run:
  "schedulerTick demo_host 0 a demo_world = (Inr (fst (demo_tick a), snd (demo_tick a)), snd (schedulerTick demo_host 0 a demo_world))"
proof -
  obtain r w' where run: "schedulerTick demo_host 0 a demo_world = (r, w')" by force
  from tick_run [OF run] obtain d a' where "r = Inr (d, a')" by blast
  with run show ?thesis by (simp add: demo_tick_def)
qed

text \<open>
  A tick that cannot read the settings and goes on with those it had: unattended runs on, every hour of both grids open. The pair
  was never walked, so a walk is due and is started.
\<close>

definition demo_unread :: world where
  "demo_unread = demo_world\<lparr>env := (env demo_world)\<lparr>faults := [Some (EDriver 1)]\<rparr>\<rparr>"

definition demo_on :: schedule_settings where
  "demo_on = demo_settings\<lparr>ss_automatic := True\<rparr>"

definition demo_ready :: app where
  "demo_ready = demo_app\<lparr>ap_sched := (ap_sched demo_app)\<lparr>sc_cfg := demo_on\<rparr>\<rparr>"

lemma demo_open: "w_Open (At zero_schedule UTC 0)"
proof -
  have "cell_index (nat (Weekday UTC 0)) (nat (HourOf UTC 0)) < Cells" by code_simp
  then have "cellAt zero_schedule UTC 0 \<noteq> closed" by (simp add: cellAt_def zero_schedule_def unlimited_def closed_def)
  then show ?thesis by (simp add: At_def Let_def)
qed

lemma demo_query: "query g demo_world = (Inr (g demo_world), demo_world)"
  by (simp add: query_def exec_def used_def demo_world_def empty_world_def quiet_env_def)

lemma demo_unread_Config: "Config demo_unread = (Inl (EWrap ''read config'' (EDriver 1)), demo_world)"
  by (simp add: Config_def wrapE_def query_def exec_def demo_unread_def used_def demo_world_def empty_world_def quiet_env_def)

lemma demo_reachable: "ap_clients a = ap_clients demo_app \<Longrightarrow> RemoteFor (ap_clients a) demo_pair = Inr offlineRemote"
  by (simp add: demo_app_def RemoteFor_def remoteLocked_def demo_pair_def)

lemma demo_starts:
  assumes "ap_clients a = ap_clients demo_app" and "rn_current (ap_runs a) = None"
  obtains r a' where "startRun demo_host RunScan demo_pair True False a demo_world = (Inr (r, a'), demo_world)" and "rn_current (ap_runs a') = Some r"
proof -
  have "now demo_world = (Inr (clock (env demo_world)), demo_world)" by (simp add: now_def demo_world_def empty_world_def quiet_env_def)
  moreover have "pair_Enabled demo_pair" by (simp add: demo_pair_def)
  ultimately show ?thesis
    using assms(2) that
    by (simp add: startRun_def newEngine_def demo_reachable [OF assms(1)] Config_def wrapE_def demo_query bindE_def returnE_def Let_def RunScan_def)
qed

lemma demo_first_tick:
  obtains d a' where "schedulerTick demo_host 0 demo_ready demo_unread = (Inr (d, a'), demo_world)" and "rn_current (ap_runs a') \<noteq> None"
proof -
  let ?W = "At zero_schedule UTC 0"
  have walk: "LastCompletedScan (pair_ID demo_pair) demo_world = (Inr None, demo_world)"
    by (simp add: LastCompletedScan_def demo_query) (simp add: sql_last_def demo_world_def empty_world_def)
  have ps: "Pairs demo_world = (Inr [demo_pair], demo_world)"
    by (simp add: Pairs_def wrapE_def demo_query) (simp add: demo_world_def)
  define a1 where "a1 = demo_ready\<lparr>ap_limit := limiter_Set (w_Limit ?W), ap_sched := (ap_sched demo_ready)\<lparr>sc_window := ?W, sc_observed := True\<rparr>\<rparr>"
  have a1: "ap_clients a1 = ap_clients demo_app" "rn_current (ap_runs a1) = None" "sc_held (ap_sched a1) = (\<lambda>_. None)"
    by (simp_all add: a1_def demo_ready_def demo_app_def)
  have el: "reachable_pair a1 demo_pair" "eligible a1 0 demo_pair"
    by (simp_all add: reachable_pair_def eligible_def a1(3) demo_reachable [OF a1(1)]) (simp_all add: demo_pair_def)
  obtain r a' where s: "startRun demo_host RunScan demo_pair True False a1 demo_world = (Inr (r, a'), demo_world)" "rn_current (ap_runs a') = Some r"
    using a1(1,2) by (rule demo_starts)
  have "startDueRun demo_host demo_on 0 ?W ?W a1 demo_world = (Inr a', demo_world)"
    by (simp add: startDueRun_def tryE_def bindE_def returnE_def ps el demo_open scanDue_def walk startScheduled_def s)
  moreover have "applyWindow ?W demo_ready demo_world = (Inr a1, demo_world)"
    by (simp add: applyWindow_def a1_def Let_def demo_ready_def demo_app_def returnE_def)
  moreover have "sc_cfg (ap_sched demo_ready) = demo_on" "ss_transfer demo_on = zero_schedule" "ss_scan demo_on = zero_schedule" "ss_loc demo_on = UTC" "ss_automatic demo_on"
    by (simp_all add: demo_ready_def demo_on_def demo_settings_def)
  ultimately show ?thesis
    using s(2) that by (simp add: schedulerTick_def tryE_def bindE_def returnE_def demo_unread_Config Let_def tendRun_idle [OF a1(2)])
qed

theorem tick_starts_due_witness:
  "\<exists>d a' kind p. schedulerTick demo_host 0 demo_ready demo_unread = (Inr (d, a'), demo_world) \<and>
     may_start demo_unread (sc_cfg (ap_sched a')) 0 demo_ready kind p \<and> began demo_ready kind p a'"
proof -
  obtain d a' where run: "schedulerTick demo_host 0 demo_ready demo_unread = (Inr (d, a'), demo_world)" and busy: "rn_current (ap_runs a') \<noteq> None"
    by (rule demo_first_tick)
  have "rn_current (ap_runs demo_ready) = None" by (simp add: demo_ready_def demo_app_def)
  with tick_starts_due [OF run this] run busy show ?thesis by auto
qed




theorem tick_sleep_witness: "Second \<le> fst (demo_tick demo_app) \<and> fst (demo_tick demo_app) \<le> schedulerInterval"
  using tick_sleep [OF demo_tick_run [of demo_app] refl refl refl] by blast

text \<open>A scheduled sync the publisher's share failed.\<close>

definition demo_failed :: app where
  "demo_failed = (case fst (finishRun (demo_run\<lparr>run_Auto := True\<rparr>) (failed (ERemote 1)) demo_busy demo_world) of Inr a \<Rightarrow> a)"

lemma demo_failed_run:
  "finishRun (demo_run\<lparr>run_Auto := True\<rparr>) (failed (ERemote 1)) demo_busy demo_world =
     (Inr demo_failed, snd (finishRun (demo_run\<lparr>run_Auto := True\<rparr>) (failed (ERemote 1)) demo_busy demo_world))"
proof -
  have "isl (fst (finishRun (demo_run\<lparr>run_Auto := True\<rparr>) (failed (ERemote 1)) demo_busy demo_world)) = False" by code_simp
  then show ?thesis
    unfolding demo_failed_def by (cases "finishRun (demo_run\<lparr>run_Auto := True\<rparr>) (failed (ERemote 1)) demo_busy demo_world") (auto split: sum.splits)
qed

lemma demo_failure: "run_Auto (demo_run\<lparr>run_Auto := True\<rparr>)" "out_err (failed (ERemote 1)) = Some (ERemote 1)" "\<not> errors_Is (ERemote 1) ECanceled"
  by (simp_all add: failed_def no_outcome_def errors_Is_def)

lemma demo_pid: "run_PairID (demo_run\<lparr>run_Auto := auto1\<rparr>) = 1"
  by (simp add: demo_run_def)

theorem failed_run_held_witness:
  "\<exists>t w2 t0 w3. now demo_world = (Inr t, w2) \<and> now w2 = (Inr t0, w3) \<and>
     sc_held (ap_sched demo_failed) 1 = Some (t0 + failureBackoff) \<and>
     (0 < t0 + failureBackoff \<and> sc_planned (ap_sched (snd (demo_tick demo_failed))) 1 = None)"
proof -
  let ?w1 = "snd (finishRun (demo_run\<lparr>run_Auto := True\<rparr>) (failed (ERemote 1)) demo_busy demo_world)"
  obtain t w2 t0 w3 where clock: "now demo_world = (Inr t, w2)" "now w2 = (Inr t0, w3)"
    and alone: "\<And>s. (daemon_step demo_host {..<t0 + failureBackoff})\<^sup>*\<^sup>* (demo_failed, ?w1) s \<Longrightarrow>
      sc_held (ap_sched (fst s)) 1 = Some (t0 + failureBackoff) \<and> sc_planned (ap_sched (fst s)) 1 = None"
    using failed_run_held [OF demo_failed_run demo_failure, where ho = demo_host] unfolding demo_pid by blast
  have t0: "0 < t0 + failureBackoff"
    using clock by (auto simp: now_def demo_world_def empty_world_def quiet_env_def failureBackoff_def Minute_def Second_def)
  have "daemon_step demo_host {..<t0 + failureBackoff} (demo_failed, ?w1) (demo_failed, demo_world)" by (rule daemon_step.outside)
  moreover have "daemon_step demo_host {..<t0 + failureBackoff} (demo_failed, demo_world)
      (snd (demo_tick demo_failed), snd (schedulerTick demo_host 0 demo_failed demo_world))"
    by (rule daemon_step.tick [OF _ demo_tick_run]) (use t0 in simp)
  ultimately have "(daemon_step demo_host {..<t0 + failureBackoff})\<^sup>*\<^sup>* (demo_failed, ?w1)
      (snd (demo_tick demo_failed), snd (schedulerTick demo_host 0 demo_failed demo_world))" by simp
  from alone [OF this] alone [OF rtranclp.rtrancl_refl] clock t0 show ?thesis by auto
qed

text \<open>A plan of a pair that was never walked, which a person stops before it ends.\<close>

definition demo_planning :: app where
  "demo_planning = demo_busy\<lparr>ap_runs := (ap_runs demo_busy)\<lparr>rn_current := Some (demo_run\<lparr>run_Kind := RunPlan\<rparr>)\<rparr>\<rparr>"

definition demo_stopping :: app where
  "demo_stopping = snd (CancelRun ''stopped from the dashboard'' demo_planning)"

definition demo_ended :: app where
  "demo_ended = (case fst (execute demo_host demo_engine demo_pair (demo_run\<lparr>run_Kind := RunPlan\<rparr>) demo_stopping demo_world) of Inr (Some a) \<Rightarrow> a)"

lemma demo_plan_ends:
  obtains w' where "execute demo_host demo_engine demo_pair (demo_run\<lparr>run_Kind := RunPlan\<rparr>) demo_stopping demo_world = (Inr (Some demo_ended), w')"
proof -
  let ?run = "execute demo_host demo_engine demo_pair (demo_run\<lparr>run_Kind := RunPlan\<rparr>) demo_stopping demo_world"
  have "(case fst ?run of Inr (Some _) \<Rightarrow> True | _ \<Rightarrow> False)" by code_simp
  then show ?thesis using that unfolding demo_ended_def by (cases ?run) (auto split: sum.splits option.splits)
qed

lemma demo_history: "map run_Error (rn_history (ap_runs demo_ended)) = [Failed (EWrap ''pair'' ENoManifest)]"
  by code_simp

theorem daemon_runs_wf_witness:
  "runner_wf (ap_runs demo_stopping) \<and> run_step (ap_runs demo_stopping) (ap_runs demo_ended) \<and>
   map run_Error (rn_history (ap_runs demo_ended)) = [Failed (EWrap ''pair'' ENoManifest)]"
proof -
  have "daemon_step demo_host UNIV (demo_planning, demo_world) (demo_stopping, demo_world)"
    by (rule daemon_step.cancel [of "''stopped from the dashboard''" _ "fst (CancelRun ''stopped from the dashboard'' demo_planning)"])
       (simp add: demo_stopping_def)
  then have steps: "(daemon_step demo_host UNIV)\<^sup>*\<^sup>* (demo_planning, demo_world) (demo_stopping, demo_world)" by simp
  obtain w' where "execute demo_host demo_engine demo_pair (demo_run\<lparr>run_Kind := RunPlan\<rparr>) demo_stopping demo_world = (Inr (Some demo_ended), w')"
    by (rule demo_plan_ends)
  then have last: "daemon_step demo_host UNIV (demo_stopping, demo_world) (demo_ended, w')"
    by (intro daemon_step.finish) (simp_all add: demo_stopping_def demo_planning_def demo_busy_def CancelRun_def demo_run_def demo_pair_def)
  have "runner_wf (ap_runs demo_planning)"
    by (simp add: runner_wf_def run_wf_def Done_def demo_planning_def demo_busy_def demo_app_def demo_run_def)
  from daemon_runs_wf [OF steps this last] demo_history show ?thesis by blast
qed

end
