(* ===== verification/RunScope.thy ===== *)
theory RunScope
  imports SchedulerSpec
begin

text \<open>
  What the operations that a person starts to look, not to act, can touch: a plan nothing at all, a walk and a dry run the
  manifest, an adoption the record of what is here.
\<close>

section \<open>Planning\<close>

lemma env_statfs: "env_only (statfs p)"
  by (auto intro!: keepsI intro: env_step.R_refl simp: statfs_def split: list.splits)

lemma env_free_space: "env_only (free_space n q)"
proof (induction n arbitrary: q)
  case 0
  show ?case by (subst free_space.simps) (intro env_step.keeps_rules keeps_nat env_step.keeps_Stat env_statfs, simp)
next
  case (Suc n)
  show ?case by (subst free_space.simps) (intro env_step.keeps_rules keeps_nat env_step.keeps_Stat env_statfs, drule Suc_inject, hypsubst, rule Suc)
qed

lemma env_streamE: "(\<And>x s. env_only (fn x s)) \<Longrightarrow> env_only (streamE fn xs s)"
  unfolding streamE_def by (intro env_step.keeps_rules)

lemma env_keep: "env_only (keep sample (\<lambda>_. returnE False) x p)"
  unfolding keep_def by (intro env_step.keeps_rules)

lemma env_Plan: "env_only (Plan E pr sample)"
  unfolding Plan_def plan_run_def LastCompletedScan_def ManifestStats_def FileStats_def ChangedFiles_def VanishedFiles_def FreeSpace_def
    plan_guard_def LatestApproval_def plan_change_def plan_vanished_def
  by (intro env_step.keeps_rules env_free_space env_streamE env_keep)

section \<open>Walking\<close>

interpretation walking: step_rel "\<lambda>w w'. \<exists>ms ss es e. w' = w\<lparr>manifest := ms, scans := ss, events := events w @ es, env := e\<rparr>"
proof
  fix w :: world and e
  have "w\<lparr>env := e\<rparr> = w\<lparr>manifest := manifest w, scans := scans w, events := events w @ [], env := e\<rparr>" by simp
  then show "\<exists>ms ss es e'. w\<lparr>env := e\<rparr> = w\<lparr>manifest := ms, scans := ss, events := events w @ es, env := e'\<rparr>" by blast
next
  fix w w1 w2 :: world
  assume "\<exists>ms ss es e. w1 = w\<lparr>manifest := ms, scans := ss, events := events w @ es, env := e\<rparr>"
    and "\<exists>ms ss es e. w2 = w1\<lparr>manifest := ms, scans := ss, events := events w1 @ es, env := e\<rparr>"
  then obtain ms1 ss1 es e1 ms ss es' e where "w1 = w\<lparr>manifest := ms1, scans := ss1, events := events w @ es, env := e1\<rparr>" "w2 = w1\<lparr>manifest := ms, scans := ss, events := events w1 @ es', env := e\<rparr>"
    by blast
  then have "w2 = w\<lparr>manifest := ms, scans := ss, events := events w @ (es @ es'), env := e\<rparr>" by simp
  then show "\<exists>ms ss es e. w2 = w\<lparr>manifest := ms, scans := ss, events := events w @ es, env := e\<rparr>" by blast
qed

abbreviation walking_only :: "'a op \<Rightarrow> bool" where
  "walking_only \<equiv> keeps (\<lambda>w w'. \<exists>ms ss es e. w' = w\<lparr>manifest := ms, scans := ss, events := events w @ es, env := e\<rparr>)"

lemma walking_put_manifest: "walking_only (put_manifest f)"
  unfolding put_manifest_def
proof (rule walking.keeps_exec)
  fix w a w'
  assume "(let (a, rows) = f (manifest w) in if list_all (\<lambda>m. has_pair (m_PairID m) w) rows then Inr (a, w\<lparr>manifest := rows\<rparr>) else Inl EConstraint) = Inr (a, w')"
  then obtain rows where "w' = w\<lparr>manifest := rows\<rparr>" by (auto simp: Let_def split: prod.splits if_splits)
  then have "w' = w\<lparr>manifest := rows, scans := scans w, events := events w @ [], env := env w\<rparr>" by simp
  then show "\<exists>ms ss es e. w' = w\<lparr>manifest := ms, scans := ss, events := events w @ es, env := e\<rparr>" by blast
qed

lemma walking_put_scans: "walking_only (put_scans f)"
  unfolding put_scans_def
proof (rule walking.keeps_exec)
  fix w a w'
  assume "(let (a, rows) = f (scans w) in if list_all (\<lambda>s. has_pair (scan_PairID s) w) rows then Inr (a, w\<lparr>scans := rows\<rparr>) else Inl EConstraint) = Inr (a, w')"
  then obtain rows where "w' = w\<lparr>scans := rows\<rparr>" by (auto simp: Let_def split: prod.splits if_splits)
  then have "w' = w\<lparr>manifest := manifest w, scans := rows, events := events w @ [], env := env w\<rparr>" by simp
  then show "\<exists>ms ss es e. w' = w\<lparr>manifest := ms, scans := ss, events := events w @ es, env := e\<rparr>" by blast
qed

lemma walking_telemetry:
  assumes "keeps store_of m"
  shows "walking_only m"
proof (rule keepsI)
  fix w r w'
  assume "m w = (r, w')"
  then obtain es e where "w' = w\<lparr>events := events w @ es, env := e\<rparr>" using keepsD [OF assms] unfolding store_of_def by blast
  then have "w' = w\<lparr>manifest := manifest w, scans := scans w, events := events w @ es, env := e\<rparr>" by simp
  then show "\<exists>ms ss es e. w' = w\<lparr>manifest := ms, scans := ss, events := events w @ es, env := e\<rparr>" by blast
qed

lemma walking_store: "walking_only (BeginScan pid resume)" "walking_only (PutListing pid sid dir es)" "walking_only (FinishScan sid st msg)"
  "walking_only (PendingDirs pid sid n)" "walking_only (ScanByID sid)"
  unfolding BeginScan_def RunningScan_def start_scan_def PutListing_def FinishScan_def PendingDirs_def ScanByID_def
  by (intro walking.keeps_rules walking_put_manifest walking_put_scans)+

lemma walking_listBatch: "remote_ok (en_remote E) \<Longrightarrow> walking_only (listBatch E pr sid f dirs)"
  unfolding listBatch_def list_step_def listDir_def walk_list_def
  by (intro walking.keeps_rules walking_store walking.keeps_env_only [OF grow_list_tries])

lemma walking_run: "remote_ok (en_remote E) \<Longrightarrow> walking_only (walk_run fuel E pr sid f)"
  by (induction fuel) (auto intro!: walking.keeps_rules walking_store walking_listBatch)

lemma walking_Scan: "remote_ok (en_remote E) \<Longrightarrow> walking_only (Scan fuel E pr resume)"
  unfolding Scan_def close_scan_def
  by (intro walking.keeps_rules walking_store walking_run walking_telemetry [OF telling_event])

section \<open>Adopting\<close>

interpretation adopting: step_rel "\<lambda>w w'. \<exists>fl es e. w' = w\<lparr>files := fl, events := events w @ es, env := e\<rparr>"
proof
  fix w :: world and e
  have "w\<lparr>env := e\<rparr> = w\<lparr>files := files w, events := events w @ [], env := e\<rparr>" by simp
  then show "\<exists>fl es e'. w\<lparr>env := e\<rparr> = w\<lparr>files := fl, events := events w @ es, env := e'\<rparr>" by blast
next
  fix w w1 w2 :: world
  assume "\<exists>fl es e. w1 = w\<lparr>files := fl, events := events w @ es, env := e\<rparr>"
    and "\<exists>fl es e. w2 = w1\<lparr>files := fl, events := events w1 @ es, env := e\<rparr>"
  then obtain fl1 es e1 fl es' e where "w1 = w\<lparr>files := fl1, events := events w @ es, env := e1\<rparr>" "w2 = w1\<lparr>files := fl, events := events w1 @ es', env := e\<rparr>"
    by blast
  then have "w2 = w\<lparr>files := fl, events := events w @ (es @ es'), env := e\<rparr>" by simp
  then show "\<exists>fl es e. w2 = w\<lparr>files := fl, events := events w @ es, env := e\<rparr>" by blast
qed

abbreviation adopting_only :: "'a op \<Rightarrow> bool" where
  "adopting_only \<equiv> keeps (\<lambda>w w'. \<exists>fl es e. w' = w\<lparr>files := fl, events := events w @ es, env := e\<rparr>)"

lemma adopting_put_files: "adopting_only (put_files g)"
  unfolding put_files_def
proof (rule adopting.keeps_exec)
  fix w a w'
  assume "(let (a, rows) = g (files w) in if list_all (\<lambda>f. has_pair (f_PairID f) w) rows then Inr (a, w\<lparr>files := rows\<rparr>) else Inl EConstraint) = Inr (a, w')"
  then obtain rows where "w' = w\<lparr>files := rows\<rparr>" by (auto simp: Let_def split: prod.splits if_splits)
  then have "w' = w\<lparr>files := rows, events := events w @ [], env := env w\<rparr>" by simp
  then show "\<exists>fl es e. w' = w\<lparr>files := fl, events := events w @ es, env := e\<rparr>" by blast
qed

lemma adopting_telemetry:
  assumes "keeps store_of m"
  shows "adopting_only m"
proof (rule keepsI)
  fix w r w'
  assume "m w = (r, w')"
  then obtain es e where "w' = w\<lparr>events := events w @ es, env := e\<rparr>" using keepsD [OF assms] unfolding store_of_def by blast
  then have "w' = w\<lparr>files := files w, events := events w @ es, env := e\<rparr>" by simp
  then show "\<exists>fl es e. w' = w\<lparr>files := fl, events := events w @ es, env := e\<rparr>" by blast
qed

lemma adopting_walk_next:
  "(nx = Go \<Longrightarrow> keeps R m) \<Longrightarrow> (nx = Skip \<Longrightarrow> keeps R m1) \<Longrightarrow> (\<And>e. nx = Stop e \<Longrightarrow> keeps R (m2 e)) \<Longrightarrow>
   keeps R (case nx of Go \<Rightarrow> m | Skip \<Rightarrow> m1 | Stop e \<Rightarrow> m2 e)"
  by (cases nx) auto

lemma adopting_walk_tree:
  assumes "\<And>p n s. adopting_only (fn p n s)"
  shows "adopting_only (walk_tree fuel fn p n s)"
proof (induction fuel arbitrary: p n s)
  case 0
  show ?case by (subst walk_tree.simps) (intro adopting.keeps_rules adopting_walk_next keeps_nat assms adopting.keeps_ReadDir, simp)
next
  case (Suc k)
  show ?case
    by (subst walk_tree.simps) (intro adopting.keeps_rules adopting_walk_next keeps_nat assms adopting.keeps_ReadDir, drule Suc_inject, hypsubst, rule Suc)
qed

lemma adopting_flush: "adopting_only (flush s)"
  unfolding flush_def PutFiles_def putFileTx_def by (intro adopting.keeps_rules adopting_put_files)

lemma adopting_node: "adopting_only (adopt_node E pr f p n s)"
  unfolding adopt_node_def adopt_file_def adopt_match_def ManifestEntryAt_def FileAt_def
  by (intro adopting.keeps_rules adopting.keeps_Stat adopting_flush)

lemma adopting_walk_root: "adopting_only (walk_root root (adopt_node E pr f) s)"
proof (rule keepsI)
  fix w r w'
  assume "walk_root root (adopt_node E pr f) s w = (r, w')"
  moreover have "adopting_only (bindE (tryE (os_Lstat root)) (\<lambda>r. case r of
      Inl e \<Rightarrow> returnE (s, Some e) | Inr n \<Rightarrow> walk_tree (disk_depth (fs w)) (adopt_node E pr f) root n s))"
    by (intro adopting.keeps_rules adopting.keeps_Stat adopting_walk_tree adopting_node)
  ultimately show "\<exists>fl es e. w' = w\<lparr>files := fl, events := events w @ es, env := e\<rparr>"
    unfolding walk_root_def using keepsD by blast
qed

lemma adopting_Adopt: "adopting_only (Adopt E pr)"
  unfolding Adopt_def adopt_run_def adopt_walk_def LastCompletedScan_def RemoteFiles_def streamE_def
  by (intro adopting.keeps_rules adopting_walk_root adopting_flush adopting_telemetry [OF telling_event])

section \<open>Property\<close>

text \<open>
  (C15) Looking changes nothing that is here. Whatever happens on the way, a plan leaves store and disk exactly as they were; a walk
  and a dry run change nothing but the manifest and the scans and only add to the events, so no file, no record of a file, no
  job and no line of the history; an adoption changes nothing but the records of files and only adds to the events, so no
  file, no manifest, no job and no line of the history.
\<close>

theorem looking_changes_nothing:
  assumes "runOperation ho E pr kind force w = (r, w')" and "remote_ok (en_remote E)"
  shows "(kind = RunPlan \<longrightarrow> (\<exists>e. w' = w\<lparr>env := e\<rparr>)) \<and>
    (kind = RunScan \<or> kind = RunDryRun \<longrightarrow> (\<exists>ms ss es e. w' = w\<lparr>manifest := ms, scans := ss, events := events w @ es, env := e\<rparr>)) \<and>
    (kind = RunAdopt \<longrightarrow> (\<exists>fl es e. w' = w\<lparr>files := fl, events := events w @ es, env := e\<rparr>))"
proof -
  have plan: "env_only (runOperation ho E pr RunPlan force)"
    unfolding runOperation_def by (simp add: run_kinds) (intro env_step.keeps_rules env_Plan)
  have walk: "walking_only (runOperation ho E pr RunScan force)" "walking_only (runOperation ho E pr RunDryRun force)"
    unfolding runOperation_def
    by (simp_all add: run_kinds) (intro walking.keeps_rules walking_Scan walking.keeps_env_only [OF env_Plan] assms(2))+
  have adopt: "adopting_only (runOperation ho E pr RunAdopt force)"
    unfolding runOperation_def by (simp add: run_kinds) (intro adopting.keeps_rules adopting_Adopt)
  show ?thesis
    using keepsD [OF plan, of w r w'] keepsD [OF walk(1), of w r w'] keepsD [OF walk(2), of w r w'] keepsD [OF adopt, of w r w'] assms(1) by blast
qed

text \<open>A dry run of a pair whose share is empty and holds an old file here, which nothing of it touches.\<close>

definition demo_here :: world where
  "demo_here = demo_world\<lparr>fs := [(''/music'', FDir), (''/music/a.mp3'', FFile ''abc'' 9)]\<rparr>"

definition demo_dry :: world where
  "demo_dry = snd (runOperation demo_host demo_engine demo_pair RunDryRun False demo_here)"

theorem looking_changes_nothing_witness:
  "fs demo_dry = fs demo_here \<and> files demo_dry = files demo_here \<and> jobs demo_dry = jobs demo_here \<and> changes demo_dry = changes demo_here"
  using looking_changes_nothing [of demo_host demo_engine demo_pair RunDryRun False demo_here
      "fst (runOperation demo_host demo_engine demo_pair RunDryRun False demo_here)" demo_dry, OF _ demo_engine_ok]
  by (auto simp: demo_dry_def)

end
