(* ===== verification/PairSpec.thy ===== *)
theory PairSpec
  imports PairStore
begin

text \<open>
  What every row of pairs satisfies however it was written, that no pair refers to a remote that is not there, and that the tables that
  refer to pairs stay whole when one is removed.
\<close>

section \<open>What is written down\<close>

lemma clean_segs_rooted:
  "list_all (\<lambda>s. slash \<notin> set s) ss \<Longrightarrow> list_all seg_ok acc \<Longrightarrow> list_all seg_ok (clean_segs True ss acc)"
proof (induction ss arbitrary: acc)
  case (Cons s ss)
  then show ?case by (cases acc) (auto simp: seg_ok_def)
qed (simp add: list_all_rev)

lemma split_on_no_sep: "list_all (\<lambda>s. c \<notin> set s) (split_on c xs)"
  by (induction xs) (auto split: list.splits)

lemma Clean_rooted: "\<exists>r. path_Clean (slash # p) = slash # r \<and> (r = [] \<or> rel_ok r)"
proof -
  let ?ss = "clean_segs True (split_on slash (slash # p)) []"
  have "path_Clean (slash # p) = slash # join_on slash ?ss" by (simp add: path_Clean_def del: split_on.simps)
  moreover have "list_all seg_ok ?ss" by (rule clean_segs_rooted) (simp_all add: split_on_no_sep del: split_on.simps)
  then have "join_on slash ?ss = [] \<or> rel_ok (join_on slash ?ss)"
    by (cases "?ss = []") (auto simp: rel_ok_def rel_ok_join simp del: split_on.simps)
  ultimately show ?thesis by blast
qed

lemma clean_remote_ok: "clean_remote nfc s = [] \<or> rel_ok (clean_remote nfc s)"
proof (cases "nfc (Trim (TrimSpace s) [slash]) = []")
  case False
  obtain r where "path_Clean (slash # nfc (Trim (TrimSpace s) [slash])) = slash # r" "r = [] \<or> rel_ok r"
    using Clean_rooted by blast
  with False show ?thesis by (simp add: clean_remote_def Let_def TrimPrefix_def HasPrefix_def)
qed (simp add: clean_remote_def)

lemma Clean_abs: "path_Clean p \<noteq> [] \<Longrightarrow> hd (path_Clean p) = slash \<Longrightarrow> \<exists>r. path_Clean p = slash # r \<and> (r = [] \<or> rel_ok r)"
proof (cases "p \<noteq> [] \<and> hd p = slash")
  case True
  then obtain q where "p = slash # q" by (cases p) auto
  with Clean_rooted show ?thesis by simp
next
  case False
  assume abs: "path_Clean p \<noteq> []" "hd (path_Clean p) = slash"
  have "s \<noteq> [] \<and> slash \<notin> set s" if "s \<in> set (clean_segs False ss acc)" "list_all (\<lambda>s. slash \<notin> set s) ss"
      "list_all (\<lambda>s. s \<noteq> [] \<and> slash \<notin> set s) acc" for s ss acc
    using that
  proof (induction ss arbitrary: acc)
    case Nil
    then show ?case by (auto simp: list_all_iff)
  next
    case (Cons x ss)
    then show ?case by (cases acc) (auto split: if_splits)
  qed
  then have segs: "list_all (\<lambda>s. s \<noteq> [] \<and> slash \<notin> set s) (clean_segs False (split_on slash p) [])"
    using split_on_no_sep by (auto simp: list_all_iff)
  have "hd (path_Clean p) \<noteq> slash"
  proof (cases "clean_segs False (split_on slash p) []")
    case Nil
    with False show ?thesis by (auto simp: path_Clean_def)
  next
    case (Cons s ss)
    with segs have "s \<noteq> []" "slash \<notin> set s" by auto
    then have "hd (join_on slash (s # ss)) \<noteq> slash" by (cases ss; cases s) auto
    with False Cons show ?thesis by (auto simp: path_Clean_def)
  qed
  with abs show ?thesis by simp
qed

lemma parseOwner_print:
  assumes "parseOwner s = Some (uid, gid)"
  shows "parseOwner (Itoa uid @ '':'' @ Itoa gid) = Some (uid, gid)"
proof -
  from assms obtain u g where at: "Atoi u = Some uid" "Atoi g = Some gid" and nn: "0 \<le> uid" "0 \<le> gid"
    by (auto simp: parseOwner_def split: option.splits prod.splits if_splits)
  have bound: "n < 2 ^ 63" if "Atoi t = Some n" for t n
    using that by (auto simp: Atoi_def Let_def split: if_splits)
  have dig: "Itoa n = dec (nat n)" "Atoi (Itoa n) = Some n" if "0 \<le> n" "n < 2 ^ 63" for n
    using that Atoi_dec [of "nat n"] by (simp_all add: Itoa_def)
  have nocolon: "CHR '':'' \<notin> set (dec n)" for n
    using dec_digits [of n] by (auto simp: list_all_iff is_digit_def)
  have "takeWhile (\<lambda>c. c \<noteq> CHR '':'') (Itoa uid @ '':'' @ Itoa gid) = Itoa uid"
    using nocolon dig(1) [OF nn(1) bound [OF at(1)]] by (simp add: takeWhile_eq_all_conv takeWhile_append)
  then have "cut_colon (Itoa uid @ '':'' @ Itoa gid) = Some (Itoa uid, Itoa gid)" by (simp add: cut_colon_def Let_def)
  with dig(2) nn bound at show ?thesis by (simp add: parseOwner_def)
qed

lemma parseMode_octal4:
  assumes "0 \<le> m" and "m \<le> 511"
  shows "parseMode (octal4 m) = Some m"
proof -
  have oct: "is_octal (digit n)" if "0 \<le> n" "n < 8" for n using that by (simp add: is_octal_def of_char_digit)
  have "m div 512 = 0" using assms by simp
  moreover have "((m div 64 mod 8) * 8 + m div 8 mod 8) * 8 + m mod 8 = m"
  proof -
    have "m div 64 = m div 8 div 8" by (simp add: zdiv_zmult2_eq [symmetric])
    moreover have "m div 64 mod 8 = m div 64" using assms by (intro mod_pos_pos_trivial) auto
    ultimately have "(m div 64 mod 8) * 8 + m div 8 mod 8 = m div 8" by (simp add: div_mult_mod_eq)
    then show ?thesis by (simp only: div_mult_mod_eq)
  qed
  ultimately show ?thesis
    using assms by (simp add: parseMode_def octal4_def ParseOctal_def oct of_char_digit)
qed

lemma cleanMode_ok: "cleanMode s = Some m \<Longrightarrow> m = [] \<or> parseMode m \<noteq> None"
proof -
  assume "cleanMode s = Some m"
  moreover have "0 \<le> n" if "ParseOctal t = Some n" for t n
  proof -
    have "0 \<le> foldl (\<lambda>a c. a * 8 + ((of_char c :: int) - 48)) a t" if "list_all is_octal t" "0 \<le> a" for a
      using that by (induction t arbitrary: a) (auto simp: is_octal_def)
    with that show ?thesis by (auto simp: ParseOctal_def Let_def split: if_splits)
  qed
  ultimately show ?thesis using parseMode_octal4 by (auto simp: cleanMode_def Let_def split: if_splits option.splits)
qed

section \<open>The rows\<close>

definition pair_ok :: "pair \<Rightarrow> bool" where
  "pair_ok p \<longleftrightarrow> pair_Name p \<noteq> [] \<and> (pair_RemotePath p = [] \<or> rel_ok (pair_RemotePath p)) \<and>
     (\<exists>r. pair_LocalPath p = slash # r \<and> (r = [] \<or> rel_ok r)) \<and>
     0 \<le> pair_RemoteID p \<and> 0 \<le> pair_DeleteGuard p \<and> pair_Priority p \<noteq> 0 \<and>
     (pair_Owner p = [] \<or> OwnerIDs p \<noteq> None) \<and> (pair_FileMode p = [] \<or> FileModeBits p \<noteq> None) \<and>
     (pair_DirMode p = [] \<or> DirModeBits p \<noteq> None)"

lemma Normalize_ok:
  assumes "Normalize nfc p0 = Inr p"
  shows "pair_ok (p\<lparr>pair_ID := i, pair_CreatedAt := c, pair_UpdatedAt := u\<rparr>)"
proof -
  have owner: "ow = [] \<or> parseOwner ow \<noteq> None" if "clean_owner s = Some ow" for s ow
    using that parseOwner_print by (auto simp: clean_owner_def Let_def split: if_splits)
  have local: "\<exists>r. path_Clean s = slash # r \<and> (r = [] \<or> rel_ok r)" if "path_Clean s \<noteq> []" "hd (path_Clean s) = slash" for s
    using Clean_abs that by blast
  from assms obtain ow fm dm where "path_Clean (TrimSpace (pi_LocalPath p0)) \<noteq> []" "hd (path_Clean (TrimSpace (pi_LocalPath p0))) = slash"
    and read: "clean_owner (pi_Owner p0) = Some ow" "cleanMode (pi_FileMode p0) = Some fm" "cleanMode (pi_DirMode p0) = Some dm"
    and fields: "pair_LocalPath p = path_Clean (TrimSpace (pi_LocalPath p0))" "pair_RemotePath p = clean_remote nfc (pi_RemotePath p0)"
      "pair_Owner p = ow" "pair_FileMode p = fm" "pair_DirMode p = dm"
    and rest: "pair_Name p \<noteq> []" "0 \<le> pair_RemoteID p" "0 \<le> pair_DeleteGuard p" "pair_Priority p \<noteq> 0"
    by (auto simp: Normalize_def Let_def split: if_splits option.splits)
  from local [OF this(1,2)] clean_remote_ok owner [OF read(1)] cleanMode_ok [OF read(2)] cleanMode_ok [OF read(3)] rest show ?thesis
    by (simp add: pair_ok_def OwnerIDs_def FileModeBits_def DirModeBits_def fields)
qed

section \<open>The tables\<close>

definition refs_ok :: "world \<Rightarrow> bool" where
  "refs_ok w \<longleftrightarrow> distinct (map pair_ID (pairs w)) \<and> distinct (map pair_Name (pairs w)) \<and> list_all pair_ok (pairs w) \<and>
     (\<forall>p \<in> set (pairs w). pair_RemoteID p = 0 \<or> pair_RemoteID p \<in> rm_ID ` set (remotes w)) \<and>
     distinct (map rm_ID (remotes w)) \<and> distinct (map rm_Name (remotes w))"

text \<open>
  The rest of the store: every table that belongs to pairs is well formed, and whatever row refers to a pair refers to one that exists.
  A row of the history whose pair was removed reads back with the id 0, an event with none.
\<close>

definition history_ok :: "world \<Rightarrow> bool" where
  "history_ok w \<longleftrightarrow> (\<forall>b \<in> set (backups w). has_pair (b_PairID b) w) \<and> (\<forall>c \<in> set (changes w). c_PairID c = 0 \<or> has_pair (c_PairID c) w) \<and>
     (\<forall>e \<in> set (events w). \<forall>i. e_PairID e = Some i \<longrightarrow> has_pair i w)"

definition rows_ok :: "world \<Rightarrow> bool" where
  "rows_ok w \<longleftrightarrow> manifest_wf w \<and> files_wf w \<and> jobs_wf w \<and> approvals_wf w \<and> history_ok w"

definition stays_ok :: "world \<Rightarrow> world \<Rightarrow> bool" where
  "stays_ok w w' \<longleftrightarrow> (refs_ok w \<longrightarrow> refs_ok w') \<and> (rows_ok w \<longrightarrow> rows_ok w') \<and>
     length (changes w') = length (changes w) \<and> length (events w') = length (events w) \<and> fs w' = fs w"

interpretation pairs_ok: step_rel stays_ok
  by unfold_locales
     (auto simp: stays_ok_def refs_ok_def rows_ok_def history_ok_def has_pair_def manifest_wf.I_env files_wf.I_env jobs_wf.I_env approvals_wf.I_env)

lemma rows_ok_grow:
  assumes "rows_ok w" and "pair_ID ` set (pairs w) \<subseteq> pair_ID ` set rows"
  shows "rows_ok (w\<lparr>pairs := rows\<rparr>)"
proof -
  have "has_pair i w \<Longrightarrow> has_pair i (w\<lparr>pairs := rows\<rparr>)" for i using assms(2) by (auto simp: has_pair_def)
  with assms(1) show ?thesis
    by (auto simp: rows_ok_def history_ok_def manifest_wf_def files_wf_def jobs_wf_def approvals_wf_def list_all_iff)
qed

lemma keeps_put_pairs:
  assumes "\<And>rows a rows'. g rows = (a, rows') \<Longrightarrow> list_all pair_ok rows \<Longrightarrow> list_all pair_ok rows'"
    and "\<And>rows a rows'. g rows = (a, rows') \<Longrightarrow> distinct (map pair_ID rows) \<Longrightarrow> distinct (map pair_ID rows')"
    and "\<And>rows a rows'. g rows = (a, rows') \<Longrightarrow> pair_ID ` set rows \<subseteq> pair_ID ` set rows'"
  shows "keeps stays_ok (put_pairs g)"
  unfolding put_pairs_def
proof (rule pairs_ok.keeps_exec)
  fix w :: world and a w'
  assume "(let (a, rows) = g (pairs w) in
     if distinct (map pair_Name rows) \<and> (\<forall>p \<in> set rows. p \<in> set (pairs w) \<or> pair_RemoteID p = 0 \<or> pair_RemoteID p \<in> set (map rm_ID (remotes w)))
     then Inr (a, w\<lparr>pairs := rows\<rparr>) else Inl EConstraint) = Inr (a, w')"
  then obtain rows where g: "g (pairs w) = (a, rows)" and names: "distinct (map pair_Name rows)"
    and refs: "\<forall>p \<in> set rows. p \<in> set (pairs w) \<or> pair_RemoteID p = 0 \<or> pair_RemoteID p \<in> set (map rm_ID (remotes w))"
    and w': "w' = w\<lparr>pairs := rows\<rparr>"
    by (auto simp: Let_def split: prod.splits if_splits)
  have "refs_ok w'" if "refs_ok w"
    using that assms(1,2) [OF g] names refs unfolding w' refs_ok_def by auto
  with rows_ok_grow assms(3) [OF g] show "stays_ok w w'" by (simp add: stays_ok_def w')
qed

lemma keeps_put_remotes:
  assumes "\<And>rows a rows'. g rows = (a, rows') \<Longrightarrow> distinct (map rm_ID rows) \<Longrightarrow> distinct (map rm_ID rows')"
    and "\<And>rows a rows'. g rows = (a, rows') \<Longrightarrow> rm_ID ` set rows \<subseteq> rm_ID ` set rows'"
  shows "keeps stays_ok (put_remotes g)"
  unfolding put_remotes_def
proof (rule pairs_ok.keeps_exec)
  fix w :: world and a w'
  assume "(let (a, rows) = g (remotes w) in if distinct (map rm_Name rows) then Inr (a, w\<lparr>remotes := rows\<rparr>) else Inl EConstraint) = Inr (a, w')"
  then obtain rows where g: "g (remotes w) = (a, rows)" and names: "distinct (map rm_Name rows)" and w': "w' = w\<lparr>remotes := rows\<rparr>"
    by (auto simp: Let_def split: prod.splits if_splits)
  have "refs_ok w'" if "refs_ok w"
  proof -
    have "pair_RemoteID p = 0 \<or> pair_RemoteID p \<in> rm_ID ` set rows" if "p \<in> set (pairs w)" for p
      using \<open>refs_ok w\<close> that assms(2) [OF g] unfolding refs_ok_def by blast
    with that assms(1) [OF g] names show ?thesis unfolding w' refs_ok_def by auto
  qed
  moreover have "rows_ok w'" if "rows_ok w"
    using that by (simp add: w' rows_ok_def history_ok_def manifest_wf_def files_wf_def jobs_wf_def approvals_wf_def has_pair_def)
  ultimately show "stays_ok w w'" by (simp add: stays_ok_def w')
qed

lemma keeps_liftE: "(\<And>a. r = Inr a \<Longrightarrow> keeps R (f a)) \<Longrightarrow> step_rel R \<Longrightarrow> keeps R (bindE (liftE r) f)"
  by (cases r) (auto simp: liftE_def keeps_def bindE_def throwE_def returnE_def intro: step_rel.R_refl)

lemma map_update_same: "(\<And>x. x \<in> set rows \<Longrightarrow> p x \<Longrightarrow> k (f x) = k x) \<Longrightarrow> map k (sql_update p f rows) = map k rows"
  by (auto simp: sql_update_def)

lemma CreatePair_stays: "keeps stays_ok (CreatePair nfc p0)"
  unfolding CreatePair_def checkRemote_def
proof (rule keeps_liftE [OF _ pairs_ok.step_rel_axioms])
  fix p
  assume ok: "Normalize nfc p0 = Inr p"
  have "keeps stays_ok (put_pairs (\<lambda>rows. let p = p\<lparr>pair_ID := next_rowid (map pair_ID rows), pair_CreatedAt := UnixMilli t, pair_UpdatedAt := UnixMilli t\<rparr> in (p, rows @ [p])))" for t
    by (rule keeps_put_pairs) (auto simp: Let_def Normalize_ok [OF ok])
  then show "keeps stays_ok (bindE (if pair_RemoteID p = 0 then returnE ()
     else bindE (wrapE ''read remote'' (query (\<lambda>w. pair_RemoteID p \<in> set (map rm_ID (remotes w))))) (\<lambda>there.
       if there then returnE () else throwE (EWrap ''with id'' ENoRemote))) (\<lambda>_. bindE now (\<lambda>t.
     wrapE ''create pair'' (put_pairs (\<lambda>rows. let p = p\<lparr>pair_ID := next_rowid (map pair_ID rows), pair_CreatedAt := UnixMilli t, pair_UpdatedAt := UnixMilli t\<rparr> in (p, rows @ [p]))))))"
    by (intro pairs_ok.keeps_rules)
qed

lemma UpdatePair_stays: "keeps stays_ok (UpdatePair nfc p0)"
  unfolding UpdatePair_def checkRemote_def
proof (rule keeps_liftE [OF _ pairs_ok.step_rel_axioms])
  fix p
  assume ok: "Normalize nfc p0 = Inr p"
  have fix1: "p\<lparr>pair_CreatedAt := c, pair_UpdatedAt := u\<rparr> = p\<lparr>pair_ID := pair_ID p, pair_CreatedAt := c, pair_UpdatedAt := u\<rparr>" for c u by simp
  have ids: "map pair_ID (sql_update (\<lambda>x. pair_ID x = pair_ID p) (\<lambda>x. p\<lparr>pair_CreatedAt := pair_CreatedAt x, pair_UpdatedAt := u\<rparr>) rows) = map pair_ID rows" for u rows
    by (rule map_update_same) simp
  have "keeps stays_ok (put_pairs (\<lambda>rows. (sql_count (\<lambda>x. pair_ID x = pair_ID p) rows,
       sql_update (\<lambda>x. pair_ID x = pair_ID p) (\<lambda>x. p\<lparr>pair_CreatedAt := pair_CreatedAt x, pair_UpdatedAt := UnixMilli t\<rparr>) rows)))" for t
  proof (rule keeps_put_pairs)
    fix rows a rows'
    assume g: "(sql_count (\<lambda>x. pair_ID x = pair_ID p) rows,
       sql_update (\<lambda>x. pair_ID x = pair_ID p) (\<lambda>x. p\<lparr>pair_CreatedAt := pair_CreatedAt x, pair_UpdatedAt := UnixMilli t\<rparr>) rows) = (a, rows')"
    then have rows': "rows' = sql_update (\<lambda>x. pair_ID x = pair_ID p) (\<lambda>x. p\<lparr>pair_CreatedAt := pair_CreatedAt x, pair_UpdatedAt := UnixMilli t\<rparr>) rows" by simp
    have "pair_ok (p\<lparr>pair_CreatedAt := c, pair_UpdatedAt := u\<rparr>)" for c u
      unfolding fix1 by (rule Normalize_ok [OF ok])
    then show "list_all pair_ok rows \<Longrightarrow> list_all pair_ok rows'" by (auto simp: rows' sql_update_def list_all_iff)
    show "distinct (map pair_ID rows) \<Longrightarrow> distinct (map pair_ID rows')" by (simp add: rows' ids)
    show "pair_ID ` set rows \<subseteq> pair_ID ` set rows'" using ids [of "UnixMilli t" rows] unfolding rows' by (metis image_set subset_refl)
  qed
  then show "keeps stays_ok (bindE (if pair_RemoteID p = 0 then returnE ()
     else bindE (wrapE ''read remote'' (query (\<lambda>w. pair_RemoteID p \<in> set (map rm_ID (remotes w))))) (\<lambda>there.
       if there then returnE () else throwE (EWrap ''with id'' ENoRemote))) (\<lambda>_. bindE now (\<lambda>t.
     bindE (wrapE ''update pair'' (put_pairs (\<lambda>rows. (sql_count (\<lambda>x. pair_ID x = pair_ID p) rows,
       sql_update (\<lambda>x. pair_ID x = pair_ID p) (\<lambda>x. p\<lparr>pair_CreatedAt := pair_CreatedAt x, pair_UpdatedAt := UnixMilli t\<rparr>) rows)))) (\<lambda>n.
     if n = 0 then throwE (EWrap ''with id'' ENoPair) else returnE ()))))"
    by (intro pairs_ok.keeps_rules)
qed

lemma CreateRemote_stays: "keeps stays_ok (CreateRemote std r0)"
  unfolding CreateRemote_def
  by (rule keeps_liftE [OF _ pairs_ok.step_rel_axioms], intro pairs_ok.keeps_rules keeps_put_remotes) (auto simp: Let_def)

lemma UpdateRemote_stays: "keeps stays_ok (UpdateRemote std r0)"
proof -
  have ids: "map rm_ID (sql_update (\<lambda>x. rm_ID x = rm_ID r) (\<lambda>x. r\<lparr>rm_CreatedAt := rm_CreatedAt x, rm_UpdatedAt := u\<rparr>) rows) = map rm_ID rows" for r :: remote_row and u rows
    by (rule map_update_same) simp
  have sets: "rm_ID ` set rows \<subseteq> rm_ID ` set (sql_update (\<lambda>x. rm_ID x = rm_ID r) (\<lambda>x. r\<lparr>rm_CreatedAt := rm_CreatedAt x, rm_UpdatedAt := u\<rparr>) rows)" for r :: remote_row and u rows
    using ids [of r u rows] by (metis image_set subset_refl)
  show ?thesis
    unfolding UpdateRemote_def
    by (rule keeps_liftE [OF _ pairs_ok.step_rel_axioms], intro pairs_ok.keeps_rules keeps_put_remotes) (use ids sets in auto)
qed

lemma DeleteRemote_stays: "keeps stays_ok (DeleteRemote i)"
proof -
  have "keeps stays_ok (delete_remote i)"
    unfolding delete_remote_def
  proof (rule pairs_ok.keeps_exec)
    fix w :: world and a w'
    assume "(if \<exists>p \<in> set (pairs w). pair_RemoteID p = i \<and> i \<noteq> 0 \<and> i \<in> set (map rm_ID (remotes w)) then Inl EConstraint
     else Inr (sql_count (\<lambda>x. rm_ID x = i) (remotes w), w\<lparr>remotes := sql_delete (\<lambda>x. rm_ID x = i) (remotes w)\<rparr>)) = Inr (a, w')"
    then have free: "\<forall>p \<in> set (pairs w). \<not> (pair_RemoteID p = i \<and> i \<noteq> 0 \<and> i \<in> rm_ID ` set (remotes w))"
      and w': "w' = w\<lparr>remotes := sql_delete (\<lambda>x. rm_ID x = i) (remotes w)\<rparr>"
      by (auto split: if_splits)
    have "refs_ok w'" if ok: "refs_ok w"
    proof -
      have "pair_RemoteID p = 0 \<or> pair_RemoteID p \<in> rm_ID ` set (sql_delete (\<lambda>x. rm_ID x = i) (remotes w))" if "p \<in> set (pairs w)" for p
        using ok free that by (fastforce simp: refs_ok_def)
      with ok show ?thesis by (auto simp: refs_ok_def w' distinct_sql_delete simp del: set_sql_delete)
    qed
    moreover have "rows_ok w'" if "rows_ok w"
      using that by (simp add: w' rows_ok_def history_ok_def manifest_wf_def files_wf_def jobs_wf_def approvals_wf_def has_pair_def)
    ultimately show "stays_ok w w'" by (simp add: stays_ok_def w')
  qed
  then show ?thesis unfolding DeleteRemote_def PairNamesForRemote_def by (intro pairs_ok.keeps_rules)
qed

lemma cascade_rows: "rows_ok w \<Longrightarrow> rows_ok (cascade i w)"
proof -
  assume ok: "rows_ok w"
  have keep: "has_pair j (cascade i w)" if "has_pair j w" "j \<noteq> i" for j
    using that by (auto simp: has_pair_def cascade_def)
  have ap: "approvals_open_index (sql_delete (\<lambda>a. a_PairID a = i) rows)" if "approvals_open_index rows" for rows
  proof -
    have "filter approval_open (sql_delete (\<lambda>a. a_PairID a = i) rows) = filter (\<lambda>a. a_PairID a \<noteq> i) (filter approval_open rows)"
      by (simp add: sql_delete_def conj_commute)
    with that show ?thesis by (simp only: approvals_open_index_def distinct_map_filter)
  qed
  have tabs: "manifest (cascade i w) = sql_delete (\<lambda>m. m_PairID m = i) (manifest w)" "scans (cascade i w) = sql_delete (\<lambda>s. scan_PairID s = i) (scans w)"
    "files (cascade i w) = sql_delete (\<lambda>f. f_PairID f = i) (files w)" "jobs (cascade i w) = sql_delete (\<lambda>j. job_PairID j = i) (jobs w)"
    "approvals (cascade i w) = sql_delete (\<lambda>a. a_PairID a = i) (approvals w)" by (simp_all add: cascade_def)
  have "manifest_wf (cascade i w)" using ok keep by (auto simp: rows_ok_def manifest_wf_def tabs list_all_iff distinct_sql_delete)
  moreover have "files_wf (cascade i w)" using ok keep by (auto simp: rows_ok_def files_wf_def tabs list_all_iff distinct_sql_delete)
  moreover have "jobs_wf (cascade i w)"
    using ok keep by (auto simp: rows_ok_def jobs_wf_def tabs job_rows_ok_delete jobs_open_index_delete list_all_iff)
  moreover have "approvals_wf (cascade i w)" using ok keep ap by (auto simp: rows_ok_def approvals_wf_def tabs list_all_iff distinct_sql_delete)
  moreover have "history_ok (cascade i w)"
    using ok keep by (auto simp: rows_ok_def history_ok_def cascade_def sql_update_def)
  ultimately show ?thesis by (simp add: rows_ok_def)
qed

lemma DeletePair_stays: "keeps stays_ok (DeletePair i)"
proof -
  have "refs_ok (cascade i w)" if "refs_ok w" for w
    using that by (auto simp: refs_ok_def cascade_def distinct_sql_delete list_all_iff)
  then have "stays_ok w (cascade i w)" for w using cascade_rows by (simp add: stays_ok_def cascade_def sql_update_def)
  then have "keeps stays_ok (exec (\<lambda>w. Inr (has_pair i w, if has_pair i w then cascade i w else w)))"
    by (intro pairs_ok.keeps_exec) (auto intro: pairs_ok.R_refl split: if_splits)
  then show ?thesis unfolding DeletePair_def by (intro pairs_ok.keeps_rules)
qed

section \<open>Properties\<close>

text \<open>What can be asked of the two tables; answers and refusals are left aside.\<close>

datatype table_call = PairCreate pair_in | PairUpdate pair_in | PairDelete int | RemoteCreate remote_row | RemoteUpdate remote_row | RemoteDelete int

fun table_do :: "std \<Rightarrow> (string \<Rightarrow> string) \<Rightarrow> table_call \<Rightarrow> unit op" where
  "table_do std nfc (PairCreate p) = ignoreE (CreatePair nfc p)"
| "table_do std nfc (PairUpdate p) = ignoreE (UpdatePair nfc p)"
| "table_do std nfc (PairDelete i) = ignoreE (DeletePair i)"
| "table_do std nfc (RemoteCreate r) = ignoreE (CreateRemote std r)"
| "table_do std nfc (RemoteUpdate r) = ignoreE (UpdateRemote std r)"
| "table_do std nfc (RemoteDelete i) = ignoreE (DeleteRemote i)"

lemma table_do_stays: "keeps stays_ok (table_do std nfc c)"
  by (cases c) (auto intro!: pairs_ok.keeps_ignore CreatePair_stays UpdatePair_stays DeletePair_stays CreateRemote_stays UpdateRemote_stays DeleteRemote_stays)

text \<open>
  (C13) Pairs and remotes stay in order. Whatever is created, changed and removed, in whatever order and whatever of it is refused or
  fails: ids and names stay unique; every pair has a name, a clean remote path, an absolute clean local path, no
  negative guard, a priority, and an owner and permissions the engine can read; it names a remote that exists, or none; no
  row of manifest, scans, files, jobs, approvals or backups belongs to a pair that is gone; the rows of the history and the events
  are all still there and refer to a pair that exists or to none; and no file is touched.
\<close>

theorem pair_tables_ok:
  assumes "forE calls (table_do std nfc) w = (r, w')" and "refs_ok w" and "rows_ok w"
  shows "refs_ok w' \<and> rows_ok w' \<and> length (changes w') = length (changes w) \<and> length (events w') = length (events w) \<and> fs w' = fs w"
proof -
  have "keeps stays_ok (forE calls (table_do std nfc))" by (intro pairs_ok.keeps_for table_do_stays)
  from keepsD [OF this assms(1)] assms(2,3) show ?thesis by (simp add: stays_ok_def)
qed

lemma find_last: "(\<And>x. x \<in> set xs \<Longrightarrow> \<not> P x) \<Longrightarrow> P p \<Longrightarrow> find P (xs @ [p]) = Some p"
  by (induction xs) auto

lemma put_pairs_InrE:
  assumes "put_pairs g w = (Inr a, w')"
    and "\<And>rows e. g (pairs w) = (a, rows) \<Longrightarrow> w' = w\<lparr>pairs := rows, env := e\<rparr> \<Longrightarrow>
      \<forall>p \<in> set rows. p \<in> set (pairs w) \<or> pair_RemoteID p = 0 \<or> pair_RemoteID p \<in> rm_ID ` set (remotes w) \<Longrightarrow> P"
  shows P
proof -
  from assms(1) obtain rows where "g (pairs w) = (a, rows)" "w' = (used w)\<lparr>pairs := rows\<rparr>"
      "\<forall>p \<in> set rows. p \<in> set (pairs w) \<or> pair_RemoteID p = 0 \<or> pair_RemoteID p \<in> rm_ID ` set (remotes w)"
    by (auto simp: put_pairs_def Let_def used_def dest!: exec_Inr split: prod.splits if_splits)
  then show P by (intro assms(2) [of rows "env (used w)"]) (simp_all add: used_def)
qed

lemma CreatePair_Inr:
  assumes "CreatePair nfc p0 w = (Inr p, w1)"
  obtains q t e where "Normalize nfc p0 = Inr q" and "p = q\<lparr>pair_ID := next_rowid (map pair_ID (pairs w)), pair_CreatedAt := UnixMilli t, pair_UpdatedAt := UnixMilli t\<rparr>"
    and "w1 = w\<lparr>pairs := pairs w @ [p], env := e\<rparr>"
    and "pair_RemoteID p = 0 \<or> pair_RemoteID p \<in> rm_ID ` set (remotes w) \<or> p \<in> set (pairs w)"
proof -
  from assms obtain q wa where q: "liftE (Normalize nfc p0) w = (Inr q, wa)"
    and a: "bindE (checkRemote (pair_RemoteID q)) (\<lambda>_. bindE now (\<lambda>t.
     wrapE ''create pair'' (put_pairs (\<lambda>rows.
       let p = q\<lparr>pair_ID := next_rowid (map pair_ID rows), pair_CreatedAt := UnixMilli t, pair_UpdatedAt := UnixMilli t\<rparr> in (p, rows @ [p]))))) wa = (Inr p, w1)"
    unfolding CreatePair_def by (rule bindE_InrE)
  from q have q1: "Normalize nfc p0 = Inr q" "wa = w" by (auto simp: liftE_def returnE_run throwE_run split: sum.splits)
  from a obtain u wb where chk: "checkRemote (pair_RemoteID q) wa = (Inr u, wb)" and b: "bindE now (\<lambda>t.
     wrapE ''create pair'' (put_pairs (\<lambda>rows.
       let p = q\<lparr>pair_ID := next_rowid (map pair_ID rows), pair_CreatedAt := UnixMilli t, pair_UpdatedAt := UnixMilli t\<rparr> in (p, rows @ [p])))) wb = (Inr p, w1)"
    by (rule bindE_InrE)
  have "env_only (checkRemote (pair_RemoteID q))" unfolding checkRemote_def by (intro env_step.keeps_rules)
  from keepsD [OF this chk] obtain e1 where wb: "wb = w\<lparr>env := e1\<rparr>" using q1 by auto
  from b obtain t wc where tm: "now wb = (Inr t, wc)" and c: "wrapE ''create pair'' (put_pairs (\<lambda>rows.
       let p = q\<lparr>pair_ID := next_rowid (map pair_ID rows), pair_CreatedAt := UnixMilli t, pair_UpdatedAt := UnixMilli t\<rparr> in (p, rows @ [p]))) wc = (Inr p, w1)"
    by (rule bindE_InrE)
  from now_cases [OF tm] obtain e2 where wc: "wc = w\<lparr>env := e2\<rparr>" using wb by auto
  from c have "put_pairs (\<lambda>rows. let p = q\<lparr>pair_ID := next_rowid (map pair_ID rows), pair_CreatedAt := UnixMilli t, pair_UpdatedAt := UnixMilli t\<rparr> in (p, rows @ [p])) wc = (Inr p, w1)"
    by (rule wrapE_InrE)
  then obtain rows e3 where g: "(let p = q\<lparr>pair_ID := next_rowid (map pair_ID (pairs wc)), pair_CreatedAt := UnixMilli t, pair_UpdatedAt := UnixMilli t\<rparr> in (p, pairs wc @ [p])) = (p, rows)"
    and w1: "w1 = wc\<lparr>pairs := rows, env := e3\<rparr>"
    and refs: "\<forall>x \<in> set rows. x \<in> set (pairs wc) \<or> pair_RemoteID x = 0 \<or> pair_RemoteID x \<in> rm_ID ` set (remotes wc)"
    by (rule put_pairs_InrE)
  from g have p: "q\<lparr>pair_ID := next_rowid (map pair_ID (pairs w)), pair_CreatedAt := UnixMilli t, pair_UpdatedAt := UnixMilli t\<rparr> = p"
    and rows: "rows = pairs w @ [p]" by (auto simp: Let_def wc)
  have "w1 = w\<lparr>pairs := pairs w @ [p], env := e3\<rparr>" using w1 by (simp add: wc rows)
  moreover have "pair_RemoteID p = 0 \<or> pair_RemoteID p \<in> rm_ID ` set (remotes w) \<or> p \<in> set (pairs w)"
    using refs by (auto simp: rows wc)
  ultimately show thesis using that [OF q1(1) p [symmetric]] by blast
qed

text \<open>
  What becomes of what was typed: each column from its own field. The name and the paths are trimmed and cleaned, the patterns cleaned
  one by one, the type and the mode read as the source names them, a missing priority is 100, the owner is printed
  from the two numbers read, and everything else is taken over.
\<close>

definition stored_as :: "(string \<Rightarrow> string) \<Rightarrow> pair_in \<Rightarrow> pair \<Rightarrow> bool" where
  "stored_as nfc i p \<longleftrightarrow>
     pair_Name p = TrimSpace (pi_Name i) \<and> pair_type_of (pi_Type i) = Some (pair_Type p) \<and> pair_mode_of (pi_Mode i) = Some (pair_Mode p) \<and>
     pair_RemoteID p = pi_RemoteID i \<and> pair_RemotePath p = clean_remote nfc (pi_RemotePath i) \<and> pair_LocalPath p = path_Clean (TrimSpace (pi_LocalPath i)) \<and>
     pair_Includes p = cleanPatterns nfc (pi_Includes i) \<and> pair_Excludes p = cleanPatterns nfc (pi_Excludes i) \<and>
     pair_DeleteGuard p = pi_DeleteGuard i \<and> pair_Priority p = (if pi_Priority i = 0 then 100 else pi_Priority i) \<and> pair_Enabled p = pi_Enabled i \<and>
     clean_owner (pi_Owner i) = Some (pair_Owner p) \<and> cleanMode (pi_FileMode i) = Some (pair_FileMode p) \<and> cleanMode (pi_DirMode i) = Some (pair_DirMode p)"

lemma Normalize_stored: "Normalize nfc i = Inr p \<Longrightarrow> stored_as nfc i (p\<lparr>pair_ID := j, pair_CreatedAt := c, pair_UpdatedAt := u\<rparr>)"
  by (auto simp: Normalize_def stored_as_def Let_def split: if_splits option.splits)

lemma PairByID_found:
  assumes "find (\<lambda>x. pair_ID x = i) (pairs w) = Some p" and "\<nexists>e es. faults (env w) = Some e # es"
  shows "\<exists>w'. PairByID i w = (Inr p, w')"
proof -
  have "fst (query (\<lambda>w. find (\<lambda>x. pair_ID x = i) (pairs w)) w) = Inr (Some p)"
    using assms by (auto simp: query_def exec_def used_def split: list.splits option.splits)
  then show ?thesis by (cases "query (\<lambda>w. find (\<lambda>x. pair_ID x = i) (pairs w)) w") (auto simp: PairByID_def bindE_def wrapE_def returnE_def)
qed

text \<open>
  (C34) What was created is there. A pair that was created has each column from the field that was typed for it, satisfies
  what the engine relies on, and has an id no pair had before. As long as the table of pairs stays, asking for that id
  finds exactly this pair unless the driver fails the statement; and the remote it names cannot be deleted.
\<close>

theorem create_pair_lookup:
  assumes "CreatePair nfc p0 w = (Inr p, w1)"
  shows "stored_as nfc p0 p \<and> pair_ok p \<and> \<not> has_pair (pair_ID p) w \<and>
    (\<forall>w2. pairs w2 = pairs w1 \<and> (\<nexists>e es. faults (env w2) = Some e # es) \<longrightarrow> (\<exists>w3. PairByID (pair_ID p) w2 = (Inr p, w3))) \<and>
    (\<forall>w2 r w3. pairs w2 = pairs w1 \<and> pair_RemoteID p \<noteq> 0 \<and> DeleteRemote (pair_RemoteID p) w2 = (r, w3) \<longrightarrow>
       isl r \<and> remotes w3 = remotes w2)"
proof -
  from assms obtain q t e where q: "Normalize nfc p0 = Inr q"
    and p: "p = q\<lparr>pair_ID := next_rowid (map pair_ID (pairs w)), pair_CreatedAt := UnixMilli t, pair_UpdatedAt := UnixMilli t\<rparr>"
    and w1: "w1 = w\<lparr>pairs := pairs w @ [p], env := e\<rparr>"
    by (rule CreatePair_Inr)
  have "stored_as nfc p0 p" unfolding p by (rule Normalize_stored [OF q])
  moreover have "pair_ok p" unfolding p by (rule Normalize_ok [OF q])
  moreover have fresh: "pair_ID p \<notin> pair_ID ` set (pairs w)"
    using next_rowid_fresh [of "map pair_ID (pairs w)"] by (simp add: p)
  then have "\<not> has_pair (pair_ID p) w" by (simp add: has_pair_def)
  moreover have "\<exists>w3. PairByID (pair_ID p) w2 = (Inr p, w3)" if "pairs w2 = pairs w1" "\<nexists>e es. faults (env w2) = Some e # es" for w2
  proof (rule PairByID_found [OF _ that(2)])
    have "pair_ID x \<noteq> pair_ID p" if "x \<in> set (pairs w)" for x using fresh that by (metis imageI)
    with that(1) show "find (\<lambda>x. pair_ID x = pair_ID p) (pairs w2) = Some p" by (simp add: w1 find_last)
  qed
  moreover have "isl r \<and> remotes w3 = remotes w2"
    if "pairs w2 = pairs w1" "pair_RemoteID p \<noteq> 0" "DeleteRemote (pair_RemoteID p) w2 = (r, w3)" for w2 r w3
  proof -
    have users: "sort_key (\<lambda>x. (pair_Priority x, pair_ID x)) (filter (\<lambda>x. pair_RemoteID x = pair_RemoteID p \<and> pair_RemoteID p \<noteq> 0) (pairs w')) \<noteq> []"
      if "pairs w' = pairs w2" for w'
    proof -
      have "p \<in> set (sort_key (\<lambda>x. (pair_Priority x, pair_ID x)) (filter (\<lambda>x. pair_RemoteID x = pair_RemoteID p \<and> pair_RemoteID p \<noteq> 0) (pairs w')))"
        using \<open>pairs w2 = pairs w1\<close> \<open>pair_RemoteID p \<noteq> 0\<close> that by (simp add: w1)
      then show ?thesis by (auto simp del: set_sort)
    qed
    have named: "triple (\<lambda>w'. pairs w' = pairs w2 \<and> remotes w' = remotes w2) (PairNamesForRemote (pair_RemoteID p))
        (\<lambda>us w'. us \<noteq> [] \<and> remotes w' = remotes w2) (\<lambda>w'. remotes w' = remotes w2)"
      unfolding PairNamesForRemote_def by (intro triple_wrap tripleI) (use users [OF refl] in \<open>auto dest!: query_cases\<close>)
    have "triple (\<lambda>w'. pairs w' = pairs w2 \<and> remotes w' = remotes w2) (DeleteRemote (pair_RemoteID p)) (\<lambda>_ _. False) (\<lambda>w'. remotes w' = remotes w2)"
      unfolding DeleteRemote_def by (rule triple_bind [OF named], rule triple_fact, simp add: triple_throw)
    note del = this
    show ?thesis
    proof (cases r)
      case (Inl e)
      with tripleD_Inl [OF del _ that(3) [unfolded Inl]] show ?thesis by simp
    next
      case (Inr u)
      with tripleD [OF del _ that(3) [unfolded Inr]] show ?thesis by simp
    qed
  qed
  ultimately show ?thesis by blast
qed

section \<open>Concrete tables\<close>

text \<open>A remote, and a pair that reads from it, both written carelessly.\<close>

definition demo_remote_row :: remote_row where
  "demo_remote_row = \<lparr>rm_ID = 0, rm_Name = '' nas'', rm_Host = ''nas'', rm_Share = ''media'', rm_Path = ''/films/'', rm_User = ''me'', rm_Password = [],
     rm_Domain = [], rm_CreatedAt = 0, rm_UpdatedAt = 0\<rparr>"

definition demo_pair_in :: pair_in where
  "demo_pair_in = \<lparr>pi_ID = 0, pi_Name = ''films '', pi_Type = [], pi_RemoteID = 1, pi_RemotePath = ''/a//b/../c/'', pi_LocalPath = ''/mirror/films/'',
     pi_Mode = ''guarded'', pi_Includes = [], pi_Excludes = ['' *.tmp ''], pi_DeleteGuard = 5, pi_Priority = 0, pi_Owner = ''1026: 100'',
     pi_FileMode = ''644'', pi_DirMode = [], pi_Enabled = True\<rparr>"

definition demo_lib :: std where
  "demo_lib = \<lparr>std_Prefix = (\<lambda>_. False), std_Addr = (\<lambda>_. False), std_URL = (\<lambda>_. None), std_Zone = (\<lambda>_. None), std_Frac = (\<lambda>_ _ _. 0)\<rparr>"

definition demo_tables :: world where
  "demo_tables = snd (forE [RemoteCreate demo_remote_row, PairCreate demo_pair_in] (table_do demo_lib id) empty_world)"

lemma demo_tables_rows:
  "map (\<lambda>p. (pair_Name p, pair_RemotePath p, pair_LocalPath p, pair_Owner p, pair_FileMode p)) (pairs demo_tables) =
     [(''films'', ''a/c'', ''/mirror/films'', ''1026:100'', ''0644'')] \<and> map rm_Path (remotes demo_tables) = [''films'']"
  by code_simp

theorem pair_tables_ok_witness:
  "refs_ok demo_tables \<and> rows_ok demo_tables \<and> map (\<lambda>p. (pair_Name p, pair_RemotePath p, pair_LocalPath p, pair_Owner p, pair_FileMode p)) (pairs demo_tables) =
     [(''films'', ''a/c'', ''/mirror/films'', ''1026:100'', ''0644'')]"
proof -
  have "refs_ok empty_world" "rows_ok empty_world"
    by (simp_all add: refs_ok_def rows_ok_def history_ok_def empty_world_def manifest_wf_def files_wf_def jobs_wf_def approvals_wf_def
        job_rows_ok_def jobs_open_index_def approvals_open_index_def)
  with pair_tables_ok [of "[RemoteCreate demo_remote_row, PairCreate demo_pair_in]" demo_lib id empty_world] demo_tables_rows
  show ?thesis unfolding demo_tables_def by (metis prod.collapse)
qed

definition demo_with_remote :: world where
  "demo_with_remote = snd (table_do demo_lib id (RemoteCreate demo_remote_row) empty_world)"

definition demo_create :: "(error + pair) \<times> world" where
  "demo_create = CreatePair id demo_pair_in demo_with_remote"

definition demo_created :: pair where
  "demo_created = (case fst demo_create of Inr p \<Rightarrow> p)"

lemma demo_create_run: "CreatePair id demo_pair_in demo_with_remote = (Inr demo_created, snd demo_create)"
proof -
  have "isl (fst demo_create) = False" by code_simp
  then show ?thesis
    unfolding demo_created_def demo_create_def
    by (cases "CreatePair id demo_pair_in demo_with_remote") (auto split: sum.splits)
qed

lemma demo_read_back: "faults (env (snd demo_create)) = []" "pair_RemoteID demo_created \<noteq> 0"
  by code_simp+

lemma demo_columns: "(pair_Mode demo_created, pair_Includes demo_created, pair_Excludes demo_created, pair_DeleteGuard demo_created, pair_Priority demo_created) =
    (ModeGuarded, [], [''*.tmp''], 5, 100)"
  by code_simp

theorem create_pair_lookup_witness:
  "stored_as id demo_pair_in demo_created \<and> pair_Excludes demo_created = [''*.tmp''] \<and>
   fst (PairByID (pair_ID demo_created) (snd demo_create)) = Inr demo_created \<and>
   isl (fst (DeleteRemote (pair_RemoteID demo_created) (snd demo_create)))"
proof -
  from create_pair_lookup [OF demo_create_run] demo_read_back(1)
  have "\<exists>w3. PairByID (pair_ID demo_created) (snd demo_create) = (Inr demo_created, w3)" by simp
  moreover from create_pair_lookup [OF demo_create_run] demo_read_back(2)
  have "isl (fst (DeleteRemote (pair_RemoteID demo_created) (snd demo_create)))" by (metis prod.collapse)
  ultimately show ?thesis using create_pair_lookup [OF demo_create_run] demo_columns by auto
qed

end
