(* ===== verification/Spec2Isabelle.thy ===== *)
theory Spec2Isabelle
  imports WalkSpec CopySpec PlanSpec ReapGuard ScheduleTime DatabaseRun SettingsSpec RunScope PairSpec
begin

text \<open>
  A verification library for jcc-mirror, the daemon that keeps local copies of directories on a
  publisher's share.

  \<^bold>\<open>The program.\<close> A \<^emph>\<open>pair\<close> is a directory of the publisher and a local directory that follows it. The
  daemon (\<open>app/\<close>) has one run in flight at a time: the scheduler (\<open>app/scheduler.go\<close>) or a button starts it, the
  runner (\<open>app/runner.go\<close>) carries it out on an engine (\<open>engine/\<close>) built from the settings. A scan walks the share into the
  manifest, a sync compares the manifest with local truth, queues and copies what changed and removes what vanished, a
  run of the database gate replaces the database of a jcc pair under its locks, an adoption records files that are there
  already. All of it is kept in a sqlite store (\<open>store/\<close>), so a run that is cut off is continued by the next one.

  \<^bold>\<open>The state.\<close> \<open>World\<close> has one record \<open>world\<close>: the tables of the store, the local disk, and the environment the
  program does not decide. A Go method is an \<open>op\<close>, a function from a world to an error or a value and the world it leaves;
  \<open>bindE\<close>, \<open>tryE\<close>, \<open>foldE\<close> are sequencing, looking at an error, and a loop over a slice. Every statement of the store, every
  call of the file system and of the share can fail, as a list in the environment says; clock, cancellation and free
  space come from there too, and the theorems hold for all of them. The publisher's share (\<open>remote/remote.go\<close>) is a record
  of operations \<open>remote_fs\<close>; a theorem that relies on it names what it relies on: \<open>remote_ok\<close> (a call changes nothing on
  this side), \<open>lists\<close> (a listing is that of the directory), \<open>serves\<close> and \<open>streams\<close> (bytes that arrive are bytes of the
  file). SHA-256 is the function \<open>en_sha256\<close> of the engine.

  \<^bold>\<open>Theories and sources.\<close>
  \<^item> language and environment: \<open>Prelude\<close> (lists, options, collections for the simplifier), \<open>World\<close> (state, monad, rules),
    \<open>GoStd\<close>, \<open>GoText\<close>, \<open>Calendar\<close> (\<open>strings\<close>, \<open>path\<close>, \<open>strconv\<close>, \<open>time\<close>), \<open>OS\<close> (the disk, \<open>engine/ownership.go\<close>,
    \<open>engine/space.go\<close>), \<open>Disk\<close> (what each call leaves alone);
  \<^item> store: \<open>Jobs\<close> (\<open>store/jobs.go\<close>), \<open>Manifest\<close> (\<open>store/manifest.go\<close>), \<open>Files\<close> (\<open>store/files.go\<close>, \<open>store/diff.go\<close>),
    \<open>Deletions\<close> (\<open>store/deletions.go\<close>), \<open>Backups\<close> (\<open>store/backups.go\<close>), \<open>PairStore\<close> (\<open>store/pairs.go\<close>,
    \<open>store/remotes.go\<close>), \<open>Settings\<close> (\<open>store/config.go\<close>, \<open>OptionsFrom\<close> of \<open>engine/engine.go\<close>);
  \<^item> engine: \<open>Engine\<close> (\<open>engine/engine.go\<close>), \<open>PathFilter\<close> (\<open>engine/filter.go\<close>), \<open>Walk\<close> (\<open>engine/scan.go\<close>), \<open>Planning\<close>
    (\<open>engine/diff.go\<close>), \<open>Copying\<close> (\<open>engine/transfer.go\<close>), \<open>Reap\<close> (\<open>engine/reap.go\<close>), \<open>Trash\<close> (\<open>engine/trash.go\<close>),
    \<open>Database\<close> (\<open>engine/jcc.go\<close>), \<open>Adopt\<close> (\<open>engine/adopt.go\<close>);
  \<^item> daemon: \<open>Schedule\<close> (\<open>schedule/schedule.go\<close>), \<open>Format\<close> (\<open>format/format.go\<close>), \<open>Runner\<close> (\<open>app/runner.go\<close>, \<open>RemoteFor\<close> of
    \<open>app/app.go\<close>), \<open>Scheduler\<close> (\<open>app/scheduler.go\<close>).

  Definitions keep the names of the Go functions and follow them statement by statement; fields carry a prefix for
  their struct. A table is the list of its rows in rowid order, and a writing statement (\<open>put_jobs\<close>, \<open>put_files\<close>, ...)
  fails where a unique index or a foreign key of the schema refuses it. Times are nanoseconds, and the milliseconds a
  column holds where it is stored. Integers are unbounded except where the code can meet the width: sizes that are parsed
  wrap at 64 bits.

  \<^bold>\<open>What is shown.\<close>
  \<^item> Store. Each table has an invariant (\<open>jobs_wf\<close>, \<open>manifest_wf\<close>, \<open>files_wf\<close>, \<open>approvals_wf\<close>) that every operation keeps,
    failing ones included. A file has one open job, a claim takes the next due one, a resume watermark survives only for the
    same version of the file; a listing is recorded whole or not at all; the diff splits the paths of both sides
    into changed, vanished and in step, and recording a file takes its path out of it; an approval that is used or rejected stays so. \<open>PairSpec\<close>:
    pairs are in normal form, nothing refers to a pair or a remote that is gone, and a created pair is found with each
    column from the field typed for it. \<open>SettingsSpec\<close>: stored values are valid,
    a batch is written whole, and the options of an engine are within their bounds.
  \<^item> Scan. \<open>Walk\<close>, \<open>WalkSpec\<close>: a scan that returns makes the manifest the filtered tree of the share, the abstract
    specification being the inductive set \<open>in_tree\<close>; one that fails leaves a state the next one continues from; no path is lost
    unless the walk was complete; a walk of a finite share ends.
  \<^item> Planning and copying. \<open>PlanSpec\<close>: the numbers of a plan and the jobs it queues are those of the diff. \<open>CopySpec\<close>: whatever
    fails, the destination is the old file or the publisher's, and a watermark speaks of bytes that arrived; with the one
    course of events in which it does not.
  \<^item> Deletion. \<open>ReapSpec\<close>, \<open>ReapGuard\<close>, \<open>Quarantine\<close>: nothing is removed past the guards without a covering approval, a guarded
    pass moves files from outside into the quarantine, moves none within it and destroys none, and the sweep waits for the retention.
  \<^item> Database. \<open>DatabaseSpec\<close>, \<open>DatabaseGate\<close>, \<open>DatabaseRun\<close>: the old database or a whole new one, replaced after a
    second look found both locks gone or was overridden, the displaced one in a file and a row that the pruning spares; a
    rollback puts recorded bytes back and appends the copy of what it displaces.
  \<^item> Daemon. \<open>ScheduleSpec\<close>, \<open>ScheduleTime\<close>: schedules are read back as printed, windows are maximal. \<open>SchedulerSpec\<close>: a
    tick starts only what is due, stops only scans and syncs of its own, and wakes within a tenth of a second past a boundary. The
    step relation \<open>daemon_step\<close> interleaves ticks, buttons, stops and endings: no run begins beside another, each that ends is
    put in the history, and a pair whose run failed is left alone for a quarter of an hour. \<open>RunScope\<close>: plan, scan, dry run and adoption change
    nothing but their own tables and add events.

  \<^bold>\<open>Interfaces.\<close> \<open>World\<close> states what a client may rely on as locales. \<open>step_rel\<close> is a transitive relation between worlds that
  the environment's moves satisfy; its lemmas carry \<open>keeps R m\<close> through every combinator of the monad, once. \<open>world_inv\<close> (an
  invariant) and \<open>world_frame\<close> (a part of the state left alone) give a \<open>step_rel\<close> each. Every component interprets them on its own
  invariant or frame: \<open>jobs_wf\<close>, \<open>manifest_wf\<close>, \<open>files_wf\<close>, \<open>approvals_wf\<close>, the disk, the files, the tables, the view of
  the gate, the conservation of files, the valid settings, and so on. \<open>triple\<close> is the Hoare rule set for an operation and its errors.

  \<^bold>\<open>Bounds and fuel.\<close> Loops over slices are structural. \<open>download\<close> runs as many rounds as bytes are left, and each round
  moves the watermark; \<open>vanished\<close> as many pages as there are rows, and each page ends further along; \<open>makeDir\<close>,
  \<open>FreeSpace\<close> and the pruning of directories go up a path and have its length; the walks of the local tree have the longest path of the
  disk. \<open>Scan\<close> and \<open>Sync\<close> have no bound in the code: their fuel is an argument and \<open>None\<close> is a run that is still going.
  \<open>walk_terminates\<close> shows that one round more than there are directories is enough for \<open>Scan\<close>; \<open>Sync\<close> waits for the retries of its
  queue for as long as the share fails, and the theorems on it hold for every fuel.

  \<^bold>\<open>Not modelled.\<close> The chunks of a round and the workers of a scan run one after the other; progress counters, log lines,
  summaries and the texts of events are left out. The disk has files and directories, no links, owners or modes. Left out as a whole:
  the limiter (\<open>engine/limiter.go\<close>), a wrapper around a third-party rate package; notification targets and the bandwidth
  series (\<open>store/notify.go\<close>, \<open>store/notify_targets.go\<close>, \<open>store/bandwidth.go\<close>), records for the dashboard; migrations
  (\<open>store/migrate.go\<close>), run by sqlite; the SMB client and \<open>localfs\<close>, the tunnel (\<open>wg/\<close>), updates (\<open>update/\<close>), HTTP handlers
  and views (\<open>app/\<close>), logs, notifications, the web interface and the command line: input, output and presentation around
  the parts above.
\<close>

end
